(* ===== verification/Plum_Prelude.thy ===== *)
theory Plum_Prelude
  imports Main "HOL-Library.Word" "HOL-Library.Monad_Syntax"
begin

text \<open>
  Shared vocabulary of the development: Go's machine integers and byte slices,
  the bounds-checked slice operations (an out-of-range access is a run-time
  panic, the value \<open>None\<close>), the little-endian readers and writers of
  \<^verbatim>\<open>encoding/binary\<close>, the overwrite of a reused buffer, and the interfaces
  (locales) several components share: a wire codec, a transition system with an
  invariant, and a writer with a retention cap.
\<close>

unbundle bit_operations_syntax

named_theorems codec_simps \<open>unfolding rules for encoders and decoders\<close>
named_theorems const_defs \<open>definitions of the numeric constants of the source\<close>

section \<open>Machine types\<close>

type_synonym byte = "8 word"
type_synonym bytes = "8 word list"
type_synonym u16 = "16 word"
type_synonym u32 = "32 word"
type_synonym u64 = "64 word"

text \<open>
  A Go string is an immutable byte sequence, so \<open>bytes\<close> models both
  \<^verbatim>\<open>string\<close> and \<^verbatim>\<open>[]byte\<close>. The conversion \<open>str\<close> turns an ASCII
  literal of the source into such a sequence.
\<close>

definition str :: "string \<Rightarrow> bytes" where
  "str s = map (\<lambda>c. of_nat (of_char c)) s"

section \<open>Slices\<close>

text \<open>
  \<open>gslice b i j\<close> is Go's \<^verbatim>\<open>b[i:j]\<close> and \<open>index b i\<close> is
  \<^verbatim>\<open>b[i]\<close>: both panic (\<open>None\<close>) out of range. A decoder therefore has
  a result of type \<open>(error + 'a) option\<close>, where \<open>None\<close> means that the
  process panicked.
\<close>

definition gslice :: "'a list \<Rightarrow> nat \<Rightarrow> nat \<Rightarrow> 'a list option" where
  "gslice b i j = (if i \<le> j \<and> j \<le> length b then Some (take (j - i) (drop i b)) else None)"

definition index :: "'a list \<Rightarrow> nat \<Rightarrow> 'a option" where
  "index b i = (if i < length b then Some (b ! i) else None)"

text \<open>
  \<open>put_at off src b\<close> is \<^verbatim>\<open>copy(b[off:], src)\<close> (and, with a one-element
  source, \<^verbatim>\<open>b[off] = x\<close>): it overwrites in place and drops what does not fit.
\<close>

definition put_at :: "nat \<Rightarrow> 'a list \<Rightarrow> 'a list \<Rightarrow> 'a list" where
  "put_at off src b = take off b @ take (length b - off) src @ drop (off + length src) b"

text \<open>
  \<open>reuse z backing n\<close> is the allocation idiom
  \<^verbatim>\<open>if cap(dst) < n { dst = make([]T, n) }; dst = dst[:n]\<close>, where
  \<open>backing\<close> is the backing array of \<^verbatim>\<open>dst\<close> up to its capacity and
  \<open>z\<close> the zero value.
\<close>

definition reuse :: "'a \<Rightarrow> 'a list \<Rightarrow> nat \<Rightarrow> 'a list" where
  "reuse z backing n =
     (if length backing < n then replicate n z else take n backing)"

text \<open>\<^verbatim>\<open>strings.HasPrefix\<close>.\<close>

definition has_prefix :: "'a list \<Rightarrow> 'a list \<Rightarrow> bool" where
  "has_prefix s p \<longleftrightarrow> take (length p) s = p"

section \<open>Little-endian integers\<close>

text \<open>
  \<open>le_bytes n v\<close> lists the \<open>n\<close> low bytes of \<open>v\<close>, the least
  significant first; \<open>le_word\<close> reads such a list back. The readers of
  \<^verbatim>\<open>encoding/binary\<close> panic on a slice that is too short.
\<close>

fun le_bytes :: "nat \<Rightarrow> 'a::len word \<Rightarrow> bytes" where
  "le_bytes 0 v = []"
| "le_bytes (Suc n) v = ucast v # le_bytes n (drop_bit 8 v)"

fun le_word :: "bytes \<Rightarrow> 'a::len word" where
  "le_word [] = 0"
| "le_word (b # bs) = ucast b OR push_bit 8 (le_word bs)"

definition put_u16 :: "u16 \<Rightarrow> bytes" where "put_u16 = le_bytes 2"
definition put_u32 :: "u32 \<Rightarrow> bytes" where "put_u32 = le_bytes 4"
definition put_u64 :: "u64 \<Rightarrow> bytes" where "put_u64 = le_bytes 8"

definition get_u16 :: "bytes \<Rightarrow> u16 option" where
  "get_u16 b = (if length b < 2 then None else Some (le_word (take 2 b)))"
definition get_u32 :: "bytes \<Rightarrow> u32 option" where
  "get_u32 b = (if length b < 4 then None else Some (le_word (take 4 b)))"
definition get_u64 :: "bytes \<Rightarrow> u64 option" where
  "get_u64 b = (if length b < 8 then None else Some (le_word (take 8 b)))"

text \<open>Go's truncating conversions from \<^verbatim>\<open>int\<close> and from a length.\<close>

abbreviation u16_of_int :: "int \<Rightarrow> u16" where "u16_of_int \<equiv> word_of_int"
abbreviation u32_of_int :: "int \<Rightarrow> u32" where "u32_of_int \<equiv> word_of_int"
abbreviation u16_of_len :: "nat \<Rightarrow> u16" where "u16_of_len \<equiv> of_nat"
abbreviation u32_of_len :: "nat \<Rightarrow> u32" where "u32_of_len \<equiv> of_nat"

lemma unat_sint: "0 \<le> sint (n :: u32) \<Longrightarrow> unat n = nat (sint n)"
  using sint_range_size [of n]
  by (simp add: unat_eq_nat_uint uint_sint take_bit_int_eq_self word_size)

section \<open>Lemmas on slices and integers\<close>

lemma gslice_ok [simp]: "i \<le> j \<Longrightarrow> j \<le> length b \<Longrightarrow> gslice b i j = Some (take (j - i) (drop i b))"
  by (simp add: gslice_def)

lemma gslice_none [simp]: "length b < j \<Longrightarrow> gslice b i j = None"
  by (simp add: gslice_def)

lemma index_ok [simp]: "i < length b \<Longrightarrow> index b i = Some (b ! i)"
  by (simp add: index_def)

lemma put_at_fill:
  "length pre = off \<Longrightarrow> length src \<le> length rest \<Longrightarrow>
   put_at off src (pre @ rest) = pre @ src @ drop (length src) rest"
  by (simp add: put_at_def)

lemma length_put_at [simp]:
  "off + length src \<le> length b \<Longrightarrow> length (put_at off src b) = length b"
  by (simp add: put_at_def)

lemma length_reuse [simp]: "length (reuse z backing n) = n"
  by (simp add: reuse_def)

lemma length_le_bytes [simp]: "length (le_bytes n v) = n"
  by (induction n arbitrary: v) simp_all

lemma bit_le_word_Cons:
  "bit (le_word (b # bs) :: 'a::len word) i \<longleftrightarrow>
     i < LENGTH('a) \<and> (if i < 8 then bit b i else bit (le_word bs :: 'a word) (i - 8))"
  by (auto simp: bit_simps dest: bit_imp_le_length)

lemma le_word_le_bytes:
  fixes v :: "'a::len word"
  shows "le_word (le_bytes n v) = take_bit (8 * n) v"
proof (induction n arbitrary: v)
  case 0
  then show ?case by simp
next
  case (Suc n)
  show ?case
  proof (rule bit_word_eqI)
    fix i assume "i < LENGTH('a)"
    then show "bit (le_word (le_bytes (Suc n) v) :: 'a word) i \<longleftrightarrow> bit (take_bit (8 * Suc n) v) i"
      by (auto simp: Suc.IH bit_simps dest: bit_imp_le_length)
  qed
qed

lemma bit_le_word_bound: "bit (le_word bs :: 'a::len word) i \<Longrightarrow> i < 8 * length bs"
proof (induction bs arbitrary: i)
  case Nil
  then show ?case by simp
next
  case (Cons b bs)
  then show ?case
    using Cons.IH [of "i - 8"] by (fastforce simp: bit_le_word_Cons simp del: le_word.simps split: if_splits)
qed

lemma le_bytes_le_word:
  "8 * length bs \<le> LENGTH('a) \<Longrightarrow> le_bytes (length bs) (le_word bs :: 'a::len word) = bs"
proof (induction bs)
  case Nil
  then show ?case by simp
next
  case (Cons b bs)
  have "ucast (le_word (b # bs) :: 'a word) = b"
    using Cons.prems by (intro bit_word_eqI) (auto simp: bit_simps)
  moreover have "drop_bit 8 (le_word (b # bs) :: 'a word) = le_word bs"
  proof (rule bit_word_eqI)
    fix i assume "i < LENGTH('a)"
    have "\<not> bit (le_word bs :: 'a word) i" if "\<not> 8 + i < LENGTH('a)"
      using that Cons.prems bit_le_word_bound [of bs i] by auto
    then show "bit (drop_bit 8 (le_word (b # bs) :: 'a word)) i \<longleftrightarrow> bit (le_word bs :: 'a word) i"
      by (auto simp: bit_simps dest: bit_imp_le_length)
  qed
  ultimately show ?case using Cons by simp
qed

lemma length_put_le [simp]:
  "length (put_u16 a) = 2" "length (put_u32 b) = 4" "length (put_u64 c) = 8"
  by (simp_all add: put_u16_def put_u32_def put_u64_def)

lemma get_u16_put [simp]: "get_u16 (put_u16 v @ r) = Some v"
  by (simp add: get_u16_def put_u16_def le_word_le_bytes take_bit_word_eq_self)

lemma get_u32_put [simp]: "get_u32 (put_u32 v @ r) = Some v"
  by (simp add: get_u32_def put_u32_def le_word_le_bytes take_bit_word_eq_self)

lemma get_u64_put [simp]: "get_u64 (put_u64 v @ r) = Some v"
  by (simp add: get_u64_def put_u64_def le_word_le_bytes take_bit_word_eq_self)

lemmas get_put_exact [simp] =
  get_u16_put [where r = "[]", simplified] get_u32_put [where r = "[]", simplified]
  get_u64_put [where r = "[]", simplified]

lemma get_u_some [simp]:
  "2 \<le> length b \<Longrightarrow> get_u16 b = Some (le_word (take 2 b))"
  "4 \<le> length b \<Longrightarrow> get_u32 b = Some (le_word (take 4 b))"
  "8 \<le> length b \<Longrightarrow> get_u64 b = Some (le_word (take 8 b))"
  by (simp_all add: get_u16_def get_u32_def get_u64_def)

lemma read_u16: "j = i + 2 \<Longrightarrow> j \<le> length b \<Longrightarrow>
    gslice b i j \<bind> get_u16 = Some (le_word (take 2 (drop i b)))"
  by (simp add: get_u16_def)

lemma read_u32: "j = i + 4 \<Longrightarrow> j \<le> length b \<Longrightarrow>
    gslice b i j \<bind> get_u32 = Some (le_word (take 4 (drop i b)))"
  by (simp add: get_u32_def)

lemma read_u64: "j = i + 8 \<Longrightarrow> j \<le> length b \<Longrightarrow>
    gslice b i j \<bind> get_u64 = Some (le_word (take 8 (drop i b)))"
  by (simp add: get_u64_def)

lemma index_pos: "Suc i \<le> length b \<Longrightarrow> index b i = Some (b ! i)"
  by (simp add: index_def)

lemmas reads = read_u16 read_u32 read_u64 index_pos

lemma put_le_word [simp]:
  "length b = 2 \<Longrightarrow> put_u16 (le_word b) = b"
  "length b = 4 \<Longrightarrow> put_u32 (le_word b) = b"
  "length b = 8 \<Longrightarrow> put_u64 (le_word b) = b"
  using le_bytes_le_word [of b, where 'a = 16] le_bytes_le_word [of b, where 'a = 32]
    le_bytes_le_word [of b, where 'a = 64]
  by (auto simp: put_u16_def put_u32_def put_u64_def)

lemma unat_of_len [simp]:
  "n < 65536 \<Longrightarrow> unat (of_nat n :: u16) = n"
  "n < 4294967296 \<Longrightarrow> unat (of_nat n :: u32) = n"
  by (simp_all add: unat_of_nat take_bit_nat_eq_self)

lemma uint_of_word_range [simp]:
  "0 \<le> i \<Longrightarrow> i < 65536 \<Longrightarrow> uint (word_of_int i :: u16) = i"
  "0 \<le> i \<Longrightarrow> i < 4294967296 \<Longrightarrow> uint (word_of_int i :: u32) = i"
  by (simp_all add: uint_word_of_int)

lemma unat_u16_less: "unat (w :: u16) < 65536"
  using unsigned_less [of w, where 'a = nat] by simp

lemma unat_u32_less: "unat (w :: u32) < 4294967296"
  using unsigned_less [of w, where 'a = nat] by simp

section \<open>Shared interfaces\<close>

text \<open>
  A wire codec: an encoder, a decoder whose result may be a panic (\<open>None\<close>),
  an error (\<open>Inl\<close>) or a value, and the messages the pair is meant to carry.
\<close>

locale wire_codec =
  fixes enc :: "'m \<Rightarrow> bytes"
    and dec :: "bytes \<Rightarrow> ('e + 'm) option"
    and carried :: "'m \<Rightarrow> bool"
  assumes round_trip: "carried m \<Longrightarrow> dec (enc m) = Some (Inr m)"
    and no_panic: "dec b \<noteq> None"
begin

lemma enc_inj: "carried m \<Longrightarrow> carried m' \<Longrightarrow> enc m = enc m' \<Longrightarrow> m = m'"
  by (metis round_trip option.inject sum.inject(2))

lemma result_cases:
  obtains (Error) e where "dec b = Some (Inl e)" | (Value) m where "dec b = Some (Inr m)"
proof (cases "dec b")
  case None
  then show ?thesis using no_panic [of b] by simp
next
  case (Some r)
  then show ?thesis by (cases r) (auto intro: that)
qed

end

text \<open>
  A transition system with a state invariant: the invariant holds in every
  state that a sequence of steps reaches from a state where it holds.
\<close>

locale invariant_system =
  fixes step :: "'s \<Rightarrow> 's \<Rightarrow> bool"
    and inv :: "'s \<Rightarrow> bool"
  assumes step_inv: "inv s \<Longrightarrow> step s t \<Longrightarrow> inv t"
begin

lemma steps_inv: "step\<^sup>*\<^sup>* s t \<Longrightarrow> inv s \<Longrightarrow> inv t"
  by (induction rule: rtranclp_induct) (auto intro: step_inv)

end

text \<open>
  A writer with a retention cap: what it keeps is a prefix of everything that
  was written to it, never longer than the cap.
\<close>

locale capped_writer =
  fixes put :: "'w \<Rightarrow> bytes \<Rightarrow> 'w"
    and kept :: "'w \<Rightarrow> bytes"
    and limit :: "'w \<Rightarrow> nat"
  assumes kept_put: "length (kept w) \<le> limit w \<Longrightarrow>
      kept (put w p) = take (limit w) (kept w @ p)"
    and limit_put: "limit (put w p) = limit w"
begin

lemma bounded: "length (kept w) \<le> limit w \<Longrightarrow> length (kept (put w p)) \<le> limit (put w p)"
  by (simp add: kept_put limit_put)

lemma limit_run: "limit (foldl put w ps) = limit w"
  by (induction ps arbitrary: w) (simp_all add: limit_put)

lemma kept_run:
  "length (kept w) \<le> limit w \<Longrightarrow> kept (foldl put w ps) = take (limit w) (kept w @ concat ps)"
proof (induction ps arbitrary: w)
  case Nil
  then show ?case by simp
next
  case (Cons p ps)
  then have "kept (foldl put (put w p) ps) = take (limit w) (take (limit w) (kept w @ p) @ concat ps)"
    using Cons.IH [of "put w p"] by (simp add: bounded kept_put limit_put)
  then show ?case by (simp add: min_def)
qed

end

text \<open>Such a writer with a flag that is set exactly when something was dropped.\<close>

locale flagged_writer = capped_writer +
  fixes lost :: "'a \<Rightarrow> bool"
  assumes lost_put: "length (kept w) \<le> limit w \<Longrightarrow>
      lost (put w p) \<longleftrightarrow> lost w \<or> limit w < length (kept w @ p)"
begin

lemma lost_run:
  "length (kept w) \<le> limit w \<Longrightarrow> \<not> lost w \<Longrightarrow>
   lost (foldl put w ps) \<longleftrightarrow> limit w < length (kept w @ concat ps)"
proof (induction ps rule: rev_induct)
  case Nil
  then show ?case by simp
next
  case (snoc p ps)
  let ?w = "foldl put w ps"
  have "length (kept ?w) \<le> limit ?w"
    using snoc.prems by (simp add: kept_run limit_run)
  then have "lost (put ?w p) \<longleftrightarrow> lost ?w \<or> limit w < length (kept ?w @ p)"
    by (simp add: lost_put limit_run)
  then show ?case using snoc by (auto simp: kept_run min_def)
qed

end

end
