(* ===== verification/Go_Utf8.thy ===== *)
theory Go_Utf8
  imports Plum_Prelude
begin

text \<open>
  UTF-8 as the package \<^verbatim>\<open>unicode/utf8\<close> decodes it: one character of a byte string, and all of them.
\<close>

section \<open>One character\<close>

text \<open>
  The length of the sequence a byte starts and the range of its second byte; a
  byte that starts no sequence has length 1 and is not ASCII.
\<close>

definition utf8_size :: "byte \<Rightarrow> nat" where
  "utf8_size b = (let n = unat b in
     if n < 0xC2 then 1 else if n < 0xE0 then 2 else if n < 0xF0 then 3 else if n < 0xF5 then 4 else 1)"

definition utf8_second :: "byte \<Rightarrow> byte \<Rightarrow> bool" where
  "utf8_second b c = (let n = unat b; m = unat c in
     (if n = 0xE0 then 0xA0 \<le> m \<and> m \<le> 0xBF
      else if n = 0xED then 0x80 \<le> m \<and> m \<le> 0x9F
      else if n = 0xF0 then 0x90 \<le> m \<and> m \<le> 0xBF
      else if n = 0xF4 then 0x80 \<le> m \<and> m \<le> 0x8F
      else 0x80 \<le> m \<and> m \<le> 0xBF))"

definition utf8_cont :: "byte \<Rightarrow> bool" where
  "utf8_cont c = (0x80 \<le> unat c \<and> unat c \<le> 0xBF)"

definition RuneError :: nat where [const_defs]: "RuneError = 0xFFFD"

definition DecodeRune :: "bytes \<Rightarrow> nat \<times> nat" where
  "DecodeRune p =
    (case p of [] \<Rightarrow> (RuneError, 0)
     | b0 # r \<Rightarrow>
       if unat b0 < 0x80 then (unat b0, 1)
       else if utf8_size b0 = 2 then
         (case r of b1 # _ \<Rightarrow>
            if utf8_second b0 b1 then ((unat b0 mod 32) * 64 + unat b1 mod 64, 2) else (RuneError, 1)
          | _ \<Rightarrow> (RuneError, 1))
       else if utf8_size b0 = 3 then
         (case r of b1 # b2 # _ \<Rightarrow>
            if utf8_second b0 b1 \<and> utf8_cont b2
            then ((unat b0 mod 16) * 4096 + (unat b1 mod 64) * 64 + unat b2 mod 64, 3) else (RuneError, 1)
          | _ \<Rightarrow> (RuneError, 1))
       else if utf8_size b0 = 4 then
         (case r of b1 # b2 # b3 # _ \<Rightarrow>
            if utf8_second b0 b1 \<and> utf8_cont b2 \<and> utf8_cont b3
            then ((unat b0 mod 8) * 262144 + (unat b1 mod 64) * 4096 + (unat b2 mod 64) * 64 + unat b3 mod 64, 4)
            else (RuneError, 1)
          | _ \<Rightarrow> (RuneError, 1))
       else (RuneError, 1))"

definition FullRune :: "bytes \<Rightarrow> bool" where
  "FullRune p =
    (case p of [] \<Rightarrow> False
     | b0 # r \<Rightarrow>
       if utf8_size b0 \<le> length p then True
       else if length p > 1 \<and> \<not> utf8_second b0 (p ! 1) then True
       else if length p > 2 \<and> \<not> utf8_cont (p ! 2) then True
       else False)"

definition ValidRune :: "int \<Rightarrow> bool" where
  "ValidRune r \<longleftrightarrow> 0 \<le> r \<and> r < 0xD800 \<or> 0xDFFF < r \<and> r \<le> 0x10FFFF"

text \<open>\<^verbatim>\<open>utf8.AppendRune\<close>: what is no character gives U+FFFD.\<close>

definition EncodeRune :: "int \<Rightarrow> bytes" where
  "EncodeRune r =
    (let n = nat (if ValidRune r then r else 0xFFFD) in map of_nat
     (if n < 0x80 then [n]
      else if n < 0x800 then [0xC0 + n div 64, 0x80 + n mod 64]
      else if n < 0x10000 then [0xE0 + n div 4096, 0x80 + n div 64 mod 64, 0x80 + n mod 64]
      else [0xF0 + n div 262144, 0x80 + n div 4096 mod 64, 0x80 + n div 64 mod 64, 0x80 + n mod 64]))"

section \<open>All characters\<close>

text \<open>
  The runes of a byte string, for the statements: \<open>None\<close> marks a byte that
  belongs to no well-formed sequence.
\<close>

function runes :: "bytes \<Rightarrow> nat option list" where
  "runes dat =
    (if length dat = 0 then []
     else case DecodeRune dat of (r, sz) \<Rightarrow>
       if r = RuneError \<and> sz = 1 then None # runes (drop 1 dat) else Some r # runes (drop sz dat))"
  by pat_completeness auto
termination
  by (relation "measure length") (auto simp: DecodeRune_def split: list.splits if_splits)

declare runes.simps [simp del]

section \<open>Decoding\<close>

lemma DecodeRune_size: "dat \<noteq> [] \<Longrightarrow> DecodeRune dat = (r, sz) \<Longrightarrow> 0 < sz \<and> sz \<le> length dat"
  by (auto simp: DecodeRune_def split: list.splits if_splits)

lemma byte_nat: "k < 256 \<Longrightarrow> unat (of_nat k :: byte) = k"
  by (simp add: unat_of_nat)

lemma lead_mod: "k dvd c \<Longrightarrow> m < k \<Longrightarrow> (c + m) mod k = m" for c k m :: nat
  by (auto simp: dvd_def)

lemma DecodeRune_EncodeRune:
  assumes "ValidRune r"
  shows "DecodeRune (EncodeRune r @ rest) = (nat r, length (EncodeRune r))"
proof -
  define n where "n = nat r"
  have n: "n < 0xD800 \<or> 0xDFFF < n \<and> n \<le> 0x10FFFF" using assms by (auto simp: n_def ValidRune_def)
  have e: "EncodeRune r = map of_nat
     (if n < 0x80 then [n]
      else if n < 0x800 then [0xC0 + n div 64, 0x80 + n mod 64]
      else if n < 0x10000 then [0xE0 + n div 4096, 0x80 + n div 64 mod 64, 0x80 + n mod 64]
      else [0xF0 + n div 262144, 0x80 + n div 4096 mod 64, 0x80 + n div 64 mod 64, 0x80 + n mod 64])"
    using assms by (simp add: EncodeRune_def n_def Let_def)
  have r: "nat r = n" by (simp add: n_def)
  consider "n < 0x80" | "0x80 \<le> n" "n < 0x800" | "0x800 \<le> n" "n < 0x10000" | "0x10000 \<le> n" by linarith
  then show ?thesis
  proof cases
    case 1
    then show ?thesis by (simp add: e r byte_nat DecodeRune_def)
  next
    case 2
    obtain q m where q: "n = q * 64 + m" "m < 64" using div_mod_decomp [of n 64] by (metis mod_less_divisor zero_less_numeral)
    have p: "2 \<le> q" "q < 32" using 2 q by simp_all
    have "EncodeRune r = [of_nat (0xC0 + q), of_nat (0x80 + m)]" using 2 q by (simp add: e)
    then show ?thesis using p q(2) unfolding DecodeRune_def
      by (simp del: of_nat_add add: r q(1) byte_nat lead_mod utf8_size_def utf8_second_def)
  next
    case 3
    obtain q m where q: "n = q * 64 + m" "m < 64" using div_mod_decomp [of n 64] by (metis mod_less_divisor zero_less_numeral)
    obtain p l where p: "q = p * 64 + l" "l < 64" using div_mod_decomp [of q 64] by (metis mod_less_divisor zero_less_numeral)
    have n': "n = p * 4096 + l * 64 + m" using q p by simp
    have d: "n div 4096 = p" "n div 64 mod 64 = l" "n mod 64 = m"
    proof -
      show "n mod 64 = m" using q by simp
      have "n div 64 = q" "q div 64 = p" "q mod 64 = l" using q p by simp_all
      then show "n div 4096 = p" "n div 64 mod 64 = l" using div_mult2_eq [of n 64 64] by simp_all
    qed
    have b: "p < 16" "p = 0 \<longrightarrow> 32 \<le> l" "p = 13 \<longrightarrow> l \<le> 31" using 3 n n' p(2) q(2) by linarith+
    have "EncodeRune r = [of_nat (0xE0 + p), of_nat (0x80 + l), of_nat (0x80 + m)]" using 3 d by (simp add: e)
    then show ?thesis using b p(2) q(2) unfolding DecodeRune_def
      by (simp del: of_nat_add add: r n' byte_nat lead_mod utf8_size_def utf8_second_def utf8_cont_def)
  next
    case 4
    obtain q m where q: "n = q * 64 + m" "m < 64" using div_mod_decomp [of n 64] by (metis mod_less_divisor zero_less_numeral)
    obtain p l where p: "q = p * 64 + l" "l < 64" using div_mod_decomp [of q 64] by (metis mod_less_divisor zero_less_numeral)
    obtain s k where s: "p = s * 64 + k" "k < 64" using div_mod_decomp [of p 64] by (metis mod_less_divisor zero_less_numeral)
    have n': "n = s * 262144 + k * 4096 + l * 64 + m" using q p s by simp
    have d: "n div 262144 = s" "n div 4096 mod 64 = k" "n div 64 mod 64 = l" "n mod 64 = m"
    proof -
      show "n mod 64 = m" using q by simp
      have "p div 64 = s" "p mod 64 = k" using s by simp_all
      moreover have "q div 64 = p" "q mod 64 = l" using p by simp_all
      moreover have "n div 64 = q" using q by simp
      ultimately show "n div 262144 = s" "n div 4096 mod 64 = k" "n div 64 mod 64 = l"
        using div_mult2_eq [of n 64 64] div_mult2_eq [of n 4096 64] by simp_all
    qed
    have b: "s < 5" "s = 0 \<longrightarrow> 16 \<le> k" "s = 4 \<longrightarrow> k \<le> 15" using 4 n n' p(2) q(2) s(2) by linarith+
    have "EncodeRune r = [of_nat (0xF0 + s), of_nat (0x80 + k), of_nat (0x80 + l), of_nat (0x80 + m)]" using 4 d by (simp add: e)
    then show ?thesis using b p(2) q(2) s(2) unfolding DecodeRune_def
      by (simp del: of_nat_add add: r n' byte_nat lead_mod utf8_size_def utf8_second_def utf8_cont_def)
  qed
qed

lemma list_upto3_cases:
  obtains "r = []" | b1 where "r = [b1]" | b1 b2 where "r = [b1, b2]" | b1 b2 b3 t where "r = b1 # b2 # b3 # t"
  by (metis list.exhaust)

lemma utf8_size_ascii: "unat b < 128 \<Longrightarrow> utf8_size b = 1"
  by (simp add: utf8_size_def Let_def)

lemma FullRune_decode:
  assumes "FullRune a"
  shows "DecodeRune (a @ b) = DecodeRune a"
proof (cases a)
  case Nil
  with assms show ?thesis by (simp add: FullRune_def)
next
  case (Cons b0 r)
  show ?thesis
    by (cases rule: list_upto3_cases [of r])
      (use assms Cons in \<open>simp_all add: FullRune_def DecodeRune_def split: if_splits list.split\<close>)
qed

lemma not_FullRune: "a \<noteq> [] \<Longrightarrow> \<not> FullRune a \<Longrightarrow> DecodeRune a = (RuneError, 1)"
  by (auto simp: FullRune_def DecodeRune_def utf8_size_def Let_def split: list.splits if_splits)

lemma decode_segment:
  "dat \<noteq> [] \<Longrightarrow> DecodeRune dat = (r, sz) \<Longrightarrow> \<not> (r = RuneError \<and> sz = 1) \<Longrightarrow>
   DecodeRune (take sz dat @ x) = (r, sz)"
  by (auto simp: DecodeRune_def split: list.splits if_splits)

lemma runes_Nil [simp]: "runes [] = []"
  by (simp add: runes.simps)

lemma runes_step: "dat \<noteq> [] \<Longrightarrow> DecodeRune dat = (r, sz) \<Longrightarrow> \<not> (r = RuneError \<and> sz = 1) \<Longrightarrow>
    runes dat = Some r # runes (drop sz dat)"
  by (simp add: runes.simps [of dat])

lemma runes_segment:
  assumes "dat \<noteq> []" "DecodeRune dat = (r, sz)" "\<not> (r = RuneError \<and> sz = 1)"
  shows "runes (take sz dat @ x) = Some r # runes x"
proof -
  have sz: "0 < sz" "sz \<le> length dat" using DecodeRune_size [OF assms(1,2)] by auto
  with decode_segment [OF assms] show ?thesis
    using runes_step [of "take sz dat @ x" r sz] assms by simp
qed

lemma runes_append: "None \<notin> set (runes a) \<Longrightarrow> runes (a @ b) = runes a @ runes b"
proof (induction "length a" arbitrary: a rule: less_induct)
  case less
  show ?case
  proof (cases "a = []")
    case True
    then show ?thesis by simp
  next
    case False
    obtain r sz where d: "DecodeRune a = (r, sz)" by (cases "DecodeRune a")
    have sz: "0 < sz" "sz \<le> length a" using DecodeRune_size [OF False d] by auto
    have valid: "\<not> (r = RuneError \<and> sz = 1)"
      using less.prems False d by (auto simp: runes.simps [of a])
    have "None \<notin> set (runes (drop sz a))"
      using less.prems runes_step [OF False d valid] by auto
    with False sz less.hyps [of "drop sz a"] have "runes (drop sz a @ b) = runes (drop sz a) @ runes b" by simp
    moreover have "runes (a @ b) = Some r # runes (drop sz a @ b)"
      using runes_segment [OF False d valid, of "drop sz a @ b"] by (simp flip: append_assoc)
    ultimately show ?thesis using runes_step [OF False d valid] by simp
  qed
qed

end
