(* ===== verification/Output_Filter.thy ===== *)
theory Output_Filter
  imports Go_Utf8
begin

text \<open>
  What a guest prints: the bounded buffers that keep a prefix of it
  (\<^verbatim>\<open>boundedBuffer\<close> of \<^verbatim>\<open>src/internal/runner/procrunner.go\<close>, \<^verbatim>\<open>execBuffer\<close> of
  \<^verbatim>\<open>src/internal/runner/exec.go\<close>, \<^verbatim>\<open>capWriter\<close> of
  \<^verbatim>\<open>src/internal/gateway/logbuf.go\<close>), and the filter of
  \<^verbatim>\<open>src/internal/runner/cli.go\<close> that removes terminal controls from the output
  of a command-line guest. The UTF-8 decoder of Go's standard library, on which
  the filter rests, is modelled as the library documents it.
\<close>

section \<open>Bounded buffers\<close>

record bounded_buffer =
  bbMax :: nat
  bbB :: bytes

definition bbWrite :: "bounded_buffer \<Rightarrow> bytes \<Rightarrow> nat \<times> bounded_buffer" where
  "bbWrite bb p =
    (let room = int (bbMax bb) - int (length (bbB bb)) in
     (length p,
      if room > 0 then
        if int (length p) > room then bb\<lparr>bbB := bbB bb @ take (nat room) p\<rparr>
        else bb\<lparr>bbB := bbB bb @ p\<rparr>
      else bb))"

text \<open>\<open>ebCancelled\<close> records the call of the context's cancel function.\<close>

record exec_buffer =
  ebMax :: nat
  ebB :: bytes
  ebOverflow :: bool
  ebCancelled :: bool

definition ebWrite :: "exec_buffer \<Rightarrow> bytes \<Rightarrow> nat \<times> exec_buffer" where
  "ebWrite b p =
    (let n = nat (min (max (int (ebMax b) - int (length (ebB b))) 0) (int (length p)));
         b1 = (if n > 0 then b\<lparr>ebB := ebB b @ take n p\<rparr> else b);
         b2 = (if n < length p then b1\<lparr>ebOverflow := True, ebCancelled := True\<rparr> else b1)
     in (length p, b2))"

record cap_writer =
  cwBuf :: bytes
  cwCap :: nat
  cwTruncated :: bool

definition newCapWriter :: "nat \<Rightarrow> cap_writer" where
  "newCapWriter capBytes = \<lparr>cwBuf = [], cwCap = capBytes, cwTruncated = False\<rparr>"

definition cwWrite :: "cap_writer \<Rightarrow> bytes \<Rightarrow> nat \<times> cap_writer" where
  "cwWrite w p =
    (let remaining = int (cwCap w) - int (length (cwBuf w)) in
     (length p,
      if remaining > 0 then
        if int (length p) > remaining then w\<lparr>cwBuf := cwBuf w @ take (nat remaining) p, cwTruncated := True\<rparr>
        else w\<lparr>cwBuf := cwBuf w @ p\<rparr>
      else if length p > 0 then w\<lparr>cwTruncated := True\<rparr>
      else w))"

section \<open>The control filter\<close>

definition dropRune :: "nat \<Rightarrow> bool" where
  "dropRune r =
    (if r < 0x20 then r \<noteq> 9 \<and> r \<noteq> 10
     else if r = 0x7f then True
     else if 0x80 \<le> r \<and> r \<le> 0x9f then True
     else False)"

text \<open>The loop: the bytes to forward and the bytes to carry to the next write.\<close>

function filterLoop :: "bytes \<Rightarrow> bytes \<Rightarrow> bytes \<times> bytes" where
  "filterLoop out dat =
    (if length dat = 0 then (out, [])
     else case DecodeRune dat of (r, sz) \<Rightarrow>
       if r = RuneError \<and> sz = 1 then
         if \<not> FullRune dat then (out, dat)
         else filterLoop out (drop 1 dat)
       else filterLoop (if \<not> dropRune r then out @ take sz dat else out) (drop sz dat))"
  by pat_completeness auto
termination
  by (relation "measure (\<lambda>(out, dat). length dat)")
    (auto simp: DecodeRune_def split: list.splits if_splits)

declare filterLoop.simps [simp del]

record control_filter =
  cfW :: bytes
  cfBuf :: bytes

text \<open>
  \<open>fails\<close> says whether the underlying writer reports an error (it is only
  called when there is something to forward). The result is the count, or
  \<open>None\<close> for the error.
\<close>

definition cfWrite :: "bool \<Rightarrow> control_filter \<Rightarrow> bytes \<Rightarrow> nat option \<times> control_filter" where
  "cfWrite fails f p =
    (let dat = (if length (cfBuf f) > 0 then cfBuf f @ p else p) in
     case filterLoop [] dat of (out, carry) \<Rightarrow>
       let f1 = f\<lparr>cfBuf := carry\<rparr> in
       if length out > 0 then
         if fails then (None, f1) else (Some (length p), f1\<lparr>cfW := cfW f1 @ out\<rparr>)
       else (Some (length p), f1))"

text \<open>
  What may reach a terminal: a well-formed character that is tab, newline or no C0, DEL or C1 control.
\<close>

definition harmless :: "nat option \<Rightarrow> bool" where
  "harmless r \<longleftrightarrow> (case r of None \<Rightarrow> False
     | Some n \<Rightarrow> n = 9 \<or> n = 10 \<or> 0x20 \<le> n \<and> n < 0x7f \<or> 0x9f < n)"

section \<open>Bounded buffers keep a prefix\<close>

interpretation bounded_writer: capped_writer "\<lambda>w p. snd (bbWrite w p)" bbB bbMax
  by unfold_locales (auto simp: bbWrite_def Let_def nat_diff_distrib)

interpretation exec_writer: flagged_writer "\<lambda>w p. snd (ebWrite w p)" ebB ebMax ebOverflow
  by unfold_locales (auto simp: ebWrite_def Let_def nat_diff_distrib min_def max_def)

interpretation log_writer: flagged_writer "\<lambda>w p. snd (cwWrite w p)" cwBuf cwCap cwTruncated
  by unfold_locales (auto simp: cwWrite_def Let_def nat_diff_distrib)

section \<open>The filter loop\<close>

lemma filterLoop_acc: "filterLoop out dat = (out @ fst (filterLoop [] dat), snd (filterLoop [] dat))"
proof (induction "length dat" arbitrary: out dat rule: less_induct)
  case less
  show ?case
  proof (cases "dat = []")
    case True
    then show ?thesis by (simp add: filterLoop.simps)
  next
    case False
    obtain r sz where d: "DecodeRune dat = (r, sz)" by (cases "DecodeRune dat")
    have sz: "0 < sz" "sz \<le> length dat" using DecodeRune_size [OF False d] by auto
    have IH: "filterLoop o1 (drop k dat) = (o1 @ fst (filterLoop [] (drop k dat)), snd (filterLoop [] (drop k dat)))"
      if "0 < k" for o1 k
      using less [of "drop k dat" o1] that False by simp
    have unf: "filterLoop o1 dat = (if r = RuneError \<and> sz = 1 then
        if \<not> FullRune dat then (o1, dat) else filterLoop o1 (drop 1 dat)
        else filterLoop (if \<not> dropRune r then o1 @ take sz dat else o1) (drop sz dat))" for o1
      using False d by (simp add: filterLoop.simps [of o1 dat])
    have IH1: "filterLoop out (drop 1 dat) = (out @ fst (filterLoop [] (drop 1 dat)), snd (filterLoop [] (drop 1 dat)))"
      by (rule IH) simp
    have IH2: "filterLoop o1 (drop sz dat) = (o1 @ fst (filterLoop [] (drop sz dat)), snd (filterLoop [] (drop sz dat)))" for o1
      by (rule IH [OF sz(1)])
    show ?thesis
      unfolding unf [of out] unf [of "[]"] IH1 IH2 [of "if \<not> dropRune r then out @ take sz dat else out"]
        IH2 [of "if \<not> dropRune r then [] @ take sz dat else []"] by simp
  qed
qed

lemma filterLoop_step:
  assumes "dat \<noteq> []" "DecodeRune dat = (r, sz)" "\<not> (r = RuneError \<and> sz = 1)"
  shows "filterLoop [] dat = ((if dropRune r then [] else take sz dat) @ fst (filterLoop [] (drop sz dat)),
    snd (filterLoop [] (drop sz dat)))"
  using assms filterLoop_acc [of "take sz dat" "drop sz dat"]
  by (auto simp: filterLoop.simps [of _ dat])

lemma filterLoop_invalid:
  assumes "dat \<noteq> []" "DecodeRune dat = (RuneError, 1)"
  shows "filterLoop [] dat = (if FullRune dat then filterLoop [] (drop 1 dat) else ([], dat))"
  using assms by (simp add: filterLoop.simps [of _ dat])

lemma filterLoop_Nil [simp]: "filterLoop [] [] = ([], [])"
  by (simp add: filterLoop.simps)

lemma filterLoop_append:
  "filterLoop [] (a @ b) =
    (fst (filterLoop [] a) @ fst (filterLoop [] (snd (filterLoop [] a) @ b)),
     snd (filterLoop [] (snd (filterLoop [] a) @ b)))"
proof (induction "length a" arbitrary: a rule: less_induct)
  case less
  show ?case
  proof (cases "a = [] \<or> \<not> FullRune a")
    case True
    then show ?thesis using filterLoop_invalid [of a] not_FullRune [of a] by (cases "a = []") auto
  next
    case False
    then have a: "a \<noteq> []" "FullRune a" by auto
    obtain r sz where d: "DecodeRune a = (r, sz)" by (cases "DecodeRune a")
    have sz: "0 < sz" "sz \<le> length a" using DecodeRune_size [OF a(1) d] by auto
    have dab: "DecodeRune (a @ b) = (r, sz)" using FullRune_decode [OF a(2)] d by simp
    have full: "FullRune (a @ b)" using a(2) by (auto simp: FullRune_def nth_append split: list.splits if_splits)
    show ?thesis
    proof (cases "r = RuneError \<and> sz = 1")
      case True
      moreover have "drop 1 (a @ b) = drop 1 a @ b" using a(1) by (cases a) auto
      ultimately show ?thesis
        using a d dab full less [of "drop 1 a"] by (simp add: filterLoop_invalid)
    next
      case valid: False
      with a d dab sz less [of "drop sz a"] show ?thesis
        by (simp add: filterLoop_step [OF _ _ valid])
    qed
  qed
qed

lemma harmless_dropRune: "harmless (Some n) \<longleftrightarrow> \<not> dropRune n"
  by (auto simp: harmless_def dropRune_def)

lemma harmless_valid: "list_all harmless rs \<Longrightarrow> None \<notin> set rs"
  by (auto simp: list_all_iff harmless_def)

lemma filterLoop_harmless: "list_all harmless (runes (fst (filterLoop [] dat)))"
proof (induction "length dat" arbitrary: dat rule: less_induct)
  case less
  show ?case
  proof (cases "dat = []")
    case True
    then show ?thesis by (simp add: filterLoop.simps)
  next
    case False
    obtain r sz where d: "DecodeRune dat = (r, sz)" by (cases "DecodeRune dat")
    have sz: "0 < sz" "sz \<le> length dat" using DecodeRune_size [OF False d] by auto
    show ?thesis
    proof (cases "r = RuneError \<and> sz = 1")
      case True
      with False d less [of "drop 1 dat"] show ?thesis
        by (simp add: filterLoop_invalid)
    next
      case valid: False
      with False d sz less [of "drop sz dat"] show ?thesis
        by (simp add: filterLoop_step [OF _ _ valid] runes_segment [OF _ _ valid] harmless_dropRune)
    qed
  qed
qed

lemma filterLoop_keeps: "list_all harmless (runes dat) \<Longrightarrow> filterLoop [] dat = (dat, [])"
proof (induction "length dat" arbitrary: dat rule: less_induct)
  case less
  show ?case
  proof (cases "dat = []")
    case True
    then show ?thesis by simp
  next
    case False
    obtain r sz where d: "DecodeRune dat = (r, sz)" by (cases "DecodeRune dat")
    have sz: "0 < sz" "sz \<le> length dat" using DecodeRune_size [OF False d] by auto
    have valid: "\<not> (r = RuneError \<and> sz = 1)"
      using less.prems False d by (auto simp: runes.simps [of dat] harmless_def)
    have "harmless (Some r)" "list_all harmless (runes (drop sz dat))"
      using less.prems runes_step [OF False d valid] by auto
    with False d sz less.hyps [of "drop sz dat"] show ?thesis
      by (simp add: filterLoop_step [OF _ _ valid] harmless_dropRune)
  qed
qed

lemma cfWrite_ok:
  "snd (cfWrite False f p) = f\<lparr>cfW := cfW f @ fst (filterLoop [] (cfBuf f @ p)), cfBuf := snd (filterLoop [] (cfBuf f @ p))\<rparr>"
  by (auto simp: cfWrite_def Let_def split: prod.split)

lemma cfWrite_run:
  "foldl (\<lambda>f p. snd (cfWrite False f p)) f ps =
    f\<lparr>cfW := cfW f @ fst (filterLoop [] (cfBuf f @ concat ps)), cfBuf := snd (filterLoop [] (cfBuf f @ concat ps))\<rparr>"
  if "snd (filterLoop [] (cfBuf f)) = cfBuf f" "fst (filterLoop [] (cfBuf f)) = []"
  using that
proof (induction ps rule: rev_induct)
  case Nil
  then show ?case by simp
next
  case (snoc p ps)
  then show ?case
    using filterLoop_append [of "cfBuf f @ concat ps" p] by (simp add: cfWrite_ok)
qed

lemma cfWrite_harmless:
  "list_all harmless (runes (cfW f)) \<Longrightarrow> list_all harmless (runes (cfW (snd (cfWrite fails f p))))"
  using filterLoop_harmless [of "cfBuf f @ p"]
  by (auto simp: cfWrite_def Let_def runes_append harmless_valid split: prod.split)

section \<open>Properties\<close>

text \<open>
  C23: However a command-line guest splits its output into writes, the viewer
  gets the same bytes: a character that is cut by a write boundary is neither
  lost nor let through unfiltered.
\<close>

theorem filter_ignores_write_boundaries:
  "cfW (foldl (\<lambda>f p. snd (cfWrite False f p)) \<lparr>cfW = [], cfBuf = []\<rparr> ps) =
   cfW (snd (cfWrite False \<lparr>cfW = [], cfBuf = []\<rparr> (concat ps)))"
  using cfWrite_run [of "\<lparr>cfW = [], cfBuf = []\<rparr>" ps] by (simp add: cfWrite_ok [of _ "concat ps"])

text \<open>
  C24: Nothing that could drive the viewer's terminal passes the filter. Over
  any sequence of writes, whichever of them the underlying writer rejects, what
  was forwarded is well-formed UTF-8 without C0 controls (but tab and newline),
  DEL and C1 controls; and a write without such characters is forwarded
  unchanged.
\<close>

theorem filter_blocks_controls:
  "list_all harmless (runes (cfW (foldl (\<lambda>f (fails, p). snd (cfWrite fails f p)) \<lparr>cfW = [], cfBuf = []\<rparr> ws))) \<and>
   (list_all harmless (runes p) \<longrightarrow> cfWrite False \<lparr>cfW = out, cfBuf = []\<rparr> p = (Some (length p), \<lparr>cfW = out @ p, cfBuf = []\<rparr>))"
proof
  show "list_all harmless (runes (cfW (foldl (\<lambda>f (fails, p). snd (cfWrite fails f p)) \<lparr>cfW = [], cfBuf = []\<rparr> ws)))"
    by (induction ws rule: rev_induct) (auto intro: cfWrite_harmless)
  show "list_all harmless (runes p) \<longrightarrow>
      cfWrite False \<lparr>cfW = out, cfBuf = []\<rparr> p = (Some (length p), \<lparr>cfW = out @ p, cfBuf = []\<rparr>)"
    using filterLoop_keeps [of p] by (auto simp: cfWrite_def Let_def)
qed

theorem filter_blocks_controls_witness:
  "cfWrite False \<lparr>cfW = [33], cfBuf = []\<rparr> [104, 105, 10, 195, 169] = (Some 5, \<lparr>cfW = [33, 104, 105, 10, 195, 169], cfBuf = []\<rparr>)"
proof -
  have "runes [104, 105, 10, 195, 169] = [Some 104, Some 105, Some 10, Some 233]"
    by (simp add: runes.simps DecodeRune_def utf8_size_def utf8_second_def RuneError_def Let_def)
  then have "list_all harmless (runes [104, 105, 10, 195, 169])"
    by (simp add: harmless_def)
  then show ?thesis using filter_blocks_controls [of "[]" "[104, 105, 10, 195, 169]" "[33]"] by simp
qed

text \<open>
  The gateway's session log keeps exactly the first bytes a guest wrote, up
  to the cap, over any sequence of writes, and is marked truncated exactly when
  something was dropped.
\<close>

theorem session_log_is_prefix:
  "cwBuf (foldl (\<lambda>w p. snd (cwWrite w p)) (newCapWriter n) ps) = take n (concat ps) \<and>
   (cwTruncated (foldl (\<lambda>w p. snd (cwWrite w p)) (newCapWriter n) ps) \<longleftrightarrow> n < length (concat ps))"
  using log_writer.kept_run [of "newCapWriter n" ps] log_writer.lost_run [of "newCapWriter n" ps]
  by (simp add: newCapWriter_def)

end
