(* ===== verification/Abi_Codec.thy ===== *)
theory Abi_Codec
  imports Plum_Prelude
begin

text \<open>
  The guest/host wire format of \<^verbatim>\<open>src/sdk/abi\<close>: events (host to guest),
  frames (guest to host), identities, bounded key lists, and the exec and fetch
  messages. Encoders that reuse a buffer (\<open>AppendEvent\<close>, \<open>AppendFrame\<close>,
  \<open>AppendDecodeFrame\<close>) take the old backing array as an argument, so that the
  lemmas show that stale contents never leak into the result. Decoders return
  \<open>None\<close> for a run-time panic, \<open>Some (Inl e)\<close> for a Go error and
  \<open>Some (Inr m)\<close> for a message.
\<close>

section \<open>Constants and data\<close>

datatype abi_error = ErrShort | ErrMagic | ErrVersion | ErrSize | ErrKVList

type_synonym 'a decoded = "(abi_error + 'a) option"

definition Version :: byte where [const_defs]: "Version = 4"
definition magicEvent :: byte where [const_defs]: "magicEvent = 1"
definition magicFrame :: byte where [const_defs]: "magicFrame = 2"

definition KindNone :: byte where [const_defs]: "KindNone = 0"
definition KindKey :: byte where [const_defs]: "KindKey = 1"
definition KindResize :: byte where [const_defs]: "KindResize = 2"
definition KindMessage :: byte where [const_defs]: "KindMessage = 3"
definition KindMouse :: byte where [const_defs]: "KindMouse = 4"
definition KindTimer :: byte where [const_defs]: "KindTimer = 5"

definition EventLen :: nat where [const_defs]: "EventLen = 13"
definition frameHeaderLen :: nat where [const_defs]: "frameHeaderLen = 8"
definition cellLen :: nat where [const_defs]: "cellLen = 11"
definition MaxFrameWidth :: nat where [const_defs]: "MaxFrameWidth = 500"
definition MaxFrameHeight :: nat where [const_defs]: "MaxFrameHeight = 300"
definition flagQuit :: byte where [const_defs]: "flagQuit = 1"

definition KVMaxKey :: nat where [const_defs]: "KVMaxKey = 256"
definition KVMaxValue :: nat where [const_defs]: "KVMaxValue = 64 * 1024"
definition KVMaxList :: nat where [const_defs]: "KVMaxList = 256"
definition KVHashSize :: nat where [const_defs]: "KVHashSize = 32"
definition AuthMaxUser :: nat where [const_defs]: "AuthMaxUser = 256"
definition BusMaxTopic :: nat where [const_defs]: "BusMaxTopic = 128"
definition BusMaxData :: nat where [const_defs]: "BusMaxData = 3072"
definition ExecMaxName :: nat where [const_defs]: "ExecMaxName = 4096"
definition ExecMaxArgs :: nat where [const_defs]: "ExecMaxArgs = 256"
definition ExecMaxArg :: nat where [const_defs]: "ExecMaxArg = 65536"
definition ExecMaxOutput :: nat where [const_defs]: "ExecMaxOutput = 1048576"
definition FetchMaxMethod :: nat where [const_defs]: "FetchMaxMethod = 32"
definition FetchMaxURL :: nat where [const_defs]: "FetchMaxURL = 2048"
definition FetchMaxBody :: nat where [const_defs]: "FetchMaxBody = 1048576"

record rgb =
  rgbR :: byte
  rgbG :: byte
  rgbB :: byte

record event =
  evKind :: byte
  evKey :: byte
  evCh :: u32
  evMods :: byte
  evW :: int
  evH :: int
  evTopic :: bytes
  evData :: bytes
  evMouseX :: int
  evMouseY :: int
  evButton :: byte
  evAction :: byte
  evCommandID :: u32

record cell =
  cellCh :: u32
  cellFg :: rgb
  cellBg :: rgb
  cellDecor :: byte

record frame =
  frameW :: int
  frameH :: int
  frameQuit :: bool
  frameCells :: "cell list"

text \<open>The frames that every sink of the host accepts (\<^verbatim>\<open>internal/runner/render.go\<close>).\<close>

definition validFrame :: "frame \<Rightarrow> bool" where
  "validFrame f \<longleftrightarrow> frameW f \<ge> 1 \<and> frameW f \<le> int MaxFrameWidth \<and>
     frameH f \<ge> 1 \<and> frameH f \<le> int MaxFrameHeight \<and>
     int (length (frameCells f)) = frameW f * frameH f"

definition zero_event :: event where
  "zero_event = \<lparr>evKind = 0, evKey = 0, evCh = 0, evMods = 0, evW = 0, evH = 0,
     evTopic = [], evData = [], evMouseX = 0, evMouseY = 0, evButton = 0, evAction = 0,
     evCommandID = 0\<rparr>"

definition zero_cell :: cell where
  "zero_cell = \<lparr>cellCh = 0, cellFg = \<lparr>rgbR = 0, rgbG = 0, rgbB = 0\<rparr>,
     cellBg = \<lparr>rgbR = 0, rgbG = 0, rgbB = 0\<rparr>, cellDecor = 0\<rparr>"

section \<open>Events\<close>

definition put_event_header :: "event \<Rightarrow> bytes \<Rightarrow> bytes" where
  "put_event_header e b =
    (let b = put_at 0 [magicEvent] b;
         b = put_at 1 [Version] b;
         b = put_at 2 [evKind e] b;
         b = (if evKind e = KindMouse then put_at 3 [evButton e] b else put_at 3 [evKey e] b);
         b = (if evKind e = KindTimer then put_at 4 (put_u32 (evCommandID e)) b
              else put_at 4 (put_u32 (evCh e)) b)
     in if evKind e = KindMouse then
          put_at 11 (put_u16 (u16_of_int (evMouseY e)))
            (put_at 9 (put_u16 (u16_of_int (evMouseX e))) (put_at 8 [evAction e] b))
        else
          put_at 11 (put_u16 (u16_of_int (evH e)))
            (put_at 9 (put_u16 (u16_of_int (evW e))) (put_at 8 [evMods e] b)))"

definition put_event_tail :: "event \<Rightarrow> bytes \<Rightarrow> bytes" where
  "put_event_tail e b =
    (let off = EventLen;
         b = put_at off (put_u16 (u16_of_len (length (evTopic e)))) b;
         off = off + 2;
         b = put_at off (evTopic e) b;
         off = off + length (evTopic e);
         b = put_at off (put_u32 (u32_of_len (length (evData e)))) b;
         off = off + 4
     in put_at off (evData e) b)"

definition AppendEvent :: "bytes \<Rightarrow> event \<Rightarrow> bytes" where
  "AppendEvent dst e =
    (let tail = (if evKind e = KindMessage then 2 + length (evTopic e) + 4 + length (evData e) else 0);
         b = put_event_header e (reuse 0 dst (EventLen + tail))
     in if evKind e = KindMessage then put_event_tail e b else b)"

definition EncodeEvent :: "event \<Rightarrow> bytes" where
  "EncodeEvent e = AppendEvent [] e"

definition decodeEventTail :: "bytes \<Rightarrow> event \<Rightarrow> event decoded" where
  "decodeEventTail b e =
    (let off = EventLen in
     if length b < off + 2 then Some (Inl ErrShort)
     else do {
       t \<leftarrow> gslice b off (off + 2) \<bind> get_u16;
       let tlen = unat t;
       let off = off + 2;
       if length b < off + tlen + 4 then Some (Inl ErrShort)
       else do {
         topic \<leftarrow> gslice b off (off + tlen);
         let off = off + tlen;
         d \<leftarrow> gslice b off (off + 4) \<bind> get_u32;
         let dlen = unat d;
         let off = off + 4;
         if length b < off + dlen then Some (Inl ErrShort)
         else if length b > off + dlen then Some (Inl ErrSize)
         else do {
           data \<leftarrow> gslice b off (off + dlen);
           Some (Inr (e\<lparr>evTopic := topic, evData := data\<rparr>))
         }
       }
     })"

text \<open>
  The event value built from the fixed header: the composite literal of
  \<open>DecodeEvent\<close> and the two adjustments for mouse and timer events.
\<close>

definition buildEvent :: "byte \<Rightarrow> byte \<Rightarrow> u32 \<Rightarrow> byte \<Rightarrow> u16 \<Rightarrow> u16 \<Rightarrow> event" where
  "buildEvent b2 b3 ch b8 w h =
    (let e = zero_event\<lparr>evKind := b2, evKey := b3, evCh := ch, evMods := b8,
               evW := uint w, evH := uint h\<rparr>;
         e = (if evKind e = KindMouse then
                e\<lparr>evButton := b3, evAction := b8, evMouseX := uint w, evMouseY := uint h,
                  evKey := 0, evMods := 0, evW := 0, evH := 0\<rparr>
              else e)
     in if evKind e = KindTimer then
          e\<lparr>evCommandID := ch, evKey := 0, evCh := 0, evMods := 0, evW := 0, evH := 0\<rparr>
        else e)"

definition DecodeEvent :: "bytes \<Rightarrow> event decoded" where
  "DecodeEvent b =
    (if length b < EventLen then Some (Inl ErrShort)
     else do {
       b0 \<leftarrow> index b 0;
       b1 \<leftarrow> index b 1;
       if b0 \<noteq> magicEvent then Some (Inl ErrMagic)
       else if b1 \<noteq> Version then Some (Inl ErrVersion)
       else do {
         b2 \<leftarrow> index b 2;
         b3 \<leftarrow> index b 3;
         ch \<leftarrow> gslice b 4 8 \<bind> get_u32;
         b8 \<leftarrow> index b 8;
         w \<leftarrow> gslice b 9 11 \<bind> get_u16;
         h \<leftarrow> gslice b 11 13 \<bind> get_u16;
         if b2 \<noteq> KindMessage then
           (if length b \<noteq> EventLen then Some (Inl ErrSize) else Some (Inr (buildEvent b2 b3 ch b8 w h)))
         else decodeEventTail b (buildEvent b2 b3 ch b8 w h)
       }
     })"

text \<open>
  The events the format carries without loss: the fields a kind does not use are
  zero, sizes and coordinates fit 16 bits, a topic fits its 16-bit and a payload
  its 32-bit length field.
\<close>

definition event_carried :: "event \<Rightarrow> bool" where
  "event_carried e \<longleftrightarrow>
     0 \<le> evW e \<and> evW e < 65536 \<and> 0 \<le> evH e \<and> evH e < 65536 \<and>
     (if evKind e = KindMouse
      then 0 \<le> evMouseX e \<and> evMouseX e < 65536 \<and> 0 \<le> evMouseY e \<and> evMouseY e < 65536 \<and>
        evKey e = 0 \<and> evMods e = 0 \<and> evW e = 0 \<and> evH e = 0
      else evMouseX e = 0 \<and> evMouseY e = 0 \<and> evButton e = 0 \<and> evAction e = 0) \<and>
     (if evKind e = KindTimer
      then evKey e = 0 \<and> evCh e = 0 \<and> evMods e = 0 \<and> evW e = 0 \<and> evH e = 0
      else evCommandID e = 0) \<and>
     (if evKind e = KindMessage
      then length (evTopic e) < 65536 \<and> length (evData e) < 4294967296
      else evTopic e = [] \<and> evData e = [])"

section \<open>Frames\<close>

fun put_cells :: "nat \<Rightarrow> cell list \<Rightarrow> bytes \<Rightarrow> bytes" where
  "put_cells off [] b = b"
| "put_cells off (c # cs) b =
     (let b = put_at off (put_u32 (cellCh c)) b;
          b = put_at (off + 4) [rgbR (cellFg c), rgbG (cellFg c), rgbB (cellFg c)] b;
          b = put_at (off + 7) [rgbR (cellBg c), rgbG (cellBg c), rgbB (cellBg c)] b;
          b = put_at (off + 10) [cellDecor c] b
      in put_cells (off + cellLen) cs b)"

definition AppendFrame :: "bytes \<Rightarrow> frame \<Rightarrow> bytes" where
  "AppendFrame dst f =
    (let b = reuse 0 dst (frameHeaderLen + length (frameCells f) * cellLen);
         b = put_at 0 [magicFrame] b;
         b = put_at 1 [Version] b;
         b = put_at 2 [0] b;
         b = (if frameQuit f then put_at 2 [flagQuit] b else b);
         b = put_at 3 [0] b;
         b = put_at 4 (put_u16 (u16_of_int (frameW f))) b;
         b = put_at 6 (put_u16 (u16_of_int (frameH f))) b
     in put_cells frameHeaderLen (frameCells f) b)"

definition EncodeFrame :: "frame \<Rightarrow> bytes" where
  "EncodeFrame f = AppendFrame [] f"

definition decode_cell :: "bytes \<Rightarrow> nat \<Rightarrow> cell option" where
  "decode_cell b off = do {
     ch \<leftarrow> gslice b off (off + 4) \<bind> get_u32;
     fr \<leftarrow> index b (off + 4); fg \<leftarrow> index b (off + 5); fb \<leftarrow> index b (off + 6);
     br \<leftarrow> index b (off + 7); bg \<leftarrow> index b (off + 8); bb \<leftarrow> index b (off + 9);
     d \<leftarrow> index b (off + 10);
     Some \<lparr>cellCh = ch, cellFg = \<lparr>rgbR = fr, rgbG = fg, rgbB = fb\<rparr>,
       cellBg = \<lparr>rgbR = br, rgbG = bg, rgbB = bb\<rparr>, cellDecor = d\<rparr>
   }"

text \<open>The loop \<^verbatim>\<open>for i := range dst\<close> overwrites every slot of the reused array.\<close>

fun fill_cells :: "bytes \<Rightarrow> nat \<Rightarrow> cell list \<Rightarrow> cell list option" where
  "fill_cells b off [] = Some []"
| "fill_cells b off (_ # slots) = do {
     c \<leftarrow> decode_cell b off;
     cs \<leftarrow> fill_cells b (off + cellLen) slots;
     Some (c # cs)
   }"

definition AppendDecodeFrame :: "cell list \<Rightarrow> bytes \<Rightarrow> (cell list \<times> (abi_error + frame)) option" where
  "AppendDecodeFrame dst b =
    (if length b < frameHeaderLen then Some (dst, Inl ErrShort)
     else do {
       b0 \<leftarrow> index b 0;
       b1 \<leftarrow> index b 1;
       if b0 \<noteq> magicFrame then Some (dst, Inl ErrMagic)
       else if b1 \<noteq> Version then Some (dst, Inl ErrVersion)
       else do {
         b2 \<leftarrow> index b 2;
         w \<leftarrow> gslice b 4 6 \<bind> get_u16;
         h \<leftarrow> gslice b 6 8 \<bind> get_u16;
         if unat w < 1 \<or> unat w > MaxFrameWidth \<or> unat h < 1 \<or> unat h > MaxFrameHeight
         then Some (dst, Inl ErrSize)
         else
           let n = unat w * unat h in
           if length b \<noteq> frameHeaderLen + n * cellLen then Some (dst, Inl ErrSize)
           else do {
             cells \<leftarrow> fill_cells b frameHeaderLen (reuse zero_cell dst n);
             Some (cells, Inr \<lparr>frameW = uint w, frameH = uint h,
               frameQuit = (b2 AND flagQuit \<noteq> 0), frameCells = cells\<rparr>)
           }
       }
     })"

definition DecodeFrame :: "bytes \<Rightarrow> frame decoded" where
  "DecodeFrame b = map_option snd (AppendDecodeFrame [] b)"

definition frame_carried :: "frame \<Rightarrow> bool" where
  "frame_carried f \<longleftrightarrow>
     1 \<le> frameW f \<and> frameW f \<le> int MaxFrameWidth \<and> 1 \<le> frameH f \<and> frameH f \<le> int MaxFrameHeight \<and>
     length (frameCells f) = nat (frameW f) * nat (frameH f)"


section \<open>Identities\<close>

record identity =
  idUser :: bytes
  idAuthenticated :: bool
  idKind :: byte
  idOwnsApp :: bool

definition EncodeIdentity :: "identity \<Rightarrow> bytes" where
  "EncodeIdentity i =
    (let u = (if length (idUser i) > AuthMaxUser then take AuthMaxUser (idUser i) else idUser i);
         b0 = (if idAuthenticated i then 1 else 0) :: byte;
         b0 = (if idOwnsApp i then b0 OR 2 else b0);
         b0 = b0 OR push_bit 2 (idKind i AND 3)
     in b0 # put_u16 (u16_of_len (length u)) @ u)"

definition DecodeIdentity :: "bytes \<Rightarrow> identity decoded" where
  "DecodeIdentity b =
    (if length b < 3 then Some (Inl ErrShort)
     else do {
       l \<leftarrow> gslice b 1 3 \<bind> get_u16;
       let ulen = unat l;
       if length b < 3 + ulen then Some (Inl ErrShort)
       else if length b > 3 + ulen then Some (Inl ErrSize)
       else do {
         b0 \<leftarrow> index b 0;
         user \<leftarrow> gslice b 3 (3 + ulen);
         Some (Inr \<lparr>idUser = user, idAuthenticated = (b0 AND 1 \<noteq> 0),
           idKind = drop_bit 2 b0 AND 3, idOwnsApp = (b0 AND 2 \<noteq> 0)\<rparr>)
       }
     })"

definition identity_carried :: "identity \<Rightarrow> bool" where
  "identity_carried i \<longleftrightarrow> length (idUser i) \<le> AuthMaxUser \<and> idKind i AND 3 = idKind i"

section \<open>Length-prefixed fields\<close>

definition appendU16 :: "bytes \<Rightarrow> int \<Rightarrow> bytes" where
  "appendU16 b n = b @ put_u16 (u16_of_int n)"

definition appendU32 :: "bytes \<Rightarrow> int \<Rightarrow> bytes" where
  "appendU32 b n = b @ put_u32 (u32_of_int n)"

text \<open>
  The result \<open>None\<close> is a panic, \<open>Some None\<close> the result \<^verbatim>\<open>ok = false\<close>.
\<close>

definition takeU16Bytes :: "bytes \<Rightarrow> (bytes \<times> bytes) option option" where
  "takeU16Bytes b =
    (if length b < 2 then Some None
     else do {
       w \<leftarrow> gslice b 0 2 \<bind> get_u16;
       let n = unat w;
       if length b < 2 + n then Some None
       else do {
         val \<leftarrow> gslice b 2 (2 + n);
         rest \<leftarrow> gslice b (2 + n) (length b);
         Some (Some (val, rest))
       }
     })"

definition takeU32Bytes :: "bytes \<Rightarrow> (bytes \<times> bytes) option option" where
  "takeU32Bytes b =
    (if length b < 4 then Some None
     else do {
       w \<leftarrow> gslice b 0 4 \<bind> get_u32;
       let n = unat w;
       if length b < 4 + n then Some None
       else do {
         val \<leftarrow> gslice b 4 (4 + n);
         rest \<leftarrow> gslice b (4 + n) (length b);
         Some (Some (val, rest))
       }
     })"

section \<open>Key lists\<close>

fun EncodeKVList :: "bytes list \<Rightarrow> bytes" where
  "EncodeKVList [] = []"
| "EncodeKVList (key # keys) = put_u16 (u16_of_len (length key)) @ key @ EncodeKVList keys"

function decodeKVListLoop :: "bytes list \<Rightarrow> bytes \<Rightarrow> bytes list decoded" where
  "decodeKVListLoop keys raw =
    (if length raw = 0 then Some (Inr keys)
     else if length raw < 2 then Some (Inl ErrKVList)
     else case gslice raw 0 2 \<bind> get_u16 of
       None \<Rightarrow> None
     | Some w \<Rightarrow>
         let n = unat w; raw' = drop 2 raw in
         if n = 0 \<or> n > KVMaxKey \<or> length raw' < n \<or> length keys \<ge> KVMaxList
         then Some (Inl ErrKVList)
         else decodeKVListLoop (keys @ [take n raw']) (drop n raw'))"
  by pat_completeness auto
termination by (relation "measure (\<lambda>(keys, raw). length raw)") auto

declare decodeKVListLoop.simps [simp del]

definition DecodeKVList :: "bytes \<Rightarrow> bytes list decoded" where
  "DecodeKVList raw = decodeKVListLoop [] raw"

definition kvlist_carried :: "bytes list \<Rightarrow> bool" where
  "kvlist_carried keys \<longleftrightarrow> length keys \<le> KVMaxList \<and> (\<forall>k \<in> set keys. k \<noteq> [] \<and> length k \<le> KVMaxKey)"

section \<open>Exec messages\<close>

record exec_request =
  exName :: bytes
  exArgs :: "bytes list"

record exec_response =
  exExitCode :: int
  exStdout :: bytes
  exStderr :: bytes

definition EncodeExecRequest :: "exec_request \<Rightarrow> bytes" where
  "EncodeExecRequest r =
    foldl (\<lambda>b arg. appendU32 b (int (length arg)) @ arg)
      (appendU32 (appendU32 [] (int (length (exName r))) @ exName r) (int (length (exArgs r))))
      (exArgs r)"

fun decodeExecArgs :: "nat \<Rightarrow> bytes list \<Rightarrow> bytes \<Rightarrow> (bytes list \<times> bytes) decoded" where
  "decodeExecArgs 0 args rest = Some (Inr (args, rest))"
| "decodeExecArgs (Suc n) args rest = do {
     r \<leftarrow> takeU32Bytes rest;
     case r of
       None \<Rightarrow> Some (Inl ErrShort)
     | Some (arg, next) \<Rightarrow>
         if length arg > ExecMaxArg then Some (Inl ErrShort)
         else decodeExecArgs n (args @ [arg]) next
   }"

definition DecodeExecRequest :: "bytes \<Rightarrow> exec_request decoded" where
  "DecodeExecRequest b = do {
     r \<leftarrow> takeU32Bytes b;
     case r of
       None \<Rightarrow> Some (Inl ErrShort)
     | Some (name, rest) \<Rightarrow>
         if length rest < 4 then Some (Inl ErrShort)
         else if length name > ExecMaxName then Some (Inl ErrShort)
         else do {
           w \<leftarrow> gslice rest 0 4 \<bind> get_u32;
           if unat w > ExecMaxArgs then Some (Inl ErrShort)
           else do {
             a \<leftarrow> decodeExecArgs (unat w) [] (drop 4 rest);
             case a of
               Inl e \<Rightarrow> Some (Inl e)
             | Inr (args, rest') \<Rightarrow>
                 if length rest' \<noteq> 0 then Some (Inl ErrShort)
                 else Some (Inr \<lparr>exName = name, exArgs = args\<rparr>)
           }
         }
   }"

definition exec_request_carried :: "exec_request \<Rightarrow> bool" where
  "exec_request_carried r \<longleftrightarrow> length (exName r) \<le> ExecMaxName \<and> length (exArgs r) \<le> ExecMaxArgs \<and>
     (\<forall>a \<in> set (exArgs r). length a \<le> ExecMaxArg)"

definition EncodeExecResponse :: "exec_response \<Rightarrow> bytes" where
  "EncodeExecResponse r =
     appendU32 (appendU32 (put_u32 (u32_of_int (exExitCode r))) (int (length (exStdout r))) @ exStdout r)
       (int (length (exStderr r))) @ exStderr r"

definition DecodeExecResponse :: "bytes \<Rightarrow> exec_response decoded" where
  "DecodeExecResponse b =
    (if length b < 4 then Some (Inl ErrShort)
     else do {
       w \<leftarrow> gslice b 0 4 \<bind> get_u32;
       r \<leftarrow> takeU32Bytes (drop 4 b);
       case r of
         None \<Rightarrow> Some (Inl ErrShort)
       | Some (out, rest) \<Rightarrow> do {
           r2 \<leftarrow> takeU32Bytes rest;
           case r2 of
             None \<Rightarrow> Some (Inl ErrShort)
           | Some (err, rest2) \<Rightarrow>
               if length rest2 \<noteq> 0 then Some (Inl ErrShort)
               else Some (Inr \<lparr>exExitCode = sint w, exStdout = out, exStderr = err\<rparr>)
         }
     })"

definition exec_response_carried :: "exec_response \<Rightarrow> bool" where
  "exec_response_carried r \<longleftrightarrow> - (2 ^ 31) \<le> exExitCode r \<and> exExitCode r < 2 ^ 31 \<and>
     length (exStdout r) < 4294967296 \<and> length (exStderr r) < 4294967296"

section \<open>Fetch messages\<close>

record fetch_request =
  feMethod :: bytes
  feURL :: bytes
  feBody :: bytes

record fetch_response =
  feStatus :: int
  feRespBody :: bytes

definition EncodeFetchRequest :: "fetch_request \<Rightarrow> bytes" where
  "EncodeFetchRequest r =
     appendU32 (appendU16 (appendU16 [] (int (length (feMethod r))) @ feMethod r)
       (int (length (feURL r))) @ feURL r) (int (length (feBody r))) @ feBody r"

definition DecodeFetchRequest :: "bytes \<Rightarrow> fetch_request decoded" where
  "DecodeFetchRequest b = do {
     r1 \<leftarrow> takeU16Bytes b;
     case r1 of
       None \<Rightarrow> Some (Inl ErrShort)
     | Some (meth, rest) \<Rightarrow> do {
         r2 \<leftarrow> takeU16Bytes rest;
         case r2 of
           None \<Rightarrow> Some (Inl ErrShort)
         | Some (urlb, rest2) \<Rightarrow> do {
             r3 \<leftarrow> takeU32Bytes rest2;
             case r3 of
               None \<Rightarrow> Some (Inl ErrShort)
             | Some (body, rest3) \<Rightarrow>
                 if length rest3 \<noteq> 0 then Some (Inl ErrShort)
                 else Some (Inr \<lparr>feMethod = meth, feURL = urlb, feBody = body\<rparr>)
           }
       }
   }"

definition fetch_request_carried :: "fetch_request \<Rightarrow> bool" where
  "fetch_request_carried r \<longleftrightarrow> length (feMethod r) < 65536 \<and> length (feURL r) < 65536 \<and>
     length (feBody r) < 4294967296"

definition EncodeFetchResponse :: "fetch_response \<Rightarrow> bytes" where
  "EncodeFetchResponse r =
     appendU32 (appendU16 [] (feStatus r)) (int (length (feRespBody r))) @ feRespBody r"

definition DecodeFetchResponse :: "bytes \<Rightarrow> fetch_response decoded" where
  "DecodeFetchResponse b =
    (if length b < 6 then Some (Inl ErrShort)
     else do {
       w \<leftarrow> gslice b 0 2 \<bind> get_u16;
       r \<leftarrow> takeU32Bytes (drop 2 b);
       case r of
         None \<Rightarrow> Some (Inl ErrShort)
       | Some (body, rest) \<Rightarrow>
           if length rest \<noteq> 0 then Some (Inl ErrShort)
           else Some (Inr \<lparr>feStatus = uint w, feRespBody = body\<rparr>)
     })"

definition fetch_response_carried :: "fetch_response \<Rightarrow> bool" where
  "fetch_response_carried r \<longleftrightarrow> 0 \<le> feStatus r \<and> feStatus r < 65536 \<and> length (feRespBody r) < 4294967296"

section \<open>Closed forms of the messages\<close>

text \<open>
  The byte layouts as the comments of the source give them, against which the
  buffer-writing encoders are verified.
\<close>

definition event_header :: "event \<Rightarrow> bytes" where
  "event_header e =
     [magicEvent, Version, evKind e, if evKind e = KindMouse then evButton e else evKey e] @
     put_u32 (if evKind e = KindTimer then evCommandID e else evCh e) @
     [if evKind e = KindMouse then evAction e else evMods e] @
     put_u16 (u16_of_int (if evKind e = KindMouse then evMouseX e else evW e)) @
     put_u16 (u16_of_int (if evKind e = KindMouse then evMouseY e else evH e))"

definition event_tail :: "event \<Rightarrow> bytes" where
  "event_tail e =
     (if evKind e = KindMessage
      then put_u16 (u16_of_len (length (evTopic e))) @ evTopic e @
        put_u32 (u32_of_len (length (evData e))) @ evData e
      else [])"

definition encode_cell :: "cell \<Rightarrow> bytes" where
  "encode_cell c = put_u32 (cellCh c) @
     [rgbR (cellFg c), rgbG (cellFg c), rgbB (cellFg c),
      rgbR (cellBg c), rgbG (cellBg c), rgbB (cellBg c), cellDecor c]"

definition frame_header :: "frame \<Rightarrow> bytes" where
  "frame_header f = [magicFrame, Version, if frameQuit f then flagQuit else 0, 0] @
     put_u16 (u16_of_int (frameW f)) @ put_u16 (u16_of_int (frameH f))"

definition encode_args :: "bytes list \<Rightarrow> bytes" where
  "encode_args args = concat (map (\<lambda>a. put_u32 (u32_of_len (length a)) @ a) args)"

section \<open>The encoders write the documented layouts\<close>

lemma put_at_snoc:
  "length pre = off \<Longrightarrow> length src \<le> length rest \<Longrightarrow> put_at off src (pre @ rest) = (pre @ src) @ drop (length src) rest"
  by (simp add: put_at_def)

lemma put_at_start:
  "length src \<le> length rest \<Longrightarrow> put_at 0 src rest = src @ drop (length src) rest"
  by (simp add: put_at_def)

lemma length_event_header [simp]: "length (event_header e) = EventLen"
  by (simp add: event_header_def const_defs)

lemma put_event_header_eq:
  "EventLen \<le> length b \<Longrightarrow> put_event_header e b = event_header e @ drop EventLen b"
  unfolding put_event_header_def Let_def event_header_def
  by (simp add: put_at_def const_defs)

lemma AppendEvent_eq: "AppendEvent dst e = event_header e @ event_tail e"
proof (cases "evKind e = KindMessage")
  case True
  let ?t = "put_u16 (u16_of_len (length (evTopic e)))"
    and ?d = "put_u32 (u32_of_len (length (evData e)))"
  have "put_event_tail e (event_header e @ rest) = event_header e @ ?t @ evTopic e @ ?d @ evData e"
    if "length rest = 2 + length (evTopic e) + 4 + length (evData e)" for rest
    using that put_at_snoc [of "event_header e" EventLen ?t rest]
      put_at_snoc [of "event_header e @ ?t" "EventLen + 2" "evTopic e" "drop 2 rest"]
      put_at_snoc [of "event_header e @ ?t @ evTopic e" "EventLen + 2 + length (evTopic e)" ?d
        "drop (2 + length (evTopic e)) rest"]
      put_at_snoc [of "event_header e @ ?t @ evTopic e @ ?d" "EventLen + 2 + length (evTopic e) + 4"
        "evData e" "drop (2 + length (evTopic e) + 4) rest"]
    by (simp add: put_event_tail_def Let_def add.commute)
  with True show ?thesis
    by (simp add: AppendEvent_def put_event_header_eq event_tail_def)
next
  case False
  then show ?thesis
    by (simp add: AppendEvent_def put_event_header_eq event_tail_def)
qed

lemma fill_cells_total:
  "off + length slots * cellLen \<le> length b \<Longrightarrow>
   \<exists>cs. fill_cells b off slots = Some cs \<and> length cs = length slots"
proof (induction slots arbitrary: off)
  case Nil
  then show ?case by simp
next
  case (Cons s slots)
  then have "off + cellLen + length slots * cellLen \<le> length b" by simp
  from Cons.IH [OF this] obtain cs where
    "fill_cells b (off + cellLen) slots = Some cs" "length cs = length slots" by blast
  with Cons.prems show ?case by (simp add: decode_cell_def const_defs)
qed

lemma length_encode_cell [simp]: "length (encode_cell c) = cellLen"
  by (simp add: encode_cell_def const_defs)

lemma length_concat_cells [simp]: "length (concat (map encode_cell cs)) = length cs * cellLen"
  by (induction cs) auto

lemma put_cells_eq:
  "length rest = length cs * cellLen \<Longrightarrow> length pre = off \<Longrightarrow>
   put_cells off cs (pre @ rest) = pre @ concat (map encode_cell cs)"
proof (induction cs arbitrary: off pre rest)
  case Nil
  then show ?case by simp
next
  case (Cons c cs)
  let ?rest = "drop cellLen rest"
  have step: "put_cells off (c # cs) (pre @ rest) = put_cells (off + cellLen) cs ((pre @ encode_cell c) @ ?rest)"
    using Cons.prems by (auto simp: Let_def put_at_def encode_cell_def const_defs)
  have "put_cells (off + cellLen) cs ((pre @ encode_cell c) @ ?rest)
    = (pre @ encode_cell c) @ concat (map encode_cell cs)"
    by (rule Cons.IH) (use Cons.prems in simp_all)
  with step show ?case by simp
qed

lemma length_frame_header [simp]: "length (frame_header f) = frameHeaderLen"
  by (simp add: frame_header_def const_defs)

lemma AppendFrame_eq: "AppendFrame dst f = frame_header f @ concat (map encode_cell (frameCells f))"
proof -
  let ?b = "reuse 0 dst (frameHeaderLen + length (frameCells f) * cellLen)"
  have "AppendFrame dst f = put_cells frameHeaderLen (frameCells f) (frame_header f @ drop 8 ?b)"
    unfolding AppendFrame_def Let_def frame_header_def
    by (simp add: put_at_def const_defs)
  then show ?thesis
    by (simp add: put_cells_eq frameHeaderLen_def)
qed

lemma decode_encode_cell: "length pre = off \<Longrightarrow> decode_cell (pre @ encode_cell c @ post) off = Some c"
  by (simp add: decode_cell_def encode_cell_def nth_append)

lemma fill_cells_concat:
  "length pre = off \<Longrightarrow> length slots = length cs \<Longrightarrow>
   fill_cells (pre @ concat (map encode_cell cs)) off slots = Some cs"
proof (induction cs arbitrary: off pre slots)
  case Nil
  then show ?case by simp
next
  case (Cons c cs)
  then obtain s slots' where s: "slots = s # slots'" by (cases slots) auto
  have "fill_cells ((pre @ encode_cell c) @ concat (map encode_cell cs)) (off + cellLen) slots' = Some cs"
    by (rule Cons.IH) (use Cons.prems s in simp_all)
  then show ?case using Cons.prems s by (simp add: decode_encode_cell)
qed

lemma decodeEventTail_no_panic: "\<exists>r. decodeEventTail b e = Some r"
proof (cases "length b < EventLen + 2")
  case True
  then show ?thesis by (simp add: decodeEventTail_def)
next
  case False
  define t where "t = (le_word (take 2 (drop EventLen b)) :: u16)"
  define d where "d = (le_word (take 4 (drop (EventLen + 2 + unat t) b)) :: u32)"
  from False have t: "gslice b EventLen (EventLen + 2) \<bind> get_u16 = Some t"
    unfolding t_def by (intro read_u16) simp_all
  show ?thesis
  proof (cases "length b < EventLen + 2 + unat t + 4")
    case True
    with False t show ?thesis by (simp add: decodeEventTail_def)
  next
    case len: False
    then have d: "gslice b (EventLen + 2 + unat t) (EventLen + 2 + unat t + 4) \<bind> get_u32 = Some d"
      unfolding d_def by (intro read_u32) simp_all
    have tp: "gslice b (EventLen + 2) (EventLen + 2 + unat t) = Some (take (unat t) (drop (EventLen + 2) b))"
      using len by (simp add: gslice_def)
    have eq: "decodeEventTail b e = 
       (let off = EventLen + 2 + unat t + 4 in if length b < off + unat d then Some (Inl ErrShort)
         else if length b > off + unat d then Some (Inl ErrSize)
         else do {
           data \<leftarrow> gslice b off (off + unat d);
           Some (Inr (e\<lparr>evTopic := take (unat t) (drop (EventLen + 2) b), evData := data\<rparr>))
         })"
      using False len unfolding decodeEventTail_def Let_def t d tp bind.bind_lunit by simp
    show ?thesis unfolding eq Let_def by simp
  qed
qed

lemma DecodeEvent_unfold:
  "EventLen \<le> length b \<Longrightarrow> DecodeEvent b =
    (if b ! 0 \<noteq> magicEvent then Some (Inl ErrMagic)
     else if b ! 1 \<noteq> Version then Some (Inl ErrVersion)
     else let e = buildEvent (b ! 2) (b ! 3) (le_word (take 4 (drop 4 b))) (b ! 8)
                    (le_word (take 2 (drop 9 b))) (le_word (take 2 (drop 11 b)))
       in if b ! 2 \<noteq> KindMessage then
            (if length b \<noteq> EventLen then Some (Inl ErrSize) else Some (Inr e))
          else decodeEventTail b e)"
  by (simp add: DecodeEvent_def EventLen_def reads)

lemma DecodeEvent_no_panic: "\<exists>r. DecodeEvent b = Some r"
proof (cases "length b < EventLen")
  case True
  then show ?thesis by (simp add: DecodeEvent_def)
next
  case False
  then show ?thesis
    using decodeEventTail_no_panic by (simp add: DecodeEvent_unfold Let_def)
qed

lemma AppendDecodeFrame_unfold:
  "frameHeaderLen \<le> length b \<Longrightarrow> AppendDecodeFrame dst b =
    (if b ! 0 \<noteq> magicFrame then Some (dst, Inl ErrMagic)
     else if b ! 1 \<noteq> Version then Some (dst, Inl ErrVersion)
     else let w = le_word (take 2 (drop 4 b)) :: u16; h = le_word (take 2 (drop 6 b)) :: u16 in
       if unat w < 1 \<or> unat w > MaxFrameWidth \<or> unat h < 1 \<or> unat h > MaxFrameHeight
       then Some (dst, Inl ErrSize)
       else if length b \<noteq> frameHeaderLen + unat w * unat h * cellLen then Some (dst, Inl ErrSize)
       else fill_cells b frameHeaderLen (reuse zero_cell dst (unat w * unat h)) \<bind>
         (\<lambda>cells. Some (cells, Inr \<lparr>frameW = uint w, frameH = uint h,
            frameQuit = (b ! 2 AND flagQuit \<noteq> 0), frameCells = cells\<rparr>)))"
  by (simp add: AppendDecodeFrame_def frameHeaderLen_def reads Let_def)

lemma returns_if:
  "(\<exists>r. (if c then Some x else m) = Some r) \<longleftrightarrow> c \<or> (\<exists>r. m = Some r)"
  by simp

lemma AppendDecodeFrame_no_panic: "\<exists>r. AppendDecodeFrame dst b = Some r"
proof (cases "length b < frameHeaderLen")
  case True
  then show ?thesis by (simp add: AppendDecodeFrame_def)
next
  case False
  define n where "n = unat (le_word (take 2 (drop 4 b)) :: u16) * unat (le_word (take 2 (drop 6 b)) :: u16)"
  have "\<exists>cs. fill_cells b frameHeaderLen (reuse zero_cell dst n) = Some cs"
    if "length b = frameHeaderLen + n * cellLen"
    using fill_cells_total [of frameHeaderLen "reuse zero_cell dst n" b] that by auto
  note fill = this
  show ?thesis
  proof (cases "length b = frameHeaderLen + n * cellLen")
    case True
    then obtain cs where "fill_cells b frameHeaderLen (reuse zero_cell dst n) = Some cs"
      using fill by blast
    then show ?thesis
      unfolding AppendDecodeFrame_unfold [OF False [unfolded not_less]] Let_def n_def [symmetric]
        returns_if by (simp only: Option.bind.bind_lunit) blast
  next
    case False
    then show ?thesis
      unfolding AppendDecodeFrame_unfold [OF \<open>\<not> length b < frameHeaderLen\<close> [unfolded not_less]]
        Let_def n_def [symmetric] returns_if by blast
  qed
qed

lemma event_header_reads:
  fixes e t defines "b \<equiv> event_header e @ t"
  shows "index b 0 = Some magicEvent" "index b 1 = Some Version" "index b 2 = Some (evKind e)"
    "index b 3 = Some (if evKind e = KindMouse then evButton e else evKey e)"
    "gslice b 4 8 = Some (put_u32 (if evKind e = KindTimer then evCommandID e else evCh e))"
    "index b 8 = Some (if evKind e = KindMouse then evAction e else evMods e)"
    "gslice b 9 11 = Some (put_u16 (u16_of_int (if evKind e = KindMouse then evMouseX e else evW e)))"
    "gslice b 11 13 = Some (put_u16 (u16_of_int (if evKind e = KindMouse then evMouseY e else evH e)))"
  unfolding b_def event_header_def
  by (simp_all add: index_def gslice_def nth_append nth_Cons')

lemma decodeEventTail_event_tail:
  "evKind m = KindMessage \<Longrightarrow> length (evTopic m) < 65536 \<Longrightarrow> length (evData m) < 4294967296 \<Longrightarrow>
   decodeEventTail (event_header m @ event_tail m) e = Some (Inr (e\<lparr>evTopic := evTopic m, evData := evData m\<rparr>))"
  by (simp add: decodeEventTail_def event_tail_def gslice_def Let_def)

lemma buildEvent_header:
  assumes "event_carried e"
  shows "(buildEvent (evKind e) (if evKind e = KindMouse then evButton e else evKey e)
      (if evKind e = KindTimer then evCommandID e else evCh e)
      (if evKind e = KindMouse then evAction e else evMods e)
      (u16_of_int (if evKind e = KindMouse then evMouseX e else evW e))
      (u16_of_int (if evKind e = KindMouse then evMouseY e else evH e)))
    \<lparr>evTopic := evTopic e, evData := evData e\<rparr> = e"
  using assms by (cases e) (auto simp: buildEvent_def zero_event_def event_carried_def const_defs Let_def)

lemma buildEvent_plain:
  "(buildEvent k b3 ch b8 w h)\<lparr>evTopic := [], evData := []\<rparr> = buildEvent k b3 ch b8 w h"
  by (simp add: buildEvent_def zero_event_def Let_def)

lemma event_round_trip:
  assumes "event_carried e"
  shows "DecodeEvent (EncodeEvent e) = Some (Inr e)"
proof (cases "evKind e = KindMessage")
  case True
  with assms have "length (evTopic e) < 65536" "length (evData e) < 4294967296"
    by (simp_all add: event_carried_def)
  with True buildEvent_header [OF assms] show ?thesis
    by (simp add: DecodeEvent_def EncodeEvent_def AppendEvent_eq event_header_reads
      decodeEventTail_event_tail del: One_nat_def)
next
  case False
  with assms have "evTopic e = []" "evData e = []" by (simp_all add: event_carried_def)
  with False buildEvent_header [OF assms] show ?thesis
    by (simp add: DecodeEvent_def EncodeEvent_def AppendEvent_eq event_tail_def
      event_header_reads [where t = "[]", unfolded append_Nil2] buildEvent_plain del: One_nat_def)
qed

lemma frame_header_reads:
  fixes f t defines "b \<equiv> frame_header f @ t"
  shows "index b 0 = Some magicFrame" "index b 1 = Some Version"
    "index b 2 = Some (if frameQuit f then flagQuit else 0)"
    "gslice b 4 6 = Some (put_u16 (u16_of_int (frameW f)))"
    "gslice b 6 8 = Some (put_u16 (u16_of_int (frameH f)))"
  unfolding b_def frame_header_def
  by (simp_all add: index_def gslice_def nth_append nth_Cons')

lemma unat_u16_of_int: "0 \<le> i \<Longrightarrow> i < 65536 \<Longrightarrow> unat (u16_of_int i) = nat i"
  by (simp add: unat_eq_nat_uint)

lemma AppendDecodeFrame_encode:
  assumes "frame_carried f"
  shows "AppendDecodeFrame dst (EncodeFrame f) = Some (frameCells f, Inr f)"
proof -
  have w: "1 \<le> frameW f" "frameW f \<le> 500" and h: "1 \<le> frameH f" "frameH f \<le> 300"
    and n: "length (frameCells f) = nat (frameW f) * nat (frameH f)"
    using assms by (auto simp: frame_carried_def const_defs)
  then have u: "unat (u16_of_int (frameW f)) = nat (frameW f)" "unat (u16_of_int (frameH f)) = nat (frameH f)"
    "uint (u16_of_int (frameW f)) = frameW f" "uint (u16_of_int (frameH f)) = frameH f"
    by (simp_all add: unat_u16_of_int)
  have fill: "fill_cells (frame_header f @ concat (map encode_cell (frameCells f))) frameHeaderLen
      (reuse zero_cell dst (nat (frameW f) * nat (frameH f))) = Some (frameCells f)"
    by (rule fill_cells_concat) (simp_all add: n)
  show ?thesis using w h u n fill
    by (simp add: AppendDecodeFrame_def EncodeFrame_def AppendFrame_eq frame_header_reads Let_def
        MaxFrameWidth_def MaxFrameHeight_def del: One_nat_def) (auto simp: flagQuit_def)
qed


section \<open>Length-prefixed messages: no panic, round trip\<close>

lemma takeU16Bytes_eq:
  "takeU16Bytes b = Some (if length b < 2 \<or> length b < 2 + unat (le_word (take 2 b) :: u16) then None
     else Some (take (unat (le_word (take 2 b) :: u16)) (drop 2 b), drop (2 + unat (le_word (take 2 b) :: u16)) b))"
  by (auto simp: takeU16Bytes_def read_u16 Let_def gslice_def)

lemma takeU32Bytes_eq:
  "takeU32Bytes b = Some (if length b < 4 \<or> length b < 4 + unat (le_word (take 4 b) :: u32) then None
     else Some (take (unat (le_word (take 4 b) :: u32)) (drop 4 b), drop (4 + unat (le_word (take 4 b) :: u32)) b))"
  by (auto simp: takeU32Bytes_def read_u32 Let_def gslice_def)

lemma le_word_put [simp]:
  "le_word (put_u16 v) = v" "le_word (put_u32 w) = w"
  by (simp_all add: put_u16_def put_u32_def le_word_le_bytes take_bit_word_eq_self)

lemma takeU16Bytes_put:
  "length v < 65536 \<Longrightarrow> takeU16Bytes (put_u16 (u16_of_len (length v)) @ v @ rest) = Some (Some (v, rest))"
  by (simp add: takeU16Bytes_eq)

lemma takeU32Bytes_put:
  "length v < 4294967296 \<Longrightarrow> takeU32Bytes (put_u32 (u32_of_len (length v)) @ v @ rest) = Some (Some (v, rest))"
  by (simp add: takeU32Bytes_eq)

lemmas takeBytes_put = takeU16Bytes_put takeU32Bytes_put
  takeU16Bytes_put [where rest = "[]", unfolded append_Nil2]
  takeU32Bytes_put [where rest = "[]", unfolded append_Nil2]

lemma takeBytes_no_panic: "\<exists>r. takeU16Bytes b = Some r" "\<exists>r. takeU32Bytes b = Some r"
  by (simp_all add: takeU16Bytes_eq takeU32Bytes_eq)

lemma fetch_request_round_trip:
  "fetch_request_carried r \<Longrightarrow> DecodeFetchRequest (EncodeFetchRequest r) = Some (Inr r)"
  by (cases r) (simp add: fetch_request_carried_def DecodeFetchRequest_def EncodeFetchRequest_def
      appendU16_def appendU32_def takeBytes_put)

lemma DecodeFetchRequest_no_panic: "\<exists>r. DecodeFetchRequest b = Some r"
  by (simp add: DecodeFetchRequest_def takeU16Bytes_eq takeU32Bytes_eq split: option.split prod.split)

lemma fetch_response_round_trip:
  "fetch_response_carried r \<Longrightarrow> DecodeFetchResponse (EncodeFetchResponse r) = Some (Inr r)"
  by (cases r) (simp add: fetch_response_carried_def DecodeFetchResponse_def EncodeFetchResponse_def
      appendU16_def appendU32_def takeBytes_put read_u16)

lemma DecodeFetchResponse_no_panic: "\<exists>r. DecodeFetchResponse b = Some r"
  by (simp add: DecodeFetchResponse_def takeU32Bytes_eq read_u16 split: option.split prod.split)

lemma sint_u32_of_int: "- (2 ^ 31) \<le> i \<Longrightarrow> i < 2 ^ 31 \<Longrightarrow> sint (u32_of_int i) = i"
  by (simp add: signed_of_int signed_take_bit_int_eq_self)

lemma exec_response_round_trip:
  "exec_response_carried r \<Longrightarrow> DecodeExecResponse (EncodeExecResponse r) = Some (Inr r)"
  by (cases r) (simp add: exec_response_carried_def DecodeExecResponse_def EncodeExecResponse_def
      appendU32_def takeBytes_put read_u32 sint_u32_of_int)

lemma DecodeExecResponse_no_panic: "\<exists>r. DecodeExecResponse b = Some r"
  by (simp add: DecodeExecResponse_def takeU32Bytes_eq read_u32 split: option.split prod.split)


lemma decodeExecArgs_no_panic: "\<exists>r. decodeExecArgs n args rest = Some r"
  by (induction n arbitrary: args rest) (auto simp: takeU32Bytes_eq split: option.split prod.split)

lemma DecodeExecRequest_no_panic: "\<exists>r. DecodeExecRequest b = Some r"
proof (cases "takeU32Bytes b")
  case None
  then show ?thesis using takeBytes_no_panic(2) [of b] by simp
next
  case (Some r)
  show ?thesis
  proof (cases r)
    case None
    with Some show ?thesis by (simp add: DecodeExecRequest_def)
  next
    case r: (Some p)
    obtain name rest where p: "p = (name, rest)" by (cases p)
    obtain x where "decodeExecArgs (unat (le_word (take 4 rest) :: u32)) [] (drop 4 rest) = Some x"
      using decodeExecArgs_no_panic by blast
    with Some r p show ?thesis
      by (cases x) (auto simp: DecodeExecRequest_def read_u32 split: if_split prod.split)
  qed
qed

lemma EncodeExecRequest_eq:
  "EncodeExecRequest r = put_u32 (u32_of_len (length (exName r))) @ exName r @
     put_u32 (u32_of_len (length (exArgs r))) @ encode_args (exArgs r)"
proof -
  have "foldl (\<lambda>b arg. appendU32 b (int (length arg)) @ arg) b args = b @ encode_args args" for b args
    by (induction args arbitrary: b) (simp_all add: appendU32_def encode_args_def)
  then show ?thesis by (simp add: EncodeExecRequest_def appendU32_def)
qed

lemma decodeExecArgs_encode:
  "\<forall>a \<in> set args. length a \<le> ExecMaxArg \<Longrightarrow>
   decodeExecArgs (length args) acc (encode_args args @ rest) = Some (Inr (acc @ args, rest))"
proof (induction args arbitrary: acc)
  case Nil
  then show ?case by (simp add: encode_args_def)
next
  case (Cons a args)
  then have "length a < 4294967296" by (simp add: const_defs)
  then have "takeU32Bytes (encode_args (a # args) @ rest) = Some (Some (a, encode_args args @ rest))"
    by (simp add: encode_args_def takeU32Bytes_put)
  with Cons show ?case by simp
qed

lemma exec_request_round_trip:
  assumes "exec_request_carried r"
  shows "DecodeExecRequest (EncodeExecRequest r) = Some (Inr r)"
proof -
  from assms have len: "length (exName r) < 4294967296" "length (exArgs r) < 4294967296"
    "length (exName r) \<le> ExecMaxName" "length (exArgs r) \<le> ExecMaxArgs"
    "\<forall>a \<in> set (exArgs r). length a \<le> ExecMaxArg"
    by (auto simp: exec_request_carried_def const_defs)
  have "decodeExecArgs (length (exArgs r)) [] (encode_args (exArgs r)) = Some (Inr (exArgs r, []))"
    using decodeExecArgs_encode [OF len(5), of "[]" "[]"] by simp
  with len show ?thesis
    by (simp add: DecodeExecRequest_def EncodeExecRequest_eq takeU32Bytes_put read_u32)
qed

lemma decodeKVListLoop_step:
  assumes "2 \<le> length raw"
  shows "decodeKVListLoop keys raw =
    (let n = unat (le_word (take 2 raw) :: u16); raw' = drop 2 raw in
     if n = 0 \<or> n > KVMaxKey \<or> length raw' < n \<or> length keys \<ge> KVMaxList then Some (Inl ErrKVList)
     else decodeKVListLoop (keys @ [take n raw']) (drop n raw'))"
proof -
  have "length raw \<noteq> 0" "\<not> length raw < 2" using assms by auto
  moreover have "gslice raw 0 2 \<bind> get_u16 = Some (le_word (take 2 raw))"
    using read_u16 [of 2 0 raw] assms by simp
  ultimately show ?thesis
    by (subst decodeKVListLoop.simps) (simp only: if_False option.case)
qed

lemma decodeKVListLoop_short:
  "length raw < 2 \<Longrightarrow> decodeKVListLoop keys raw = (if raw = [] then Some (Inr keys) else Some (Inl ErrKVList))"
  by (subst decodeKVListLoop.simps) simp

lemma decodeKVListLoop_result:
  "\<exists>r. decodeKVListLoop keys raw = Some r \<and>
     (length keys \<le> KVMaxList \<longrightarrow> (\<forall>k \<in> set keys. k \<noteq> [] \<and> length k \<le> KVMaxKey) \<longrightarrow>
      (\<forall>ks. r = Inr ks \<longrightarrow> kvlist_carried ks))"
proof (induction raw arbitrary: keys rule: measure_induct_rule [of length])
  case (less raw)
  show ?case
  proof (cases "length raw < 2")
    case True
    then show ?thesis by (auto simp: decodeKVListLoop_short kvlist_carried_def)
  next
    case False
    define n where "n = unat (le_word (take 2 raw) :: u16)"
    note step = decodeKVListLoop_step [OF False [unfolded not_less], of keys, folded n_def, unfolded Let_def]
    show ?thesis
    proof (cases "n = 0 \<or> n > KVMaxKey \<or> length (drop 2 raw) < n \<or> length keys \<ge> KVMaxList")
      case True
      then show ?thesis unfolding step by (simp only: if_True) blast
    next
      case ok: False
      have "length (drop n (drop 2 raw)) < length raw" using False by simp
      from less.IH [OF this, of "keys @ [take n (drop 2 raw)]"]
      show ?thesis unfolding step using ok by (simp only: if_False) fastforce
    qed
  qed
qed

lemma decodeKVListLoop_encode:
  "\<forall>k \<in> set keys. k \<noteq> [] \<and> length k \<le> KVMaxKey \<Longrightarrow> length acc + length keys \<le> KVMaxList \<Longrightarrow>
   decodeKVListLoop acc (EncodeKVList keys) = Some (Inr (acc @ keys))"
proof (induction keys arbitrary: acc)
  case Nil
  then show ?case by (simp add: decodeKVListLoop.simps)
next
  case (Cons k keys)
  have k: "k \<noteq> []" "length k \<le> KVMaxKey" "length k < 65536"
    using Cons.prems by (auto simp: const_defs)
  have rd: "gslice (EncodeKVList (k # keys)) 0 2 \<bind> get_u16 = Some (u16_of_len (length k))"
    by (simp add: gslice_def)
  have "decodeKVListLoop acc (EncodeKVList (k # keys)) = decodeKVListLoop (acc @ [k]) (EncodeKVList keys)"
    using k Cons.prems(2) by (subst decodeKVListLoop.simps) (simp add: rd [unfolded EncodeKVList.simps])
  also have "\<dots> = Some (Inr ((acc @ [k]) @ keys))"
    by (rule Cons.IH) (use Cons.prems in auto)
  finally show ?case by simp
qed

lemma DecodeKVList_no_panic: "\<exists>r. DecodeKVList raw = Some r"
  using decodeKVListLoop_result by (fastforce simp: DecodeKVList_def)

lemma DecodeKVList_bounded: "DecodeKVList raw = Some (Inr ks) \<Longrightarrow> kvlist_carried ks"
  using decodeKVListLoop_result [of "[]" raw] by (auto simp: DecodeKVList_def)

lemma DecodeIdentity_no_panic: "\<exists>r. DecodeIdentity b = Some r"
proof (cases "length b < 3")
  case True
  then show ?thesis by (simp add: DecodeIdentity_def)
next
  case False
  define n where "n = unat (le_word (take 2 (drop 1 b)) :: u16)"
  have "DecodeIdentity b = (if length b < 3 + n then Some (Inl ErrShort)
       else if length b > 3 + n then Some (Inl ErrSize)
       else Some (Inr \<lparr>idUser = take n (drop 3 b), idAuthenticated = (b ! 0 AND 1 \<noteq> 0),
           idKind = drop_bit 2 (b ! 0) AND 3, idOwnsApp = (b ! 0 AND 2 \<noteq> 0)\<rparr>))"
    using False by (simp add: DecodeIdentity_def reads Let_def n_def [symmetric] del: One_nat_def)
  then show ?thesis by simp
qed

lemma two_bit_cases: "(k :: byte) AND 3 = k \<Longrightarrow> k = 0 \<or> k = 1 \<or> k = 2 \<or> k = 3"
proof -
  assume "k AND 3 = k"
  then have "take_bit 2 k = k" by (simp add: take_bit_eq_mask mask_numeral)
  then have "unat k < 4"
    by (metis take_bit_nat_less_exp unsigned_take_bit_eq power2_eq_square mult_2 numeral_Bit0)
  then have "unat k = 0 \<or> unat k = 1 \<or> unat k = 2 \<or> unat k = 3" by linarith
  then show ?thesis by (simp add: word_unat_eq_iff)
qed

lemma identity_round_trip:
  assumes "identity_carried i"
  shows "DecodeIdentity (EncodeIdentity i) = Some (Inr i)"
proof -
  from assms have u: "length (idUser i) \<le> AuthMaxUser" "length (idUser i) < 65536"
    and k: "idKind i = 0 \<or> idKind i = 1 \<or> idKind i = 2 \<or> idKind i = 3"
    using two_bit_cases [of "idKind i"] by (auto simp: identity_carried_def const_defs)
  show ?thesis using u k
    by (cases i; cases "idAuthenticated i"; cases "idOwnsApp i")
      (auto simp: DecodeIdentity_def EncodeIdentity_def Let_def gslice_def index_def)
qed

section \<open>The codecs as instances of the interface\<close>

lemma guarded_result_cases:
  assumes "(if c1 then Some (d, Inl e1) else if c2 then Some (d, Inl e2) else if c3 then Some (d, Inl e3)
      else if c4 then Some (d, Inl e4) else m \<bind> (\<lambda>cs. Some (cs, Inr (g cs)))) = Some (cells, r)"
  shows "(\<exists>e. r = Inl e \<and> cells = d) \<or> \<not> c3 \<and> \<not> c4 \<and> m = Some cells \<and> r = Inr (g cells)"
  using assms by (auto split: if_splits Option.bind_splits)

lemma frame_carriedI:
  "1 \<le> x \<Longrightarrow> x \<le> MaxFrameWidth \<Longrightarrow> 1 \<le> y \<Longrightarrow> y \<le> MaxFrameHeight \<Longrightarrow> length cs = x * y \<Longrightarrow>
   frame_carried \<lparr>frameW = int x, frameH = int y, frameQuit = q, frameCells = cs\<rparr>"
  by (simp add: frame_carried_def)

lemma AppendDecodeFrame_cases:
  assumes "AppendDecodeFrame dst b = Some (cells, r)"
  shows "(\<exists>e. r = Inl e \<and> cells = dst) \<or> (\<exists>f. r = Inr f \<and> frame_carried f \<and> frameCells f = cells)"
proof (cases "length b < frameHeaderLen")
  case True
  with assms show ?thesis by (auto simp: AppendDecodeFrame_def)
next
  case False
  define w where "w = (le_word (take 2 (drop 4 b)) :: u16)"
  define h where "h = (le_word (take 2 (drop 6 b)) :: u16)"
  note cases = guarded_result_cases [OF assms [unfolded AppendDecodeFrame_unfold [OF False [unfolded not_less]] Let_def,
      folded w_def h_def]]
  show ?thesis
  proof (cases "\<exists>e. r = Inl e \<and> cells = dst")
    case True
    then show ?thesis ..
  next
    case False
    with cases have wh: "\<not> (unat w < 1 \<or> MaxFrameWidth < unat w \<or> unat h < 1 \<or> MaxFrameHeight < unat h)"
      and len: "length b = frameHeaderLen + unat w * unat h * cellLen"
      and fill: "fill_cells b frameHeaderLen (reuse zero_cell dst (unat w * unat h)) = Some cells"
      and r: "r = Inr \<lparr>frameW = uint w, frameH = uint h, frameQuit = (b ! 2 AND flagQuit \<noteq> 0), frameCells = cells\<rparr>"
      by blast+
    have "length cells = length (reuse zero_cell dst (unat w * unat h))"
      using fill_cells_total [of frameHeaderLen "reuse zero_cell dst (unat w * unat h)" b]
      unfolding len fill length_reuse by blast
    then have "length cells = unat w * unat h" by (simp only: length_reuse)
    with wh have "frame_carried \<lparr>frameW = int (unat w), frameH = int (unat h),
        frameQuit = (b ! 2 AND flagQuit \<noteq> 0), frameCells = cells\<rparr>"
      by (intro frame_carriedI) linarith+
    then show ?thesis unfolding r by simp
  qed
qed

lemma DecodeFrame_no_panic: "\<exists>r. DecodeFrame b = Some r"
  using AppendDecodeFrame_no_panic [of "[]" b] by (auto simp: DecodeFrame_def)

lemma frame_round_trip: "frame_carried f \<Longrightarrow> DecodeFrame (EncodeFrame f) = Some (Inr f)"
  by (simp add: DecodeFrame_def AppendDecodeFrame_encode)

interpretation event_wire: wire_codec EncodeEvent DecodeEvent event_carried
  using DecodeEvent_no_panic by unfold_locales (auto simp: event_round_trip)

interpretation frame_wire: wire_codec EncodeFrame DecodeFrame frame_carried
  using DecodeFrame_no_panic by unfold_locales (auto simp: frame_round_trip)

interpretation identity_wire: wire_codec EncodeIdentity DecodeIdentity identity_carried
  using DecodeIdentity_no_panic by unfold_locales (auto simp: identity_round_trip)

interpretation kvlist_wire: wire_codec EncodeKVList DecodeKVList kvlist_carried
  using DecodeKVList_no_panic decodeKVListLoop_encode [where acc = "[]"]
  by unfold_locales (auto simp: kvlist_carried_def DecodeKVList_def)

interpretation exec_request_wire: wire_codec EncodeExecRequest DecodeExecRequest exec_request_carried
  using DecodeExecRequest_no_panic by unfold_locales (auto simp: exec_request_round_trip)

interpretation exec_response_wire: wire_codec EncodeExecResponse DecodeExecResponse exec_response_carried
  using DecodeExecResponse_no_panic by unfold_locales (auto simp: exec_response_round_trip)

interpretation fetch_request_wire: wire_codec EncodeFetchRequest DecodeFetchRequest fetch_request_carried
  using DecodeFetchRequest_no_panic by unfold_locales (auto simp: fetch_request_round_trip)

interpretation fetch_response_wire: wire_codec EncodeFetchResponse DecodeFetchResponse fetch_response_carried
  using DecodeFetchResponse_no_panic by unfold_locales (auto simp: fetch_response_round_trip)

section \<open>Properties\<close>

text \<open>
  C1: a frame within the terminal limits survives the wire, whatever stale
  bytes the guest's reused output buffer and whatever stale cells the host's
  reused cell array hold: the host decodes exactly the frame the guest encoded.
\<close>

theorem frame_survives_reused_buffers:
  "frame_carried f \<Longrightarrow> AppendDecodeFrame dst (AppendFrame buf f) = Some (frameCells f, Inr f)"
  using AppendDecodeFrame_encode [of f dst] by (simp add: EncodeFrame_def AppendFrame_eq)

theorem frame_survives_reused_buffers_witness:
  "AppendDecodeFrame [zero_cell, zero_cell]
     (AppendFrame [9, 9, 9] \<lparr>frameW = 1, frameH = 1, frameQuit = True, frameCells = [zero_cell]\<rparr>)
   = Some ([zero_cell], Inr \<lparr>frameW = 1, frameH = 1, frameQuit = True, frameCells = [zero_cell]\<rparr>)"
  using frame_survives_reused_buffers
    [of "\<lparr>frameW = 1, frameH = 1, frameQuit = True, frameCells = [zero_cell]\<rparr>"
      "[zero_cell, zero_cell]" "[9, 9, 9]"]
  by (simp add: frame_carried_def const_defs)

text \<open>
  C2: decoding a frame of a hostile guest never panics, and every frame that the
  decoder accepts is within the terminal limits and has exactly one cell per
  grid position, all stored in the returned array.
\<close>

theorem hostile_frame_safe:
  "\<exists>cells r. AppendDecodeFrame dst b = Some (cells, r) \<and>
     (case r of Inl e \<Rightarrow> cells = dst | Inr f \<Rightarrow> frame_carried f \<and> frameCells f = cells)"
proof -
  obtain cells r where eq: "AppendDecodeFrame dst b = Some (cells, r)"
    using AppendDecodeFrame_no_panic [of dst b] by auto
  with AppendDecodeFrame_cases [OF eq] show ?thesis by auto
qed

text \<open>
  C3: an input event survives the wire: for every event whose unused fields are
  zero and whose sizes fit the format, decoding what the host encoded into any
  reused buffer yields the event.
\<close>

theorem event_survives_reused_buffer:
  "event_carried e \<Longrightarrow> DecodeEvent (AppendEvent buf e) = Some (Inr e)"
  using event_wire.round_trip [of e] by (simp add: EncodeEvent_def AppendEvent_eq)

theorem event_survives_reused_buffer_witness:
  "DecodeEvent (AppendEvent [7, 7] (zero_event\<lparr>evKind := KindMessage, evTopic := [104, 105], evData := [1, 2, 3]\<rparr>))
   = Some (Inr (zero_event\<lparr>evKind := KindMessage, evTopic := [104, 105], evData := [1, 2, 3]\<rparr>))"
  using event_survives_reused_buffer
    [of "zero_event\<lparr>evKind := KindMessage, evTopic := [104, 105], evData := [1, 2, 3]\<rparr>" "[7, 7]"]
  by (simp add: event_carried_def zero_event_def const_defs)


text \<open>
  The exec request codec is exact: the host decodes every request within the caps
  from its encoding.
\<close>

theorem exec_request_exact:
  assumes "exec_request_carried r"
  shows "DecodeExecRequest (EncodeExecRequest r) = Some (Inr r)"
  by (rule exec_request_wire.round_trip [OF assms])

theorem exec_request_exact_witness:
  "DecodeExecRequest (EncodeExecRequest \<lparr>exName = [108, 115], exArgs = [[45, 97], []]\<rparr>)
   = Some (Inr \<lparr>exName = [108, 115], exArgs = [[45, 97], []]\<rparr>)"
  by (rule exec_request_exact) (simp add: exec_request_carried_def const_defs)

text \<open>
  C6: the key list codec: every list the decoder accepts has at most
  \<open>KVMaxList\<close> keys, each of 1 to \<open>KVMaxKey\<close> bytes, and every such list is
  decoded from its encoding; so the accepted lists are exactly the bounded ones.
\<close>

theorem kvlist_accepts_exactly_bounded:
  "(\<exists>raw. DecodeKVList raw = Some (Inr ks)) \<longleftrightarrow> kvlist_carried ks"
  using DecodeKVList_bounded kvlist_wire.round_trip by blast

end
