(* ===== verification/Kv_Store.thy ===== *)
theory Kv_Store
  imports Abi_Codec "HOL-Library.AList" "HOL-Library.List_Lexorder"
begin

text \<open>
  The per-app key/value capability of \<^verbatim>\<open>src/internal/runner/kv.go\<close>: the
  contract of the \<open>Store\<close> interface as the locale \<open>kv_store\<close>, the in-memory
  store with its quotas, the file-backed store with its rollback on a failed
  write, and the host functions through which a guest reaches a store.
  A Go map is an association list with distinct keys (its order is never
  observable: listings are sorted). SHA-256 is the parameter \<open>sha\<close>, and
  the guest's linear memory is given by its two operations \<open>rd\<close> and \<open>wr\<close>.
\<close>

section \<open>Data\<close>

type_synonym kvmap = "(bytes \<times> bytes) list"

datatype kv_error = ErrQuota | ErrConflict | ErrListLimit | ErrIO | ErrRPC

record memstore =
  msM :: kvmap
  msBytes :: int
  msMaxKeys :: int
  msMaxBytes :: int

definition zero_hash :: bytes where
  "zero_hash = replicate KVHashSize 0"

text \<open>\<open>sort.Strings\<close> then the truncation to \<open>limit\<close>.\<close>

definition listing :: "bytes list \<Rightarrow> bytes \<Rightarrow> nat \<Rightarrow> bytes list" where
  "listing keys p limit = take limit (sort (filter (\<lambda>k. has_prefix k p) keys))"

section \<open>MemStore\<close>

definition NewMemStore :: "int \<Rightarrow> int \<Rightarrow> memstore" where
  "NewMemStore maxKeys maxBytes =
     \<lparr>msM = [], msBytes = 0, msMaxKeys = maxKeys, msMaxBytes = maxBytes\<rparr>"

definition memGet :: "memstore \<Rightarrow> bytes \<Rightarrow> bytes option" where
  "memGet s key = map_of (msM s) key"

definition memSet :: "memstore \<Rightarrow> bytes \<Rightarrow> bytes \<Rightarrow> kv_error option \<times> memstore" where
  "memSet s key value =
    (let prev = map_of (msM s) key;
         existed = (prev \<noteq> None);
         newBytes = msBytes s + int (length value) - int (length (case prev of None \<Rightarrow> [] | Some p \<Rightarrow> p));
         newBytes = (if \<not> existed then newBytes + int (length key) else newBytes)
     in if \<not> existed \<and> msMaxKeys s > 0 \<and> int (length (msM s)) + 1 > msMaxKeys s then (Some ErrQuota, s)
        else if msMaxBytes s > 0 \<and> newBytes > msMaxBytes s then (Some ErrQuota, s)
        else (None, s\<lparr>msM := AList.update key value (msM s), msBytes := newBytes\<rparr>))"

definition memDelete :: "memstore \<Rightarrow> bytes \<Rightarrow> kv_error option \<times> memstore" where
  "memDelete s key =
    (case map_of (msM s) key of
       Some v \<Rightarrow> (None, s\<lparr>msBytes := msBytes s - (int (length key) + int (length v)),
                      msM := AList.delete key (msM s)\<rparr>)
     | None \<Rightarrow> (None, s))"

definition memList :: "memstore \<Rightarrow> bytes \<Rightarrow> int \<Rightarrow> kv_error + bytes list" where
  "memList s p limit =
    (if limit < 1 \<or> limit > int KVMaxList then Inl ErrListLimit
     else Inr (listing (map fst (msM s)) p (nat limit)))"

definition memCompareAndSwap ::
  "(bytes \<Rightarrow> bytes) \<Rightarrow> memstore \<Rightarrow> bytes \<Rightarrow> bytes \<Rightarrow> bytes \<Rightarrow> kv_error option \<times> memstore" where
  "memCompareAndSwap sha s key expected value =
    (let previous = map_of (msM s) key;
         existed = (previous \<noteq> None);
         actual = (case previous of None \<Rightarrow> zero_hash | Some p \<Rightarrow> sha p)
     in if actual \<noteq> expected then (Some ErrConflict, s)
        else
          let newBytes = msBytes s + int (length value)
                - int (length (case previous of None \<Rightarrow> [] | Some p \<Rightarrow> p));
              newBytes = (if \<not> existed then newBytes + int (length key) else newBytes)
          in if \<not> existed \<and> msMaxKeys s > 0 \<and> int (length (msM s)) + 1 > msMaxKeys s then (Some ErrQuota, s)
             else if msMaxBytes s > 0 \<and> newBytes > msMaxBytes s then (Some ErrQuota, s)
             else (None, s\<lparr>msM := AList.update key value (msM s), msBytes := newBytes\<rparr>))"

section \<open>FileStore\<close>

text \<open>
  The file-backed store: a \<open>memstore\<close> and the contents of its file (\<open>None\<close>
  when the file does not exist). \<open>enc\<close> and \<open>dec\<close> stand for the JSON encoding of
  the map. A persist attempt takes the outcome of the operating system: the
  directory, write and rename steps can each fail, and only the rename changes
  the file.
\<close>

datatype persist_io = MkdirFails | WriteFails | RenameFails | PersistOk

record filestore =
  fsMem :: memstore
  fsFile :: "bytes option"

definition file_bytes :: "kvmap \<Rightarrow> int" where
  "file_bytes raw = (\<Sum>(k, v) \<leftarrow> raw. int (length k) + int (length v))"

definition NewFileStore ::
  "(bytes \<Rightarrow> kvmap option) \<Rightarrow> bytes option \<Rightarrow> int \<Rightarrow> int \<Rightarrow> filestore option" where
  "NewFileStore dec file maxKeys maxBytes =
    (let ms = NewMemStore maxKeys maxBytes in
     case file of
       None \<Rightarrow> Some \<lparr>fsMem = ms, fsFile = None\<rparr>
     | Some data \<Rightarrow>
         (case dec data of
            None \<Rightarrow> None
          | Some raw \<Rightarrow> Some \<lparr>fsMem = ms\<lparr>msM := raw, msBytes := file_bytes raw\<rparr>, fsFile = Some data\<rparr>))"

definition persistLocked :: "(kvmap \<Rightarrow> bytes) \<Rightarrow> persist_io \<Rightarrow> filestore \<Rightarrow> kv_error option \<times> filestore" where
  "persistLocked enc io s =
    (let data = enc (msM (fsMem s)) in
     case io of
       MkdirFails \<Rightarrow> (Some ErrIO, s)
     | WriteFails \<Rightarrow> (Some ErrIO, s)
     | RenameFails \<Rightarrow> (Some ErrIO, s)
     | PersistOk \<Rightarrow> (None, s\<lparr>fsFile := Some data\<rparr>))"

text \<open>The entry restored after a failed write, and the restored byte count.\<close>

definition rollback :: "bytes \<Rightarrow> bytes option \<Rightarrow> int \<Rightarrow> memstore \<Rightarrow> memstore" where
  "rollback key previous previousBytes ms =
     ms\<lparr>msM := (case previous of Some p \<Rightarrow> AList.update key p (msM ms) | None \<Rightarrow> AList.delete key (msM ms)),
        msBytes := previousBytes\<rparr>"

definition fileSet ::
  "(kvmap \<Rightarrow> bytes) \<Rightarrow> persist_io \<Rightarrow> filestore \<Rightarrow> bytes \<Rightarrow> bytes \<Rightarrow> kv_error option \<times> filestore" where
  "fileSet enc io s key value =
    (let ms = fsMem s;
         previous = map_of (msM ms) key;
         existed = (previous \<noteq> None);
         previousBytes = msBytes ms;
         newBytes = msBytes ms + int (length value)
           - int (length (case previous of None \<Rightarrow> [] | Some p \<Rightarrow> p));
         newBytes = (if \<not> existed then newBytes + int (length key) else newBytes)
     in if \<not> existed \<and> msMaxKeys ms > 0 \<and> int (length (msM ms)) + 1 > msMaxKeys ms then (Some ErrQuota, s)
        else if msMaxBytes ms > 0 \<and> newBytes > msMaxBytes ms then (Some ErrQuota, s)
        else
          let s1 = s\<lparr>fsMem := ms\<lparr>msM := AList.update key value (msM ms), msBytes := newBytes\<rparr>\<rparr> in
          (case persistLocked enc io s1 of
             (None, s2) \<Rightarrow> (None, s2)
           | (Some e, s2) \<Rightarrow> (Some e, s2\<lparr>fsMem := rollback key previous previousBytes (fsMem s2)\<rparr>)))"

definition fileDelete ::
  "(kvmap \<Rightarrow> bytes) \<Rightarrow> persist_io \<Rightarrow> filestore \<Rightarrow> bytes \<Rightarrow> kv_error option \<times> filestore" where
  "fileDelete enc io s key =
    (let ms = fsMem s in
     case map_of (msM ms) key of
       None \<Rightarrow> (None, s)
     | Some previous \<Rightarrow>
         let previousBytes = msBytes ms;
             s1 = s\<lparr>fsMem := ms\<lparr>msM := AList.delete key (msM ms),
                    msBytes := msBytes ms - (int (length key) + int (length previous))\<rparr>\<rparr>
         in (case persistLocked enc io s1 of
               (None, s2) \<Rightarrow> (None, s2)
             | (Some e, s2) \<Rightarrow> (Some e, s2\<lparr>fsMem := rollback key (Some previous) previousBytes (fsMem s2)\<rparr>)))"

definition fileCompareAndSwap ::
  "(bytes \<Rightarrow> bytes) \<Rightarrow> (kvmap \<Rightarrow> bytes) \<Rightarrow> persist_io \<Rightarrow> filestore \<Rightarrow> bytes \<Rightarrow> bytes \<Rightarrow> bytes \<Rightarrow>
   kv_error option \<times> filestore" where
  "fileCompareAndSwap sha enc io s key expected value =
    (let ms = fsMem s;
         previous = map_of (msM ms) key;
         previousBytes = msBytes ms
     in case memCompareAndSwap sha ms key expected value of
          (Some e, ms') \<Rightarrow> (Some e, s\<lparr>fsMem := ms'\<rparr>)
        | (None, ms') \<Rightarrow>
            (case persistLocked enc io (s\<lparr>fsMem := ms'\<rparr>) of
               (None, s2) \<Rightarrow> (None, s2)
             | (Some e, s2) \<Rightarrow> (Some e, s2\<lparr>fsMem := rollback key previous previousBytes (fsMem s2)\<rparr>)))"

section \<open>Host functions\<close>

definition KVOk :: int where [const_defs]: "KVOk = 0"
definition KVErrNotFound :: int where [const_defs]: "KVErrNotFound = - 1"
definition KVErrTooLarge :: int where [const_defs]: "KVErrTooLarge = - 2"
definition KVErrQuota :: int where [const_defs]: "KVErrQuota = - 3"
definition KVErrInternal :: int where [const_defs]: "KVErrInternal = - 4"
definition KVErrConflict :: int where [const_defs]: "KVErrConflict = - 5"

text \<open>
  The linear memory of the guest belongs to the WebAssembly runtime: its read
  and write operations are parameters. Pointers and lengths are the 32-bit
  arguments of the host call; a store is the record of operations behind the
  interface, so that \<open>None\<close> stands for the absent capability.
\<close>

type_synonym 'mem mem_read = "'mem \<Rightarrow> u32 \<Rightarrow> u32 \<Rightarrow> bytes option"
type_synonym 'mem mem_write = "'mem \<Rightarrow> u32 \<Rightarrow> bytes \<Rightarrow> 'mem option"

record 's store_ops =
  opGet :: "'s \<Rightarrow> bytes \<Rightarrow> kv_error + bytes option"
  opSet :: "'s \<Rightarrow> bytes \<Rightarrow> bytes \<Rightarrow> kv_error option \<times> 's"
  opDelete :: "'s \<Rightarrow> bytes \<Rightarrow> kv_error option \<times> 's"
  opList :: "'s \<Rightarrow> bytes \<Rightarrow> int \<Rightarrow> kv_error + bytes list"
  opCAS :: "'s \<Rightarrow> bytes \<Rightarrow> bytes \<Rightarrow> bytes \<Rightarrow> kv_error option \<times> 's"

definition readKey :: "'mem mem_read \<Rightarrow> 'mem \<Rightarrow> u32 \<Rightarrow> u32 \<Rightarrow> int + bytes" where
  "readKey rd m ptr len =
    (if sint len \<le> 0 \<or> sint len > int KVMaxKey then Inl KVErrTooLarge
     else case rd m ptr len of None \<Rightarrow> Inl KVErrInternal | Some key \<Rightarrow> Inr key)"

definition kv_set ::
  "'s store_ops option \<Rightarrow> 'mem mem_read \<Rightarrow> 'mem \<Rightarrow> 's \<Rightarrow> u32 \<Rightarrow> u32 \<Rightarrow> u32 \<Rightarrow> u32 \<Rightarrow> int \<times> 's" where
  "kv_set kv rd m s keyPtr keyLen valPtr valLen =
    (case kv of None \<Rightarrow> (KVErrInternal, s)
     | Some ops \<Rightarrow>
       (case readKey rd m keyPtr keyLen of Inl code \<Rightarrow> (code, s)
        | Inr key \<Rightarrow>
          if sint valLen < 0 \<or> sint valLen > int KVMaxValue then (KVErrTooLarge, s)
          else case rd m valPtr valLen of None \<Rightarrow> (KVErrInternal, s)
            | Some raw \<Rightarrow>
              (case opSet ops s key raw of
                 (None, s') \<Rightarrow> (KVOk, s')
               | (Some ErrQuota, s') \<Rightarrow> (KVErrQuota, s')
               | (Some _, s') \<Rightarrow> (KVErrInternal, s'))))"

definition kv_get ::
  "'s store_ops option \<Rightarrow> 'mem mem_read \<Rightarrow> 'mem mem_write \<Rightarrow> 'mem \<Rightarrow> 's \<Rightarrow> u32 \<Rightarrow> u32 \<Rightarrow> u32 \<Rightarrow> u32 \<Rightarrow> int \<times> 'mem" where
  "kv_get kv rd wr m s keyPtr keyLen outPtr outCap =
    (case kv of None \<Rightarrow> (KVErrInternal, m)
     | Some ops \<Rightarrow>
       (case readKey rd m keyPtr keyLen of Inl code \<Rightarrow> (code, m)
        | Inr key \<Rightarrow>
          (case opGet ops s key of Inl _ \<Rightarrow> (KVErrInternal, m)
           | Inr None \<Rightarrow> (KVErrNotFound, m)
           | Inr (Some val) \<Rightarrow>
             let n = sint (u32_of_len (length val)) in
             if n > sint outCap then (n, m)
             else if n > 0 then
               (case wr m outPtr val of None \<Rightarrow> (KVErrInternal, m) | Some m' \<Rightarrow> (n, m'))
             else (n, m))))"

definition kv_delete ::
  "'s store_ops option \<Rightarrow> 'mem mem_read \<Rightarrow> 'mem \<Rightarrow> 's \<Rightarrow> u32 \<Rightarrow> u32 \<Rightarrow> int \<times> 's" where
  "kv_delete kv rd m s keyPtr keyLen =
    (case kv of None \<Rightarrow> (KVErrInternal, s)
     | Some ops \<Rightarrow>
       (case readKey rd m keyPtr keyLen of Inl code \<Rightarrow> (code, s)
        | Inr key \<Rightarrow>
          (case opDelete ops s key of (None, s') \<Rightarrow> (KVOk, s') | (Some _, s') \<Rightarrow> (KVErrInternal, s'))))"

definition kv_list ::
  "'s store_ops option \<Rightarrow> 'mem mem_read \<Rightarrow> 'mem mem_write \<Rightarrow> 'mem \<Rightarrow> 's \<Rightarrow> u32 \<Rightarrow> u32 \<Rightarrow> u32 \<Rightarrow> u32 \<Rightarrow> u32 \<Rightarrow> int \<times> 'mem" where
  "kv_list kv rd wr m s prefixPtr prefixLen limit outPtr outCap =
    (case kv of None \<Rightarrow> (KVErrInternal, m)
     | Some ops \<Rightarrow>
       if sint prefixLen < 0 \<or> sint prefixLen > int KVMaxKey \<or> sint limit < 1 \<or> sint limit > int KVMaxList
          \<or> sint outCap < 0 then (KVErrTooLarge, m)
       else (case (if sint prefixLen > 0 then rd m prefixPtr prefixLen else Some []) of
               None \<Rightarrow> (KVErrInternal, m)
             | Some p \<Rightarrow>
               (case opList ops s p (sint limit) of Inl _ \<Rightarrow> (KVErrInternal, m)
                | Inr keys \<Rightarrow>
                  if int (length keys) > sint limit \<or> length keys > KVMaxList then (KVErrInternal, m)
                  else
                    let raw = EncodeKVList keys; n = sint (u32_of_len (length raw)) in
                    if n > sint outCap then (n, m)
                    else if n > 0 then
                      (case wr m outPtr raw of None \<Rightarrow> (KVErrInternal, m) | Some m' \<Rightarrow> (n, m'))
                    else (n, m))))"

definition kv_compare_and_swap ::
  "'s store_ops option \<Rightarrow> 'mem mem_read \<Rightarrow> 'mem \<Rightarrow> 's \<Rightarrow> u32 \<Rightarrow> u32 \<Rightarrow> u32 \<Rightarrow> u32 \<Rightarrow> u32 \<Rightarrow> int \<times> 's" where
  "kv_compare_and_swap kv rd m s keyPtr keyLen expectedPtr valPtr valLen =
    (case kv of None \<Rightarrow> (KVErrInternal, s)
     | Some ops \<Rightarrow>
       (case readKey rd m keyPtr keyLen of Inl code \<Rightarrow> (code, s)
        | Inr key \<Rightarrow>
          if sint valLen < 0 \<or> sint valLen > int KVMaxValue then (KVErrTooLarge, s)
          else case rd m expectedPtr (u32_of_len KVHashSize) of None \<Rightarrow> (KVErrInternal, s)
            | Some expected \<Rightarrow>
              (case rd m valPtr valLen of None \<Rightarrow> (KVErrInternal, s)
               | Some value \<Rightarrow>
                 (case opCAS ops s key expected value of
                    (None, s') \<Rightarrow> (KVOk, s')
                  | (Some ErrConflict, s') \<Rightarrow> (KVErrConflict, s')
                  | (Some ErrQuota, s') \<Rightarrow> (KVErrQuota, s')
                  | (Some _, s') \<Rightarrow> (KVErrInternal, s')))))"

definition mem_ops :: "(bytes \<Rightarrow> bytes) \<Rightarrow> memstore store_ops" where
  "mem_ops sha = \<lparr>opGet = (\<lambda>s k. Inr (memGet s k)), opSet = memSet, opDelete = memDelete,
     opList = memList, opCAS = memCompareAndSwap sha\<rparr>"

definition file_ops :: "(bytes \<Rightarrow> bytes) \<Rightarrow> (kvmap \<Rightarrow> bytes) \<Rightarrow> persist_io \<Rightarrow> filestore store_ops" where
  "file_ops sha enc io = \<lparr>opGet = (\<lambda>s k. Inr (memGet (fsMem s) k)), opSet = fileSet enc io,
     opDelete = fileDelete enc io, opList = (\<lambda>s. memList (fsMem s)),
     opCAS = fileCompareAndSwap sha enc io\<rparr>"

section \<open>Invariants\<close>

definition mem_inv :: "memstore \<Rightarrow> bool" where
  "mem_inv s \<longleftrightarrow> distinct (map fst (msM s)) \<and> msBytes s = file_bytes (msM s)"

definition quota_ok :: "memstore \<Rightarrow> bool" where
  "quota_ok s \<longleftrightarrow> (msMaxKeys s > 0 \<longrightarrow> int (length (msM s)) \<le> msMaxKeys s) \<and>
     (msMaxBytes s > 0 \<longrightarrow> msBytes s \<le> msMaxBytes s)"

text \<open>The file holds what the memory holds (no file: the store is empty).\<close>

definition in_sync :: "(bytes \<Rightarrow> kvmap option) \<Rightarrow> filestore \<Rightarrow> bool" where
  "in_sync dec s \<longleftrightarrow>
     (case fsFile s of
        None \<Rightarrow> map_of (msM (fsMem s)) = Map.empty
      | Some data \<Rightarrow> (case dec data of None \<Rightarrow> False
          | Some raw \<Rightarrow> distinct (map fst raw) \<and> map_of raw = map_of (msM (fsMem s))))"

definition durable :: "(bytes \<Rightarrow> kvmap option) \<Rightarrow> (bytes \<Rightarrow> bool) \<Rightarrow> filestore \<Rightarrow> bool" where
  "durable dec ok s \<longleftrightarrow> mem_inv (fsMem s) \<and> in_sync dec s \<and> (\<forall>k \<in> dom (map_of (msM (fsMem s))). ok k)"

section \<open>Runs\<close>

text \<open>Operations of one store in the order its lock serializes them.\<close>

datatype kv_op = KSet bytes bytes | KDelete bytes | KCas bytes bytes bytes

fun mem_step :: "(bytes \<Rightarrow> bytes) \<Rightarrow> memstore \<Rightarrow> kv_op \<Rightarrow> memstore" where
  "mem_step sha s (KSet k v) = snd (memSet s k v)"
| "mem_step sha s (KDelete k) = snd (memDelete s k)"
| "mem_step sha s (KCas k h v) = snd (memCompareAndSwap sha s k h v)"

fun file_step :: "(bytes \<Rightarrow> bytes) \<Rightarrow> (kvmap \<Rightarrow> bytes) \<Rightarrow> filestore \<Rightarrow> persist_io \<times> kv_op \<Rightarrow> filestore" where
  "file_step sha enc s (io, KSet k v) = snd (fileSet enc io s k v)"
| "file_step sha enc s (io, KDelete k) = snd (fileDelete enc io s k)"
| "file_step sha enc s (io, KCas k h v) = snd (fileCompareAndSwap sha enc io s k h v)"

text \<open>
  What the file encoding must do: read back the map it wrote, as long as every
  key is one the encoding represents (for JSON object keys: valid UTF-8).
\<close>

definition file_codec :: "(kvmap \<Rightarrow> bytes) \<Rightarrow> (bytes \<Rightarrow> kvmap option) \<Rightarrow> (bytes \<Rightarrow> bool) \<Rightarrow> bool" where
  "file_codec enc dec ok \<longleftrightarrow>
     (\<forall>m. distinct (map fst m) \<longrightarrow> (\<forall>k \<in> fst ` set m. ok k) \<longrightarrow>
        (\<exists>raw. dec (enc m) = Some raw \<and> distinct (map fst raw) \<and> map_of raw = map_of m))"

fun op_key :: "kv_op \<Rightarrow> bytes" where
  "op_key (KSet k v) = k"
| "op_key (KDelete k) = k"
| "op_key (KCas k h v) = k"

text \<open>A concrete encoding with that property: every byte escaped, every string terminated.\<close>

fun esc :: "bytes \<Rightarrow> bytes" where
  "esc [] = [0]"
| "esc (b # bs) = 1 # b # esc bs"

fun unesc :: "bytes \<Rightarrow> (bytes \<times> bytes) option" where
  "unesc [] = None"
| "unesc (t # bs) = (if t = 0 then Some ([], bs)
     else case bs of [] \<Rightarrow> None
       | b # r \<Rightarrow> (case unesc r of None \<Rightarrow> None | Some (s, rest) \<Rightarrow> Some (b # s, rest)))"

fun esc_map :: "kvmap \<Rightarrow> bytes" where
  "esc_map [] = []"
| "esc_map ((k, v) # m) = esc k @ esc v @ esc_map m"

fun unesc_map :: "nat \<Rightarrow> bytes \<Rightarrow> kvmap option" where
  "unesc_map 0 bs = (if bs = [] then Some [] else None)"
| "unesc_map (Suc n) bs = (if bs = [] then Some [] else
     case unesc bs of None \<Rightarrow> None
     | Some (k, r) \<Rightarrow> (case unesc r of None \<Rightarrow> None
        | Some (v, r2) \<Rightarrow> (case unesc_map n r2 of None \<Rightarrow> None | Some m \<Rightarrow> Some ((k, v) # m))))"

text \<open>A flat byte array as a guest memory, at which the host functions are evaluated.\<close>

definition flat_read :: "bytes mem_read" where
  "flat_read m p n = (if unat p + unat n \<le> length m then Some (take (unat n) (drop (unat p) m)) else None)"

definition flat_write :: "bytes mem_write" where
  "flat_write m p b = (if unat p + length b \<le> length m then Some (put_at (unat p) b m) else None)"

section \<open>The contract of a store\<close>

text \<open>
  What the interface \<open>Store\<close> promises about its operations, with the abstract
  contents \<open>abs\<close>, the invariant \<open>inv\<close> and the keys \<open>valid\<close> it takes.
\<close>

locale kv_store =
  fixes ops :: "'s store_ops"
    and sha :: "bytes \<Rightarrow> bytes"
    and abs :: "'s \<Rightarrow> bytes \<rightharpoonup> bytes"
    and inv :: "'s \<Rightarrow> bool"
    and valid :: "bytes \<Rightarrow> bool"
  assumes get_spec: "inv s \<Longrightarrow> valid k \<Longrightarrow> opGet ops s k = Inr (abs s k)"
    and set_inv: "inv s \<Longrightarrow> valid k \<Longrightarrow> opSet ops s k v = (r, s') \<Longrightarrow> inv s'"
    and set_ok: "inv s \<Longrightarrow> valid k \<Longrightarrow> opSet ops s k v = (None, s') \<Longrightarrow> abs s' = (abs s)(k \<mapsto> v)"
    and set_err: "inv s \<Longrightarrow> valid k \<Longrightarrow> opSet ops s k v = (Some e, s') \<Longrightarrow> abs s' = abs s"
    and delete_inv: "inv s \<Longrightarrow> valid k \<Longrightarrow> opDelete ops s k = (r, s') \<Longrightarrow> inv s'"
    and delete_ok: "inv s \<Longrightarrow> valid k \<Longrightarrow> opDelete ops s k = (None, s') \<Longrightarrow> abs s' = (abs s)(k := None)"
    and delete_err: "inv s \<Longrightarrow> valid k \<Longrightarrow> opDelete ops s k = (Some e, s') \<Longrightarrow> abs s' = abs s"
    and list_spec: "inv s \<Longrightarrow> 1 \<le> n \<Longrightarrow> n \<le> int KVMaxList \<Longrightarrow> length p \<le> KVMaxKey \<Longrightarrow>
      \<exists>ks. distinct ks \<and> set ks = dom (abs s) \<and> opList ops s p n = Inr (listing ks p (nat n))"
    and cas_inv: "inv s \<Longrightarrow> valid k \<Longrightarrow> opCAS ops s k h v = (r, s') \<Longrightarrow> inv s'"
    and cas_conflict: "inv s \<Longrightarrow> valid k \<Longrightarrow>
      h \<noteq> (case abs s k of None \<Rightarrow> zero_hash | Some p \<Rightarrow> sha p) \<Longrightarrow>
      \<exists>s'. opCAS ops s k h v = (Some ErrConflict, s') \<and> abs s' = abs s"
    and cas_match: "inv s \<Longrightarrow> valid k \<Longrightarrow>
      h = (case abs s k of None \<Rightarrow> zero_hash | Some p \<Rightarrow> sha p) \<Longrightarrow>
      opCAS ops s k h v = opSet ops s k v"
begin

lemma cas_ok:
  assumes "inv s" "valid k" "opCAS ops s k h v = (None, s')"
  shows "abs s' = (abs s)(k \<mapsto> v) \<and> h = (case abs s k of None \<Rightarrow> zero_hash | Some p \<Rightarrow> sha p)"
  using assms cas_conflict [of s k h v] cas_match [of s k h v] set_ok [of s k v s'] by fastforce

text \<open>
  Two writers that read the same state: whichever compare-and-swap succeeds
  first makes the other one fail, unless the hash of the new value is the one
  both expected.
\<close>

lemma cas_exclusive:
  assumes "inv s" "valid k" "opCAS ops s k h v = (None, s')" and "sha v \<noteq> h"
  shows "\<exists>s''. opCAS ops s' k h w = (Some ErrConflict, s'') \<and> abs s'' = abs s'"
  using cas_ok [OF assms(1,2,3)] cas_inv [OF assms(1,2,3)] assms(2,4)
  by (intro cas_conflict) auto

lemma host_set_get:
  assumes "inv s" and set: "kv_set (Some ops) rd m s kp kl vp vl = (KVOk, s')"
    and key: "rd m kp kl = Some k" and val: "rd m vp vl = Some v" and "valid k"
    and len: "length v = unat vl"
    and again: "rd m2 kp2 kl = Some k" and room: "sint oc \<ge> int (length v)"
    and wr: "wr m2 op v = Some m3"
  shows "kv_get (Some ops) rd wr m2 s' kp2 kl op oc =
    (int (length v), if v = [] then m2 else m3)"
proof -
  from set key have kl: "\<not> (sint kl \<le> 0 \<or> sint kl > int KVMaxKey)"
    by (auto simp: kv_set_def readKey_def const_defs split: if_splits)
  with set key have vl: "0 \<le> sint vl" "sint vl \<le> int KVMaxValue"
    by (auto simp: kv_set_def readKey_def const_defs split: if_splits)
  from set key val kl vl have ok: "opSet ops s k v = (None, s')"
    by (auto simp: kv_set_def readKey_def const_defs split: prod.splits option.splits kv_error.splits)
  have "unat vl = nat (sint vl)"
    using vl by (simp add: unat_eq_nat_uint uint_sint take_bit_int_eq_self const_defs)
  with len vl have "length v \<le> 65536" by (simp add: const_defs)
  then have n: "sint (u32_of_len (length v)) = int (length v)"
    by (simp add: signed_of_nat signed_take_bit_int_eq_self)
  from get_spec [OF set_inv [OF \<open>inv s\<close> \<open>valid k\<close> ok] \<open>valid k\<close>] set_ok [OF \<open>inv s\<close> \<open>valid k\<close> ok]
  have "opGet ops s' k = Inr (Some v)" by simp
  with kl again room n wr show ?thesis
    by (auto simp: kv_get_def readKey_def Let_def)
qed

lemma get_after_set:
  assumes "inv s" "valid k" "opSet ops s k v = (None, s')" "valid j"
  shows "opGet ops s' j = Inr (if j = k then Some v else abs s j)"
  using get_spec [OF set_inv [OF assms(1-3)] assms(4)] set_ok [OF assms(1-3)] by simp

end

section \<open>Association lists\<close>

lemma file_bytes_simps [simp]:
  "file_bytes [] = 0"
  "file_bytes ((k, v) # m) = int (length k) + int (length v) + file_bytes m"
  by (simp_all add: file_bytes_def)

lemma file_bytes_update:
  "distinct (map fst m) \<Longrightarrow> file_bytes (AList.update k v m) = file_bytes m + int (length v) +
     (case map_of m k of None \<Rightarrow> int (length k) | Some p \<Rightarrow> - int (length p))"
  by (induction m) (auto split: option.splits simp del: map_of_eq_Some_iff)

lemma file_bytes_delete:
  "distinct (map fst m) \<Longrightarrow> map_of m k = Some p \<Longrightarrow>
   file_bytes (AList.delete k m) = file_bytes m - (int (length k) + int (length p))"
proof (induction m)
  case (Cons a m)
  have "AList.delete k m = m" if "k \<notin> fst ` set m"
    using that by (simp add: AList.delete_idem)
  with Cons show ?case by (cases a) auto
qed simp

lemma length_update:
  "length (AList.update k v m) = (if map_of m k = None then Suc (length m) else length m)"
  by (induction m) auto

lemma delete_new: "map_of m k = None \<Longrightarrow> AList.delete k (AList.update k v m) = m"
proof (induction m)
  case (Cons a m)
  then show ?case by (cases a) (auto simp: AList.delete_eq split: if_splits)
qed (simp add: AList.delete_eq)

lemma distinct_update_keys: "distinct (map fst m) \<Longrightarrow> distinct (map fst (AList.update k v m))"
  by (rule AList.distinct_update)

lemma distinct_delete_keys: "distinct (map fst m) \<Longrightarrow> distinct (map fst (AList.delete k m))"
  by (rule AList.distinct_delete)

lemmas alist_facts = file_bytes_update file_bytes_delete length_update delete_new
  distinct_update_keys distinct_delete_keys AList.update_conv' AList.delete_conv'

section \<open>MemStore meets the contract\<close>

lemma memSet_cases:
  assumes "mem_inv s"
  shows "memSet s k v = (Some ErrQuota, s) \<or>
    (\<exists>s'. memSet s k v = (None, s') \<and> mem_inv s' \<and> map_of (msM s') = (map_of (msM s))(k \<mapsto> v) \<and>
       (quota_ok s \<longrightarrow> quota_ok s') \<and> msMaxKeys s' = msMaxKeys s \<and> msMaxBytes s' = msMaxBytes s)"
  using assms
  by (auto simp: memSet_def Let_def mem_inv_def quota_ok_def alist_facts fun_upd_def split: option.splits)

lemma memDelete_spec:
  assumes "mem_inv s"
  shows "\<exists>s'. memDelete s k = (None, s') \<and> mem_inv s' \<and> map_of (msM s') = (map_of (msM s))(k := None) \<and>
    (quota_ok s \<longrightarrow> quota_ok s')"
  using assms AList.length_delete_le [of k "msM s"]
  by (auto simp: memDelete_def mem_inv_def alist_facts quota_ok_def split: option.splits simp del: map_of_eq_Some_iff)

lemma memCAS_eq:
  "memCompareAndSwap sha s k h v =
     (if (case map_of (msM s) k of None \<Rightarrow> zero_hash | Some p \<Rightarrow> sha p) \<noteq> h
      then (Some ErrConflict, s) else memSet s k v)"
  by (simp add: memCompareAndSwap_def memSet_def Let_def split: option.split)

interpretation mem_store: kv_store "mem_ops sha" sha "\<lambda>s. map_of (msM s)" mem_inv "\<lambda>_. True"
proof (unfold_locales, goal_cases)
  case (1 s k) then show ?case by (simp add: mem_ops_def memGet_def)
next
  case (2 s k v r s') then show ?case using memSet_cases [of s k v] by (auto simp: mem_ops_def)
next
  case (3 s k v s') then show ?case using memSet_cases [of s k v] by (auto simp: mem_ops_def)
next
  case (4 s k v e s') then show ?case using memSet_cases [of s k v] by (auto simp: mem_ops_def)
next
  case (5 s k r s') then show ?case using memDelete_spec [of s k] by (auto simp: mem_ops_def)
next
  case (6 s k s') then show ?case using memDelete_spec [of s k] by (auto simp: mem_ops_def)
next
  case (7 s k e s') then show ?case using memDelete_spec [of s k] by (auto simp: mem_ops_def)
next
  case (8 s n p)
  then show ?case
    by (intro exI [of _ "map fst (msM s)"]) (simp add: mem_ops_def memList_def mem_inv_def dom_map_of_conv_image_fst)
next
  case (9 s k h v r s')
  then show ?case using memSet_cases [of s k v] by (auto simp: mem_ops_def memCAS_eq split: if_splits)
next
  case (10 s k h v) then show ?case by (simp add: mem_ops_def memCAS_eq)
next
  case (11 s k h v) then show ?case by (simp add: mem_ops_def memCAS_eq)
qed

section \<open>FileStore meets the contract\<close>

lemma fileSet_eq:
  "fileSet enc io s k v =
    (case memSet (fsMem s) k v of
       (Some e, _) \<Rightarrow> (Some e, s)
     | (None, ms') \<Rightarrow>
        (case persistLocked enc io (s\<lparr>fsMem := ms'\<rparr>) of
           (None, s2) \<Rightarrow> (None, s2)
         | (Some e, s2) \<Rightarrow> (Some e, s2\<lparr>fsMem := rollback k (map_of (msM (fsMem s)) k) (msBytes (fsMem s)) (fsMem s2)\<rparr>)))"
  by (simp add: fileSet_def memSet_def Let_def)

lemma rollback_set:
  assumes "mem_inv ms" "memSet ms k v = (None, ms')"
  shows "rollback k (map_of (msM ms) k) (msBytes ms) ms' = ms"
proof -
  from assms(2) obtain b where ms': "ms' = ms\<lparr>msM := AList.update k v (msM ms), msBytes := b\<rparr>"
    by (auto simp: memSet_def Let_def split: if_splits)
  with assms(1) show ?thesis
    by (cases "map_of (msM ms) k")
      (auto simp: rollback_def mem_inv_def alist_facts AList.update_triv simp del: map_of_eq_Some_iff)
qed

lemma fileCAS_eq:
  "fileCompareAndSwap sha enc io s k h v =
     (if (case map_of (msM (fsMem s)) k of None \<Rightarrow> zero_hash | Some p \<Rightarrow> sha p) \<noteq> h
      then (Some ErrConflict, s) else fileSet enc io s k v)"
proof -
  have "memSet ms k v = (Some e, ms') \<Longrightarrow> ms' = ms" for ms ms' e
    by (auto simp: memSet_def Let_def split: if_splits)
  then show ?thesis
    by (auto simp: fileCompareAndSwap_def memCAS_eq fileSet_eq Let_def split: prod.split option.split)
qed

lemma persist_cases:
  "persistLocked enc io s = (Some ErrIO, s) \<or>
   io = PersistOk \<and> persistLocked enc io s = (None, s\<lparr>fsFile := Some (enc (msM (fsMem s)))\<rparr>)"
  by (cases io) (simp_all add: persistLocked_def)

lemma fileSet_cases:
  assumes "mem_inv (fsMem s)"
  shows "(\<exists>e. fileSet enc io s k v = (Some e, s)) \<or>
    (\<exists>ms'. memSet (fsMem s) k v = (None, ms') \<and>
       fileSet enc io s k v = (None, \<lparr>fsMem = ms', fsFile = Some (enc (msM ms'))\<rparr>))"
proof (cases "memSet (fsMem s) k v")
  case (Pair r ms')
  show ?thesis
  proof (cases r)
    case None
    with Pair rollback_set [OF assms] persist_cases [of enc io "s\<lparr>fsMem := ms'\<rparr>"] show ?thesis
      by (cases s) (auto simp: fileSet_eq)
  next
    case (Some e)
    with Pair show ?thesis by (simp add: fileSet_eq)
  qed
qed

lemma fileDelete_cases:
  assumes "mem_inv (fsMem s)"
  shows "(\<exists>e s'. fileDelete enc io s k = (Some e, s') \<and> mem_inv (fsMem s') \<and>
       map_of (msM (fsMem s')) = map_of (msM (fsMem s)) \<and> fsFile s' = fsFile s) \<or>
    map_of (msM (fsMem s)) k = None \<and> fileDelete enc io s k = (None, s) \<or>
    (\<exists>ms'. memDelete (fsMem s) k = (None, ms') \<and>
       fileDelete enc io s k = (None, \<lparr>fsMem = ms', fsFile = Some (enc (msM ms'))\<rparr>))"
proof (cases "map_of (msM (fsMem s)) k")
  case None
  then show ?thesis by (simp add: fileDelete_def)
next
  case (Some p)
  let ?ms = "(fsMem s)\<lparr>msM := AList.delete k (msM (fsMem s)),
      msBytes := msBytes (fsMem s) - (int (length k) + int (length p))\<rparr>"
  have inv: "mem_inv (rollback k (Some p) (msBytes (fsMem s)) ?ms)"
    and undo: "map_of (msM (rollback k (Some p) (msBytes (fsMem s)) ?ms)) = map_of (msM (fsMem s))"
    using assms Some by (auto simp: rollback_def mem_inv_def alist_facts)
  have "memDelete (fsMem s) k = (None, ?ms)"
    using Some by (simp add: memDelete_def)
  with Some inv undo persist_cases [of enc io "s\<lparr>fsMem := ?ms\<rparr>"] show ?thesis
    by (cases s) (auto simp: fileDelete_def Let_def)
qed

interpretation file_store: kv_store "file_ops sha enc io" sha "\<lambda>s. map_of (msM (fsMem s))"
  "\<lambda>s. mem_inv (fsMem s)" "\<lambda>_. True"
proof (unfold_locales, goal_cases)
  case (1 s k) then show ?case by (simp add: file_ops_def memGet_def)
next
  case (2 s k v r s')
  then show ?case using fileSet_cases [of s enc io k v] memSet_cases [of "fsMem s" k v]
    by (auto simp: file_ops_def)
next
  case (3 s k v s')
  then show ?case using fileSet_cases [of s enc io k v] memSet_cases [of "fsMem s" k v]
    by (auto simp: file_ops_def)
next
  case (4 s k v e s')
  then show ?case using fileSet_cases [of s enc io k v] by (auto simp: file_ops_def)
next
  case (5 s k r s')
  then show ?case using fileDelete_cases [of s enc io k] memDelete_spec [of "fsMem s" k]
    by (auto simp: file_ops_def)
next
  case (6 s k s')
  then show ?case using fileDelete_cases [of s enc io k] memDelete_spec [of "fsMem s" k]
    by (auto simp: file_ops_def)
next
  case (7 s k e s')
  then show ?case using fileDelete_cases [of s enc io k] by (auto simp: file_ops_def)
next
  case (8 s n p)
  then show ?case
    by (intro exI [of _ "map fst (msM (fsMem s))"])
      (simp add: file_ops_def memList_def mem_inv_def dom_map_of_conv_image_fst)
next
  case (9 s k h v r s')
  then show ?case using fileSet_cases [of s enc io k v] memSet_cases [of "fsMem s" k v]
    by (auto simp: file_ops_def fileCAS_eq split: if_splits)
next
  case (10 s k h v) then show ?case by (auto simp: file_ops_def fileCAS_eq)
next
  case (11 s k h v) then show ?case by (simp add: file_ops_def fileCAS_eq)
qed

section \<open>Runs of the stores\<close>

lemma mem_step_inv:
  assumes "mem_inv s" "quota_ok s"
  shows "mem_inv (mem_step sha s opn) \<and> quota_ok (mem_step sha s opn)"
proof (cases opn)
  case (KSet k v)
  then show ?thesis using memSet_cases [OF assms(1), of k v] assms by auto
next
  case (KDelete k)
  then show ?thesis using memDelete_spec [OF assms(1), of k] assms by auto
next
  case (KCas k h v)
  then show ?thesis using memSet_cases [OF assms(1), of k v] assms by (auto simp: memCAS_eq)
qed

lemma mem_run_inv:
  "mem_inv s \<Longrightarrow> quota_ok s \<Longrightarrow> mem_inv (foldl (mem_step sha) s xs) \<and> quota_ok (foldl (mem_step sha) s xs)"
  by (induction xs arbitrary: s) (simp_all add: mem_step_inv)

lemma durable_write:
  assumes "file_codec enc dec ok" "mem_inv ms'" "\<forall>k \<in> dom (map_of (msM ms')). ok k"
  shows "durable dec ok \<lparr>fsMem = ms', fsFile = Some (enc (msM ms'))\<rparr>"
  using assms by (fastforce simp: durable_def in_sync_def file_codec_def mem_inv_def dom_map_of_conv_image_fst)

lemma fileSet_durable:
  assumes "file_codec enc dec ok" "durable dec ok s" "ok k"
  shows "durable dec ok (snd (fileSet enc io s k v))"
proof -
  from assms(2) have inv: "mem_inv (fsMem s)" by (simp add: durable_def)
  from fileSet_cases [OF inv, of enc io k v] memSet_cases [OF inv, of k v] show ?thesis
  proof (elim disjE exE conjE)
    fix ms' s' assume "memSet (fsMem s) k v = (None, ms')" "memSet (fsMem s) k v = (None, s')"
      "mem_inv s'" "map_of (msM s') = (map_of (msM (fsMem s)))(k \<mapsto> v)"
      "fileSet enc io s k v = (None, \<lparr>fsMem = ms', fsFile = Some (enc (msM ms'))\<rparr>)"
    with durable_write [OF assms(1), of ms'] assms(2,3) show ?thesis
      by (auto simp: durable_def)
  qed (use assms(2) in auto)
qed

lemma fileDelete_durable:
  assumes "file_codec enc dec ok" "durable dec ok s"
  shows "durable dec ok (snd (fileDelete enc io s k))"
proof -
  from assms(2) have inv: "mem_inv (fsMem s)" by (simp add: durable_def)
  from fileDelete_cases [OF inv, of enc io k] memDelete_spec [OF inv, of k] show ?thesis
  proof (elim disjE exE conjE)
    fix ms' s' assume "memDelete (fsMem s) k = (None, ms')" "memDelete (fsMem s) k = (None, s')"
      "mem_inv s'" "map_of (msM s') = (map_of (msM (fsMem s)))(k := None)"
      "fileDelete enc io s k = (None, \<lparr>fsMem = ms', fsFile = Some (enc (msM ms'))\<rparr>)"
    with durable_write [OF assms(1), of ms'] assms(2) show ?thesis
      by (auto simp: durable_def)
  next
    fix e s' assume "fileDelete enc io s k = (Some e, s')" "mem_inv (fsMem s')"
      "map_of (msM (fsMem s')) = map_of (msM (fsMem s))" "fsFile s' = fsFile s"
    with assms(2) show ?thesis by (auto simp: durable_def in_sync_def split: option.splits)
  qed (use assms(2) in auto)
qed

lemma file_step_durable:
  assumes "file_codec enc dec ok" "durable dec ok s" "ok (op_key opn)"
  shows "durable dec ok (file_step sha enc s (io, opn))"
  using assms fileSet_durable [OF assms(1,2)] fileDelete_durable [OF assms(1,2)]
  by (cases opn) (auto simp: fileCAS_eq)

lemma file_run_durable:
  assumes "file_codec enc dec ok"
  shows "durable dec ok s \<Longrightarrow> \<forall>(io, opn) \<in> set xs. ok (op_key opn) \<Longrightarrow>
    durable dec ok (foldl (file_step sha enc) s xs)"
proof (induction xs arbitrary: s)
  case (Cons x xs)
  then show ?case using file_step_durable [OF assms, of s] by (cases x) auto
qed simp

lemma durable_reopen:
  assumes "durable dec ok s"
  obtains s2 where "NewFileStore dec (fsFile s) mk mb = Some s2" "mem_inv (fsMem s2)"
    "map_of (msM (fsMem s2)) = map_of (msM (fsMem s))"
  using assms
  by (cases "fsFile s")
    (auto simp: durable_def in_sync_def NewFileStore_def NewMemStore_def mem_inv_def Let_def split: option.splits)

lemma unesc_esc: "unesc (esc k @ r) = Some (k, r)"
  by (induction k) auto

lemma esc_nonempty: "esc k \<noteq> []"
  by (cases k) auto

lemma unesc_esc_map: "length m \<le> n \<Longrightarrow> unesc_map n (esc_map m) = Some m"
proof (induction m arbitrary: n)
  case Nil
  then show ?case by (cases n) auto
next
  case (Cons a m)
  then show ?case by (cases n; cases a) (auto simp: unesc_esc esc_nonempty)
qed

lemma length_esc_map: "length m \<le> length (esc_map m)"
proof (induction m)
  case (Cons a m)
  have "1 \<le> length (esc k)" for k by (cases k) auto
  from this [of "fst a"] Cons show ?case by (cases a) simp
qed simp

lemma esc_codec: "file_codec esc_map (\<lambda>b. unesc_map (length b) b) (\<lambda>_. True)"
  by (simp add: file_codec_def unesc_esc_map length_esc_map)

lemma mem_step_limits:
  "msMaxKeys (mem_step sha s opn) = msMaxKeys s \<and> msMaxBytes (mem_step sha s opn) = msMaxBytes s"
  by (cases opn) (auto simp: memSet_def memDelete_def memCompareAndSwap_def Let_def split: option.split)

lemma mem_run_limits:
  "msMaxKeys (foldl (mem_step sha) s xs) = msMaxKeys s \<and> msMaxBytes (foldl (mem_step sha) s xs) = msMaxBytes s"
  by (induction xs arbitrary: s) (simp_all add: mem_step_limits)

lemma new_mem_inv: "mem_inv (NewMemStore mk mb)" "quota_ok (NewMemStore mk mb)"
  by (simp_all add: NewMemStore_def mem_inv_def quota_ok_def)

lemma failed_op_unchanged:
  assumes "mem_inv (fsMem s)"
  shows "fileSet enc io s k v = (Some e, s') \<Longrightarrow> s' = s"
    and "fileDelete enc io s k = (Some e, s') \<Longrightarrow>
      fsFile s' = fsFile s \<and> mem_inv (fsMem s') \<and> map_of (msM (fsMem s')) = map_of (msM (fsMem s))"
    and "fileCompareAndSwap sha enc io s k h v = (Some e, s') \<Longrightarrow> s' = s"
  using fileSet_cases [OF assms, of enc io k v] fileDelete_cases [OF assms, of enc io k]
  by (auto simp: fileCAS_eq split: if_splits)

section \<open>Properties\<close>

text \<open>
  C7: whatever a guest does with its in-memory store, the byte counter is the
  exact size of the keys and values held, every key is held once, the limits
  never change and neither quota is ever exceeded.
\<close>

theorem memstore_accounting:
  "mem_inv (foldl (mem_step sha) (NewMemStore mk mb) xs) \<and>
   quota_ok (foldl (mem_step sha) (NewMemStore mk mb) xs) \<and>
   msMaxKeys (foldl (mem_step sha) (NewMemStore mk mb) xs) = mk \<and>
   msMaxBytes (foldl (mem_step sha) (NewMemStore mk mb) xs) = mb"
  using mem_run_inv [OF new_mem_inv] mem_run_limits [of sha "NewMemStore mk mb" xs]
  by (simp add: NewMemStore_def)

text \<open>
  C8: durability of the file-backed store. After any sequence of operations with
  any mix of successful and failing disk writes, reopening the file (with any
  limits) gives a store with exactly the contents the running one has: failed
  writes are rolled back in memory, successful ones are on disk.
\<close>

theorem filestore_durable:
  assumes "file_codec enc dec ok"
    and "\<forall>(io, opn) \<in> set xs. ok (op_key opn)"
    and "s = foldl (file_step sha enc) \<lparr>fsMem = NewMemStore mk mb, fsFile = None\<rparr> xs"
  shows "\<exists>s2. NewFileStore dec (fsFile s) mk' mb' = Some s2 \<and>
    map_of (msM (fsMem s2)) = map_of (msM (fsMem s)) \<and> mem_inv (fsMem s2)"
proof -
  have "durable dec ok \<lparr>fsMem = NewMemStore mk mb, fsFile = None\<rparr>"
    by (simp add: durable_def in_sync_def NewMemStore_def mem_inv_def)
  with file_run_durable [OF assms(1) _ assms(2)] have "durable dec ok s"
    unfolding assms(3) by blast
  then show ?thesis by (rule durable_reopen [where mk = mk' and mb = mb']) blast
qed

theorem filestore_durable_witness:
  "\<exists>s2. NewFileStore (\<lambda>b. unesc_map (length b) b)
      (fsFile (foldl (file_step (\<lambda>b. b) esc_map) \<lparr>fsMem = NewMemStore 10 100, fsFile = None\<rparr>
        [(PersistOk, KSet [97] [1]), (RenameFails, KSet [97] [2]), (WriteFails, KDelete [97])])) 0 0 = Some s2 \<and>
    map_of (msM (fsMem s2)) = [[97] \<mapsto> [1]]"
  using filestore_durable [OF esc_codec _ refl, of
      "[(PersistOk, KSet [97] [1]), (RenameFails, KSet [97] [2]), (WriteFails, KDelete [97])]"
      "\<lambda>b. b" 10 100 0 0]
  by (simp add: fileSet_def fileDelete_def persistLocked_def rollback_def NewMemStore_def Let_def
      AList.delete_eq) blast

text \<open>
  C9: a failed operation of the file-backed store changes nothing a guest can
  see: the file, the contents and the accounting are those from before.
\<close>

theorem filestore_failed_write_rolls_back:
  assumes "mem_inv (fsMem s)"
    and "fileSet enc io s k v = (Some e, s') \<or> fileDelete enc io s k = (Some e, s') \<or>
      fileCompareAndSwap sha enc io s k h v = (Some e, s')"
  shows "fsFile s' = fsFile s \<and> map_of (msM (fsMem s')) = map_of (msM (fsMem s)) \<and> mem_inv (fsMem s')"
  using assms failed_op_unchanged [OF assms(1)] by blast

theorem filestore_failed_write_rolls_back_witness:
  "let s = \<lparr>fsMem = NewMemStore 1 0, fsFile = None\<rparr> in
   fsFile (snd (fileSet esc_map RenameFails s [97] [1])) = None \<and>
   map_of (msM (fsMem (snd (fileSet esc_map RenameFails s [97] [1])))) = Map.empty"
  using filestore_failed_write_rolls_back [of "\<lparr>fsMem = NewMemStore 1 0, fsFile = None\<rparr>" esc_map RenameFails
      "[97]" "[1]" ErrIO "snd (fileSet esc_map RenameFails \<lparr>fsMem = NewMemStore 1 0, fsFile = None\<rparr> [97] [1])"
      "\<lambda>b. b" "[]"]
  by (simp add: fileSet_def persistLocked_def NewMemStore_def mem_inv_def Let_def)

text \<open>
  C10: compare-and-swap is exclusive. Of two writers that expect the same hash,
  once one has succeeded the other fails with a conflict and changes nothing,
  unless the written value has the very hash both expected.
\<close>

theorem filestore_cas_exclusive:
  assumes "mem_inv (fsMem s)"
    and "fileCompareAndSwap sha enc io s k h v = (None, s')"
    and "sha v \<noteq> h"
  shows "memGet (fsMem s') k = Some v \<and>
    (\<exists>s''. fileCompareAndSwap sha enc io' s' k h w = (Some ErrConflict, s'') \<and>
       memGet (fsMem s'') k = Some v)"
proof -
  have eq: "opCAS (file_ops sha enc io) s k h v = (None, s')"
    using assms(2) by (simp add: file_ops_def)
  have g: "memGet (fsMem s') k = Some v"
    using file_store.cas_ok [OF assms(1) TrueI eq] by (simp add: memGet_def)
  have "fileCompareAndSwap sha enc io' s' k h w = (Some ErrConflict, s')"
    using g assms(3) by (simp add: fileCAS_eq memGet_def)
  with g show ?thesis by blast
qed

theorem filestore_cas_exclusive_witness:
  "\<exists>s''. fileCompareAndSwap (\<lambda>b. 1 # b) esc_map PersistOk
      (snd (fileCompareAndSwap (\<lambda>b. 1 # b) esc_map PersistOk \<lparr>fsMem = NewMemStore 0 0, fsFile = None\<rparr> [97] zero_hash [5]))
      [97] zero_hash [6] = (Some ErrConflict, s'') \<and> memGet (fsMem s'') [97] = Some [5]"
  using filestore_cas_exclusive [of "\<lparr>fsMem = NewMemStore 0 0, fsFile = None\<rparr>" "\<lambda>b. 1 # b" esc_map PersistOk
      "[97]" zero_hash "[5]"
      "snd (fileCompareAndSwap (\<lambda>b. 1 # b) esc_map PersistOk \<lparr>fsMem = NewMemStore 0 0, fsFile = None\<rparr> [97] zero_hash [5])"
      PersistOk "[6]"]
  by (simp add: fileCompareAndSwap_def memCompareAndSwap_def persistLocked_def NewMemStore_def mem_inv_def
      Let_def zero_hash_def const_defs numeral_eq_Suc)

text \<open>
  C11: a guest reads its writes. When the host call \<open>kv_set\<close> reports success for
  a key and a value in guest memory, a later \<open>kv_get\<close> of the same key with a large
  enough buffer reports the value's length and writes exactly the value, through
  any guest memory.
\<close>

theorem guest_reads_its_writes:
  assumes "mem_inv s"
    and "kv_set (Some (mem_ops sha)) rd m s keyPtr keyLen valPtr valLen = (KVOk, s')"
    and "rd m keyPtr keyLen = Some k" and "rd m valPtr valLen = Some v" and "length v = unat valLen"
    and "rd m2 keyPtr2 keyLen = Some k" and "sint outCap \<ge> int (length v)"
    and "wr m2 outPtr v = Some m3"
  shows "kv_get (Some (mem_ops sha)) rd wr m2 s' keyPtr2 keyLen outPtr outCap =
    (int (length v), if v = [] then m2 else m3)"
  using assms by (intro mem_store.host_set_get) simp_all

theorem guest_reads_its_writes_witness:
  "kv_get (Some (mem_ops (\<lambda>b. b))) flat_read flat_write [97, 7, 8, 0, 0]
     (snd (kv_set (Some (mem_ops (\<lambda>b. b))) flat_read [97, 7, 8, 0, 0] (NewMemStore 5 50) 0 1 1 2)) 0 1 3 2
   = (2, [97, 7, 8, 7, 8])"
  using guest_reads_its_writes [of "NewMemStore 5 50" "\<lambda>b. b" flat_read "[97, 7, 8, 0, 0]" 0 1 1 2
      "snd (kv_set (Some (mem_ops (\<lambda>b. b))) flat_read [97, 7, 8, 0, 0] (NewMemStore 5 50) 0 1 1 2)"
      "[97]" "[7, 8]" "[97, 7, 8, 0, 0]" 0 2 flat_write 3 "[97, 7, 8, 7, 8]"]
  by (simp add: mem_inv_def flat_read_def flat_write_def put_at_def kv_set_def readKey_def mem_ops_def
      memSet_def NewMemStore_def Let_def const_defs)

end
