(* ===== verification/Proc_Proto.thy ===== *)
theory Proc_Proto
  imports Abi_Codec
begin

text \<open>
  The wire between the gateway and its isolated worker process: the bounded
  framing of \<^verbatim>\<open>src/internal/protocol/protocol.go\<close> (one message is
  \<^verbatim>\<open>[op][u32 length][payload]\<close>), the payload codecs of
  \<^verbatim>\<open>src/internal/runner/procproto.go\<close>, the per-operation payload limits of
  \<^verbatim>\<open>maxWorkerPayload\<close> in \<^verbatim>\<open>src/internal/runner/procrunner.go\<close>, and the
  authentication preamble of \<^verbatim>\<open>src/internal/runner/broker.go\<close>.
  A reader is the sequence of bytes still to come; a writer is the bytes it
  accepted so far with the outcomes of its next calls.
\<close>

section \<open>Framing\<close>

datatype proto_error = ErrProtocol | ErrEOF | ErrUnexpectedEOF | ErrShortWrite | ErrWrite
  | ErrHandshake | ErrTokenLength | ErrToken

type_synonym opcode = byte

definition OpStart :: opcode where [const_defs]: "OpStart = 1"
definition OpResp :: opcode where [const_defs]: "OpResp = 2"
definition OpRecv :: opcode where [const_defs]: "OpRecv = 3"
definition OpPresent :: opcode where [const_defs]: "OpPresent = 4"
definition OpKVGet :: opcode where [const_defs]: "OpKVGet = 5"
definition OpKVSet :: opcode where [const_defs]: "OpKVSet = 6"
definition OpKVDel :: opcode where [const_defs]: "OpKVDel = 7"
definition OpBusSub :: opcode where [const_defs]: "OpBusSub = 8"
definition OpBusPub :: opcode where [const_defs]: "OpBusPub = 9"
definition OpAuth :: opcode where [const_defs]: "OpAuth = 10"
definition OpEnv :: opcode where [const_defs]: "OpEnv = 11"
definition OpFetch :: opcode where [const_defs]: "OpFetch = 12"
definition OpDone :: opcode where [const_defs]: "OpDone = 13"
definition OpOutput :: opcode where [const_defs]: "OpOutput = 14"
definition OpKVList :: opcode where [const_defs]: "OpKVList = 15"
definition OpKVCAS :: opcode where [const_defs]: "OpKVCAS = 16"
definition OpExec :: opcode where [const_defs]: "OpExec = 17"
definition OpTimerStart :: opcode where [const_defs]: "OpTimerStart = 18"
definition OpTimerCancel :: opcode where [const_defs]: "OpTimerCancel = 19"
definition OpOutputStderr :: opcode where [const_defs]: "OpOutputStderr = 20"
definition OpInput :: opcode where [const_defs]: "OpInput = 21"

definition MaxFrame :: nat where [const_defs]: "MaxFrame = 67108864"
definition inlineWriteMax :: nat where [const_defs]: "inlineWriteMax = 4096"

text \<open>
  A writer: what it accepted, and for each coming call how many bytes it takes
  and whether it reports an error (when the list is used up, a call succeeds).
\<close>

record writer =
  wrGot :: bytes
  wrNext :: "(nat \<times> bool) list"

definition wrCall :: "writer \<Rightarrow> bytes \<Rightarrow> nat \<times> bool \<times> writer" where
  "wrCall w p =
    (case wrNext w of
       [] \<Rightarrow> (length p, False, w\<lparr>wrGot := wrGot w @ p\<rparr>)
     | (k, err) # r \<Rightarrow>
         let n = min k (length p) in (n, err, w\<lparr>wrGot := wrGot w @ take n p, wrNext := r\<rparr>))"

function writeAll :: "writer \<Rightarrow> bytes \<Rightarrow> proto_error option \<times> writer" where
  "writeAll w p =
    (if length p = 0 then (None, w)
     else case wrCall w p of
       (n, err, w') \<Rightarrow>
         if err then (Some ErrWrite, w')
         else if n = 0 then (Some ErrShortWrite, w')
         else writeAll w' (drop n p))"
  by pat_completeness auto
termination by (relation "measure (\<lambda>(w, p). length p)") auto

declare writeAll.simps [simp del]

definition proto_write :: "writer \<Rightarrow> opcode \<Rightarrow> bytes \<Rightarrow> proto_error option \<times> writer" where
  "proto_write w op payload =
    (if length payload > MaxFrame then (Some ErrProtocol, w)
     else if length payload \<le> inlineWriteMax then
       writeAll w (op # put_u32 (u32_of_len (length payload)) @ payload)
     else case writeAll w (op # put_u32 (u32_of_len (length payload))) of
         (Some e, w') \<Rightarrow> (Some e, w')
       | (None, w') \<Rightarrow> writeAll w' payload)"

definition readFull :: "nat \<Rightarrow> bytes \<Rightarrow> (proto_error + bytes) \<times> bytes" where
  "readFull n s =
    (if n \<le> length s then (Inr (take n s), drop n s)
     else (Inl (if s = [] then ErrEOF else ErrUnexpectedEOF), []))"

text \<open>
  The result, the backing array of the returned buffer (with what an aborted
  read left in it) and the rest of the input.
\<close>

definition AppendReadBounded ::
  "bytes \<Rightarrow> bytes \<Rightarrow> (opcode \<Rightarrow> u32) option \<Rightarrow> ((proto_error + opcode \<times> bytes) \<times> bytes \<times> bytes) option" where
  "AppendReadBounded r buf maxFor =
    (case readFull 5 r of
       (Inl e, r1) \<Rightarrow> Some (Inl e, buf, r1)
     | (Inr hdr, r1) \<Rightarrow> do {
         op \<leftarrow> index hdr 0;
         n \<leftarrow> gslice hdr 1 5 \<bind> get_u32;
         if unat n > MaxFrame then Some (Inl ErrProtocol, buf, r1)
         else if (case maxFor of None \<Rightarrow> False | Some mf \<Rightarrow> n > mf op) then Some (Inl ErrProtocol, buf, r1)
         else
           let buf1 = (if unat n > length buf then replicate (unat n) 0 else buf) in
           (case readFull (unat n) r1 of
              (Inl e, r2) \<Rightarrow> Some (Inl e, put_at 0 r1 buf1, r2)
            | (Inr body, r2) \<Rightarrow>
                let buf2 = put_at 0 body buf1 in Some (Inr (op, take (unat n) buf2), buf2, r2))
       })"

definition AppendRead :: "bytes \<Rightarrow> bytes \<Rightarrow> ((proto_error + opcode \<times> bytes) \<times> bytes \<times> bytes) option" where
  "AppendRead r buf = AppendReadBounded r buf None"

definition ReadBounded :: "bytes \<Rightarrow> (opcode \<Rightarrow> u32) option \<Rightarrow> ((proto_error + opcode \<times> bytes) \<times> bytes \<times> bytes) option" where
  "ReadBounded r maxFor = AppendReadBounded r [] maxFor"

definition proto_read :: "bytes \<Rightarrow> ((proto_error + opcode \<times> bytes) \<times> bytes \<times> bytes) option" where
  "proto_read r = ReadBounded r (Some (\<lambda>_. u32_of_len MaxFrame))"

section \<open>The start message\<close>

record limits =
  MemoryPages :: u32
  FrameTimeout :: u64
  SessionTimeout :: u64
  MaxEventsPerSec :: int
  MaxFramesPerSec :: int

definition MaxMemoryPages :: u32 where [const_defs]: "MaxMemoryPages = 65536"

text \<open>A duration is a signed 64-bit count of nanoseconds, read with \<open>sint\<close>.\<close>

definition validateLimits :: "limits \<Rightarrow> bool" where
  "validateLimits lim \<longleftrightarrow>
     \<not> (MemoryPages lim = 0 \<or> MemoryPages lim > MaxMemoryPages) \<and>
     \<not> (sint (FrameTimeout lim) < 0 \<or> sint (SessionTimeout lim) < 0 \<or>
        MaxEventsPerSec lim < 0 \<or> MaxFramesPerSec lim < 0)"

definition MaxSessionTimeout :: u64 where [const_defs]: "MaxSessionTimeout = 86400000000000"

definition effectiveSessionTimeout :: "limits \<Rightarrow> u64" where
  "effectiveSessionTimeout lim =
     (if sint (SessionTimeout lim) > 0 then SessionTimeout lim else MaxSessionTimeout)"

record start_msg =
  stLimits :: limits
  stCli :: bool
  stCaps :: byte
  stArgs :: "bytes list"
  stWasm :: bytes

definition encodeStart :: "start_msg \<Rightarrow> bytes" where
  "encodeStart m =
    (let lim = stLimits m;
         b = [if stCli m then 1 else 0];
         b = b @ put_u32 (MemoryPages lim);
         b = b @ put_u64 (FrameTimeout lim);
         b = b @ put_u64 (SessionTimeout lim);
         b = b @ put_u32 (u32_of_int (MaxEventsPerSec lim));
         b = b @ put_u32 (u32_of_int (MaxFramesPerSec lim));
         b = b @ [stCaps m];
         b = b @ put_u32 (u32_of_len (length (stArgs m)));
         b = foldl (\<lambda>b arg. (b @ put_u32 (u32_of_len (length arg))) @ arg) b (stArgs m)
     in b @ stWasm m)"

fun decodeStartArgs :: "nat \<Rightarrow> bytes list \<Rightarrow> bytes \<Rightarrow> (proto_error + bytes list \<times> bytes) option" where
  "decodeStartArgs 0 args b = Some (Inr (args, b))"
| "decodeStartArgs (Suc k) args b =
    (if length b < 4 then Some (Inl ErrProtocol)
     else do {
       w \<leftarrow> gslice b 0 4 \<bind> get_u32;
       b1 \<leftarrow> gslice b 4 (length b);
       if unat w > length b1 then Some (Inl ErrProtocol)
       else do {
         arg \<leftarrow> gslice b1 0 (unat w);
         b2 \<leftarrow> gslice b1 (unat w) (length b1);
         decodeStartArgs k (args @ [arg]) b2
       }
     })"

definition decodeStart :: "bytes \<Rightarrow> (proto_error + start_msg) option" where
  "decodeStart b =
    (if length b < 34 then Some (Inl ErrProtocol)
     else do {
       t \<leftarrow> index b 0;
       if t > 1 then Some (Inl ErrProtocol)
       else do {
         mp \<leftarrow> gslice b 1 5 \<bind> get_u32;
         ft \<leftarrow> gslice b 5 13 \<bind> get_u64;
         st \<leftarrow> gslice b 13 21 \<bind> get_u64;
         ev \<leftarrow> gslice b 21 25 \<bind> get_u32;
         fr \<leftarrow> gslice b 25 29 \<bind> get_u32;
         caps \<leftarrow> index b 29;
         argc \<leftarrow> gslice b 30 34 \<bind> get_u32;
         b1 \<leftarrow> gslice b 34 (length b);
         if unat argc > length b1 div 4 then Some (Inl ErrProtocol)
         else do {
           r \<leftarrow> decodeStartArgs (unat argc) [] b1;
           case r of
             Inl e \<Rightarrow> Some (Inl e)
           | Inr (args, wasm) \<Rightarrow>
               Some (Inr \<lparr>stLimits = \<lparr>MemoryPages = mp, FrameTimeout = ft, SessionTimeout = st,
                   MaxEventsPerSec = uint ev, MaxFramesPerSec = uint fr\<rparr>,
                 stCli = (t = 1), stCaps = caps, stArgs = args, stWasm = wasm\<rparr>)
         }
       }
     })"

section \<open>Request payloads\<close>

definition encodeKeyValue :: "bytes \<times> bytes \<Rightarrow> bytes" where
  "encodeKeyValue = (\<lambda>(key, value). put_u16 (u16_of_len (length key)) @ key @ value)"

text \<open>As in \<^verbatim>\<open>takeU16Bytes\<close>, \<open>Some None\<close> is the result \<^verbatim>\<open>ok = false\<close>.\<close>

definition decodeKeyValue :: "bytes \<Rightarrow> (bytes \<times> bytes) option option" where
  "decodeKeyValue b =
    (if length b < 2 then Some None
     else do {
       w \<leftarrow> gslice b 0 2 \<bind> get_u16;
       let n = unat w;
       if length b < 2 + n then Some None
       else do {
         key \<leftarrow> gslice b 2 (2 + n);
         value \<leftarrow> gslice b (2 + n) (length b);
         Some (Some (key, value))
       }
     })"

definition encodeKVListRequest :: "bytes \<times> int \<Rightarrow> bytes" where
  "encodeKVListRequest = (\<lambda>(p, limit). put_u16 (u16_of_int limit) @ p)"

definition decodeKVListRequest :: "bytes \<Rightarrow> (bytes \<times> int) option option" where
  "decodeKVListRequest b =
    (if length b < 2 then Some None
     else do {
       p \<leftarrow> gslice b 2 (length b);
       w \<leftarrow> gslice b 0 2 \<bind> get_u16;
       Some (Some (p, uint w))
     })"

definition encodeKVCAS :: "bytes \<times> bytes \<times> bytes \<Rightarrow> bytes" where
  "encodeKVCAS = (\<lambda>(key, expected, value).
     put_u16 (u16_of_len (length key)) @ key @ expected @ value)"

definition decodeKVCAS :: "bytes \<Rightarrow> (bytes \<times> bytes \<times> bytes) option option" where
  "decodeKVCAS b =
    (if length b < 2 then Some None
     else do {
       w \<leftarrow> gslice b 0 2 \<bind> get_u16;
       let n = unat w;
       if n = 0 \<or> length b < 2 + n + KVHashSize then Some None
       else do {
         key \<leftarrow> gslice b 2 (2 + n);
         expected \<leftarrow> gslice b (2 + n) (2 + n + KVHashSize);
         value \<leftarrow> gslice b (2 + n + KVHashSize) (length b);
         Some (Some (key, expected, value))
       }
     })"

definition encodeDone :: "bytes \<times> bytes \<times> bytes \<Rightarrow> bytes" where
  "encodeDone = (\<lambda>(errStr, goodbye, logs).
     put_u32 (u32_of_len (length errStr)) @ errStr @
     put_u32 (u32_of_len (length goodbye)) @ goodbye @ logs)"

definition decodeDone :: "bytes \<Rightarrow> (bytes \<times> bytes \<times> bytes) option option" where
  "decodeDone b =
    (if length b < 4 then Some None
     else do {
       w \<leftarrow> gslice b 0 4 \<bind> get_u32;
       let n = unat w;
       if length b < 4 + n then Some None
       else do {
         errStr \<leftarrow> gslice b 4 (4 + n);
         b1 \<leftarrow> gslice b (4 + n) (length b);
         if length b1 < 4 then Some None
         else do {
           w1 \<leftarrow> gslice b1 0 4 \<bind> get_u32;
           let m = unat w1;
           if length b1 < 4 + m then Some None
           else do {
             goodbye \<leftarrow> gslice b1 4 (4 + m);
             logs \<leftarrow> gslice b1 (4 + m) (length b1);
             Some (Some (errStr, goodbye, logs))
           }
         }
       }
     })"

section \<open>Payload limits\<close>

definition EnvMaxKey :: nat where [const_defs]: "EnvMaxKey = 256"
definition GoodbyeMaxLen :: nat where [const_defs]: "GoodbyeMaxLen = 4096"
definition maxEncodedFrame :: nat where [const_defs]: "maxEncodedFrame = 8 + 150000 * 11"
definition maxWorkerOutput :: nat where [const_defs]: "maxWorkerOutput = 65536"
definition maxWorkerInput :: nat where [const_defs]: "maxWorkerInput = 65536"
definition maxWorkerError :: nat where [const_defs]: "maxWorkerError = 65536"
definition maxSessionLog :: nat where [const_defs]: "maxSessionLog = 65536"
definition maxEncodedFetch :: nat where [const_defs]:
  "maxEncodedFetch = 2 + FetchMaxMethod + 2 + FetchMaxURL + 4 + FetchMaxBody"
definition maxEncodedExec :: nat where [const_defs]:
  "maxEncodedExec = 4 + ExecMaxName + 4 + ExecMaxArgs * (4 + ExecMaxArg)"

definition maxWorkerPayload :: "opcode \<Rightarrow> u32" where
  "maxWorkerPayload o' = u32_of_len
    (if o' = OpRecv \<or> o' = OpAuth then 0
     else if o' = OpInput then 4
     else if o' = OpPresent then maxEncodedFrame
     else if o' = OpKVGet \<or> o' = OpKVDel then KVMaxKey
     else if o' = OpKVSet then 2 + KVMaxKey + KVMaxValue
     else if o' = OpKVList then 2 + KVMaxKey
     else if o' = OpKVCAS then 2 + KVMaxKey + KVHashSize + KVMaxValue
     else if o' = OpBusSub then BusMaxTopic
     else if o' = OpBusPub then 2 + BusMaxTopic + BusMaxData
     else if o' = OpEnv then EnvMaxKey
     else if o' = OpFetch then maxEncodedFetch
     else if o' = OpExec then maxEncodedExec
     else if o' = OpTimerStart then 9
     else if o' = OpTimerCancel then 4
     else if o' = OpDone then 8 + maxWorkerError + GoodbyeMaxLen + maxSessionLog
     else if o' = OpOutput \<or> o' = OpOutputStderr then maxWorkerOutput
     else 0)"

section \<open>Broker authentication\<close>

definition brokerMagic :: bytes where "brokerMagic = str ''PTRUNNER1''"
definition maxBrokerToken :: nat where [const_defs]: "maxBrokerToken = 4096"

definition put_be16 :: "u16 \<Rightarrow> bytes" where "put_be16 v = rev (put_u16 v)"
definition get_be16 :: "bytes \<Rightarrow> u16 option" where
  "get_be16 b = (if length b < 2 then None else Some (le_word (rev (take 2 b))))"

definition writeBrokerAuth :: "bytes \<Rightarrow> proto_error + bytes" where
  "writeBrokerAuth token =
    (if length token = 0 \<or> length token > maxBrokerToken then Inl ErrTokenLength
     else Inr (brokerMagic @ put_be16 (u16_of_len (length token)) @ token))"

definition readBrokerAuth :: "bytes \<Rightarrow> bytes \<Rightarrow> (proto_error option \<times> bytes) option" where
  "readBrokerAuth r expected =
    (case readFull (length brokerMagic + 2) r of
       (Inl e, r1) \<Rightarrow> Some (Some e, r1)
     | (Inr header, r1) \<Rightarrow> do {
         magic \<leftarrow> gslice header 0 (length brokerMagic);
         if magic \<noteq> brokerMagic then Some (Some ErrHandshake, r1)
         else do {
           w \<leftarrow> gslice header (length brokerMagic) (length header) \<bind> get_be16;
           let n = unat w;
           if n = 0 \<or> n > maxBrokerToken then Some (Some ErrTokenLength, r1)
           else case readFull n r1 of
               (Inl e, r2) \<Rightarrow> Some (Some e, r2)
             | (Inr token, r2) \<Rightarrow>
                 if token \<noteq> expected then Some (Some ErrToken, r2) else Some (None, r2)
         }
       })"

section \<open>Reading a whole stream\<close>

text \<open>The loop of either peer: it reads message after message into one buffer.\<close>

fun read_messages ::
  "nat \<Rightarrow> bytes \<Rightarrow> bytes \<Rightarrow> (opcode \<Rightarrow> u32) option \<Rightarrow> ((opcode \<times> bytes) list \<times> bytes) option" where
  "read_messages 0 r buf maxFor = Some ([], r)"
| "read_messages (Suc k) r buf maxFor = do {
     (res, buf', r') \<leftarrow> AppendReadBounded r buf maxFor;
     case res of
       Inl e \<Rightarrow> Some ([], r')
     | Inr m \<Rightarrow> do {
         (ms, r'') \<leftarrow> read_messages k r' buf' maxFor;
         Some (m # ms, r'')
       }
   }"

fun write_messages :: "writer \<Rightarrow> (opcode \<times> bytes) list \<Rightarrow> proto_error option \<times> writer" where
  "write_messages w [] = (None, w)"
| "write_messages w ((op, p) # ms) =
    (case proto_write w op p of (Some e, w') \<Rightarrow> (Some e, w') | (None, w') \<Rightarrow> write_messages w' ms)"

text \<open>A writer that makes progress on every call and never reports an error.\<close>

definition progresses :: "writer \<Rightarrow> bool" where
  "progresses w \<longleftrightarrow> (\<forall>(k, err) \<in> set (wrNext w). 0 < k \<and> \<not> err)"

definition frame_bytes :: "opcode \<Rightarrow> bytes \<Rightarrow> bytes" where
  "frame_bytes op p = op # put_u32 (u32_of_len (length p)) @ p"

definition admitted :: "(opcode \<Rightarrow> u32) option \<Rightarrow> opcode \<times> bytes \<Rightarrow> bool" where
  "admitted maxFor = (\<lambda>(op, p). length p \<le> MaxFrame \<and>
     (case maxFor of None \<Rightarrow> True | Some mf \<Rightarrow> length p \<le> unat (mf op)))"

definition limits_carried :: "limits \<Rightarrow> bool" where
  "limits_carried lim \<longleftrightarrow> 0 \<le> MaxEventsPerSec lim \<and> MaxEventsPerSec lim < 2 ^ 32 \<and>
     0 \<le> MaxFramesPerSec lim \<and> MaxFramesPerSec lim < 2 ^ 32"

definition start_carried :: "start_msg \<Rightarrow> bool" where
  "start_carried m \<longleftrightarrow> limits_carried (stLimits m) \<and> length (stArgs m) < 2 ^ 32 \<and>
     (\<forall>a \<in> set (stArgs m). length a < 2 ^ 32)"

text \<open>The comma-ok decoders as decoders with an error value.\<close>

definition ok_result :: "(bytes \<Rightarrow> 'm option option) \<Rightarrow> bytes \<Rightarrow> (proto_error + 'm) option" where
  "ok_result dec b = map_option (\<lambda>r. case r of None \<Rightarrow> Inl ErrProtocol | Some m \<Rightarrow> Inr m) (dec b)"

section \<open>Framing: writers and readers\<close>

lemma wrCall_appends:
  "wrCall w p = (n, err, w') \<Longrightarrow> n \<le> length p \<and> wrGot w' = wrGot w @ take n p"
  by (auto simp: wrCall_def Let_def split: list.splits)

lemma wrCall_progress:
  "progresses w \<Longrightarrow> p \<noteq> [] \<Longrightarrow> wrCall w p = (n, err, w') \<Longrightarrow> 0 < n \<and> \<not> err \<and> progresses w'"
  by (auto simp: wrCall_def progresses_def Let_def split: list.splits)

text \<open>Whatever the writer does, it has received a prefix of the data.\<close>

lemma writeAll_prefix:
  "writeAll w p = (r, w') \<Longrightarrow> \<exists>n \<le> length p. wrGot w' = wrGot w @ take n p \<and> (r = None \<longrightarrow> n = length p)"
proof (induction w p rule: writeAll.induct)
  case (1 w p)
  show ?case
  proof (cases "p = []")
    case True
    with 1 show ?thesis by (simp add: writeAll.simps)
  next
    case False
    obtain n err w1 where c: "wrCall w p = (n, err, w1)" by (cases "wrCall w p")
    note ap = wrCall_appends [OF c]
    show ?thesis
    proof (cases "err \<or> n = 0")
      case True
      with 1(2) False c ap show ?thesis
        by (intro exI [of _ n]) (auto simp: writeAll.simps split: if_splits)
    next
      case g: False
      with 1(2) False c have "writeAll w1 (drop n p) = (r, w')" by (simp add: writeAll.simps)
      with 1(1) g False c obtain k where
        k: "k \<le> length p - n" "wrGot w' = wrGot w1 @ take k (drop n p)"
        "r = None \<longrightarrow> k = length p - n"
        by auto
      then have "wrGot w' = wrGot w @ take (n + k) p"
        using ap by (simp add: take_add)
      with k ap show ?thesis by (intro exI [of _ "n + k"]) auto
    qed
  qed
qed

lemma writeAll_ok:
  "progresses w \<Longrightarrow> \<exists>w'. writeAll w p = (None, w') \<and> wrGot w' = wrGot w @ p \<and> progresses w'"
proof (induction w p rule: writeAll.induct)
  case (1 w p)
  show ?case
  proof (cases "p = []")
    case True
    with 1 show ?thesis by (simp add: writeAll.simps)
  next
    case False
    obtain n err w1 where c: "wrCall w p = (n, err, w1)" by (cases "wrCall w p")
    from wrCall_progress [OF 1(2) False c] wrCall_appends [OF c]
    have g: "0 < n" "\<not> err" "progresses w1" "wrGot w1 = wrGot w @ take n p" by auto
    with 1(1) False c obtain w' where
      "writeAll w1 (drop n p) = (None, w')" "wrGot w' = wrGot w1 @ drop n p" "progresses w'" by fastforce
    with g False c show ?thesis by (simp add: writeAll.simps)
  qed
qed

lemma proto_write_ok:
  assumes "progresses w" "length p \<le> MaxFrame"
  shows "\<exists>w'. proto_write w op p = (None, w') \<and> wrGot w' = wrGot w @ frame_bytes op p \<and> progresses w'"
proof (cases "length p \<le> inlineWriteMax")
  case True
  with assms writeAll_ok [OF assms(1), of "frame_bytes op p"] show ?thesis
    by (auto simp: proto_write_def frame_bytes_def)
next
  case False
  obtain w1 where w1: "writeAll w (op # put_u32 (u32_of_len (length p))) = (None, w1)"
    "wrGot w1 = wrGot w @ op # put_u32 (u32_of_len (length p))" "progresses w1"
    using writeAll_ok [OF assms(1)] by blast
  obtain w2 where "writeAll w1 p = (None, w2)" "wrGot w2 = wrGot w1 @ p" "progresses w2"
    using writeAll_ok [OF w1(3)] by blast
  with w1 assms False show ?thesis by (auto simp: proto_write_def frame_bytes_def)
qed

lemma write_messages_ok:
  assumes "progresses w" "\<forall>(op, p) \<in> set ms. length p \<le> MaxFrame"
  shows "\<exists>w'. write_messages w ms = (None, w') \<and>
    wrGot w' = wrGot w @ concat (map (\<lambda>(op, p). frame_bytes op p) ms) \<and> progresses w'"
  using assms
proof (induction ms arbitrary: w)
  case Nil
  then show ?case by simp
next
  case (Cons m ms)
  obtain op p where m: "m = (op, p)" by (cases m)
  with Cons.prems proto_write_ok [of w p op] obtain w1 where
    "proto_write w op p = (None, w1)" "wrGot w1 = wrGot w @ frame_bytes op p" "progresses w1" by auto
  with Cons.IH [of w1] Cons.prems m show ?case by auto
qed

lemma readFull_exact: "length p = n \<Longrightarrow> readFull n (p @ rest) = (Inr p, rest)"
  by (simp add: readFull_def)

lemma AppendReadBounded_frame:
  assumes "admitted maxFor (op, p)"
  shows "\<exists>buf'. AppendReadBounded (frame_bytes op p @ rest) buf maxFor = Some (Inr (op, p), buf', rest)"
proof -
  from assms have len: "length p \<le> MaxFrame" and n: "unat (u32_of_len (length p)) = length p"
    by (auto simp: admitted_def MaxFrame_def)
  have hdr: "readFull 5 (frame_bytes op p @ rest) = (Inr (op # put_u32 (u32_of_len (length p))), p @ rest)"
    using readFull_exact [of "op # put_u32 (u32_of_len (length p))" 5 "p @ rest"]
    by (simp add: frame_bytes_def)
  have cap: "\<not> (case maxFor of None \<Rightarrow> False | Some mf \<Rightarrow> u32_of_len (length p) > mf op)"
    using assms n by (auto simp: admitted_def word_less_nat_alt split: option.splits)
  have body: "readFull (length p) (p @ rest) = (Inr p, rest)"
    by (simp add: readFull_exact)
  have take: "take (length p) (put_at 0 p b) = p" if "length p \<le> length b" for b :: bytes
    using that by (simp add: put_at_def)
  show ?thesis
    using len n hdr cap body take
    by (simp add: AppendReadBounded_def Let_def get_u32_def index_def del: unat_of_len)
qed

lemma read_messages_frames:
  assumes "\<forall>m \<in> set ms. admitted maxFor m"
  shows "read_messages (length ms) (concat (map (\<lambda>(op, p). frame_bytes op p) ms) @ rest) buf maxFor = Some (ms, rest)"
  using assms
proof (induction ms arbitrary: buf)
  case Nil
  then show ?case by simp
next
  case (Cons m ms)
  obtain op p where m: "m = (op, p)" by (cases m)
  with Cons.prems AppendReadBounded_frame [of maxFor op p] obtain buf' where
    "AppendReadBounded (frame_bytes op p @ concat (map (\<lambda>(op, p). frame_bytes op p) ms) @ rest) buf maxFor
      = Some (Inr (op, p), buf', concat (map (\<lambda>(op, p). frame_bytes op p) ms) @ rest)"
    by fastforce
  with Cons m show ?case by simp
qed

lemma readFull_cases:
  obtains (Short) e where "readFull n s = (Inl e, [])" "length s < n"
  | (Full) "readFull n s = (Inr (take n s), drop n s)" "n \<le> length s"
  by (cases "n \<le> length s") (auto simp: readFull_def)

text \<open>
  Every read ends: with an error, or with a message within the limits that the
  input really starts with. The buffer never grows beyond what the limits allow.
\<close>

lemma AppendReadBounded_cases:
  obtains (Error) e buf' r' where "AppendReadBounded r buf maxFor = Some (Inl e, buf', r')"
      "length buf' \<le> max (length buf) MaxFrame"
  | (Message) op p buf' r' where "AppendReadBounded r buf maxFor = Some (Inr (op, p), buf', r')"
      "r = frame_bytes op p @ r'" "admitted maxFor (op, p)" "length buf' = max (length buf) (length p)"
proof (cases rule: readFull_cases [of 5 r])
  case (Short e)
  then show ?thesis using Error [of e buf "[]"] by (simp add: AppendReadBounded_def)
next
  case Full
  define op where "op = r ! 0"
  define n where "n = (le_word (take 4 (drop 1 (take 5 r))) :: u32)"
  define N where "N = unat n"
  define buf1 where "buf1 = (if N > length buf then replicate N 0 else buf)"
  define bad where "bad \<longleftrightarrow> N > MaxFrame \<or> (case maxFor of None \<Rightarrow> False | Some mf \<Rightarrow> n > mf op)"
  have "index (take 5 r) 0 = Some op" "gslice (take 5 r) 1 5 \<bind> get_u32 = Some n"
    using Full by (auto simp: op_def n_def index_def read_u32)
  then have unf: "AppendReadBounded r buf maxFor =
    (if bad then Some (Inl ErrProtocol, buf, drop 5 r)
     else case readFull N (drop 5 r) of (Inl e, r2) \<Rightarrow> Some (Inl e, put_at 0 (drop 5 r) buf1, r2)
       | (Inr body, r2) \<Rightarrow> Some (Inr (op, take N (put_at 0 body buf1)), put_at 0 body buf1, r2))"
    using Full by (cases rule: readFull_cases [of N "drop 5 r"])
      (simp_all add: AppendReadBounded_def Let_def bad_def N_def buf1_def)
  show ?thesis
  proof (cases bad)
    case True
    with unf Error show ?thesis by simp
  next
    case good: False
    then have adm: "N \<le> MaxFrame" "case maxFor of None \<Rightarrow> True | Some mf \<Rightarrow> N \<le> unat (mf op)"
      by (auto simp: bad_def N_def word_less_nat_alt split: option.splits)
    have len1: "length buf1 = max (length buf) N" by (simp add: buf1_def)
    show ?thesis
    proof (cases rule: readFull_cases [of N "drop 5 r"])
      case (Short e)
      have "length (put_at 0 (drop 5 r) buf1) = length buf1"
        using Short len1 by (intro length_put_at) simp
      with Short good unf adm len1 Error show ?thesis by simp
    next
      case body: Full
      let ?p = "take N (drop 5 r)"
      have lp: "length ?p = N" using body by simp
      have rd: "AppendReadBounded r buf maxFor =
          Some (Inr (op, take N (put_at 0 ?p buf1)), put_at 0 ?p buf1, drop N (drop 5 r))"
        using good unf body by simp
      have tk: "take N (put_at 0 ?p buf1) = ?p" "length (put_at 0 ?p buf1) = length buf1"
        using lp len1 by (simp_all add: put_at_def)
      have "put_u32 (u32_of_len N) = take 4 (drop 1 (take 5 r))"
        using Full by (simp add: N_def n_def)
      then have "op # put_u32 (u32_of_len N) = take 5 r"
        using Full by (cases r) (auto simp: op_def)
      then have "r = frame_bytes op ?p @ drop N (drop 5 r)"
        using lp by (metis append_Cons append_assoc append_take_drop_id frame_bytes_def)
      moreover have "admitted maxFor (op, ?p)"
        using adm lp by (simp add: admitted_def split: option.splits)
      ultimately show ?thesis using rd tk lp len1 Message [of op ?p] by simp
    qed
  qed
qed

section \<open>Payload codecs\<close>

lemma decodeKeyValue_eq: "decodeKeyValue b = takeU16Bytes b"
  by (simp add: decodeKeyValue_def takeU16Bytes_def Let_def)

lemma decodeDone_eq:
  "decodeDone b = do {
     r \<leftarrow> takeU32Bytes b;
     case r of None \<Rightarrow> Some None
     | Some (errStr, b1) \<Rightarrow> do {
         r1 \<leftarrow> takeU32Bytes b1;
         case r1 of None \<Rightarrow> Some None | Some (goodbye, logs) \<Rightarrow> Some (Some (errStr, goodbye, logs))
       }
   }"
  by (simp add: decodeDone_def takeU32Bytes_eq read_u32 Let_def)

lemma decodeKVCAS_eq:
  "decodeKVCAS b = (let n = unat (le_word (take 2 b) :: u16) in
     Some (if length b < 2 \<or> n = 0 \<or> length b < 2 + n + KVHashSize then None
       else Some (take n (drop 2 b), take KVHashSize (drop (2 + n) b), drop (2 + n + KVHashSize) b)))"
  by (simp add: decodeKVCAS_def read_u16 Let_def)

lemma decodeKVListRequest_eq:
  "decodeKVListRequest b = Some (if length b < 2 then None
     else Some (drop 2 b, uint (le_word (take 2 b) :: u16)))"
  by (simp add: decodeKVListRequest_def read_u16)

lemma decodeStartArgs_no_panic: "\<exists>r. decodeStartArgs n args b = Some r"
  by (induction n arbitrary: args b) (auto simp: read_u32)

lemma decodeStart_no_panic: "\<exists>r. decodeStart b = Some r"
proof (cases "length b < 34")
  case True
  then show ?thesis by (simp add: decodeStart_def)
next
  case False
  define argc where "argc = unat (le_word (take 4 (drop 30 b)) :: u32)"
  obtain r where "decodeStartArgs argc [] (drop 34 b) = Some r"
    using decodeStartArgs_no_panic by blast
  with False show ?thesis
    by (cases r) (auto simp: decodeStart_def reads argc_def [symmetric] split: prod.split)
qed

lemma decodeStartArgs_encode:
  "\<forall>a \<in> set args. length a < 2 ^ 32 \<Longrightarrow>
   decodeStartArgs (length args) acc (encode_args args @ rest) = Some (Inr (acc @ args, rest))"
proof (induction args arbitrary: acc)
  case Nil
  then show ?case by (simp add: encode_args_def)
next
  case (Cons a args)
  then have n: "unat (u32_of_len (length a)) = length a" by simp
  have e: "encode_args (a # args) @ rest = put_u32 (u32_of_len (length a)) @ a @ encode_args args @ rest"
    by (simp add: encode_args_def)
  show ?case
    unfolding e using Cons n by (simp add: read_u32 gslice_def)
qed

lemma length_encode_args: "4 * length args \<le> length (encode_args args)"
  by (induction args) (auto simp: encode_args_def)

lemma encodeStart_eq:
  "encodeStart m =
    [if stCli m then 1 else 0] @ put_u32 (MemoryPages (stLimits m)) @
    put_u64 (FrameTimeout (stLimits m)) @ put_u64 (SessionTimeout (stLimits m)) @
    put_u32 (u32_of_int (MaxEventsPerSec (stLimits m))) @ put_u32 (u32_of_int (MaxFramesPerSec (stLimits m))) @
    [stCaps m] @ put_u32 (u32_of_len (length (stArgs m))) @ encode_args (stArgs m) @ stWasm m"
proof -
  have "foldl (\<lambda>b arg. (b @ put_u32 (u32_of_len (length arg))) @ arg) b args = b @ encode_args args" for b args
    by (induction args arbitrary: b) (simp_all add: encode_args_def)
  then show ?thesis by (simp add: encodeStart_def Let_def)
qed

lemma start_round_trip:
  assumes "start_carried m"
  shows "decodeStart (encodeStart m) = Some (Inr m)"
proof -
  let ?tail = "encode_args (stArgs m) @ stWasm m"
  from assms have n: "unat (u32_of_len (length (stArgs m))) = length (stArgs m)"
    and lim: "0 \<le> MaxEventsPerSec (stLimits m)" "MaxEventsPerSec (stLimits m) < 4294967296"
      "0 \<le> MaxFramesPerSec (stLimits m)" "MaxFramesPerSec (stLimits m) < 4294967296"
    and args: "\<forall>a \<in> set (stArgs m). length a < 2 ^ 32"
    by (simp_all add: start_carried_def limits_carried_def)
  have fit: "\<not> length (stArgs m) > length ?tail div 4"
    using length_encode_args [of "stArgs m"] by simp
  have "decodeStart (encodeStart m) = do {
      r \<leftarrow> decodeStartArgs (length (stArgs m)) [] ?tail;
      case r of Inl e \<Rightarrow> Some (Inl e)
      | Inr (args, wasm) \<Rightarrow> Some (Inr (m\<lparr>stArgs := args, stWasm := wasm\<rparr>)) }"
    using n lim fit unfolding encodeStart_eq decodeStart_def
    by (cases m, cases "stLimits m") (simp add: gslice_def index_def nth_append)
  also have "\<dots> = Some (Inr m)"
    using decodeStartArgs_encode [OF args, of "[]" "stWasm m"] by simp
  finally show ?thesis .
qed

lemma key_value_round_trip:
  "length k < 65536 \<Longrightarrow> decodeKeyValue (encodeKeyValue (k, v)) = Some (Some (k, v))"
  by (simp add: decodeKeyValue_eq encodeKeyValue_def takeU16Bytes_put)

lemma kv_list_request_round_trip:
  "0 \<le> n \<Longrightarrow> n < 65536 \<Longrightarrow> decodeKVListRequest (encodeKVListRequest (p, n)) = Some (Some (p, n))"
  by (simp add: decodeKVListRequest_eq encodeKVListRequest_def)

lemma kv_cas_round_trip:
  "k \<noteq> [] \<Longrightarrow> length k < 65536 \<Longrightarrow> length h = KVHashSize \<Longrightarrow>
   decodeKVCAS (encodeKVCAS (k, h, v)) = Some (Some (k, h, v))"
  by (simp add: decodeKVCAS_eq encodeKVCAS_def Let_def)

lemma done_round_trip:
  "length e < 2 ^ 32 \<Longrightarrow> length g < 2 ^ 32 \<Longrightarrow> decodeDone (encodeDone (e, g, l)) = Some (Some (e, g, l))"
  by (simp add: decodeDone_eq encodeDone_def takeU32Bytes_put)

lemma decodeKeyValue_no_panic: "\<exists>r. decodeKeyValue b = Some r"
  by (simp add: decodeKeyValue_eq takeBytes_no_panic)

lemma decodeDone_no_panic: "\<exists>r. decodeDone b = Some r"
  by (simp add: decodeDone_eq takeU32Bytes_eq split: option.split prod.split)

lemma decodeKVListRequest_no_panic: "\<exists>r. decodeKVListRequest b = Some r"
  by (simp add: decodeKVListRequest_eq)

lemma decodeKVCAS_no_panic: "\<exists>r. decodeKVCAS b = Some r"
  by (simp add: decodeKVCAS_eq Let_def)

lemmas ok_result_simps = ok_result_def not_None_eq option.map_disc_iff

interpretation start_wire: wire_codec encodeStart decodeStart start_carried
  using decodeStart_no_panic by unfold_locales (auto simp: start_round_trip)

interpretation key_value_wire: wire_codec encodeKeyValue "ok_result decodeKeyValue"
  "\<lambda>(k, v). length k < 65536"
  using decodeKeyValue_no_panic
  by unfold_locales (auto simp: ok_result_simps key_value_round_trip)

interpretation kv_list_wire: wire_codec encodeKVListRequest "ok_result decodeKVListRequest"
  "\<lambda>(p, n). 0 \<le> n \<and> n < 65536"
  using decodeKVListRequest_no_panic
  by unfold_locales (auto simp: ok_result_simps kv_list_request_round_trip)

interpretation kv_cas_wire: wire_codec encodeKVCAS "ok_result decodeKVCAS"
  "\<lambda>(k, h, v). k \<noteq> [] \<and> length k < 65536 \<and> length h = KVHashSize"
  using decodeKVCAS_no_panic by unfold_locales (auto simp: ok_result_simps kv_cas_round_trip)

interpretation done_wire: wire_codec encodeDone "ok_result decodeDone"
  "\<lambda>(e, g, l). length e < 2 ^ 32 \<and> length g < 2 ^ 32"
  using decodeDone_no_panic by unfold_locales (auto simp: ok_result_simps done_round_trip)

section \<open>Limits of the operations\<close>

lemma payload_limits:
  "unat (maxWorkerPayload OpRecv) = 0" "unat (maxWorkerPayload OpAuth) = 0"
  "unat (maxWorkerPayload OpInput) = 4" "unat (maxWorkerPayload OpPresent) = maxEncodedFrame"
  "unat (maxWorkerPayload OpKVGet) = KVMaxKey" "unat (maxWorkerPayload OpKVDel) = KVMaxKey"
  "unat (maxWorkerPayload OpKVSet) = 2 + KVMaxKey + KVMaxValue"
  "unat (maxWorkerPayload OpKVList) = 2 + KVMaxKey"
  "unat (maxWorkerPayload OpKVCAS) = 2 + KVMaxKey + KVHashSize + KVMaxValue"
  "unat (maxWorkerPayload OpBusSub) = BusMaxTopic"
  "unat (maxWorkerPayload OpBusPub) = 2 + BusMaxTopic + BusMaxData"
  "unat (maxWorkerPayload OpEnv) = EnvMaxKey" "unat (maxWorkerPayload OpFetch) = maxEncodedFetch"
  "unat (maxWorkerPayload OpExec) = maxEncodedExec" "unat (maxWorkerPayload OpTimerStart) = 9"
  "unat (maxWorkerPayload OpTimerCancel) = 4"
  "unat (maxWorkerPayload OpDone) = 8 + maxWorkerError + GoodbyeMaxLen + maxSessionLog"
  "unat (maxWorkerPayload OpOutput) = maxWorkerOutput" "unat (maxWorkerPayload OpOutputStderr) = maxWorkerOutput"
  by (simp_all add: maxWorkerPayload_def const_defs)

section \<open>Broker authentication\<close>

lemma length_brokerMagic [simp]: "length brokerMagic = 9"
  by (simp add: brokerMagic_def str_def)

lemma be16_put [simp]: "get_be16 (put_be16 v) = Some v" "length (put_be16 v) = 2"
  by (simp_all add: get_be16_def put_be16_def)

lemma put_be16_inject [simp]: "put_be16 v = put_be16 w \<longleftrightarrow> v = w"
  by (metis be16_put(1) option.inject)

lemma be16_get: "length b = 2 \<Longrightarrow> get_be16 b = Some w \<Longrightarrow> b = put_be16 w"
  by (auto simp: get_be16_def put_be16_def)

lemma readBrokerAuth_header:
  "readBrokerAuth (brokerMagic @ put_be16 w @ r) expected =
    (if unat w = 0 \<or> unat w > maxBrokerToken then Some (Some ErrTokenLength, r)
     else case readFull (unat w) r of (Inl e, r2) \<Rightarrow> Some (Some e, r2)
       | (Inr token, r2) \<Rightarrow> Some (if token \<noteq> expected then Some ErrToken else None, r2))"
proof -
  have "readFull 11 (brokerMagic @ put_be16 w @ r) = (Inr (brokerMagic @ put_be16 w), r)"
    using readFull_exact [of "brokerMagic @ put_be16 w" 11 r] by simp
  then show ?thesis
    by (cases rule: readFull_cases [of "unat w" r]) (simp_all add: readBrokerAuth_def gslice_def)
qed

lemma readBrokerAuth_cases:
  obtains (Rejected) e r' where "readBrokerAuth r expected = Some (Some e, r')"
  | (Header) w r1 where "r = brokerMagic @ put_be16 w @ r1"
proof (cases rule: readFull_cases [of 11 r])
  case (Short e)
  with Rejected show ?thesis by (simp add: readBrokerAuth_def)
next
  case Full
  show ?thesis
  proof (cases "take 9 (take 11 r) = brokerMagic")
    case False
    with Full Rejected show ?thesis by (simp add: readBrokerAuth_def)
  next
    case True
    let ?b = "drop 9 (take 11 r)"
    have "length ?b = 2" using Full by simp
    then obtain w where "?b = put_be16 w" using be16_get [of ?b] by (auto simp: get_be16_def)
    with True have "take 11 r = brokerMagic @ put_be16 w" by (metis append_take_drop_id)
    then have "r = brokerMagic @ put_be16 w @ drop 11 r" by (metis append_assoc append_take_drop_id)
    then show ?thesis by (rule Header)
  qed
qed

section \<open>Properties\<close>

text \<open>
  C12: Messages cross a pipe unchanged. However the writer splits the data into
  partial writes (as long as each call makes progress), the reader's loop, which
  keeps one buffer with arbitrary old contents, gets back exactly the messages
  that were sent, in order, and leaves the rest of the stream alone.
\<close>

theorem messages_cross_the_pipe:
  assumes "progresses w" "wrGot w = []" "\<forall>m \<in> set ms. admitted maxFor m"
  shows "\<exists>w'. write_messages w ms = (None, w') \<and>
    read_messages (length ms) (wrGot w' @ rest) buf maxFor = Some (ms, rest)"
  using write_messages_ok [OF assms(1), of ms] read_messages_frames [OF assms(3), of rest buf] assms(2,3)
  by (fastforce simp: admitted_def)

theorem messages_cross_the_pipe_witness:
  "\<exists>w'. write_messages \<lparr>wrGot = [], wrNext = [(3, False), (1, False)]\<rparr> [(OpKVGet, [7, 8]), (OpAuth, [])] = (None, w') \<and>
    read_messages 2 (wrGot w' @ [9]) [1, 1, 1] (Some maxWorkerPayload) = Some ([(OpKVGet, [7, 8]), (OpAuth, [])], [9])"
proof -
  have len: "length [(OpKVGet, [7, 8]), (OpAuth, [])] = 2" by simp
  show ?thesis
    by (rule messages_cross_the_pipe [where ms = "[(OpKVGet, [7, 8]), (OpAuth, [])]", unfolded len])
      (simp_all add: progresses_def admitted_def payload_limits MaxFrame_def KVMaxKey_def)
qed

text \<open>
  C13: Reading hostile bytes is safe. A bounded read never panics, it leaves a
  buffer of at most the old size or the global frame limit (in particular a
  forged length cannot make the reader allocate more), and a message it accepts
  is within the limit of its operation and is what the input starts with.
\<close>

theorem bounded_read_safe:
  "\<exists>res buf' r'. AppendReadBounded r buf (Some maxFor) = Some (res, buf', r') \<and>
    length buf' \<le> max (length buf) MaxFrame \<and>
    (case res of Inl e \<Rightarrow> True
     | Inr (op, p) \<Rightarrow> r = frame_bytes op p @ r' \<and> length p \<le> unat (maxFor op) \<and>
         length buf' = max (length buf) (length p))"
  by (cases rule: AppendReadBounded_cases [of r buf "Some maxFor"]) (auto simp: admitted_def)

text \<open>
  The worker starts with exactly the session parameters the parent sent:
  resource limits, application type, capability bits, arguments and module.
\<close>

theorem start_message_exact:
  assumes "start_carried m"
  shows "decodeStart (encodeStart m) = Some (Inr m)"
  using assms by (rule start_wire.round_trip)

theorem start_message_exact_witness:
  "decodeStart (encodeStart \<lparr>stLimits = \<lparr>MemoryPages = 512, FrameTimeout = 2000000000, SessionTimeout = 0,
     MaxEventsPerSec = 200, MaxFramesPerSec = 120\<rparr>, stCli = True, stCaps = 5, stArgs = [[1, 2], []], stWasm = [0, 97]\<rparr>)
   = Some (Inr \<lparr>stLimits = \<lparr>MemoryPages = 512, FrameTimeout = 2000000000, SessionTimeout = 0,
     MaxEventsPerSec = 200, MaxFramesPerSec = 120\<rparr>, stCli = True, stCaps = 5, stArgs = [[1, 2], []], stWasm = [0, 97]\<rparr>)"
  by (rule start_message_exact) (simp add: start_carried_def limits_carried_def)

text \<open>
  A broker connection is accepted exactly when its input starts with the
  authentication preamble of the expected token, and then nothing beyond the
  preamble is consumed; no input makes the check panic.
\<close>

theorem broker_auth_exact:
  "readBrokerAuth r expected = Some (None, r') \<longleftrightarrow>
     (\<exists>preamble. writeBrokerAuth expected = Inr preamble \<and> r = preamble @ r')"
proof (cases rule: readBrokerAuth_cases [of r expected])
  case (Rejected e r1)
  have "r \<noteq> preamble @ r'" if "writeBrokerAuth expected = Inr preamble" for preamble
  proof
    assume "r = preamble @ r'"
    with that Rejected readBrokerAuth_header [of "u16_of_len (length expected)" "expected @ r'" expected]
    show False
      by (auto simp: writeBrokerAuth_def const_defs readFull_exact split: if_splits)
  qed
  with Rejected show ?thesis by auto
next
  case (Header w r1)
  show ?thesis
  proof (cases rule: readFull_cases [of "unat w" r1])
    case (Short e)
    then show ?thesis
      using Header by (auto simp: readBrokerAuth_header writeBrokerAuth_def const_defs split: if_splits)
  next
    case Full
    then show ?thesis
      using Header by (auto simp: readBrokerAuth_header writeBrokerAuth_def const_defs split: if_splits)
        (metis append_take_drop_id same_append_eq)
  qed
qed

end
