(* ===== verification/Host_Calls.thy ===== *)
theory Host_Calls
  imports Kv_Store Proc_Proto
begin

text \<open>
  The capabilities of a session and the host functions a guest calls to reach
  them: \<^verbatim>\<open>auth.go\<close>, \<^verbatim>\<open>env.go\<close>, \<^verbatim>\<open>fetch.go\<close>, \<^verbatim>\<open>exec.go\<close>,
  \<^verbatim>\<open>bus.go\<close>, \<^verbatim>\<open>timer.go\<close>, \<^verbatim>\<open>goodbye.go\<close> and the \<^verbatim>\<open>recv\<close> and
  \<^verbatim>\<open>present\<close> functions of \<^verbatim>\<open>devhost.go\<close>, all under
  \<^verbatim>\<open>src/internal/runner\<close> (the key/value functions are in the theory of the
  stores). A capability is the record or function behind its Go interface, on a
  state \<open>'w\<close> of the host; an absent capability is \<open>None\<close>.
\<close>

section \<open>Capabilities\<close>

record auth_identity =
  aiUser :: bytes
  aiAuthenticated :: bool
  aiKind :: bytes
  aiOwnsApp :: bool
  aiOwnerID :: bytes

definition zero_identity :: auth_identity where
  "zero_identity = \<lparr>aiUser = [], aiAuthenticated = False, aiKind = [], aiOwnsApp = False, aiOwnerID = []\<rparr>"

definition IdentitySSHKey :: bytes where "IdentitySSHKey = str ''ssh-key''"
definition IdentityAnonymous :: bytes where "IdentityAnonymous = str ''anonymous''"

definition identityKindToABI :: "bytes \<Rightarrow> byte" where
  "identityKindToABI kind =
    (if kind = IdentitySSHKey then 1 else if kind = IdentityAnonymous then 2 else 0)"

definition identityKindFromABI :: "byte \<Rightarrow> bytes" where
  "identityKindFromABI kind =
    (if kind = 1 then IdentitySSHKey else if kind = 2 then IdentityAnonymous else [])"

definition abi_identity :: "auth_identity \<Rightarrow> identity" where
  "abi_identity i = \<lparr>idUser = aiUser i, idAuthenticated = aiAuthenticated i,
     idKind = identityKindToABI (aiKind i), idOwnsApp = aiOwnsApp i\<rparr>"

datatype fetch_error = ErrEgressDenied | ErrEgressUnavailable | ErrResponseTooLarge | ErrBadRequest
  | ErrTooManyRedirects | ErrFetchRPC | ErrTransport

datatype exec_error = ErrExecTooLarge | ErrExecDenied | ErrExecTimedOut | ErrExecNotFound
  | ErrExecUnresolved | ErrExecRPC | ErrExecOther

record 'w timer_ops =
  tmStart :: "'w \<Rightarrow> u64 \<Rightarrow> bool \<Rightarrow> u32 \<times> 'w"
  tmCancel :: "'w \<Rightarrow> u32 \<Rightarrow> bool \<times> 'w"

record 'w capabilities =
  capKV :: "'w store_ops option"
  capBus :: "('w \<Rightarrow> bytes \<Rightarrow> bytes \<Rightarrow> int \<times> 'w) option"
  capAuth :: "('w \<Rightarrow> auth_identity \<times> 'w) option"
  capEnv :: "('w \<Rightarrow> bytes \<Rightarrow> bytes option \<times> 'w) option"
  capFetch :: "('w \<Rightarrow> fetch_request \<Rightarrow> (fetch_error + fetch_response) \<times> 'w) option"
  capExec :: "('w \<Rightarrow> exec_request \<Rightarrow> (exec_error + exec_response) \<times> 'w) option"
  capTimers :: "'w timer_ops option"

text \<open>
  Every function that hands data to the guest ends the same way: when the data
  does not fit the guest's buffer it reports the length it needs and writes
  nothing, otherwise it writes the data (\<open>always\<close>: even when there are no
  bytes to write) and reports its length.
\<close>

definition reply_to_guest ::
  "bool \<Rightarrow> int \<Rightarrow> 'mem mem_write \<Rightarrow> 'mem \<Rightarrow> u32 \<Rightarrow> u32 \<Rightarrow> bytes \<Rightarrow> int \<times> 'mem" where
  "reply_to_guest always internal wr m outPtr outCap enc =
    (let n = sint (u32_of_len (length enc)) in
     if n > sint outCap then (n, m)
     else if always \<or> n > 0 then
       (case wr m outPtr enc of None \<Rightarrow> (internal, m) | Some m' \<Rightarrow> (n, m'))
     else (n, m))"

section \<open>Identity, environment, goodbye\<close>

definition AuthErrInternal :: int where [const_defs]: "AuthErrInternal = - 1"
definition EnvErrNotFound :: int where [const_defs]: "EnvErrNotFound = - 1"
definition EnvErrTooLarge :: int where [const_defs]: "EnvErrTooLarge = - 2"
definition EnvErrInternal :: int where [const_defs]: "EnvErrInternal = - 3"

definition auth_whoami ::
  "('w \<Rightarrow> auth_identity \<times> 'w) option \<Rightarrow> 'mem mem_write \<Rightarrow> 'mem \<Rightarrow> 'w \<Rightarrow> u32 \<Rightarrow> u32 \<Rightarrow> int \<times> 'mem \<times> 'w" where
  "auth_whoami auth wr m w outPtr outCap =
    (case auth of None \<Rightarrow> (AuthErrInternal, m, w)
     | Some whoami \<Rightarrow>
       (case whoami w of (i, w') \<Rightarrow>
          (case reply_to_guest True AuthErrInternal wr m outPtr outCap (EncodeIdentity (abi_identity i)) of
             (n, m') \<Rightarrow> (n, m', w'))))"

definition env_get ::
  "('w \<Rightarrow> bytes \<Rightarrow> bytes option \<times> 'w) option \<Rightarrow> 'mem mem_read \<Rightarrow> 'mem mem_write \<Rightarrow> 'mem \<Rightarrow> 'w \<Rightarrow>
   u32 \<Rightarrow> u32 \<Rightarrow> u32 \<Rightarrow> u32 \<Rightarrow> int \<times> 'mem \<times> 'w" where
  "env_get env rd wr m w keyPtr keyLen outPtr outCap =
    (case env of None \<Rightarrow> (EnvErrInternal, m, w)
     | Some get \<Rightarrow>
       if sint keyLen \<le> 0 \<or> sint keyLen > int EnvMaxKey then (EnvErrTooLarge, m, w)
       else case rd m keyPtr keyLen of None \<Rightarrow> (EnvErrInternal, m, w)
         | Some raw \<Rightarrow>
           (case get w raw of
              (None, w') \<Rightarrow> (EnvErrNotFound, m, w')
            | (Some val, w') \<Rightarrow>
                (case reply_to_guest False EnvErrInternal wr m outPtr outCap val of (n, m') \<Rightarrow> (n, m', w'))))"

text \<open>The goodbye message of the session; \<open>None\<close> when the caller opted out.\<close>

definition goodbye_set :: "'mem mem_read \<Rightarrow> 'mem \<Rightarrow> bytes option \<Rightarrow> u32 \<Rightarrow> u32 \<Rightarrow> bytes option" where
  "goodbye_set rd m goodbye ptr len =
    (if goodbye = None \<or> sint len \<le> 0 \<or> sint len > int GoodbyeMaxLen then goodbye
     else case rd m ptr len of None \<Rightarrow> goodbye | Some raw \<Rightarrow> Some raw)"

section \<open>Outbound requests\<close>

definition FetchErrDenied :: int where [const_defs]: "FetchErrDenied = - 1"
definition FetchErrTooLarge :: int where [const_defs]: "FetchErrTooLarge = - 2"
definition FetchErrInternal :: int where [const_defs]: "FetchErrInternal = - 3"
definition FetchErrUnavail :: int where [const_defs]: "FetchErrUnavail = - 4"

definition fetch_code :: "fetch_error \<Rightarrow> int" where
  "fetch_code e = (case e of ErrEgressDenied \<Rightarrow> FetchErrDenied | ErrEgressUnavailable \<Rightarrow> FetchErrUnavail
     | ErrResponseTooLarge \<Rightarrow> FetchErrTooLarge | _ \<Rightarrow> FetchErrInternal)"

definition fetch_call ::
  "('w \<Rightarrow> fetch_request \<Rightarrow> (fetch_error + fetch_response) \<times> 'w) option \<Rightarrow> 'mem mem_read \<Rightarrow> 'mem mem_write \<Rightarrow>
   'mem \<Rightarrow> 'w \<Rightarrow> u32 \<Rightarrow> u32 \<Rightarrow> u32 \<Rightarrow> u32 \<Rightarrow> (int \<times> 'mem \<times> 'w) option" where
  "fetch_call fetch rd wr m w reqPtr reqLen outPtr outCap =
    (case fetch of None \<Rightarrow> Some (FetchErrUnavail, m, w)
     | Some f \<Rightarrow>
       if sint reqLen \<le> 0 \<or> sint reqLen > int maxEncodedFetch then Some (FetchErrInternal, m, w)
       else case rd m reqPtr reqLen of None \<Rightarrow> Some (FetchErrInternal, m, w)
         | Some raw \<Rightarrow> do {
             d \<leftarrow> DecodeFetchRequest raw;
             case d of
               Inl _ \<Rightarrow> Some (FetchErrInternal, m, w)
             | Inr req \<Rightarrow>
                 if length (feMethod req) > FetchMaxMethod \<or> length (feURL req) > FetchMaxURL
                    \<or> length (feBody req) > FetchMaxBody then Some (FetchErrTooLarge, m, w)
                 else case f w req of
                     (Inl e, w') \<Rightarrow> Some (fetch_code e, m, w')
                   | (Inr resp, w') \<Rightarrow>
                       (case reply_to_guest True FetchErrInternal wr m outPtr outCap (EncodeFetchResponse resp) of
                          (n, m') \<Rightarrow> Some (n, m', w'))
           })"

section \<open>Local commands\<close>

definition ExecErrUnavailable :: int where [const_defs]: "ExecErrUnavailable = - 1"
definition ExecErrTooLarge :: int where [const_defs]: "ExecErrTooLarge = - 2"
definition ExecErrFailed :: int where [const_defs]: "ExecErrFailed = - 3"

definition validExecRequest :: "exec_request \<Rightarrow> bool" where
  "validExecRequest req \<longleftrightarrow>
     \<not> (exName req = [] \<or> length (exName req) > ExecMaxName \<or> length (exArgs req) > ExecMaxArgs) \<and>
     list_all (\<lambda>arg. \<not> length arg > ExecMaxArg) (exArgs req)"

definition exec_code :: "exec_error \<Rightarrow> int" where
  "exec_code e = (case e of ErrExecTooLarge \<Rightarrow> ExecErrTooLarge | ErrExecDenied \<Rightarrow> ExecErrUnavailable
     | ErrExecNotFound \<Rightarrow> ExecErrUnavailable | ErrExecUnresolved \<Rightarrow> ExecErrUnavailable | _ \<Rightarrow> ExecErrFailed)"

definition exec_call ::
  "('w \<Rightarrow> exec_request \<Rightarrow> (exec_error + exec_response) \<times> 'w) option \<Rightarrow> 'mem mem_read \<Rightarrow> 'mem mem_write \<Rightarrow>
   'mem \<Rightarrow> 'w \<Rightarrow> u32 \<Rightarrow> u32 \<Rightarrow> u32 \<Rightarrow> u32 \<Rightarrow> (int \<times> 'mem \<times> 'w) option" where
  "exec_call commander rd wr m w reqPtr reqLen outPtr outCap =
    (case commander of None \<Rightarrow> Some (ExecErrUnavailable, m, w)
     | Some run \<Rightarrow>
       if sint reqLen \<le> 0 \<or> sint outCap < 0 then Some (ExecErrTooLarge, m, w)
       else case rd m reqPtr reqLen of None \<Rightarrow> Some (ExecErrFailed, m, w)
         | Some raw \<Rightarrow> do {
             d \<leftarrow> DecodeExecRequest raw;
             case d of
               Inl _ \<Rightarrow> Some (ExecErrTooLarge, m, w)
             | Inr req \<Rightarrow>
                 if \<not> validExecRequest req then Some (ExecErrTooLarge, m, w)
                 else case run w req of
                     (Inl e, w') \<Rightarrow> Some (exec_code e, m, w')
                   | (Inr resp, w') \<Rightarrow>
                       if length (exStdout resp) > ExecMaxOutput \<or> length (exStderr resp) > ExecMaxOutput
                       then Some (ExecErrTooLarge, m, w')
                       else case reply_to_guest False ExecErrFailed wr m outPtr outCap (EncodeExecResponse resp) of
                           (n, m') \<Rightarrow> Some (n, m', w')
           })"

section \<open>Bus and timers\<close>

definition BusOk :: int where [const_defs]: "BusOk = 0"
definition BusErrTooLarge :: int where [const_defs]: "BusErrTooLarge = - 1"
definition BusErrInternal :: int where [const_defs]: "BusErrInternal = - 2"

definition readTopic :: "'mem mem_read \<Rightarrow> 'mem \<Rightarrow> u32 \<Rightarrow> u32 \<Rightarrow> bytes \<times> int" where
  "readTopic rd m ptr len =
    (if sint len \<le> 0 \<or> sint len > int BusMaxTopic then ([], BusErrTooLarge)
     else case rd m ptr len of None \<Rightarrow> ([], BusErrInternal) | Some raw \<Rightarrow> (raw, BusOk))"

text \<open>A subscriber's \<^verbatim>\<open>Subscribe\<close> returns whether it failed.\<close>

definition bus_sub ::
  "('w \<Rightarrow> bytes \<Rightarrow> bool \<times> 'w) option \<Rightarrow> 'mem mem_read \<Rightarrow> 'mem \<Rightarrow> 'w \<Rightarrow> u32 \<Rightarrow> u32 \<Rightarrow> int \<times> 'w" where
  "bus_sub sub rd m w topicPtr topicLen =
    (case sub of None \<Rightarrow> (BusErrInternal, w)
     | Some subscribe \<Rightarrow>
       (case readTopic rd m topicPtr topicLen of (topic, code) \<Rightarrow>
          if topic = [] then (code, w)
          else case subscribe w topic of (failed, w') \<Rightarrow> (if failed then BusErrInternal else BusOk, w')))"

definition bus_pub ::
  "('w \<Rightarrow> bytes \<Rightarrow> bytes \<Rightarrow> int \<times> 'w) option \<Rightarrow> 'mem mem_read \<Rightarrow> 'mem \<Rightarrow> 'w \<Rightarrow> u32 \<Rightarrow> u32 \<Rightarrow> u32 \<Rightarrow> u32 \<Rightarrow> int \<times> 'w" where
  "bus_pub bus rd m w topicPtr topicLen dataPtr dataLen =
    (case bus of None \<Rightarrow> (BusErrInternal, w)
     | Some publish \<Rightarrow>
       (case readTopic rd m topicPtr topicLen of (topic, code) \<Rightarrow>
          if topic = [] then (code, w)
          else if sint dataLen < 0 \<or> sint dataLen > int BusMaxData then (BusErrTooLarge, w)
          else case rd m dataPtr dataLen of None \<Rightarrow> (BusErrInternal, w)
            | Some raw \<Rightarrow> (case publish w topic raw of (n, w') \<Rightarrow> (sint (u32_of_int n), w'))))"

definition TimerErrInvalid :: int where [const_defs]: "TimerErrInvalid = - 1"
definition TimerErrLimit :: int where [const_defs]: "TimerErrLimit = - 2"
definition TimerErrInternal :: int where [const_defs]: "TimerErrInternal = - 3"

definition timer_start :: "'w timer_ops option \<Rightarrow> 'w \<Rightarrow> u64 \<Rightarrow> u32 \<Rightarrow> int \<times> 'w" where
  "timer_start timers w delayNanos recurring =
    (case timers of None \<Rightarrow> (TimerErrInternal, w)
     | Some t \<Rightarrow>
       if recurring \<noteq> 0 \<and> recurring \<noteq> 1 then (TimerErrInternal, w)
       else case tmStart t w delayNanos (recurring = 1) of (r, w') \<Rightarrow> (sint r, w'))"

definition timer_cancel :: "'w timer_ops option \<Rightarrow> 'w \<Rightarrow> u32 \<Rightarrow> int \<times> 'w" where
  "timer_cancel timers w i =
    (case timers of None \<Rightarrow> (0, w)
     | Some t \<Rightarrow>
       if sint i \<le> 0 then (0, w)
       else case tmCancel t w i of (b, w') \<Rightarrow> (if b then 1 else 0, w'))"

end
