(* ===== verification/Proc_Session.thy ===== *)
theory Proc_Session
  imports Host_Calls
begin

text \<open>
  A session in an isolated worker process. The parent's side is the handler
  \<^verbatim>\<open>serve\<close> of \<^verbatim>\<open>src/internal/runner/procrunner.go\<close>, which answers one
  request of the worker with the real capabilities; the worker's side is the
  lock-step call and the proxies of \<^verbatim>\<open>src/internal/runner/procworker.go\<close>, which
  stand in for the capabilities. The theory shows that no request makes the
  parent panic, and that a guest cannot tell the proxies from the capabilities.
\<close>

section \<open>The parent\<close>

datatype io_status = ReadOK | ReadEOF | ReadError

record 'w session_io =
  ioSource :: "('w \<Rightarrow> event option \<times> 'w) option"
  ioPresent :: "('w \<Rightarrow> frame \<Rightarrow> 'w) option"
  ioHealthy :: "('w \<Rightarrow> bool) option"
  ioSub :: "('w \<Rightarrow> bytes \<Rightarrow> bool \<times> 'w) option"
  ioStdin :: "('w \<Rightarrow> nat \<Rightarrow> bytes \<times> io_status \<times> 'w) option"
  ioStdout :: "('w \<Rightarrow> bytes \<Rightarrow> bool \<times> 'w) option"
  ioStderr :: "('w \<Rightarrow> bytes \<Rightarrow> bool \<times> 'w) option"

record proc_session =
  psEv :: bytes
  psCells :: "cell list"
  psLast :: bytes

definition suppressed :: "bytes \<Rightarrow> bytes \<Rightarrow> ('w \<Rightarrow> bool) option \<Rightarrow> 'w \<Rightarrow> bool" where
  "suppressed prev raw healthy w \<longleftrightarrow>
     raw = prev \<and> (case healthy of None \<Rightarrow> False | Some h \<Rightarrow> h w)"

definition observe :: "proc_session \<Rightarrow> bytes \<Rightarrow> proc_session" where
  "observe s raw = s\<lparr>psLast := raw\<rparr>"

text \<open>
  A handler returns what it hands to \<^verbatim>\<open>writeMsg(w, opResp, ...)\<close>, or the error
  that ends the session, with the new state of the parent; \<open>None\<close> is a panic.
\<close>

type_synonym 'w served = "((proto_error + bytes) \<times> proc_session \<times> 'w) option"

definition serve_recv :: "'w session_io \<Rightarrow> proc_session \<Rightarrow> 'w \<Rightarrow> 'w served" where
  "serve_recv io s w =
    (case ioSource io of None \<Rightarrow> Some (Inl ErrProtocol, s, w)
     | Some next \<Rightarrow>
       (case next w of
          (None, w') \<Rightarrow> Some (Inr [0], s, w')
        | (Some ev, w') \<Rightarrow>
            let b = AppendEvent (psEv s) ev in Some (Inr (1 # b), s\<lparr>psEv := b\<rparr>, w')))"

definition serve_present :: "'w session_io \<Rightarrow> proc_session \<Rightarrow> 'w \<Rightarrow> bytes \<Rightarrow> 'w served" where
  "serve_present io s w payload =
    (case ioPresent io of None \<Rightarrow> Some (Inl ErrProtocol, s, w)
     | Some present \<Rightarrow>
       if suppressed (psLast s) payload (ioHealthy io) w then Some (Inr [], s, w)
       else case AppendDecodeFrame (psCells s) payload of
           None \<Rightarrow> None
         | Some (cells, Inl e) \<Rightarrow> Some (Inl ErrProtocol, s, w)
         | Some (cells, Inr f) \<Rightarrow>
             if \<not> validFrame f then Some (Inl ErrProtocol, s, w)
             else Some (Inr [], observe (s\<lparr>psCells := cells\<rparr>) payload, present w f))"

definition serve_kv_get :: "'w capabilities \<Rightarrow> proc_session \<Rightarrow> 'w \<Rightarrow> bytes \<Rightarrow> 'w served" where
  "serve_kv_get caps s w payload =
    (case capKV caps of None \<Rightarrow> Some (Inr [2], s, w)
     | Some kv \<Rightarrow>
       if length payload = 0 \<or> length payload > KVMaxKey then Some (Inr [2], s, w)
       else case opGet kv w payload of
           Inl _ \<Rightarrow> Some (Inr [2], s, w)
         | Inr None \<Rightarrow> Some (Inr [1], s, w)
         | Inr (Some val) \<Rightarrow> Some (Inr (0 # val), s, w))"

definition serve_kv_set :: "'w capabilities \<Rightarrow> proc_session \<Rightarrow> 'w \<Rightarrow> bytes \<Rightarrow> 'w served" where
  "serve_kv_set caps s w payload =
    (case decodeKeyValue payload of
       None \<Rightarrow> None
     | Some None \<Rightarrow> Some (Inr [2], s, w)
     | Some (Some (key, val)) \<Rightarrow>
         (case capKV caps of None \<Rightarrow> Some (Inr [2], s, w)
          | Some kv \<Rightarrow>
            if length key = 0 \<or> length key > KVMaxKey \<or> length val > KVMaxValue then Some (Inr [2], s, w)
            else case opSet kv w key val of
                (None, w') \<Rightarrow> Some (Inr [0], s, w')
              | (Some e, w') \<Rightarrow> Some (Inr [if e = ErrQuota then 1 else 2], s, w')))"

definition serve_kv_del :: "'w capabilities \<Rightarrow> proc_session \<Rightarrow> 'w \<Rightarrow> bytes \<Rightarrow> 'w served" where
  "serve_kv_del caps s w payload =
    (case capKV caps of None \<Rightarrow> Some (Inr [2], s, w)
     | Some kv \<Rightarrow>
       if length payload = 0 \<or> length payload > KVMaxKey then Some (Inr [2], s, w)
       else case opDelete kv w payload of
           (Some e, w') \<Rightarrow> Some (Inr [2], s, w')
         | (None, w') \<Rightarrow> Some (Inr [0], s, w'))"

definition serve_kv_list :: "'w capabilities \<Rightarrow> proc_session \<Rightarrow> 'w \<Rightarrow> bytes \<Rightarrow> 'w served" where
  "serve_kv_list caps s w payload =
    (case decodeKVListRequest payload of
       None \<Rightarrow> None
     | Some None \<Rightarrow> Some (Inr [1], s, w)
     | Some (Some (p, limit)) \<Rightarrow>
         (case capKV caps of None \<Rightarrow> Some (Inr [1], s, w)
          | Some kv \<Rightarrow>
            if length p > KVMaxKey \<or> limit < 1 \<or> limit > int KVMaxList then Some (Inr [1], s, w)
            else case opList kv w p limit of
                Inl _ \<Rightarrow> Some (Inr [1], s, w)
              | Inr keys \<Rightarrow>
                  if int (length keys) > limit \<or> length keys > KVMaxList then Some (Inr [1], s, w)
                  else Some (Inr (0 # EncodeKVList keys), s, w)))"

definition serve_kv_cas :: "'w capabilities \<Rightarrow> proc_session \<Rightarrow> 'w \<Rightarrow> bytes \<Rightarrow> 'w served" where
  "serve_kv_cas caps s w payload =
    (case decodeKVCAS payload of
       None \<Rightarrow> None
     | Some None \<Rightarrow> Some (Inr [3], s, w)
     | Some (Some (key, expected, value)) \<Rightarrow>
         (case capKV caps of None \<Rightarrow> Some (Inr [3], s, w)
          | Some kv \<Rightarrow>
            if length key > KVMaxKey \<or> length value > KVMaxValue then Some (Inr [3], s, w)
            else case opCAS kv w key expected value of
                (None, w') \<Rightarrow> Some (Inr [0], s, w')
              | (Some ErrConflict, w') \<Rightarrow> Some (Inr [1], s, w')
              | (Some ErrQuota, w') \<Rightarrow> Some (Inr [2], s, w')
              | (Some _, w') \<Rightarrow> Some (Inr [3], s, w')))"

definition serve_bus_sub :: "'w session_io \<Rightarrow> proc_session \<Rightarrow> 'w \<Rightarrow> bytes \<Rightarrow> 'w served" where
  "serve_bus_sub io s w payload =
    (if length payload = 0 \<or> length payload > BusMaxTopic then Some (Inl ErrProtocol, s, w)
     else case ioSub io of None \<Rightarrow> Some (Inr [0], s, w)
       | Some subscribe \<Rightarrow>
         (case subscribe w payload of (failed, w') \<Rightarrow> Some (Inr [if failed then 1 else 0], s, w')))"

definition serve_bus_pub :: "'w capabilities \<Rightarrow> proc_session \<Rightarrow> 'w \<Rightarrow> bytes \<Rightarrow> 'w served" where
  "serve_bus_pub caps s w payload =
    (case decodeKeyValue payload of
       None \<Rightarrow> None
     | Some None \<Rightarrow> Some (Inl ErrProtocol, s, w)
     | Some (Some (topic, dat)) \<Rightarrow>
         if length topic = 0 \<or> length topic > BusMaxTopic \<or> length dat > BusMaxData
         then Some (Inl ErrProtocol, s, w)
         else case capBus caps of None \<Rightarrow> Some (Inr (put_u32 0), s, w)
           | Some publish \<Rightarrow> (case publish w topic dat of (n, w') \<Rightarrow> Some (Inr (put_u32 (u32_of_int n)), s, w')))"

definition serve_auth :: "'w capabilities \<Rightarrow> proc_session \<Rightarrow> 'w \<Rightarrow> bytes \<Rightarrow> 'w served" where
  "serve_auth caps s w payload =
    (if length payload \<noteq> 0 then Some (Inl ErrProtocol, s, w)
     else case capAuth caps of None \<Rightarrow> Some (Inr [0], s, w)
       | Some whoami \<Rightarrow>
         (case whoami w of (i, w') \<Rightarrow> Some (Inr (1 # EncodeIdentity (abi_identity i)), s, w')))"

definition serve_env :: "'w capabilities \<Rightarrow> proc_session \<Rightarrow> 'w \<Rightarrow> bytes \<Rightarrow> 'w served" where
  "serve_env caps s w payload =
    (if length payload = 0 \<or> length payload > EnvMaxKey then Some (Inl ErrProtocol, s, w)
     else case capEnv caps of None \<Rightarrow> Some (Inr [0], s, w)
       | Some get \<Rightarrow>
         (case get w payload of
            (None, w') \<Rightarrow> Some (Inr [0], s, w')
          | (Some val, w') \<Rightarrow> Some (Inr (1 # val), s, w')))"

definition serveFetch :: "'w capabilities \<Rightarrow> proc_session \<Rightarrow> 'w \<Rightarrow> bytes \<Rightarrow> 'w served" where
  "serveFetch caps s w payload =
    (case capFetch caps of None \<Rightarrow> Some (Inr [4], s, w)
     | Some f \<Rightarrow>
       (case DecodeFetchRequest payload of
          None \<Rightarrow> None
        | Some (Inl _) \<Rightarrow> Some (Inr [3], s, w)
        | Some (Inr req) \<Rightarrow>
            if length (feMethod req) > FetchMaxMethod \<or> length (feURL req) > FetchMaxURL
               \<or> length (feBody req) > FetchMaxBody then Some (Inr [3], s, w)
            else case f w req of
                (Inl e, w') \<Rightarrow> Some (Inr [if e = ErrEgressDenied then 1 else 3], s, w')
              | (Inr resp, w') \<Rightarrow> Some (Inr (0 # EncodeFetchResponse resp), s, w')))"

definition serve_exec :: "'w capabilities \<Rightarrow> proc_session \<Rightarrow> 'w \<Rightarrow> bytes \<Rightarrow> 'w served" where
  "serve_exec caps s w payload =
    (case capExec caps of None \<Rightarrow> Some (Inr [1], s, w)
     | Some run \<Rightarrow>
       (case DecodeExecRequest payload of
          None \<Rightarrow> None
        | Some (Inl _) \<Rightarrow> Some (Inr [2], s, w)
        | Some (Inr req) \<Rightarrow>
            if \<not> validExecRequest req then Some (Inr [2], s, w)
            else case run w req of
                (Inl e, w') \<Rightarrow> Some (Inr [if e = ErrExecTooLarge then 2 else 3], s, w')
              | (Inr resp, w') \<Rightarrow>
                  if length (exStdout resp) > ExecMaxOutput \<or> length (exStderr resp) > ExecMaxOutput
                  then Some (Inr [2], s, w')
                  else Some (Inr (0 # EncodeExecResponse resp), s, w')))"

definition serve_timer_start :: "'w capabilities \<Rightarrow> proc_session \<Rightarrow> 'w \<Rightarrow> bytes \<Rightarrow> 'w served" where
  "serve_timer_start caps s w payload =
    (case capTimers caps of None \<Rightarrow> Some (Inl ErrProtocol, s, w)
     | Some t \<Rightarrow>
       if length payload \<noteq> 9 then Some (Inl ErrProtocol, s, w)
       else do {
         r \<leftarrow> index payload 8;
         if r > 1 then Some (Inl ErrProtocol, s, w)
         else do {
           d \<leftarrow> gslice payload 0 8 \<bind> get_u64;
           case tmStart t w d (r = 1) of (result, w') \<Rightarrow> Some (Inr (put_u32 result), s, w')
         }
       })"

definition serve_timer_cancel :: "'w capabilities \<Rightarrow> proc_session \<Rightarrow> 'w \<Rightarrow> bytes \<Rightarrow> 'w served" where
  "serve_timer_cancel caps s w payload =
    (case capTimers caps of None \<Rightarrow> Some (Inl ErrProtocol, s, w)
     | Some t \<Rightarrow>
       if length payload \<noteq> 4 then Some (Inl ErrProtocol, s, w)
       else do {
         i \<leftarrow> get_u32 payload;
         case tmCancel t w i of (b, w') \<Rightarrow> Some (Inr [if b then 1 else 0], s, w')
       })"

definition serve_output :: "('w \<Rightarrow> bytes \<Rightarrow> bool \<times> 'w) option \<Rightarrow> proc_session \<Rightarrow> 'w \<Rightarrow> bytes \<Rightarrow> 'w served" where
  "serve_output out s w payload =
    (if length payload > maxWorkerOutput then Some (Inl ErrProtocol, s, w)
     else case out of None \<Rightarrow> Some (Inr [], s, w)
       | Some write \<Rightarrow>
         (case write w payload of (failed, w') \<Rightarrow> Some (if failed then Inl ErrWrite else Inr [], s, w')))"

definition stdinOK :: byte where [const_defs]: "stdinOK = 0"
definition stdinEOF :: byte where [const_defs]: "stdinEOF = 1"
definition stdinError :: byte where [const_defs]: "stdinError = 2"

definition serve_input :: "'w session_io \<Rightarrow> proc_session \<Rightarrow> 'w \<Rightarrow> bytes \<Rightarrow> 'w served" where
  "serve_input io s w payload =
    (if length payload \<noteq> 4 then Some (Inl ErrProtocol, s, w)
     else do {
       requested \<leftarrow> get_u32 payload;
       if requested = 0 \<or> unat requested > maxWorkerInput then Some (Inl ErrProtocol, s, w)
       else case ioStdin io of None \<Rightarrow> Some (Inr [stdinEOF], s, w)
         | Some read \<Rightarrow>
           (case read w (unat requested) of (b, status, w') \<Rightarrow>
              if length b > unat requested then Some (Inl ErrProtocol, s, w')
              else Some (Inr ((case status of ReadOK \<Rightarrow> stdinOK | ReadEOF \<Rightarrow> stdinEOF | ReadError \<Rightarrow> stdinError) # b), s, w'))
     })"

definition serve :: "'w capabilities \<Rightarrow> 'w session_io \<Rightarrow> opcode \<Rightarrow> bytes \<Rightarrow> proc_session \<Rightarrow> 'w \<Rightarrow> 'w served" where
  "serve caps io o' payload s w =
    (if o' = OpRecv then serve_recv io s w
     else if o' = OpPresent then serve_present io s w payload
     else if o' = OpKVGet then serve_kv_get caps s w payload
     else if o' = OpKVSet then serve_kv_set caps s w payload
     else if o' = OpKVDel then serve_kv_del caps s w payload
     else if o' = OpKVList then serve_kv_list caps s w payload
     else if o' = OpKVCAS then serve_kv_cas caps s w payload
     else if o' = OpBusSub then serve_bus_sub io s w payload
     else if o' = OpBusPub then serve_bus_pub caps s w payload
     else if o' = OpAuth then serve_auth caps s w payload
     else if o' = OpEnv then serve_env caps s w payload
     else if o' = OpFetch then serveFetch caps s w payload
     else if o' = OpExec then serve_exec caps s w payload
     else if o' = OpTimerStart then serve_timer_start caps s w payload
     else if o' = OpTimerCancel then serve_timer_cancel caps s w payload
     else if o' = OpOutput then serve_output (ioStdout io) s w payload
     else if o' = OpOutputStderr then serve_output (ioStderr io) s w payload
     else if o' = OpInput then serve_input io s w payload
     else Some (Inl ErrProtocol, s, w))"

section \<open>The lock-step call\<close>

text \<open>
  Both ends of one session: the parent with its state, its scratch state and its
  read buffer, the worker's read buffer, and whether the session is still up
  (the parent leaves its loop, and the pipes close, at the first error).
\<close>

record 'w rpc =
  rpWorld :: 'w
  rpSess :: proc_session
  rpBuf :: bytes
  rpWorkerBuf :: bytes
  rpAlive :: bool

definition pipe :: writer where "pipe = \<lparr>wrGot = [], wrNext = []\<rparr>"

text \<open>
  The end of a session: what the parent makes of a done message. It sets the goodbye text and
  writes the log where the caller asked for them, and returns the error of the guest, with the text of
  \<^verbatim>\<open>ErrFrameDeadline\<close> recognised.
\<close>

datatype done_result = DoneClean | DoneFrameDeadline | DoneError bytes | DoneProtocol

definition ErrFrameDeadline :: bytes where
  "ErrFrameDeadline = map (of_nat \<circ> of_char) ''guest exceeded per-frame deadline; session terminated''"

definition parent_done :: "bool \<Rightarrow> bool \<Rightarrow> bytes \<Rightarrow> (done_result \<times> bytes option \<times> bytes) option" where
  "parent_done wants_goodbye wants_logs payload = do {
     r \<leftarrow> decodeDone payload;
     case r of
       None \<Rightarrow> Some (DoneProtocol, None, [])
     | Some (errStr, goodbye, logs) \<Rightarrow>
         if length errStr > maxWorkerError \<or> length goodbye > GoodbyeMaxLen \<or> length logs > maxSessionLog
         then Some (DoneProtocol, None, [])
         else Some (if errStr = [] then DoneClean else if errStr = ErrFrameDeadline then DoneFrameDeadline else DoneError errStr,
           if wants_goodbye then Some goodbye else None, if wants_logs then logs else [])
   }"

text \<open>One turn of the parent's loop on the bytes of one request: the reply, or \<open>None\<close> when it stops.\<close>

definition parent_turn :: "'w capabilities \<Rightarrow> 'w session_io \<Rightarrow> 'w rpc \<Rightarrow> bytes \<Rightarrow> bytes option \<times> 'w rpc" where
  "parent_turn caps io s r =
    (case AppendReadBounded r (rpBuf s) (Some maxWorkerPayload) of
       None \<Rightarrow> (None, s\<lparr>rpAlive := False\<rparr>)
     | Some (Inl e, buf, _) \<Rightarrow> (None, s\<lparr>rpBuf := buf, rpAlive := False\<rparr>)
     | Some (Inr (o', payload), buf, _) \<Rightarrow>
         if o' = OpDone then (None, s\<lparr>rpBuf := buf, rpAlive := False\<rparr>)
         else case serve caps io o' payload (rpSess s) (rpWorld s) of
             None \<Rightarrow> (None, s\<lparr>rpBuf := buf, rpAlive := False\<rparr>)
           | Some (Inl e, sess, w) \<Rightarrow> (None, s\<lparr>rpBuf := buf, rpSess := sess, rpWorld := w, rpAlive := False\<rparr>)
           | Some (Inr reply, sess, w) \<Rightarrow>
               (case proto_write pipe OpResp reply of
                  (Some e, _) \<Rightarrow> (None, s\<lparr>rpBuf := buf, rpSess := sess, rpWorld := w, rpAlive := False\<rparr>)
                | (None, out) \<Rightarrow> (Some (wrGot out), s\<lparr>rpBuf := buf, rpSess := sess, rpWorld := w\<rparr>)))"

definition rpc_call :: "'w capabilities \<Rightarrow> 'w session_io \<Rightarrow> 'w rpc \<Rightarrow> opcode \<Rightarrow> bytes \<Rightarrow> (proto_error + bytes) \<times> 'w rpc" where
  "rpc_call caps io s o' payload =
    (if \<not> rpAlive s then (Inl ErrWrite, s)
     else case proto_write pipe o' payload of
         (Some e, _) \<Rightarrow> (Inl e, s)
       | (None, out) \<Rightarrow>
           (case parent_turn caps io s (wrGot out) of
              (None, s') \<Rightarrow> (Inl ErrEOF, s')
            | (Some r, s') \<Rightarrow>
                (case AppendRead r (rpWorkerBuf s') of
                   None \<Rightarrow> (Inl ErrProtocol, s')
                 | Some (Inl e, buf, _) \<Rightarrow> (Inl e, s'\<lparr>rpWorkerBuf := buf\<rparr>)
                 | Some (Inr (ro, rp), buf, _) \<Rightarrow>
                     if ro \<noteq> OpResp then (Inl ErrProtocol, s'\<lparr>rpWorkerBuf := buf\<rparr>)
                     else (Inr rp, s'\<lparr>rpWorkerBuf := buf\<rparr>))))"

section \<open>The proxies of the worker\<close>

definition proxyNext :: "'w capabilities \<Rightarrow> 'w session_io \<Rightarrow> 'w rpc \<Rightarrow> (event option \<times> 'w rpc) option" where
  "proxyNext caps io s =
    (case rpc_call caps io s OpRecv [] of
       (Inl e, s') \<Rightarrow> Some (None, s')
     | (Inr [], s') \<Rightarrow> Some (None, s')
     | (Inr (b # rest), s') \<Rightarrow>
         if b = 0 then Some (None, s')
         else do {
           d \<leftarrow> DecodeEvent rest;
           case d of Inl _ \<Rightarrow> Some (None, s') | Inr ev \<Rightarrow> Some (Some ev, s')
         })"

definition proxyPresent :: "'w capabilities \<Rightarrow> 'w session_io \<Rightarrow> 'w rpc \<Rightarrow> bytes \<Rightarrow> 'w rpc" where
  "proxyPresent caps io s raw = snd (rpc_call caps io s OpPresent raw)"

definition proxyTimerStart :: "'w capabilities \<Rightarrow> 'w session_io \<Rightarrow> 'w rpc \<Rightarrow> u64 \<Rightarrow> bool \<Rightarrow> u32 \<times> 'w rpc" where
  "proxyTimerStart caps io s delay recurring =
    (case rpc_call caps io s OpTimerStart (put_u64 delay @ [if recurring then 1 else 0]) of
       (Inl e, s') \<Rightarrow> (u32_of_int TimerErrInternal, s')
     | (Inr rp, s') \<Rightarrow> if length rp \<noteq> 4 then (u32_of_int TimerErrInternal, s') else (le_word rp, s'))"

definition proxyTimerCancel :: "'w capabilities \<Rightarrow> 'w session_io \<Rightarrow> 'w rpc \<Rightarrow> u32 \<Rightarrow> bool \<times> 'w rpc" where
  "proxyTimerCancel caps io s i =
    (case rpc_call caps io s OpTimerCancel (put_u32 i) of
       (Inl e, s') \<Rightarrow> (False, s') | (Inr rp, s') \<Rightarrow> (rp = [1], s'))"

definition proxyInputRead :: "'w capabilities \<Rightarrow> 'w session_io \<Rightarrow> 'w rpc \<Rightarrow> nat \<Rightarrow> bytes \<times> io_status \<times> 'w rpc" where
  "proxyInputRead caps io s len =
    (if len = 0 then ([], ReadOK, s)
     else
       let requested = min len maxWorkerInput in
       case rpc_call caps io s OpInput (put_u32 (u32_of_len requested)) of
         (Inl e, s') \<Rightarrow> ([], ReadError, s')
       | (Inr response, s') \<Rightarrow>
           if length response = 0 \<or> length response - 1 > requested then ([], ReadError, s')
           else
             let b = take len (tl response) in
             if hd response = stdinOK then (b, ReadOK, s')
             else if hd response = stdinEOF then (b, ReadEOF, s')
             else if hd response = stdinError then (b, ReadError, s')
             else ([], ReadError, s'))"

function proxyOutputWrite ::
  "'w capabilities \<Rightarrow> 'w session_io \<Rightarrow> opcode \<Rightarrow> nat \<Rightarrow> 'w rpc \<Rightarrow> bytes \<Rightarrow> (nat \<times> bool) \<times> 'w rpc" where
  "proxyOutputWrite caps io opcode written s p =
    (if length p = 0 then ((written, False), s)
     else
       let n = min (length p) maxWorkerOutput in
       case rpc_call caps io s opcode (take n p) of
         (Inl e, s') \<Rightarrow> ((written, True), s')
       | (Inr _, s') \<Rightarrow> proxyOutputWrite caps io opcode (written + n) s' (drop n p))"
  by pat_completeness auto
termination by (relation "measure (\<lambda>(_, _, _, _, _, p). length p)") (auto simp: maxWorkerOutput_def)

declare proxyOutputWrite.simps [simp del]

definition proxyKVGet :: "'w capabilities \<Rightarrow> 'w session_io \<Rightarrow> 'w rpc \<Rightarrow> bytes \<Rightarrow> (kv_error + bytes option) \<times> 'w rpc" where
  "proxyKVGet caps io s key =
    (case rpc_call caps io s OpKVGet key of
       (Inl e, s') \<Rightarrow> (Inl ErrRPC, s')
     | (Inr [], s') \<Rightarrow> (Inl ErrRPC, s')
     | (Inr (b # rest), s') \<Rightarrow>
         if b = 0 then (Inr (Some rest), s') else if b = 1 then (Inr None, s') else (Inl ErrRPC, s'))"

definition proxyKVSet :: "'w capabilities \<Rightarrow> 'w session_io \<Rightarrow> 'w rpc \<Rightarrow> bytes \<Rightarrow> bytes \<Rightarrow> kv_error option \<times> 'w rpc" where
  "proxyKVSet caps io s key value =
    (case rpc_call caps io s OpKVSet (encodeKeyValue (key, value)) of
       (Inl e, s') \<Rightarrow> (Some ErrRPC, s')
     | (Inr [], s') \<Rightarrow> (Some ErrRPC, s')
     | (Inr (b # rest), s') \<Rightarrow>
         if b = 0 then (None, s') else if b = 1 then (Some ErrQuota, s') else (Some ErrRPC, s'))"

definition proxyKVDelete :: "'w capabilities \<Rightarrow> 'w session_io \<Rightarrow> 'w rpc \<Rightarrow> bytes \<Rightarrow> kv_error option \<times> 'w rpc" where
  "proxyKVDelete caps io s key =
    (case rpc_call caps io s OpKVDel key of
       (Inl e, s') \<Rightarrow> (Some ErrRPC, s')
     | (Inr rp, s') \<Rightarrow> if rp = [] \<or> hd rp \<noteq> 0 then (Some ErrRPC, s') else (None, s'))"

definition proxyKVList :: "'w capabilities \<Rightarrow> 'w session_io \<Rightarrow> 'w rpc \<Rightarrow> bytes \<Rightarrow> int \<Rightarrow> ((kv_error + bytes list) \<times> 'w rpc) option" where
  "proxyKVList caps io s p limit =
    (case rpc_call caps io s OpKVList (encodeKVListRequest (p, limit)) of
       (Inl e, s') \<Rightarrow> Some (Inl ErrRPC, s')
     | (Inr rp, s') \<Rightarrow>
         if rp = [] \<or> hd rp \<noteq> 0 then Some (Inl ErrRPC, s')
         else do {
           d \<leftarrow> DecodeKVList (tl rp);
           case d of Inl _ \<Rightarrow> Some (Inl ErrRPC, s') | Inr keys \<Rightarrow> Some (Inr keys, s')
         })"

definition proxyKVCompareAndSwap ::
  "'w capabilities \<Rightarrow> 'w session_io \<Rightarrow> 'w rpc \<Rightarrow> bytes \<Rightarrow> bytes \<Rightarrow> bytes \<Rightarrow> kv_error option \<times> 'w rpc" where
  "proxyKVCompareAndSwap caps io s key expected value =
    (case rpc_call caps io s OpKVCAS (encodeKVCAS (key, expected, value)) of
       (Inl e, s') \<Rightarrow> (Some ErrRPC, s')
     | (Inr [], s') \<Rightarrow> (Some ErrRPC, s')
     | (Inr (b # rest), s') \<Rightarrow>
         if b = 0 then (None, s') else if b = 1 then (Some ErrConflict, s')
         else if b = 2 then (Some ErrQuota, s') else (Some ErrRPC, s'))"

definition proxyWhoami :: "'w capabilities \<Rightarrow> 'w session_io \<Rightarrow> 'w rpc \<Rightarrow> (auth_identity \<times> 'w rpc) option" where
  "proxyWhoami caps io s =
    (case rpc_call caps io s OpAuth [] of
       (Inl e, s') \<Rightarrow> Some (zero_identity, s')
     | (Inr rp, s') \<Rightarrow>
         if rp = [] \<or> hd rp = 0 then Some (zero_identity, s')
         else do {
           d \<leftarrow> DecodeIdentity (tl rp);
           case d of Inl _ \<Rightarrow> Some (zero_identity, s')
           | Inr i \<Rightarrow> Some (\<lparr>aiUser = idUser i, aiAuthenticated = idAuthenticated i,
               aiKind = identityKindFromABI (idKind i), aiOwnsApp = idOwnsApp i, aiOwnerID = []\<rparr>, s')
         })"

definition proxyEnvGet :: "'w capabilities \<Rightarrow> 'w session_io \<Rightarrow> 'w rpc \<Rightarrow> bytes \<Rightarrow> bytes option \<times> 'w rpc" where
  "proxyEnvGet caps io s key =
    (case rpc_call caps io s OpEnv key of
       (Inl e, s') \<Rightarrow> (None, s')
     | (Inr [], s') \<Rightarrow> (None, s')
     | (Inr (b # rest), s') \<Rightarrow> if b = 0 then (None, s') else (Some rest, s'))"

definition proxyFetch :: "'w capabilities \<Rightarrow> 'w session_io \<Rightarrow> 'w rpc \<Rightarrow> fetch_request \<Rightarrow> ((fetch_error + fetch_response) \<times> 'w rpc) option" where
  "proxyFetch caps io s req =
    (case rpc_call caps io s OpFetch (EncodeFetchRequest req) of
       (Inl e, s') \<Rightarrow> Some (Inl ErrFetchRPC, s')
     | (Inr [], s') \<Rightarrow> Some (Inl ErrFetchRPC, s')
     | (Inr (b # rest), s') \<Rightarrow>
         if b = 0 then do {
           d \<leftarrow> DecodeFetchResponse rest;
           case d of Inl _ \<Rightarrow> Some (Inl ErrFetchRPC, s') | Inr resp \<Rightarrow> Some (Inr resp, s')
         }
         else if b = 1 then Some (Inl ErrEgressDenied, s')
         else if b = 4 then Some (Inl ErrEgressUnavailable, s')
         else Some (Inl ErrFetchRPC, s'))"

definition proxyExec :: "'w capabilities \<Rightarrow> 'w session_io \<Rightarrow> 'w rpc \<Rightarrow> exec_request \<Rightarrow> ((exec_error + exec_response) \<times> 'w rpc) option" where
  "proxyExec caps io s req =
    (case rpc_call caps io s OpExec (EncodeExecRequest req) of
       (Inl e, s') \<Rightarrow> Some (Inl ErrExecRPC, s')
     | (Inr [], s') \<Rightarrow> Some (Inl ErrExecRPC, s')
     | (Inr (b # rest), s') \<Rightarrow>
         if b = 0 then do {
           d \<leftarrow> DecodeExecResponse rest;
           case d of Inl _ \<Rightarrow> Some (Inl ErrExecRPC, s') | Inr resp \<Rightarrow> Some (Inr resp, s')
         }
         else if b = 2 then Some (Inl ErrExecTooLarge, s')
         else Some (Inl ErrExecRPC, s'))"

definition proxyPublish :: "'w capabilities \<Rightarrow> 'w session_io \<Rightarrow> 'w rpc \<Rightarrow> bytes \<Rightarrow> bytes \<Rightarrow> int \<times> 'w rpc" where
  "proxyPublish caps io s topic dat =
    (case rpc_call caps io s OpBusPub (encodeKeyValue (topic, dat)) of
       (Inl e, s') \<Rightarrow> (0, s')
     | (Inr rp, s') \<Rightarrow> if length rp < 4 then (0, s') else (sint (le_word (take 4 rp) :: u32), s'))"

definition proxySubscribe :: "'w capabilities \<Rightarrow> 'w session_io \<Rightarrow> 'w rpc \<Rightarrow> bytes \<Rightarrow> bool \<times> 'w rpc" where
  "proxySubscribe caps io s topic =
    (case rpc_call caps io s OpBusSub topic of
       (Inl e, s') \<Rightarrow> (True, s') | (Inr rp, s') \<Rightarrow> (rp \<noteq> [] \<and> hd rp \<noteq> 0, s'))"

section \<open>Installing the proxies\<close>

definition capMask :: "'w capabilities \<Rightarrow> byte" where
  "capMask caps =
    (let m = 0 :: byte;
         m = (if capKV caps \<noteq> None then m OR 1 else m);
         m = (if capBus caps \<noteq> None then m OR 2 else m);
         m = (if capAuth caps \<noteq> None then m OR 4 else m);
         m = (if capEnv caps \<noteq> None then m OR 8 else m);
         m = (if capFetch caps \<noteq> None then m OR 16 else m);
         m = (if capExec caps \<noteq> None then m OR 32 else m)
     in m)"

text \<open>A panic of the worker ends its process and with it the session.\<close>

definition or_dead :: "'a \<Rightarrow> 'w rpc \<Rightarrow> ('a \<times> 'w rpc) option \<Rightarrow> 'a \<times> 'w rpc" where
  "or_dead d s r = (case r of None \<Rightarrow> (d, s\<lparr>rpAlive := False\<rparr>) | Some x \<Rightarrow> x)"

definition proxy_ops :: "'w capabilities \<Rightarrow> 'w session_io \<Rightarrow> 'w rpc store_ops" where
  "proxy_ops caps io = \<lparr>opGet = (\<lambda>s k. fst (proxyKVGet caps io s k)), opSet = proxyKVSet caps io,
     opDelete = proxyKVDelete caps io,
     opList = (\<lambda>s p n. fst (or_dead (Inl ErrRPC) s (proxyKVList caps io s p n))),
     opCAS = proxyKVCompareAndSwap caps io\<rparr>"

definition worker_caps :: "'w capabilities \<Rightarrow> 'w session_io \<Rightarrow> bool \<Rightarrow> byte \<Rightarrow> 'w rpc capabilities" where
  "worker_caps caps io cli bits =
    \<lparr>capKV = (if bits AND 1 \<noteq> 0 then Some (proxy_ops caps io) else None),
     capBus = (if bits AND 2 \<noteq> 0 then Some (proxyPublish caps io) else None),
     capAuth = (if bits AND 4 \<noteq> 0 then Some (\<lambda>s. or_dead zero_identity s (proxyWhoami caps io s)) else None),
     capEnv = (if bits AND 8 \<noteq> 0 then Some (proxyEnvGet caps io) else None),
     capFetch = (if bits AND 16 \<noteq> 0
       then Some (\<lambda>s r. or_dead (Inl ErrFetchRPC) s (proxyFetch caps io s r)) else None),
     capExec = (if bits AND 32 \<noteq> 0
       then Some (\<lambda>s r. or_dead (Inl ErrExecRPC) s (proxyExec caps io s r)) else None),
     capTimers = (if \<not> cli then Some \<lparr>tmStart = proxyTimerStart caps io, tmCancel = proxyTimerCancel caps io\<rparr>
       else None)\<rparr>"

section \<open>Guests\<close>

text \<open>
  A guest that uses the key/value functions: from the codes it got so far and
  its memory it computes its new memory and its next call, or stops.
\<close>

datatype kv_call =
    CallSet u32 u32 u32 u32
  | CallGet u32 u32 u32 u32
  | CallDelete u32 u32
  | CallList u32 u32 u32 u32 u32
  | CallCas u32 u32 u32 u32 u32

fun kv_host :: "'s store_ops option \<Rightarrow> 'mem mem_read \<Rightarrow> 'mem mem_write \<Rightarrow> 'mem \<Rightarrow> 's \<Rightarrow> kv_call \<Rightarrow> int \<times> 'mem \<times> 's" where
  "kv_host kv rd wr m s (CallSet a b c d) = (case kv_set kv rd m s a b c d of (r, s') \<Rightarrow> (r, m, s'))"
| "kv_host kv rd wr m s (CallGet a b c d) = (case kv_get kv rd wr m s a b c d of (r, m') \<Rightarrow> (r, m', s))"
| "kv_host kv rd wr m s (CallDelete a b) = (case kv_delete kv rd m s a b of (r, s') \<Rightarrow> (r, m, s'))"
| "kv_host kv rd wr m s (CallList a b c d e) = (case kv_list kv rd wr m s a b c d e of (r, m') \<Rightarrow> (r, m', s))"
| "kv_host kv rd wr m s (CallCas a b c d e) =
    (case kv_compare_and_swap kv rd m s a b c d e of (r, s') \<Rightarrow> (r, m, s'))"

type_synonym 'mem kv_guest = "int list \<Rightarrow> 'mem \<Rightarrow> ('mem \<times> kv_call) option"

fun guest_run ::
  "nat \<Rightarrow> 'mem kv_guest \<Rightarrow> 's store_ops option \<Rightarrow> 'mem mem_read \<Rightarrow> 'mem mem_write \<Rightarrow>
   int list \<Rightarrow> 'mem \<Rightarrow> 's \<Rightarrow> int list \<times> 'mem \<times> 's" where
  "guest_run 0 guest kv rd wr codes m s = (codes, m, s)"
| "guest_run (Suc n) guest kv rd wr codes m s =
    (case guest codes m of None \<Rightarrow> (codes, m, s)
     | Some (m', c) \<Rightarrow>
       (case kv_host kv rd wr m' s c of (r, m'', s') \<Rightarrow> guest_run n guest kv rd wr (codes @ [r]) m'' s'))"

definition exact_reads :: "'mem mem_read \<Rightarrow> bool" where
  "exact_reads rd \<longleftrightarrow> (\<forall>m p n b. rd m p n = Some b \<longrightarrow> length b = unat n)"

definition valid_key :: "bytes \<Rightarrow> bool" where
  "valid_key k \<longleftrightarrow> k \<noteq> [] \<and> length k \<le> KVMaxKey"

definition small_entries :: "memstore \<Rightarrow> bool" where
  "small_entries s \<longleftrightarrow> (\<forall>k v. map_of (msM s) k = Some v \<longrightarrow>
     valid_key k \<and> length v \<le> KVMaxValue)"

text \<open>
  The part of a call before it reaches the store does not depend on the store:
  it yields the code of an early return or the arguments of the operation.
\<close>

definition cas_args :: "'mem mem_read \<Rightarrow> 'mem \<Rightarrow> u32 \<Rightarrow> u32 \<Rightarrow> u32 \<Rightarrow> u32 \<Rightarrow> u32 \<Rightarrow> int + bytes \<times> bytes \<times> bytes" where
  "cas_args rd m kp kl ep vp vl =
    (case readKey rd m kp kl of Inl code \<Rightarrow> Inl code
     | Inr key \<Rightarrow>
       if sint vl < 0 \<or> sint vl > int KVMaxValue then Inl KVErrTooLarge
       else case rd m ep (u32_of_len KVHashSize) of None \<Rightarrow> Inl KVErrInternal
         | Some expected \<Rightarrow>
           (case rd m vp vl of None \<Rightarrow> Inl KVErrInternal | Some value \<Rightarrow> Inr (key, expected, value)))"

definition list_args :: "'mem mem_read \<Rightarrow> 'mem \<Rightarrow> u32 \<Rightarrow> u32 \<Rightarrow> u32 \<Rightarrow> u32 \<Rightarrow> int + bytes" where
  "list_args rd m pp pl n oc =
    (if sint pl < 0 \<or> sint pl > int KVMaxKey \<or> sint n < 1 \<or> sint n > int KVMaxList \<or> sint oc < 0
     then Inl KVErrTooLarge
     else case (if sint pl > 0 then rd m pp pl else Some []) of None \<Rightarrow> Inl KVErrInternal | Some p \<Rightarrow> Inr p)"

definition list_reply :: "'mem mem_write \<Rightarrow> 'mem \<Rightarrow> u32 \<Rightarrow> u32 \<Rightarrow> u32 \<Rightarrow> (kv_error + bytes list) \<Rightarrow> int \<times> 'mem" where
  "list_reply wr m n op oc r =
    (case r of Inl _ \<Rightarrow> (KVErrInternal, m)
     | Inr keys \<Rightarrow>
       if int (length keys) > sint n \<or> length keys > KVMaxList then (KVErrInternal, m)
       else
         let raw = EncodeKVList keys; c = sint (u32_of_len (length raw)) in
         if c > sint oc then (c, m)
         else if c > 0 then (case wr m op raw of None \<Rightarrow> (KVErrInternal, m) | Some m' \<Rightarrow> (c, m'))
         else (c, m))"

text \<open>
  What the process boundary needs of a store: its values fit one message and
  its keys are keys the host functions accept, and both stay so.
\<close>

locale bounded_store =
  fixes ops :: "'w store_ops"
    and ok :: "'w \<Rightarrow> bool"
  assumes get_small: "ok w \<Longrightarrow> opGet ops w k = Inr (Some v) \<Longrightarrow> length v < MaxFrame"
    and list_valid: "ok w \<Longrightarrow> opList ops w p n = Inr ks \<Longrightarrow> k \<in> set ks \<Longrightarrow> valid_key k"
    and set_ok: "ok w \<Longrightarrow> valid_key k \<Longrightarrow> length v \<le> KVMaxValue \<Longrightarrow> ok (snd (opSet ops w k v))"
    and delete_ok: "ok w \<Longrightarrow> valid_key k \<Longrightarrow> ok (snd (opDelete ops w k))"
    and cas_ok: "ok w \<Longrightarrow> valid_key k \<Longrightarrow> length v \<le> KVMaxValue \<Longrightarrow> ok (snd (opCAS ops w k h v))"

section \<open>No request makes the parent panic\<close>

lemma serve_present_no_panic: "serve_present io s w payload \<noteq> None"
proof -
  obtain cells r where "AppendDecodeFrame (psCells s) payload = Some (cells, r)"
    using AppendDecodeFrame_no_panic by (metis surj_pair)
  then show ?thesis
    by (cases r) (auto simp: serve_present_def split: option.split)
qed

lemma serve_kv_no_panic:
  "serve_kv_get caps s w payload \<noteq> None" "serve_kv_del caps s w payload \<noteq> None"
  "serve_kv_set caps s w payload \<noteq> None" "serve_kv_list caps s w payload \<noteq> None"
  "serve_kv_cas caps s w payload \<noteq> None"
  using decodeKeyValue_no_panic [of payload] decodeKVListRequest_no_panic [of payload]
    decodeKVCAS_no_panic [of payload]
  by (auto simp: serve_kv_get_def serve_kv_del_def serve_kv_set_def serve_kv_list_def serve_kv_cas_def
      split: option.split sum.split prod.split kv_error.split)

lemma serve_message_no_panic:
  "serve_bus_pub caps s w payload \<noteq> None" "serveFetch caps s w payload \<noteq> None"
  "serve_exec caps s w payload \<noteq> None"
  using decodeKeyValue_no_panic [of payload] DecodeFetchRequest_no_panic [of payload]
    DecodeExecRequest_no_panic [of payload]
  by (auto simp: serve_bus_pub_def serveFetch_def serve_exec_def
      split: option.split sum.split prod.split)

lemma serve_small_no_panic:
  "serve_recv io s w \<noteq> None" "serve_bus_sub io s w payload \<noteq> None"
  "serve_auth caps s w payload \<noteq> None" "serve_env caps s w payload \<noteq> None"
  "serve_timer_start caps s w payload \<noteq> None" "serve_timer_cancel caps s w payload \<noteq> None"
  "serve_output out s w payload \<noteq> None" "serve_input io s w payload \<noteq> None"
  by (auto simp: serve_recv_def serve_bus_sub_def serve_auth_def serve_env_def serve_timer_start_def
      serve_timer_cancel_def serve_output_def serve_input_def read_u64 Let_def
      split: option.split prod.split)

lemmas serve_no_panics = serve_present_no_panic serve_kv_no_panic serve_message_no_panic serve_small_no_panic

lemma serve_total: "serve caps io o' payload s w \<noteq> None"
  by (simp add: serve_def serve_no_panics del: not_None_eq)

section \<open>One call\<close>

lemma maxWorkerPayload_frame: "unat (maxWorkerPayload o') \<le> MaxFrame"
  by (simp add: maxWorkerPayload_def const_defs)

lemma pipe_write:
  "length p \<le> MaxFrame \<Longrightarrow> \<exists>w. proto_write pipe op p = (None, w) \<and> wrGot w = frame_bytes op p"
  using proto_write_ok [of pipe p op] by (auto simp: pipe_def progresses_def)

lemma rpc_call_ok:
  assumes "rpAlive s" "o' \<noteq> OpDone" "length payload \<le> unat (maxWorkerPayload o')"
    and srv: "serve caps io o' payload (rpSess s) (rpWorld s) = Some (Inr reply, sess, w)"
    and "length reply \<le> MaxFrame"
  obtains s' where "rpc_call caps io s o' payload = (Inr reply, s')"
    "rpWorld s' = w" "rpSess s' = sess" "rpAlive s'"
proof -
  have len: "length payload \<le> MaxFrame" using assms(3) maxWorkerPayload_frame le_trans by blast
  obtain out where out: "proto_write pipe o' payload = (None, out)" "wrGot out = frame_bytes o' payload"
    using pipe_write [OF len] by blast
  have "admitted (Some maxWorkerPayload) (o', payload)" using len assms(3) by (simp add: admitted_def)
  then obtain buf where rd: "AppendReadBounded (wrGot out) (rpBuf s) (Some maxWorkerPayload)
      = Some (Inr (o', payload), buf, [])"
    using AppendReadBounded_frame [of _ o' payload "[]"] out by fastforce
  obtain resp where bk: "proto_write pipe OpResp reply = (None, resp)" "wrGot resp = frame_bytes OpResp reply"
    using pipe_write [OF assms(5)] by blast
  let ?t = "s\<lparr>rpBuf := buf, rpSess := sess, rpWorld := w\<rparr>"
  have turn: "parent_turn caps io s (wrGot out) = (Some (wrGot resp), ?t)"
    using rd srv bk assms(2) by (simp add: parent_turn_def)
  have "admitted None (OpResp, reply)" using assms(5) by (simp add: admitted_def)
  then obtain wb where "AppendRead (wrGot resp) (rpWorkerBuf ?t) = Some (Inr (OpResp, reply), wb, [])"
    using AppendReadBounded_frame [of None OpResp reply "[]"] bk by (fastforce simp: AppendRead_def)
  then have "rpc_call caps io s o' payload = (Inr reply, ?t\<lparr>rpWorkerBuf := wb\<rparr>)"
    using assms(1) out(1) turn by (simp add: rpc_call_def)
  then show thesis by (rule that) (simp_all add: assms(1))
qed

text \<open>
  A done message within the caps reaches the caller as the worker wrote it, and no done message, hostile
  or not, makes the parent panic or pass on more than the caps.
\<close>

lemma done_delivered:
  assumes "length e \<le> maxWorkerError" "length g \<le> GoodbyeMaxLen" "length l \<le> maxSessionLog"
  shows "parent_done True True (encodeDone (e, g, l)) =
    Some (if e = [] then DoneClean else if e = ErrFrameDeadline then DoneFrameDeadline else DoneError e, Some g, l)"
  using assms by (simp add: parent_done_def done_round_trip const_defs)

lemma parent_done_bounded:
  "\<exists>r g l. parent_done wg wl payload = Some (r, g, l) \<and> length l \<le> maxSessionLog \<and> (\<forall>x. g = Some x \<longrightarrow> length x \<le> GoodbyeMaxLen)"
  using decodeDone_no_panic [of payload] by (auto simp: parent_done_def split: option.splits)

section \<open>The key/value proxy\<close>

lemma serve_ops:
  "serve caps io OpKVGet p s w = serve_kv_get caps s w p" "serve caps io OpKVSet p s w = serve_kv_set caps s w p"
  "serve caps io OpKVDel p s w = serve_kv_del caps s w p" "serve caps io OpKVList p s w = serve_kv_list caps s w p"
  "serve caps io OpKVCAS p s w = serve_kv_cas caps s w p" "serve caps io OpBusSub p s w = serve_bus_sub io s w p"
  "serve caps io OpBusPub p s w = serve_bus_pub caps s w p" "serve caps io OpAuth p s w = serve_auth caps s w p"
  "serve caps io OpEnv p s w = serve_env caps s w p" "serve caps io OpFetch p s w = serveFetch caps s w p"
  "serve caps io OpExec p s w = serve_exec caps s w p" "serve caps io OpRecv p s w = serve_recv io s w"
  "serve caps io OpTimerStart p s w = serve_timer_start caps s w p"
  "serve caps io OpTimerCancel p s w = serve_timer_cancel caps s w p"
  "serve caps io OpPresent p s w = serve_present io s w p"
  "serve caps io OpOutput p s w = serve_output (ioStdout io) s w p"
  "serve caps io OpOutputStderr p s w = serve_output (ioStderr io) s w p"
  "serve caps io OpInput p s w = serve_input io s w p"
  by (simp_all add: serve_def const_defs)

lemma not_done:
  "OpKVGet \<noteq> OpDone" "OpKVSet \<noteq> OpDone" "OpKVDel \<noteq> OpDone" "OpKVList \<noteq> OpDone" "OpKVCAS \<noteq> OpDone"
  "OpBusSub \<noteq> OpDone" "OpBusPub \<noteq> OpDone" "OpAuth \<noteq> OpDone" "OpEnv \<noteq> OpDone" "OpFetch \<noteq> OpDone"
  "OpExec \<noteq> OpDone" "OpRecv \<noteq> OpDone" "OpTimerStart \<noteq> OpDone" "OpTimerCancel \<noteq> OpDone"
  "OpPresent \<noteq> OpDone" "OpOutput \<noteq> OpDone" "OpOutputStderr \<noteq> OpDone" "OpInput \<noteq> OpDone"
  by (simp_all add: const_defs)

text \<open>A reply of one status byte always fits.\<close>

lemma byte_fits: "length [b] \<le> MaxFrame"
  by (simp add: MaxFrame_def)

lemma proxyKVSet_remote:
  assumes "rpAlive s" "capKV caps = Some ops" "valid_key k" "length v \<le> KVMaxValue"
  obtains e s' where "proxyKVSet caps io s k v = (e, s')" "rpAlive s'"
    "rpWorld s' = snd (opSet ops (rpWorld s) k v)"
    "e = None \<longleftrightarrow> fst (opSet ops (rpWorld s) k v) = None"
    "e = Some ErrQuota \<longleftrightarrow> fst (opSet ops (rpWorld s) k v) = Some ErrQuota"
proof -
  obtain r w where r: "opSet ops (rpWorld s) k v = (r, w)" by (cases "opSet ops (rpWorld s) k v")
  have dec: "decodeKeyValue (encodeKeyValue (k, v)) = Some (Some (k, v))"
    using assms(3) by (intro key_value_round_trip) (simp add: valid_key_def const_defs)
  define b :: byte where "b = (case r of None \<Rightarrow> 0 | Some ErrQuota \<Rightarrow> 1 | Some _ \<Rightarrow> 2)"
  have srv: "serve caps io OpKVSet (encodeKeyValue (k, v)) (rpSess s) (rpWorld s) = Some (Inr [b], rpSess s, w)"
    using assms r dec by (auto simp: serve_ops serve_kv_set_def valid_key_def b_def split: option.split kv_error.split)
  have lim: "length (encodeKeyValue (k, v)) \<le> unat (maxWorkerPayload OpKVSet)"
    using assms by (simp add: payload_limits encodeKeyValue_def valid_key_def)
  obtain s' where "rpc_call caps io s OpKVSet (encodeKeyValue (k, v)) = (Inr [b], s')"
    "rpWorld s' = w" "rpAlive s'"
    using rpc_call_ok [OF assms(1) not_done(2) lim srv byte_fits] .
  then show thesis
    by (intro that [of "if b = 0 then None else if b = 1 then Some ErrQuota else Some ErrRPC" s'])
      (auto simp: proxyKVSet_def r b_def split: option.split kv_error.split)
qed

lemma proxyKVDelete_remote:
  assumes "rpAlive s" "capKV caps = Some ops" "valid_key k"
  obtains e s' where "proxyKVDelete caps io s k = (e, s')" "rpAlive s'"
    "rpWorld s' = snd (opDelete ops (rpWorld s) k)"
    "e = None \<longleftrightarrow> fst (opDelete ops (rpWorld s) k) = None"
proof -
  obtain r w where r: "opDelete ops (rpWorld s) k = (r, w)" by (cases "opDelete ops (rpWorld s) k")
  define b :: byte where "b = (case r of None \<Rightarrow> 0 | Some _ \<Rightarrow> 2)"
  have srv: "serve caps io OpKVDel k (rpSess s) (rpWorld s) = Some (Inr [b], rpSess s, w)"
    using assms r by (auto simp: serve_ops serve_kv_del_def valid_key_def b_def split: option.split)
  have lim: "length k \<le> unat (maxWorkerPayload OpKVDel)"
    using assms by (simp add: payload_limits valid_key_def)
  obtain s' where "rpc_call caps io s OpKVDel k = (Inr [b], s')" "rpWorld s' = w" "rpAlive s'"
    using rpc_call_ok [OF assms(1) not_done(3) lim srv byte_fits] .
  then show thesis
    by (intro that [of "if b = 0 then None else Some ErrRPC" s'])
      (auto simp: proxyKVDelete_def r b_def split: option.split)
qed

lemma proxyKVGet_remote:
  assumes "rpAlive s" "capKV caps = Some ops" "valid_key k"
    and small: "\<And>v. opGet ops (rpWorld s) k = Inr (Some v) \<Longrightarrow> length v < MaxFrame"
  obtains e s' where "proxyKVGet caps io s k = (e, s')" "rpAlive s'" "rpWorld s' = rpWorld s"
    "e = (case opGet ops (rpWorld s) k of Inl _ \<Rightarrow> Inl ErrRPC | Inr v \<Rightarrow> Inr v)"
proof -
  define rep :: bytes where
    "rep = (case opGet ops (rpWorld s) k of Inl _ \<Rightarrow> [2] | Inr None \<Rightarrow> [1] | Inr (Some v) \<Rightarrow> 0 # v)"
  have srv: "serve caps io OpKVGet k (rpSess s) (rpWorld s) = Some (Inr rep, rpSess s, rpWorld s)"
    using assms(1-3) by (auto simp: serve_ops serve_kv_get_def valid_key_def rep_def split: option.split sum.split)
  have lim: "length k \<le> unat (maxWorkerPayload OpKVGet)"
    using assms by (simp add: payload_limits valid_key_def)
  have "length rep \<le> MaxFrame"
    using small by (auto simp: rep_def Suc_le_eq MaxFrame_def split: option.split sum.split)
  then obtain s' where "rpc_call caps io s OpKVGet k = (Inr rep, s')" "rpWorld s' = rpWorld s" "rpAlive s'"
    using rpc_call_ok [OF assms(1) not_done(1) lim srv] by blast
  then show thesis
    by (intro that [of "case opGet ops (rpWorld s) k of Inl _ \<Rightarrow> Inl ErrRPC | Inr v \<Rightarrow> Inr v" s'])
      (auto simp: proxyKVGet_def rep_def split: option.split sum.split)
qed

lemma length_EncodeKVList:
  "\<forall>k \<in> set ks. length k \<le> KVMaxKey \<Longrightarrow> length (EncodeKVList ks) \<le> length ks * (2 + KVMaxKey)"
  by (induction ks) auto

lemma proxyKVList_remote:
  assumes "rpAlive s" "capKV caps = Some ops" "length p \<le> KVMaxKey" "1 \<le> n" "n \<le> int KVMaxList"
    and keys: "\<And>ks. opList ops (rpWorld s) p n = Inr ks \<Longrightarrow> \<forall>k \<in> set ks. valid_key k"
  obtains s' where "rpAlive s'" "rpWorld s' = rpWorld s"
    "proxyKVList caps io s p n = Some ((case opList ops (rpWorld s) p n of Inl _ \<Rightarrow> Inl ErrRPC
       | Inr ks \<Rightarrow> if int (length ks) > n \<or> length ks > KVMaxList then Inl ErrRPC else Inr ks), s')"
proof -
  define rep :: bytes where
    "rep = (case opList ops (rpWorld s) p n of Inl _ \<Rightarrow> [1]
       | Inr ks \<Rightarrow> if int (length ks) > n \<or> length ks > KVMaxList then [1] else 0 # EncodeKVList ks)"
  have n: "0 \<le> n" "n < 65536" using assms(4,5) by (simp_all add: const_defs)
  have srv: "serve caps io OpKVList (encodeKVListRequest (p, n)) (rpSess s) (rpWorld s)
      = Some (Inr rep, rpSess s, rpWorld s)"
    using assms(1-5) kv_list_request_round_trip [OF n, of p]
    by (auto simp: serve_ops serve_kv_list_def rep_def split: sum.split)
  have lim: "length (encodeKVListRequest (p, n)) \<le> unat (maxWorkerPayload OpKVList)"
    using assms by (simp add: payload_limits encodeKVListRequest_def)
  have enc: "kvlist_carried ks \<and> length (EncodeKVList ks) < MaxFrame"
    if "opList ops (rpWorld s) p n = Inr ks" "length ks \<le> KVMaxList" for ks
  proof -
    have "length ks * (2 + KVMaxKey) \<le> KVMaxList * (2 + KVMaxKey)" using that(2) by (rule mult_le_mono1)
    with keys [OF that(1)] length_EncodeKVList [of ks] that(2) show ?thesis
      by (auto simp: kvlist_carried_def valid_key_def const_defs)
  qed
  have "length rep \<le> MaxFrame"
    using enc by (auto simp: rep_def Suc_le_eq MaxFrame_def split: sum.split)
  then obtain s' where "rpc_call caps io s OpKVList (encodeKVListRequest (p, n)) = (Inr rep, s')"
    "rpWorld s' = rpWorld s" "rpAlive s'"
    using rpc_call_ok [OF assms(1) not_done(4) lim srv] by blast
  then show thesis
    using enc kvlist_wire.round_trip
    by (intro that [of s']) (auto simp: proxyKVList_def rep_def split: sum.split)
qed

lemma proxyKVCas_remote:
  assumes "rpAlive s" "capKV caps = Some ops" "valid_key k" "length h = KVHashSize" "length v \<le> KVMaxValue"
  obtains e s' where "proxyKVCompareAndSwap caps io s k h v = (e, s')" "rpAlive s'"
    "rpWorld s' = snd (opCAS ops (rpWorld s) k h v)"
    "e = (case fst (opCAS ops (rpWorld s) k h v) of None \<Rightarrow> None | Some ErrQuota \<Rightarrow> Some ErrQuota
       | Some ErrConflict \<Rightarrow> Some ErrConflict | Some _ \<Rightarrow> Some ErrRPC)"
proof -
  obtain r w where r: "opCAS ops (rpWorld s) k h v = (r, w)" by (cases "opCAS ops (rpWorld s) k h v")
  have dec: "decodeKVCAS (encodeKVCAS (k, h, v)) = Some (Some (k, h, v))"
    using assms(3,4) by (intro kv_cas_round_trip) (simp_all add: valid_key_def const_defs)
  define b :: byte where
    "b = (case r of None \<Rightarrow> 0 | Some ErrConflict \<Rightarrow> 1 | Some ErrQuota \<Rightarrow> 2 | Some _ \<Rightarrow> 3)"
  have srv: "serve caps io OpKVCAS (encodeKVCAS (k, h, v)) (rpSess s) (rpWorld s) = Some (Inr [b], rpSess s, w)"
    using assms r dec by (auto simp: serve_ops serve_kv_cas_def valid_key_def b_def split: option.split kv_error.split)
  have lim: "length (encodeKVCAS (k, h, v)) \<le> unat (maxWorkerPayload OpKVCAS)"
    using assms by (simp add: payload_limits encodeKVCAS_def valid_key_def)
  obtain s' where "rpc_call caps io s OpKVCAS (encodeKVCAS (k, h, v)) = (Inr [b], s')"
    "rpWorld s' = w" "rpAlive s'"
    using rpc_call_ok [OF assms(1) not_done(5) lim srv byte_fits] .
  then show thesis
    by (intro that [of "case r of None \<Rightarrow> None | Some ErrQuota \<Rightarrow> Some ErrQuota
       | Some ErrConflict \<Rightarrow> Some ErrConflict | Some _ \<Rightarrow> Some ErrRPC" s'])
      (auto simp: proxyKVCompareAndSwap_def r b_def split: option.split kv_error.split)
qed

section \<open>Host functions behind the proxy\<close>

lemma read_length:
  "exact_reads rd \<Longrightarrow> rd m p n = Some b \<Longrightarrow> 0 \<le> sint n \<Longrightarrow> int (length b) = sint n"
  by (simp add: exact_reads_def unat_sint)

lemma readKey_valid:
  assumes "exact_reads rd" "readKey rd m p n = Inr k"
  shows "valid_key k"
proof -
  from assms(2) have n: "0 < sint n" "sint n \<le> int KVMaxKey" and rd: "rd m p n = Some k"
    by (auto simp: readKey_def split: if_splits option.splits)
  with read_length [OF assms(1) rd] show ?thesis by (auto simp: valid_key_def)
qed

lemma kv_compare_and_swap_args:
  "kv_compare_and_swap (Some ops) rd m s kp kl ep vp vl =
    (case cas_args rd m kp kl ep vp vl of Inl code \<Rightarrow> (code, s)
     | Inr (key, expected, value) \<Rightarrow>
       (case opCAS ops s key expected value of
          (None, s') \<Rightarrow> (KVOk, s')
        | (Some ErrConflict, s') \<Rightarrow> (KVErrConflict, s')
        | (Some ErrQuota, s') \<Rightarrow> (KVErrQuota, s')
        | (Some _, s') \<Rightarrow> (KVErrInternal, s')))"
  by (cases "readKey rd m kp kl"; cases "rd m ep (u32_of_len KVHashSize)"; cases "rd m vp vl")
    (simp_all add: kv_compare_and_swap_def cas_args_def)

lemma kv_list_args:
  "kv_list (Some ops) rd wr m s pp pl n op oc =
    (case list_args rd m pp pl n oc of Inl code \<Rightarrow> (code, m)
     | Inr p \<Rightarrow> list_reply wr m n op oc (opList ops s p (sint n)))"
  by (simp add: kv_list_def list_args_def list_reply_def split: option.split)

lemma read_small:
  "exact_reads rd \<Longrightarrow> rd m p n = Some b \<Longrightarrow> 0 \<le> sint n \<Longrightarrow> sint n \<le> int k \<Longrightarrow> length b \<le> k"
  by (simp add: exact_reads_def unat_sint)

context bounded_store
begin

lemma remote_set:
  assumes "exact_reads rd" "rpAlive s" "capKV caps = Some ops" "ok (rpWorld s)"
  obtains s' where "kv_set (Some (proxy_ops caps io)) rd m s kp kl vp vl
      = (fst (kv_set (Some ops) rd m (rpWorld s) kp kl vp vl), s')"
    "rpAlive s'" "rpWorld s' = snd (kv_set (Some ops) rd m (rpWorld s) kp kl vp vl)" "ok (rpWorld s')"
proof (cases "\<exists>k v. readKey rd m kp kl = Inr k \<and> 0 \<le> sint vl \<and> sint vl \<le> int KVMaxValue \<and> rd m vp vl = Some v")
  case False
  then show ?thesis
    using assms by (intro that [of s]) (auto simp: kv_set_def split: sum.split option.split)
next
  case True
  then obtain k v where kv: "readKey rd m kp kl = Inr k" "0 \<le> sint vl" "sint vl \<le> int KVMaxValue"
    "rd m vp vl = Some v" by blast
  have valid: "valid_key k" "length v \<le> KVMaxValue"
    using readKey_valid [OF assms(1) kv(1)] read_small [OF assms(1) kv(4,2,3)] by simp_all
  obtain e s' where p: "proxyKVSet caps io s k v = (e, s')" "rpAlive s'"
    "rpWorld s' = snd (opSet ops (rpWorld s) k v)"
    "e = None \<longleftrightarrow> fst (opSet ops (rpWorld s) k v) = None"
    "e = Some ErrQuota \<longleftrightarrow> fst (opSet ops (rpWorld s) k v) = Some ErrQuota"
    using proxyKVSet_remote [OF assms(2,3) valid] .
  show ?thesis
    using p kv set_ok [OF assms(4) valid]
    by (intro that [of s']) (auto simp: kv_set_def proxy_ops_def split: prod.split option.split kv_error.split)
qed

lemma remote_delete:
  assumes "exact_reads rd" "rpAlive s" "capKV caps = Some ops" "ok (rpWorld s)"
  obtains s' where "kv_delete (Some (proxy_ops caps io)) rd m s kp kl
      = (fst (kv_delete (Some ops) rd m (rpWorld s) kp kl), s')"
    "rpAlive s'" "rpWorld s' = snd (kv_delete (Some ops) rd m (rpWorld s) kp kl)" "ok (rpWorld s')"
proof (cases "readKey rd m kp kl")
  case (Inl c)
  then show ?thesis using assms by (intro that [of s]) (auto simp: kv_delete_def)
next
  case (Inr k)
  have valid: "valid_key k" using readKey_valid [OF assms(1) Inr] .
  obtain e s' where p: "proxyKVDelete caps io s k = (e, s')" "rpAlive s'"
    "rpWorld s' = snd (opDelete ops (rpWorld s) k)"
    "e = None \<longleftrightarrow> fst (opDelete ops (rpWorld s) k) = None"
    using proxyKVDelete_remote [OF assms(2,3) valid] .
  show ?thesis
    using p Inr delete_ok [OF assms(4) valid]
    by (intro that [of s']) (auto simp: kv_delete_def proxy_ops_def split: prod.split option.split)
qed

lemma remote_get:
  assumes "exact_reads rd" "rpAlive s" "capKV caps = Some ops" "ok (rpWorld s)"
  shows "kv_get (Some (proxy_ops caps io)) rd wr m s kp kl op oc = kv_get (Some ops) rd wr m (rpWorld s) kp kl op oc"
proof (cases "readKey rd m kp kl")
  case (Inl c)
  then show ?thesis by (simp add: kv_get_def)
next
  case (Inr k)
  have valid: "valid_key k" using readKey_valid [OF assms(1) Inr] .
  obtain e s' where "proxyKVGet caps io s k = (e, s')"
    "e = (case opGet ops (rpWorld s) k of Inl _ \<Rightarrow> Inl ErrRPC | Inr v \<Rightarrow> Inr v)"
    using proxyKVGet_remote [OF assms(2,3) valid get_small [OF assms(4)]] .
  with Inr show ?thesis
    by (auto simp: kv_get_def proxy_ops_def split: sum.split option.split)
qed

lemma remote_list:
  assumes "exact_reads rd" "rpAlive s" "capKV caps = Some ops" "ok (rpWorld s)"
  shows "kv_list (Some (proxy_ops caps io)) rd wr m s pp pl n op oc = kv_list (Some ops) rd wr m (rpWorld s) pp pl n op oc"
proof (cases "list_args rd m pp pl n oc")
  case (Inl c)
  then show ?thesis by (simp add: kv_list_args)
next
  case (Inr p)
  have lim: "length p \<le> KVMaxKey" "1 \<le> sint n" "sint n \<le> int KVMaxList"
    using Inr read_small [OF assms(1), of m pp pl p KVMaxKey]
    by (auto simp: list_args_def split: if_splits option.splits)
  have keys: "\<forall>k \<in> set ks. valid_key k" if "opList ops (rpWorld s) p (sint n) = Inr ks" for ks
    using list_valid [OF assms(4) that] by blast
  obtain s' where "proxyKVList caps io s p (sint n) = Some ((case opList ops (rpWorld s) p (sint n) of Inl _ \<Rightarrow> Inl ErrRPC
     | Inr ks \<Rightarrow> if int (length ks) > sint n \<or> length ks > KVMaxList then Inl ErrRPC else Inr ks), s')"
    using proxyKVList_remote [OF assms(2,3) lim keys] .
  then have "opList (proxy_ops caps io) s p (sint n) = (case opList ops (rpWorld s) p (sint n) of Inl _ \<Rightarrow> Inl ErrRPC
     | Inr ks \<Rightarrow> if int (length ks) > sint n \<or> length ks > KVMaxList then Inl ErrRPC else Inr ks)"
    by (simp add: proxy_ops_def or_dead_def)
  with Inr show ?thesis
    by (cases "opList ops (rpWorld s) p (sint n)") (simp_all add: kv_list_args list_reply_def)
qed

lemma remote_cas:
  assumes "exact_reads rd" "rpAlive s" "capKV caps = Some ops" "ok (rpWorld s)"
  obtains s' where "kv_compare_and_swap (Some (proxy_ops caps io)) rd m s kp kl ep vp vl
      = (fst (kv_compare_and_swap (Some ops) rd m (rpWorld s) kp kl ep vp vl), s')"
    "rpAlive s'" "rpWorld s' = snd (kv_compare_and_swap (Some ops) rd m (rpWorld s) kp kl ep vp vl)" "ok (rpWorld s')"
proof (cases "cas_args rd m kp kl ep vp vl")
  case (Inl c)
  then show ?thesis using assms by (intro that [of s]) (simp_all add: kv_compare_and_swap_args)
next
  case (Inr a)
  obtain k h v where a: "a = (k, h, v)" by (cases a)
  with Inr have kv: "readKey rd m kp kl = Inr k" "0 \<le> sint vl" "sint vl \<le> int KVMaxValue"
    "rd m ep (u32_of_len KVHashSize) = Some h" "rd m vp vl = Some v"
    by (auto simp: cas_args_def split: sum.splits if_splits option.splits)
  have valid: "valid_key k" "length v \<le> KVMaxValue"
    using readKey_valid [OF assms(1) kv(1)] read_small [OF assms(1) kv(5,2,3)] by simp_all
  have h: "length h = KVHashSize"
    using assms(1) kv(4) by (simp add: exact_reads_def KVHashSize_def)
  obtain e s' where p: "proxyKVCompareAndSwap caps io s k h v = (e, s')" "rpAlive s'"
    "rpWorld s' = snd (opCAS ops (rpWorld s) k h v)"
    "e = (case fst (opCAS ops (rpWorld s) k h v) of None \<Rightarrow> None | Some ErrQuota \<Rightarrow> Some ErrQuota
       | Some ErrConflict \<Rightarrow> Some ErrConflict | Some _ \<Rightarrow> Some ErrRPC)"
    using proxyKVCas_remote [OF assms(2,3) valid(1) h valid(2)] .
  have same: "kv_compare_and_swap (Some (proxy_ops caps io)) rd m s kp kl ep vp vl
      = (fst (kv_compare_and_swap (Some ops) rd m (rpWorld s) kp kl ep vp vl), s')"
    "snd (kv_compare_and_swap (Some ops) rd m (rpWorld s) kp kl ep vp vl) = snd (opCAS ops (rpWorld s) k h v)"
    using p Inr a
    by (auto simp: kv_compare_and_swap_args proxy_ops_def split: prod.split option.split kv_error.split)
  then show ?thesis
    using that [of s'] p cas_ok [OF assms(4) valid] by simp
qed

lemma remote_call:
  assumes "exact_reads rd" "rpAlive s" "capKV caps = Some ops" "ok (rpWorld s)"
    and "kv_host (Some ops) rd wr m (rpWorld s) c = (r, m', w')"
  shows "\<exists>s'. kv_host (Some (proxy_ops caps io)) rd wr m s c = (r, m', s') \<and>
    rpAlive s' \<and> rpWorld s' = w' \<and> ok w'"
proof (cases c)
  case (CallSet a b d e)
  show ?thesis
    using CallSet assms(5) by (auto split: prod.splits intro: remote_set [OF assms(1-4), of io m a b d e])
next
  case (CallGet a b d e)
  then show ?thesis using remote_get [OF assms(1-4), of io wr m a b d e] assms
    by (auto split: prod.splits)
next
  case (CallDelete a b)
  show ?thesis
    using CallDelete assms(5) by (auto split: prod.splits intro: remote_delete [OF assms(1-4), of io m a b])
next
  case (CallList a b d e f)
  then show ?thesis using remote_list [OF assms(1-4), of io wr m a b d e f] assms
    by (auto split: prod.splits)
next
  case (CallCas a b d e f)
  show ?thesis
    using CallCas assms(5) by (auto split: prod.splits intro: remote_cas [OF assms(1-4), of io m a b d e f])
qed

lemma guest_cannot_tell:
  assumes "exact_reads rd" "rpAlive s" "capKV caps = Some ops" "ok (rpWorld s)"
    and "guest_run n guest (Some ops) rd wr codes m (rpWorld s) = (codes', m', w')"
  shows "\<exists>s'. guest_run n guest (Some (proxy_ops caps io)) rd wr codes m s = (codes', m', s') \<and>
    rpWorld s' = w' \<and> rpAlive s'"
  using assms
proof (induction n arbitrary: codes m s)
  case 0
  then show ?case by auto
next
  case (Suc n)
  show ?case
  proof (cases "guest codes m")
    case None
    with Suc show ?thesis by auto
  next
    case (Some g)
    obtain m1 c where g: "g = (m1, c)" by (cases g)
    obtain r m2 w2 where h: "kv_host (Some ops) rd wr m1 (rpWorld s) c = (r, m2, w2)"
      by (cases "kv_host (Some ops) rd wr m1 (rpWorld s) c") auto
    obtain s2 where s2: "kv_host (Some (proxy_ops caps io)) rd wr m1 s c = (r, m2, s2)"
      "rpAlive s2" "rpWorld s2 = w2" "ok w2"
      using remote_call [OF Suc.prems(1-4) h] by blast
    with Suc.prems Some g h show ?thesis
      using Suc.IH [of s2 "codes @ [r]" m2] by simp
  qed
qed

end

section \<open>The other proxies\<close>

lemma identity_kind_cases: "identityKindToABI k = 0 \<or> identityKindToABI k = 1 \<or> identityKindToABI k = 2"
  by (simp add: identityKindToABI_def)

lemma identity_kind_mirror: "identityKindToABI (identityKindFromABI (identityKindToABI k)) = identityKindToABI k"
  by (simp add: identityKindToABI_def identityKindFromABI_def IdentitySSHKey_def IdentityAnonymous_def str_def)

text \<open>An over-long user name is cut by the encoder, so the guest sees the same bytes either way.\<close>

lemma EncodeIdentity_cut:
  "EncodeIdentity i = EncodeIdentity (i\<lparr>idUser := take AuthMaxUser (idUser i)\<rparr>)"
  by (simp add: EncodeIdentity_def Let_def)

lemma proxyWhoami_remote:
  assumes "rpAlive s" "capAuth caps = Some whoami" "whoami (rpWorld s) = (i, w)"
  obtains j s' where "proxyWhoami caps io s = Some (j, s')" "rpAlive s'" "rpWorld s' = w"
    "EncodeIdentity (abi_identity j) = EncodeIdentity (abi_identity i)"
proof -
  define a where "a = (abi_identity i)\<lparr>idUser := take AuthMaxUser (idUser (abi_identity i))\<rparr>"
  have enc: "EncodeIdentity (abi_identity i) = EncodeIdentity a"
    unfolding a_def by (rule EncodeIdentity_cut)
  have "identity_carried a"
    using identity_kind_cases [of "aiKind i"] by (auto simp: a_def identity_carried_def abi_identity_def)
  then have dec: "DecodeIdentity (EncodeIdentity a) = Some (Inr a)" by (rule identity_wire.round_trip)
  have srv: "serve caps io OpAuth [] (rpSess s) (rpWorld s) = Some (Inr (1 # EncodeIdentity a), rpSess s, w)"
    using assms enc by (simp add: serve_ops serve_auth_def)
  have lim: "length ([] :: bytes) \<le> unat (maxWorkerPayload OpAuth)" by simp
  have "length (1 # EncodeIdentity a) \<le> MaxFrame"
    by (simp add: EncodeIdentity_def a_def Let_def const_defs)
  then obtain s' where call: "rpc_call caps io s OpAuth [] = (Inr (1 # EncodeIdentity a), s')" "rpWorld s' = w" "rpAlive s'"
    using rpc_call_ok [OF assms(1) not_done(8) lim srv] by blast
  define j where "j = \<lparr>aiUser = idUser a, aiAuthenticated = idAuthenticated a,
    aiKind = identityKindFromABI (idKind a), aiOwnsApp = idOwnsApp a, aiOwnerID = []\<rparr>"
  have "abi_identity j = a"
    using identity_kind_mirror [of "aiKind i"] by (simp add: j_def a_def abi_identity_def)
  moreover have "proxyWhoami caps io s = Some (j, s')"
    using call dec by (simp add: proxyWhoami_def j_def)
  ultimately show thesis using that call enc by simp
qed

lemma proxyEnv_remote:
  assumes "rpAlive s" "capEnv caps = Some get" "k \<noteq> []" "length k \<le> EnvMaxKey"
    "get (rpWorld s) k = (v, w)" "\<And>x. v = Some x \<Longrightarrow> length x < MaxFrame"
  obtains s' where "proxyEnvGet caps io s k = (v, s')" "rpAlive s'" "rpWorld s' = w"
proof -
  define rep :: bytes where "rep = (case v of None \<Rightarrow> [0] | Some x \<Rightarrow> 1 # x)"
  have srv: "serve caps io OpEnv k (rpSess s) (rpWorld s) = Some (Inr rep, rpSess s, w)"
    using assms(1-5) by (auto simp: serve_ops serve_env_def rep_def split: option.split)
  have lim: "length k \<le> unat (maxWorkerPayload OpEnv)" using assms by (simp add: payload_limits)
  have "length rep \<le> MaxFrame" using assms(6) by (auto simp: rep_def Suc_le_eq MaxFrame_def split: option.split)
  then obtain s' where "rpc_call caps io s OpEnv k = (Inr rep, s')" "rpWorld s' = w" "rpAlive s'"
    using rpc_call_ok [OF assms(1) not_done(9) lim srv] by blast
  then show thesis by (intro that [of s']) (auto simp: proxyEnvGet_def rep_def split: option.split)
qed

lemma proxyPublish_remote:
  assumes "rpAlive s" "capBus caps = Some publish" "topic \<noteq> []" "length topic \<le> BusMaxTopic"
    "length dat \<le> BusMaxData" "publish (rpWorld s) topic dat = (n, w)"
  obtains s' where "proxyPublish caps io s topic dat = (sint (u32_of_int n), s')" "rpAlive s'" "rpWorld s' = w"
proof -
  have dec: "decodeKeyValue (encodeKeyValue (topic, dat)) = Some (Some (topic, dat))"
    using assms(4) by (intro key_value_round_trip) (simp add: const_defs)
  have srv: "serve caps io OpBusPub (encodeKeyValue (topic, dat)) (rpSess s) (rpWorld s)
      = Some (Inr (put_u32 (u32_of_int n)), rpSess s, w)"
    using assms dec by (simp add: serve_ops serve_bus_pub_def)
  have lim: "length (encodeKeyValue (topic, dat)) \<le> unat (maxWorkerPayload OpBusPub)"
    using assms by (simp add: payload_limits encodeKeyValue_def)
  have "length (put_u32 (u32_of_int n)) \<le> MaxFrame" by (simp add: MaxFrame_def)
  then obtain s' where "rpc_call caps io s OpBusPub (encodeKeyValue (topic, dat)) = (Inr (put_u32 (u32_of_int n)), s')"
    "rpWorld s' = w" "rpAlive s'"
    using rpc_call_ok [OF assms(1) not_done(7) lim srv] by blast
  then show thesis by (intro that [of s']) (simp_all add: proxyPublish_def)
qed

lemma proxySubscribe_remote:
  assumes "rpAlive s" "ioSub io = Some subscribe" "topic \<noteq> []" "length topic \<le> BusMaxTopic"
    "subscribe (rpWorld s) topic = (failed, w)"
  obtains s' where "proxySubscribe caps io s topic = (failed, s')" "rpAlive s'" "rpWorld s' = w"
proof -
  have srv: "serve caps io OpBusSub topic (rpSess s) (rpWorld s) = Some (Inr [if failed then 1 else 0], rpSess s, w)"
    using assms by (simp add: serve_ops serve_bus_sub_def)
  have lim: "length topic \<le> unat (maxWorkerPayload OpBusSub)" using assms by (simp add: payload_limits)
  obtain s' where "rpc_call caps io s OpBusSub topic = (Inr [if failed then 1 else 0], s')" "rpWorld s' = w" "rpAlive s'"
    using rpc_call_ok [OF assms(1) not_done(6) lim srv byte_fits] .
  then show thesis by (intro that [of s']) (simp_all add: proxySubscribe_def)
qed

lemma proxyTimerStart_remote:
  assumes "rpAlive s" "capTimers caps = Some t" "tmStart t (rpWorld s) d b = (r, w)"
  obtains s' where "proxyTimerStart caps io s d b = (r, s')" "rpAlive s'" "rpWorld s' = w"
proof -
  let ?p = "put_u64 d @ [if b then 1 else 0]"
  have srv: "serve caps io OpTimerStart ?p (rpSess s) (rpWorld s) = Some (Inr (put_u32 r), rpSess s, w)"
    using assms by (cases b) (simp_all add: serve_ops serve_timer_start_def index_def nth_append)
  have lim: "length ?p \<le> unat (maxWorkerPayload OpTimerStart)" by (simp add: payload_limits)
  have "length (put_u32 r) \<le> MaxFrame" by (simp add: MaxFrame_def)
  then obtain s' where "rpc_call caps io s OpTimerStart ?p = (Inr (put_u32 r), s')" "rpWorld s' = w" "rpAlive s'"
    using rpc_call_ok [OF assms(1) not_done(13) lim srv] by blast
  then show thesis by (intro that [of s']) (simp_all add: proxyTimerStart_def)
qed

lemma proxyTimerCancel_remote:
  assumes "rpAlive s" "capTimers caps = Some t" "tmCancel t (rpWorld s) i = (b, w)"
  obtains s' where "proxyTimerCancel caps io s i = (b, s')" "rpAlive s'" "rpWorld s' = w"
proof -
  have srv: "serve caps io OpTimerCancel (put_u32 i) (rpSess s) (rpWorld s) = Some (Inr [if b then 1 else 0], rpSess s, w)"
    using assms by (simp add: serve_ops serve_timer_cancel_def)
  have lim: "length (put_u32 i) \<le> unat (maxWorkerPayload OpTimerCancel)" by (simp add: payload_limits)
  obtain s' where "rpc_call caps io s OpTimerCancel (put_u32 i) = (Inr [if b then 1 else 0], s')" "rpWorld s' = w" "rpAlive s'"
    using rpc_call_ok [OF assms(1) not_done(14) lim srv byte_fits] .
  then show thesis by (intro that [of s']) (simp_all add: proxyTimerCancel_def)
qed

lemma proxyNext_remote:
  assumes "rpAlive s" "ioSource io = Some next" "next (rpWorld s) = (e, w)"
    and carried: "\<And>ev. e = Some ev \<Longrightarrow> event_carried ev \<and> length (evData ev) \<le> BusMaxData"
  obtains s' where "proxyNext caps io s = Some (e, s')" "rpAlive s'" "rpWorld s' = w"
proof (cases e)
  case None
  have srv: "serve caps io OpRecv [] (rpSess s) (rpWorld s) = Some (Inr [0], rpSess s, w)"
    using assms None by (simp add: serve_ops serve_recv_def)
  have lim: "length ([] :: bytes) \<le> unat (maxWorkerPayload OpRecv)" by simp
  obtain s' where "rpc_call caps io s OpRecv [] = (Inr [0], s')" "rpWorld s' = w" "rpAlive s'"
    using rpc_call_ok [OF assms(1) not_done(12) lim srv byte_fits] .
  with None show thesis by (intro that [of s']) (simp_all add: proxyNext_def)
next
  case (Some ev)
  let ?b = "AppendEvent (psEv (rpSess s)) ev"
  have dec: "DecodeEvent ?b = Some (Inr ev)"
    using event_wire.round_trip [of ev] carried [OF Some] by (simp add: EncodeEvent_def AppendEvent_eq)
  have srv: "serve caps io OpRecv [] (rpSess s) (rpWorld s) = Some (Inr (1 # ?b), (rpSess s)\<lparr>psEv := ?b\<rparr>, w)"
    using assms Some by (simp add: serve_ops serve_recv_def Let_def)
  have lim: "length ([] :: bytes) \<le> unat (maxWorkerPayload OpRecv)" by simp
  have "length (1 # ?b) \<le> MaxFrame"
    using carried [OF Some] by (auto simp: AppendEvent_eq event_tail_def event_carried_def const_defs)
  then obtain s' where "rpc_call caps io s OpRecv [] = (Inr (1 # ?b), s')" "rpWorld s' = w" "rpAlive s'"
    using rpc_call_ok [OF assms(1) not_done(12) lim srv] by blast
  with Some dec show thesis by (intro that [of s']) (simp_all add: proxyNext_def)
qed

lemma length_EncodeFetchRequest:
  "length (EncodeFetchRequest r) = 8 + length (feMethod r) + length (feURL r) + length (feBody r)"
  by (simp add: EncodeFetchRequest_def appendU16_def appendU32_def)

lemma proxyFetch_remote:
  assumes "rpAlive s" "capFetch caps = Some f" "length (feMethod req) \<le> FetchMaxMethod"
    "length (feURL req) \<le> FetchMaxURL" "length (feBody req) \<le> FetchMaxBody" "f (rpWorld s) req = (r, w)"
    and resp: "\<And>x. r = Inr x \<Longrightarrow> fetch_response_carried x \<and> length (feRespBody x) \<le> FetchMaxBody"
  obtains s' where "rpAlive s'" "rpWorld s' = w"
    "proxyFetch caps io s req = Some ((case r of Inr x \<Rightarrow> Inr x
       | Inl e \<Rightarrow> Inl (if e = ErrEgressDenied then ErrEgressDenied else ErrFetchRPC)), s')"
proof -
  define rep :: bytes where
    "rep = (case r of Inr x \<Rightarrow> 0 # EncodeFetchResponse x | Inl e \<Rightarrow> [if e = ErrEgressDenied then 1 else 3])"
  have dec: "DecodeFetchRequest (EncodeFetchRequest req) = Some (Inr req)"
    using assms(3-5) by (intro fetch_request_wire.round_trip) (simp add: fetch_request_carried_def const_defs)
  have srv: "serve caps io OpFetch (EncodeFetchRequest req) (rpSess s) (rpWorld s) = Some (Inr rep, rpSess s, w)"
    using assms(1-6) dec by (simp add: serve_ops serveFetch_def rep_def split: sum.split)
  have lim: "length (EncodeFetchRequest req) \<le> unat (maxWorkerPayload OpFetch)"
    using assms(3-5) by (simp add: payload_limits length_EncodeFetchRequest maxEncodedFetch_def)
  have "length rep \<le> MaxFrame"
    using resp by (auto simp: rep_def EncodeFetchResponse_def appendU16_def appendU32_def const_defs split: sum.split)
  then obtain s' where "rpc_call caps io s OpFetch (EncodeFetchRequest req) = (Inr rep, s')" "rpWorld s' = w" "rpAlive s'"
    using rpc_call_ok [OF assms(1) not_done(10) lim srv] by blast
  then show thesis
    using resp fetch_response_wire.round_trip
    by (intro that [of s']) (auto simp: proxyFetch_def rep_def split: sum.split)
qed

lemma length_encode_args_le:
  "\<forall>a \<in> set args. length a \<le> k \<Longrightarrow> length (encode_args args) \<le> length args * (4 + k)"
  by (induction args) (auto simp: encode_args_def)

lemma validExecRequest_carried: "validExecRequest r \<Longrightarrow> exec_request_carried r"
  by (auto simp: validExecRequest_def exec_request_carried_def list_all_iff)

lemma exec_request_fits:
  assumes "validExecRequest r"
  shows "length (EncodeExecRequest r) \<le> unat (maxWorkerPayload OpExec)"
proof -
  from assms have r: "length (exName r) \<le> ExecMaxName" "length (exArgs r) \<le> ExecMaxArgs"
    "\<forall>a \<in> set (exArgs r). length a \<le> ExecMaxArg"
    by (auto simp: validExecRequest_def list_all_iff)
  have "length (encode_args (exArgs r)) \<le> ExecMaxArgs * (4 + ExecMaxArg)"
    using length_encode_args_le [OF r(3)] mult_le_mono1 [OF r(2)] by (meson le_trans)
  with r(1) show ?thesis
    by (simp add: EncodeExecRequest_eq payload_limits maxEncodedExec_def)
qed

lemma proxyExec_remote:
  assumes "rpAlive s" "capExec caps = Some run" "validExecRequest req" "run (rpWorld s) req = (r, w)"
    and resp: "\<And>x. r = Inr x \<Longrightarrow> exec_response_carried x \<and>
      length (exStdout x) \<le> ExecMaxOutput \<and> length (exStderr x) \<le> ExecMaxOutput"
  obtains s' where "rpAlive s'" "rpWorld s' = w"
    "proxyExec caps io s req = Some ((case r of Inr x \<Rightarrow> Inr x
       | Inl e \<Rightarrow> Inl (if e = ErrExecTooLarge then ErrExecTooLarge else ErrExecRPC)), s')"
proof -
  define rep :: bytes where
    "rep = (case r of Inr x \<Rightarrow> 0 # EncodeExecResponse x | Inl e \<Rightarrow> [if e = ErrExecTooLarge then 2 else 3])"
  have dec: "DecodeExecRequest (EncodeExecRequest req) = Some (Inr req)"
    using validExecRequest_carried [OF assms(3)] by (rule exec_request_wire.round_trip)
  have srv: "serve caps io OpExec (EncodeExecRequest req) (rpSess s) (rpWorld s) = Some (Inr rep, rpSess s, w)"
    using assms(1-4) dec resp by (auto simp: serve_ops serve_exec_def rep_def split: sum.split)
  have "length rep \<le> MaxFrame"
    using resp by (auto simp: rep_def EncodeExecResponse_def appendU32_def const_defs split: sum.split)
  then obtain s' where "rpc_call caps io s OpExec (EncodeExecRequest req) = (Inr rep, s')" "rpWorld s' = w" "rpAlive s'"
    using rpc_call_ok [OF assms(1) not_done(11) exec_request_fits [OF assms(3)] srv] by blast
  then show thesis
    using resp exec_response_wire.round_trip
    by (intro that [of s']) (auto simp: proxyExec_def rep_def split: sum.split)
qed

section \<open>The stores behind the boundary\<close>

lemma small_entriesI:
  "small_entries s \<Longrightarrow> valid_key k \<Longrightarrow> length v \<le> KVMaxValue \<Longrightarrow>
   map_of (msM t) = (map_of (msM s))(k \<mapsto> v) \<Longrightarrow> small_entries t"
  by (auto simp: small_entries_def)

lemma small_entries_set:
  "small_entries s \<Longrightarrow> valid_key k \<Longrightarrow> length v \<le> KVMaxValue \<Longrightarrow> small_entries (snd (memSet s k v))"
  by (auto simp: memSet_def Let_def update_conv' intro: small_entriesI)

lemma small_entries_cas:
  "small_entries s \<Longrightarrow> valid_key k \<Longrightarrow> length v \<le> KVMaxValue \<Longrightarrow> small_entries (snd (memCompareAndSwap sha s k h v))"
  by (auto simp: memCompareAndSwap_def Let_def update_conv' intro: small_entriesI)

lemma small_entries_delete: "small_entries s \<Longrightarrow> small_entries (snd (memDelete s k))"
  by (auto simp: memDelete_def small_entries_def delete_conv' split: option.split if_splits)

lemma small_entries_list:
  assumes "small_entries s" "memList s p n = Inr ks" "k \<in> set ks"
  shows "valid_key k"
proof -
  have "k \<in> fst ` set (msM s)"
    using assms(2,3) by (auto simp: memList_def listing_def dest: in_set_takeD split: if_splits)
  then obtain v where "map_of (msM s) k = Some v"
    by (metis domD dom_map_of_conv_image_fst)
  with assms(1) show ?thesis by (auto simp: small_entries_def)
qed

interpretation mem_bounded: bounded_store "mem_ops sha" small_entries for sha
proof unfold_locales
  show "length v < MaxFrame" if "small_entries w" "opGet (mem_ops sha) w k = Inr (Some v)" for w k v
    using that by (fastforce simp: mem_ops_def memGet_def small_entries_def const_defs)
qed (auto simp: mem_ops_def small_entries_set small_entries_cas small_entries_delete dest: small_entries_list)

lemma capMask_bits:
  "capMask caps AND 1 \<noteq> 0 \<longleftrightarrow> capKV caps \<noteq> None"
  "capMask caps AND 2 \<noteq> 0 \<longleftrightarrow> capBus caps \<noteq> None"
  "capMask caps AND 4 \<noteq> 0 \<longleftrightarrow> capAuth caps \<noteq> None"
  "capMask caps AND 8 \<noteq> 0 \<longleftrightarrow> capEnv caps \<noteq> None"
  "capMask caps AND 16 \<noteq> 0 \<longleftrightarrow> capFetch caps \<noteq> None"
  "capMask caps AND 32 \<noteq> 0 \<longleftrightarrow> capExec caps \<noteq> None"
  by (simp_all add: capMask_def Let_def)

text \<open>Output crosses the boundary in chunks; the parent's writer sees them in order.\<close>

lemma proxyOutput_remote:
  assumes "rpAlive s" "op = OpOutput \<and> ioStdout io = Some (\<lambda>w p. (False, app w p)) \<or>
      op = OpOutputStderr \<and> ioStderr io = Some (\<lambda>w p. (False, app w p))"
    and app: "\<And>w p q. app (app w p) q = app w (p @ q)"
    and app0: "\<And>w. app w [] = w"
  shows "\<exists>s'. proxyOutputWrite caps io op n s p = ((n + length p, False), s') \<and> rpAlive s' \<and>
    rpWorld s' = app (rpWorld s) p"
  using assms(1)
proof (induction "length p" arbitrary: n s p rule: less_induct)
  case less
  show ?case
  proof (cases "p = []")
    case True
    with less.prems show ?thesis by (simp add: proxyOutputWrite.simps app0)
  next
    case False
    define k where "k = min (length p) maxWorkerOutput"
    have k: "0 < k" "k \<le> length p" "k \<le> maxWorkerOutput"
      using False by (auto simp: k_def maxWorkerOutput_def)
    have "unat (maxWorkerPayload op) = maxWorkerOutput" "op \<noteq> OpDone"
      using assms(2) not_done(16,17) by (auto simp: payload_limits)
    moreover have "serve caps io op (take k p) (rpSess s) (rpWorld s) = Some (Inr [], rpSess s, app (rpWorld s) (take k p))"
      using assms(2) k by (auto simp: serve_ops serve_output_def)
    ultimately obtain s1 where s1: "rpc_call caps io s op (take k p) = (Inr [], s1)"
      "rpWorld s1 = app (rpWorld s) (take k p)" "rpAlive s1"
      using rpc_call_ok [of s op "take k p" caps io "[]" "rpSess s"] less.prems k by auto
    then have "proxyOutputWrite caps io op n s p = proxyOutputWrite caps io op (n + k) s1 (drop k p)"
      using False by (subst proxyOutputWrite.simps) (simp add: k_def Let_def)
    with less.hyps [of "drop k p" s1 "n + k"] s1 k show ?thesis by (simp add: app)
  qed
qed

section \<open>Properties\<close>

text \<open>
  C16: A guest cannot tell whether its key/value store is in its own process or
  behind the process boundary. Any guest program, run for any number of calls
  against the proxy of an isolated worker, gets the same codes, ends with the
  same memory and leaves the same store as against the store itself.
\<close>

theorem isolated_store_is_transparent:
  assumes "exact_reads rd" "rpAlive s" "capKV caps = Some (mem_ops sha)" "small_entries (rpWorld s)"
    and "guest_run n guest (Some (mem_ops sha)) rd wr [] m (rpWorld s) = (codes, m', w')"
  shows "\<exists>s'. guest_run n guest (Some (proxy_ops caps io)) rd wr [] m s = (codes, m', s') \<and>
    rpWorld s' = w' \<and> rpAlive s'"
  using assms by (rule mem_bounded.guest_cannot_tell)

theorem isolated_store_is_transparent_witness:
  "let sha = (\<lambda>_. zero_hash);
       caps = \<lparr>capKV = Some (mem_ops sha), capBus = None, capAuth = None, capEnv = None, capFetch = None,
         capExec = None, capTimers = None\<rparr>;
       io = \<lparr>ioSource = None, ioPresent = None, ioHealthy = None, ioSub = None, ioStdin = None, ioStdout = None,
         ioStderr = None\<rparr>;
       s = \<lparr>rpWorld = NewMemStore 10 100, rpSess = \<lparr>psEv = [], psCells = [], psLast = []\<rparr>, rpBuf = [1, 2],
         rpWorkerBuf = [3], rpAlive = True\<rparr>;
       guest = (\<lambda>codes m. Some (m, if codes = [] then CallSet 0 1 1 2 else CallGet 0 1 4 2))
   in \<exists>s'. guest_run (Suc (Suc 0)) guest (Some (proxy_ops caps io)) flat_read flat_write [] [65, 66, 67, 0, 0, 0] s
        = ([0, 2], [65, 66, 67, 0, 66, 67], s')"
proof -
  let ?sha = "\<lambda>_. zero_hash" and ?w = "NewMemStore 10 100"
  let ?guest = "\<lambda>codes m. Some (m, if codes = [] then CallSet 0 1 1 2 else CallGet 0 1 4 2)"
  have ex: "exact_reads (flat_read :: bytes mem_read)"
    by (auto simp: exact_reads_def flat_read_def split: if_splits)
  have run: "guest_run (Suc (Suc 0)) ?guest (Some (mem_ops ?sha)) flat_read flat_write [] [65, 66, 67, 0, 0, 0] ?w
      = ([0, 2], [65, 66, 67, 0, 66, 67], snd (memSet ?w [65] [66, 67]))"
    by (simp add: kv_set_def kv_get_def readKey_def flat_read_def flat_write_def mem_ops_def
        memSet_def memGet_def NewMemStore_def put_at_def Let_def const_defs)
  have small: "small_entries ?w" by (simp add: small_entries_def NewMemStore_def)
  let ?caps = "\<lparr>capKV = Some (mem_ops ?sha), capBus = None, capAuth = None, capEnv = None, capFetch = None,
    capExec = None, capTimers = None\<rparr>"
  let ?io = "\<lparr>ioSource = None, ioPresent = None, ioHealthy = None, ioSub = None, ioStdin = None, ioStdout = None,
    ioStderr = None\<rparr>"
  let ?s = "\<lparr>rpWorld = ?w, rpSess = \<lparr>psEv = [], psCells = [], psLast = []\<rparr>, rpBuf = [1, 2],
    rpWorkerBuf = [3], rpAlive = True\<rparr>"
  have "\<exists>s'. guest_run (Suc (Suc 0)) ?guest (Some (proxy_ops ?caps ?io)) flat_read flat_write [] [65, 66, 67, 0, 0, 0] ?s
      = ([0, 2], [65, 66, 67, 0, 66, 67], s') \<and> rpWorld s' = snd (memSet ?w [65] [66, 67]) \<and> rpAlive s'"
    by (rule isolated_store_is_transparent [where sha = ?sha, OF ex]) (simp_all only: run small rpc.simps capabilities.simps)
  then show ?thesis unfolding Let_def by blast
qed

text \<open>
  C17: No message of a worker, however malformed, makes the parent's handler
  panic, whatever capabilities the session has and in whatever state it is.
\<close>

theorem serve_never_panics:
  "\<exists>result sess' w'. serve caps io o' payload sess w = Some (result, sess', w')"
  using serve_total [of caps io o' payload sess w] by auto

text \<open>
  The worker installs a proxy for exactly the capabilities the parent
  holds, so a missing capability is missing on both sides of the boundary.
\<close>

theorem proxies_match_capabilities:
  "(capKV (worker_caps caps io cli (capMask caps)) = None \<longleftrightarrow> capKV caps = None) \<and>
   (capBus (worker_caps caps io cli (capMask caps)) = None \<longleftrightarrow> capBus caps = None) \<and>
   (capAuth (worker_caps caps io cli (capMask caps)) = None \<longleftrightarrow> capAuth caps = None) \<and>
   (capEnv (worker_caps caps io cli (capMask caps)) = None \<longleftrightarrow> capEnv caps = None) \<and>
   (capFetch (worker_caps caps io cli (capMask caps)) = None \<longleftrightarrow> capFetch caps = None) \<and>
   (capExec (worker_caps caps io cli (capMask caps)) = None \<longleftrightarrow> capExec caps = None)"
  unfolding worker_caps_def using capMask_bits [of caps] by (auto simp del: not_None_eq)

text \<open>
  C19: Where the boundary is visible. A command the host refuses (not on the
  allowlist, not found, not resolvable) is reported to an in-process guest as
  \<^verbatim>\<open>ExecErrUnavailable\<close>, but to an isolated guest as
  \<^verbatim>\<open>ExecErrFailed\<close>; all other outcomes of a command have the same code on
  both sides.
\<close>

theorem isolated_exec_codes:
  assumes "rpAlive s" "capExec caps = Some run" "validExecRequest req" "run (rpWorld s) req = (Inl e, w)"
  shows "\<exists>e' s'. proxyExec caps io s req = Some (Inl e', s') \<and> rpWorld s' = w \<and> rpAlive s' \<and>
    exec_code e' = (if e \<in> {ErrExecDenied, ErrExecNotFound, ErrExecUnresolved} then ExecErrFailed else exec_code e)"
proof -
  obtain s' where "rpAlive s'" "rpWorld s' = w" "proxyExec caps io s req
      = Some (Inl (if e = ErrExecTooLarge then ErrExecTooLarge else ErrExecRPC), s')"
    using proxyExec_remote [OF assms] by (metis sum.simps(5) Inl_Inr_False)
  then show ?thesis by (cases e) (simp_all add: exec_code_def)
qed

theorem isolated_exec_codes_witness:
  "let caps = \<lparr>capKV = None, capBus = None, capAuth = None, capEnv = None, capFetch = None,
         capExec = Some (\<lambda>w r. (Inl ErrExecDenied, w)), capTimers = None\<rparr>;
       io = \<lparr>ioSource = None, ioPresent = None, ioHealthy = None, ioSub = None, ioStdin = None, ioStdout = None,
         ioStderr = None\<rparr>;
       s = \<lparr>rpWorld = (), rpSess = \<lparr>psEv = [], psCells = [], psLast = []\<rparr>, rpBuf = [], rpWorkerBuf = [], rpAlive = True\<rparr>
   in exec_code ErrExecDenied = ExecErrUnavailable \<and>
      (\<exists>e' s'. proxyExec caps io s \<lparr>exName = [114, 109], exArgs = []\<rparr> = Some (Inl e', s') \<and> exec_code e' = ExecErrFailed)"
  unfolding Let_def
  using isolated_exec_codes [where caps = "\<lparr>capKV = None, capBus = None, capAuth = None, capEnv = None, capFetch = None,
      capExec = Some (\<lambda>w r. (Inl ErrExecDenied, w)), capTimers = None\<rparr>"
      and s = "\<lparr>rpWorld = (), rpSess = \<lparr>psEv = [], psCells = [], psLast = []\<rparr>, rpBuf = [], rpWorkerBuf = [], rpAlive = True\<rparr>"
      and req = "\<lparr>exName = [114, 109], exArgs = []\<rparr>" and e = ErrExecDenied and w = "()"]
  by (fastforce simp: validExecRequest_def exec_code_def const_defs)

text \<open>
  C20: The same for outbound requests: a response over the size cap is reported
  to an in-process guest as \<^verbatim>\<open>FetchErrTooLarge\<close> but to an isolated guest as
  \<^verbatim>\<open>FetchErrInternal\<close>, since the parent never sends the status byte
  documented for it; a refused target and every other failure look the same
  (a fetcher of the parent never reports the worker's own
  \<^verbatim>\<open>errEgressUnavailable\<close>).
\<close>

theorem isolated_fetch_codes:
  assumes "rpAlive s" "capFetch caps = Some f" "length (feMethod req) \<le> FetchMaxMethod"
    "length (feURL req) \<le> FetchMaxURL" "length (feBody req) \<le> FetchMaxBody"
    "f (rpWorld s) req = (Inl e, w)" "e \<noteq> ErrEgressUnavailable"
  shows "\<exists>e' s'. proxyFetch caps io s req = Some (Inl e', s') \<and> rpWorld s' = w \<and> rpAlive s' \<and>
    fetch_code e' = (if e = ErrResponseTooLarge then FetchErrInternal else fetch_code e)"
proof -
  obtain s' where "rpAlive s'" "rpWorld s' = w" "proxyFetch caps io s req
      = Some (Inl (if e = ErrEgressDenied then ErrEgressDenied else ErrFetchRPC), s')"
    using proxyFetch_remote [OF assms(1-6)] by (metis sum.simps(5) Inl_Inr_False)
  with assms(7) show ?thesis by (cases e) (simp_all add: fetch_code_def)
qed

theorem isolated_fetch_codes_witness:
  "let caps = \<lparr>capKV = None, capBus = None, capAuth = None, capEnv = None,
         capFetch = Some (\<lambda>w r. (Inl ErrResponseTooLarge, w)), capExec = None, capTimers = None\<rparr>;
       io = \<lparr>ioSource = None, ioPresent = None, ioHealthy = None, ioSub = None, ioStdin = None, ioStdout = None,
         ioStderr = None\<rparr>;
       s = \<lparr>rpWorld = (), rpSess = \<lparr>psEv = [], psCells = [], psLast = []\<rparr>, rpBuf = [], rpWorkerBuf = [], rpAlive = True\<rparr>
   in fetch_code ErrResponseTooLarge = FetchErrTooLarge \<and>
      (\<exists>e' s'. proxyFetch caps io s \<lparr>feMethod = [], feURL = [1], feBody = []\<rparr> = Some (Inl e', s') \<and>
         fetch_code e' = FetchErrInternal)"
  unfolding Let_def
  using isolated_fetch_codes [where caps = "\<lparr>capKV = None, capBus = None, capAuth = None, capEnv = None,
      capFetch = Some (\<lambda>w r. (Inl ErrResponseTooLarge, w)), capExec = None, capTimers = None\<rparr>"
      and s = "\<lparr>rpWorld = (), rpSess = \<lparr>psEv = [], psCells = [], psLast = []\<rparr>, rpBuf = [], rpWorkerBuf = [], rpAlive = True\<rparr>"
      and req = "\<lparr>feMethod = [], feURL = [1], feBody = []\<rparr>" and e = ErrResponseTooLarge and w = "()"]
  by (fastforce simp: fetch_code_def const_defs)

text \<open>
  Who the guest is told it serves does not depend on the process boundary:
  through the installed proxy the identity call returns the same code and
  writes the same bytes into the guest's memory.
\<close>

theorem isolated_identity_is_transparent:
  assumes "rpAlive s" "capAuth caps = Some whoami"
    and "auth_whoami (Some whoami) wr m (rpWorld s) outPtr outCap = (code, m', w')"
  shows "\<exists>s'. auth_whoami (capAuth (worker_caps caps io cli (capMask caps))) wr m s outPtr outCap = (code, m', s') \<and>
    rpWorld s' = w' \<and> rpAlive s'"
proof -
  obtain i w where i: "whoami (rpWorld s) = (i, w)" by (cases "whoami (rpWorld s)")
  obtain j s' where "proxyWhoami caps io s = Some (j, s')" "rpAlive s'" "rpWorld s' = w"
    "EncodeIdentity (abi_identity j) = EncodeIdentity (abi_identity i)"
    using proxyWhoami_remote [OF assms(1,2) i] .
  moreover have "capAuth (worker_caps caps io cli (capMask caps)) =
      Some (\<lambda>s. or_dead zero_identity s (proxyWhoami caps io s))"
    using capMask_bits(3) [of caps] assms(2) by (simp add: worker_caps_def)
  ultimately show ?thesis
    using assms(3) i by (auto simp: auth_whoami_def or_dead_def split: prod.splits)
qed

theorem isolated_identity_is_transparent_witness:
  "let i = \<lparr>aiUser = [65], aiAuthenticated = True, aiKind = IdentitySSHKey, aiOwnsApp = False, aiOwnerID = [9]\<rparr>;
       caps = \<lparr>capKV = None, capBus = None, capAuth = Some (\<lambda>w. (i, w)), capEnv = None, capFetch = None,
         capExec = None, capTimers = None\<rparr>;
       io = \<lparr>ioSource = None, ioPresent = None, ioHealthy = None, ioSub = None, ioStdin = None, ioStdout = None,
         ioStderr = None\<rparr>;
       s = \<lparr>rpWorld = (), rpSess = \<lparr>psEv = [], psCells = [], psLast = []\<rparr>, rpBuf = [], rpWorkerBuf = [], rpAlive = True\<rparr>
   in \<exists>s'. auth_whoami (capAuth (worker_caps caps io False (capMask caps))) flat_write [7, 7, 7, 7, 7] s 1 4
        = (4, [7, 5, 1, 0, 65], s')"
proof -
  let ?i = "\<lparr>aiUser = [65], aiAuthenticated = True, aiKind = IdentitySSHKey, aiOwnsApp = False, aiOwnerID = [9]\<rparr>"
  have run: "auth_whoami (Some (\<lambda>w. (?i, w))) flat_write [7, 7, 7, 7, 7] () 1 4 = (4, [7, 5, 1, 0, 65], ())"
    by code_simp
  let ?caps = "\<lparr>capKV = None, capBus = None, capAuth = Some (\<lambda>w. (?i, w)), capEnv = None, capFetch = None,
    capExec = None, capTimers = None\<rparr> :: unit capabilities"
  let ?io = "\<lparr>ioSource = None, ioPresent = None, ioHealthy = None, ioSub = None, ioStdin = None, ioStdout = None,
    ioStderr = None\<rparr>"
  let ?s = "\<lparr>rpWorld = (), rpSess = \<lparr>psEv = [], psCells = [], psLast = []\<rparr>, rpBuf = [], rpWorkerBuf = [], rpAlive = True\<rparr>"
  have "\<exists>s'. auth_whoami (capAuth (worker_caps ?caps ?io False (capMask ?caps))) flat_write [7, 7, 7, 7, 7] ?s 1 4
      = (4, [7, 5, 1, 0, 65], s') \<and> rpWorld s' = () \<and> rpAlive s'"
    by (rule isolated_identity_is_transparent [where whoami = "\<lambda>w. (?i, w)"])
      (simp_all only: run rpc.simps capabilities.simps)
  then show ?thesis unfolding Let_def by blast
qed

text \<open>
  Everything a command-line guest prints in one write reaches the parent's
  stream complete and in order, however many messages it takes, and the guest is
  told that all of it was written.
\<close>

theorem isolated_output_complete:
  assumes "rpAlive s" "ioStdout io = Some (\<lambda>w p. (False, w @ p))"
  shows "\<exists>s'. proxyOutputWrite caps io OpOutput 0 s p = ((length p, False), s') \<and> rpAlive s' \<and>
    rpWorld s' = rpWorld s @ p"
  using proxyOutput_remote [of s OpOutput io "(@)" caps 0 p] assms by simp

theorem isolated_output_complete_witness:
  "let caps = \<lparr>capKV = None, capBus = None, capAuth = None, capEnv = None, capFetch = None,
         capExec = None, capTimers = None\<rparr>;
       io = \<lparr>ioSource = None, ioPresent = None, ioHealthy = None, ioSub = None, ioStdin = None,
         ioStdout = Some (\<lambda>w p. (False, w @ p)), ioStderr = None\<rparr>;
       s = \<lparr>rpWorld = [1], rpSess = \<lparr>psEv = [], psCells = [], psLast = []\<rparr>, rpBuf = [], rpWorkerBuf = [], rpAlive = True\<rparr>
   in \<exists>s'. proxyOutputWrite caps io OpOutput 0 s [2, 3] = ((2, False), s') \<and> rpWorld s' = [1, 2, 3]"
  unfolding Let_def
  using isolated_output_complete [where caps = "\<lparr>capKV = None, capBus = None, capAuth = None, capEnv = None,
      capFetch = None, capExec = None, capTimers = None\<rparr>"
      and io = "\<lparr>ioSource = None, ioPresent = None, ioHealthy = None, ioSub = None, ioStdin = None,
         ioStdout = Some (\<lambda>w p. (False, w @ p)), ioStderr = None\<rparr>"
      and s = "\<lparr>rpWorld = [1], rpSess = \<lparr>psEv = [], psCells = [], psLast = []\<rparr>, rpBuf = [], rpWorkerBuf = [], rpAlive = True\<rparr>"
      and p = "[2, 3]"]
  by (fastforce simp: numeral_2_eq_2)

end
