(* ===== verification/Host_Timers.thy ===== *)
theory Host_Timers
  imports Host_Calls
begin

text \<open>
  The timers of a session (\<^verbatim>\<open>timerManager\<close> of \<^verbatim>\<open>internal/runner/timer.go\<close>): starting and cancelling, the firing of a timer
  and the delivery of its events, as a state machine over the steps that the lock makes atomic.
\<close>

section \<open>State and operations\<close>

definition TimerMaxActive :: nat where [const_defs]: "TimerMaxActive = 64"
definition TimerMinDelayNanos :: int where [const_defs]: "TimerMinDelayNanos = 1000000"
definition TimerMinEveryNanos :: int where [const_defs]: "TimerMinEveryNanos = 10000000"
definition TimerMaxDelayNanos :: int where [const_defs]: "TimerMaxDelayNanos = 24 * 60 * 60 * 10 ^ 9"

definition max_id :: u32 where [const_defs]: "max_id = drop_bit 1 (- 1)"

text \<open>
  \<open>tmRuns\<close> are the goroutines of \<^verbatim>\<open>run\<close>, with whether they recur; \<open>tmSending\<close> is the identifier that \<^verbatim>\<open>dispatch\<close> has
  taken from the queue and is offering to the guest.
\<close>

record timer_manager =
  tmNext :: u32
  tmActive :: "u32 list"
  tmPending :: "u32 list"
  tmQueued :: "u32 list"
  tmRuns :: "(u32 \<times> bool) list"
  tmSending :: "u32 option"

definition newTimerManager :: timer_manager where
  "newTimerManager = \<lparr>tmNext = 0, tmActive = [], tmPending = [], tmQueued = [], tmRuns = [], tmSending = None\<rparr>"

text \<open>
  The loop that looks for an unused identifier. It need not end, so its value is an option.
\<close>

partial_function (option) next_id :: "u32 list \<Rightarrow> u32 \<Rightarrow> u32 option" where
  "next_id active n =
    (let n = n + 1 in
     if n \<noteq> 0 \<and> n \<le> max_id \<and> n \<notin> set active then Some n
     else next_id active (if n > max_id then 0 else n))"

definition timerStart :: "int \<Rightarrow> bool \<Rightarrow> timer_manager \<Rightarrow> (int \<times> timer_manager) option" where
  "timerStart delay recurring t =
    (let minimum = (if recurring then TimerMinEveryNanos else TimerMinDelayNanos) in
     if delay < minimum \<or> delay > TimerMaxDelayNanos then Some (TimerErrInvalid, t)
     else if length (tmActive t) \<ge> TimerMaxActive then Some (TimerErrLimit, t)
     else case next_id (tmActive t) (tmNext t) of
       None \<Rightarrow> None
     | Some i \<Rightarrow> Some (sint i, t\<lparr>tmNext := i, tmActive := i # tmActive t, tmRuns := (i, recurring) # tmRuns t\<rparr>))"

definition enqueue :: "u32 \<Rightarrow> bool \<Rightarrow> timer_manager \<Rightarrow> timer_manager" where
  "enqueue i recurring t =
    (if i \<notin> set (tmActive t) then t
     else
       let t = (if \<not> recurring then t\<lparr>tmActive := removeAll i (tmActive t)\<rparr> else t) in
       if i \<notin> set (tmQueued t) then t\<lparr>tmQueued := i # tmQueued t, tmPending := tmPending t @ [i]\<rparr> else t)"

definition timerCancel :: "u32 \<Rightarrow> timer_manager \<Rightarrow> bool \<times> timer_manager" where
  "timerCancel i t =
    (i \<in> set (tmActive t),
     t\<lparr>tmActive := removeAll i (tmActive t), tmQueued := removeAll i (tmQueued t), tmPending := remove1 i (tmPending t)\<rparr>)"

definition timerClose :: "timer_manager \<Rightarrow> timer_manager" where
  "timerClose t = t\<lparr>tmActive := [], tmPending := [], tmQueued := []\<rparr>"

text \<open>
  \<^verbatim>\<open>dispatch\<close> takes the head of the queue (the identifier 0 stands for an empty queue), and, when the guest has received
  the event, removes it if it is still the head.
\<close>

definition dispatch_pick :: "timer_manager \<Rightarrow> timer_manager" where
  "dispatch_pick t = t\<lparr>tmSending := (case tmPending t of [] \<Rightarrow> None | i # _ \<Rightarrow> if i = 0 then None else Some i)\<rparr>"

definition dispatch_sent :: "u32 \<Rightarrow> timer_manager \<Rightarrow> timer_manager" where
  "dispatch_sent i t =
    (let t = t\<lparr>tmSending := None\<rparr> in
     if tmPending t \<noteq> [] \<and> hd (tmPending t) = i then t\<lparr>tmPending := tl (tmPending t), tmQueued := removeAll i (tmQueued t)\<rparr> else t)"

text \<open>
  The steps, with the event that reaches the guest. A goroutine that was told to stop may still fire once before it ends.
\<close>

inductive timer_step :: "timer_manager \<Rightarrow> u32 option \<Rightarrow> timer_manager \<Rightarrow> bool" where
  start: "timerStart delay recurring t = Some (r, t') \<Longrightarrow> timer_step t None t'"
| fire: "(i, recurring) \<in> set (tmRuns t) \<Longrightarrow>
    timer_step t None (enqueue i recurring (if recurring then t else t\<lparr>tmRuns := remove1 (i, False) (tmRuns t)\<rparr>))"
| stop: "r \<in> set (tmRuns t) \<Longrightarrow> timer_step t None (t\<lparr>tmRuns := remove1 r (tmRuns t)\<rparr>)"
| cancel: "timer_step t None (snd (timerCancel i t))"
| close: "timer_step t None (timerClose t)"
| pick: "tmSending t = None \<Longrightarrow> timer_step t None (dispatch_pick t)"
| sent: "tmSending t = Some i \<Longrightarrow> timer_step t (Some i) (dispatch_sent i t)"

inductive timer_reachable :: "timer_manager \<Rightarrow> bool" where
  new: "timer_reachable newTimerManager"
| step: "timer_reachable t \<Longrightarrow> timer_step t e t' \<Longrightarrow> timer_reachable t'"

section \<open>The search for an identifier\<close>

lemma max_id_value: "unat max_id = 0x7FFFFFFF"
  by (simp add: max_id_def mask_eq_exp_minus_1)

lemma succ_id:
  assumes "unat n + 1 \<le> unat max_id"
  shows "unat (n + 1) = unat n + 1" "n + 1 \<noteq> 0" "n + 1 \<le> max_id"
proof -
  show u: "unat (n + 1) = unat n + 1" using assms by (simp add: unat_word_ariths max_id_value)
  then show "n + 1 \<noteq> 0" by (metis add_eq_0_iff_both_eq_0 unat_0 zero_neq_one)
  show "n + 1 \<le> max_id" using u assms by (simp add: word_le_nat_alt)
qed

lemma next_id_step: "unat n + 1 \<le> unat max_id \<Longrightarrow> next_id active n = (if n + 1 \<notin> set active then Some (n + 1) else next_id active (n + 1))"
  using succ_id [of n] by (subst next_id.simps) (auto simp: not_less Let_def)

definition free_id :: "u32 list \<Rightarrow> u32 \<Rightarrow> bool" where
  "free_id active i \<longleftrightarrow> 0 < i \<and> i \<le> max_id \<and> i \<notin> set active"

lemma next_id_below:
  "free_id active f \<Longrightarrow> n < f \<Longrightarrow> \<exists>i. next_id active n = Some i \<and> free_id active i"
proof (induction "unat f - unat n" arbitrary: n)
  case 0
  then show ?case by (simp add: word_less_nat_alt)
next
  case (Suc k)
  have le: "unat n + 1 \<le> unat f" "unat f \<le> unat max_id" using Suc.prems by (simp_all add: free_id_def word_less_nat_alt word_le_nat_alt)
  note s = succ_id [OF le_trans [OF le]]
  show ?case
  proof (cases "n + 1 \<in> set active")
    case True
    then have "n + 1 \<noteq> f" using Suc.prems by (auto simp: free_id_def)
    then have "n + 1 < f" using le(1) s(1) by (simp add: word_less_nat_alt word_unat_eq_iff)
    moreover have "k = unat f - unat (n + 1)" using Suc.hyps(2) le s by simp
    ultimately show ?thesis using Suc.hyps(1) [of "n + 1"] Suc.prems(1) next_id_step [OF le_trans [OF le], of active] True by simp
  next
    case False
    then show ?thesis using next_id_step [OF le_trans [OF le], of active] s by (simp add: free_id_def word_gt_0)
  qed
qed

lemma next_id_wrap:
  "n \<le> max_id \<Longrightarrow> (\<And>f. n < f \<Longrightarrow> \<not> free_id active f) \<Longrightarrow> next_id active n = next_id active 0"
proof (induction "unat max_id - unat n" arbitrary: n)
  case 0
  then have "n = max_id" by (simp add: word_le_nat_alt word_unat_eq_iff)
  moreover have "\<not> max_id + 1 \<le> max_id" "max_id < max_id + 1" by (simp_all add: max_id_def mask_eq_exp_minus_1)
  ultimately show ?case by (subst next_id.simps) (simp add: Let_def)
next
  case (Suc k)
  then have le: "unat n + 1 \<le> unat max_id" by simp
  note s = succ_id [OF this]
  have lt: "n < n + 1" using s(1) by (simp add: word_less_nat_alt)
  have "n + 1 \<in> set active" using Suc.prems(2) [OF lt] s by (auto simp: free_id_def word_gt_0)
  then have "next_id active n = next_id active (n + 1)" using next_id_step [OF le] by simp
  also have "\<dots> = next_id active 0"
    by (rule Suc.hyps(1)) (use Suc.hyps(2) s Suc.prems(2) lt in \<open>auto dest: less_trans\<close>)
  finally show ?case .
qed

lemma some_free_id:
  assumes "length active < unat max_id"
  shows "\<exists>f. free_id active f"
proof (rule ccontr)
  assume no: "\<not> ?thesis"
  have "of_nat ` {1..unat max_id} \<subseteq> set active"
  proof
    fix i :: u32 assume "i \<in> of_nat ` {1..unat max_id}"
    then obtain k where k: "i = of_nat k" "1 \<le> k" "k \<le> unat max_id" by auto
    then have "unat i = k" by (simp add: unat_of_nat max_id_value)
    with k have "0 < i \<and> i \<le> max_id" by (auto simp: word_le_nat_alt word_less_nat_alt)
    with no show "i \<in> set active" by (auto simp: free_id_def)
  qed
  moreover have "inj_on (of_nat :: nat \<Rightarrow> u32) {1..unat max_id}"
    by (rule inj_onI) (auto simp: max_id_value word_unat_eq_iff unat_of_nat)
  ultimately have "unat max_id \<le> card (set active)"
    using card_mono [of "set active" "of_nat ` {1..unat max_id}"] card_image by fastforce
  with assms card_length [of active] show False by simp
qed

lemma next_id_total:
  assumes "n \<le> max_id" "length active < unat max_id"
  shows "\<exists>i. next_id active n = Some i \<and> free_id active i"
proof -
  obtain f where f: "free_id active f" using some_free_id [OF assms(2)] by blast
  show ?thesis
  proof (cases "\<exists>g. n < g \<and> free_id active g")
    case True
    then show ?thesis using next_id_below by blast
  next
    case False
    then have "next_id active n = next_id active 0" using next_id_wrap [OF assms(1)] by blast
    then show ?thesis using next_id_below [OF f, of 0] f by (simp add: free_id_def)
  qed
qed

section \<open>What holds in every state\<close>

text \<open>
  Identifiers are positive 31-bit numbers, at most 64 timers are active, and the queue holds every identifier at
  most once, exactly the ones marked as queued.
\<close>

definition timers_ok :: "timer_manager \<Rightarrow> bool" where
  "timers_ok t \<longleftrightarrow> tmNext t \<le> max_id \<and> distinct (tmActive t) \<and> length (tmActive t) \<le> TimerMaxActive \<and>
     (\<forall>i\<in>set (tmActive t) \<union> set (tmPending t) \<union> set_option (tmSending t). 0 < i \<and> i \<le> max_id) \<and>
     distinct (tmPending t) \<and> set (tmQueued t) = set (tmPending t)"

lemma removeAll_ok: "distinct xs \<Longrightarrow> length xs \<le> n \<Longrightarrow> distinct (removeAll x xs) \<and> length (removeAll x xs) \<le> n"
  using order_trans [OF length_removeAll_less_eq [of x xs], of n] by (simp add: distinct_removeAll)

lemma timerStart_ok:
  assumes "timers_ok t"
  shows "\<exists>r t'. timerStart delay recurring t = Some (r, t') \<and> timers_ok t'"
proof -
  have "length (tmActive t) < unat max_id" if "length (tmActive t) < TimerMaxActive"
    using that by (simp add: max_id_value TimerMaxActive_def)
  then obtain i where "length (tmActive t) < TimerMaxActive \<Longrightarrow> next_id (tmActive t) (tmNext t) = Some i \<and> free_id (tmActive t) i"
    using next_id_total [of "tmNext t" "tmActive t"] assms by (auto simp: timers_ok_def)
  with assms show ?thesis by (auto simp: timerStart_def Let_def timers_ok_def free_id_def)
qed

lemma enqueue_ok: "timers_ok t \<Longrightarrow> timers_ok (enqueue i recurring t)"
  using removeAll_ok [of "tmActive t" TimerMaxActive i] by (auto simp: enqueue_def Let_def timers_ok_def)

lemma timerCancel_ok: "timers_ok t \<Longrightarrow> timers_ok (snd (timerCancel i t))"
  using removeAll_ok [of "tmActive t" TimerMaxActive i] by (auto simp: timerCancel_def timers_ok_def set_remove1_eq dest: notin_set_remove1)

lemma dispatch_sent_ok: "timers_ok t \<Longrightarrow> timers_ok (dispatch_sent i t)"
  by (cases "tmPending t") (auto simp: dispatch_sent_def Let_def timers_ok_def)

lemma timer_step_ok: "timer_step t e t' \<Longrightarrow> timers_ok t \<Longrightarrow> timers_ok t'"
proof (induction rule: timer_step.induct)
  case (start delay recurring t r t')
  with timerStart_ok [OF start(2), of delay recurring] show ?case by auto
next
  case (fire i recurring t)
  have "timers_ok (if recurring then t else t\<lparr>tmRuns := remove1 (i, False) (tmRuns t)\<rparr>)" using fire by (simp add: timers_ok_def)
  then show ?case by (rule enqueue_ok)
next
  case (cancel t i)
  then show ?case by (rule timerCancel_ok)
next
  case (sent t i)
  from sent(2) show ?case by (rule dispatch_sent_ok)
qed (auto simp: timers_ok_def timerClose_def dispatch_pick_def word_gt_0 split: list.splits)

lemma timer_reachable_ok: "timer_reachable t \<Longrightarrow> timers_ok t"
  by (induction rule: timer_reachable.induct) (auto simp: timers_ok_def newTimerManager_def dest: timer_step_ok)

text \<open>
  C15: Starting a timer always returns, though its search for an unused identifier is an unbounded loop: in every state
  that a session can reach, a delay outside the limits and a 65th timer are refused without an effect, and otherwise the result is a
  positive identifier that no active timer has, which is active from then on.
\<close>

theorem timer_start_returns:
  assumes "timer_reachable t"
  shows "\<exists>r t'. timerStart delay recurring t = Some (r, t') \<and>
    (if delay < (if recurring then TimerMinEveryNanos else TimerMinDelayNanos) \<or> delay > TimerMaxDelayNanos then r = TimerErrInvalid \<and> t' = t
     else if length (tmActive t) = TimerMaxActive then r = TimerErrLimit \<and> t' = t
     else \<exists>i. r = sint i \<and> 0 < r \<and> i \<notin> set (tmActive t) \<and> tmActive t' = i # tmActive t)"
proof -
  have ok: "timers_ok t" by (rule timer_reachable_ok [OF assms])
  then have len: "length (tmActive t) \<le> TimerMaxActive" by (simp add: timers_ok_def)
  have sint: "0 < sint i" if "free_id (tmActive t) i" for i
  proof -
    have "unat i \<le> 0x7FFFFFFF" "0 < unat i" using that max_id_value by (simp_all add: free_id_def word_le_nat_alt word_less_nat_alt)
    moreover have "uint i = int (unat i)" by simp
    ultimately have "0 < uint i" "uint i < 2147483648" by linarith+
    moreover from this have "sint i = uint i" by (simp add: sint_uint signed_take_bit_int_eq_self)
    ultimately show ?thesis by simp
  qed
  have "length (tmActive t) < unat max_id" using len by (simp add: max_id_value TimerMaxActive_def)
  then obtain i where "next_id (tmActive t) (tmNext t) = Some i" "free_id (tmActive t) i"
    using next_id_total [of "tmNext t" "tmActive t"] ok by (auto simp: timers_ok_def)
  with len sint [of i] show ?thesis by (auto simp: timerStart_def Let_def free_id_def)
qed

definition demo_timers :: timer_manager where
  "demo_timers = \<lparr>tmNext = 1, tmActive = [1], tmPending = [], tmQueued = [], tmRuns = [(1, True)], tmSending = None\<rparr>"

theorem timer_start_returns_witness:
  "\<exists>r t'. timerStart 5000000 False demo_timers = Some (r, t') \<and> (\<exists>i. r = sint i \<and> 0 < r \<and> i \<noteq> 1 \<and> tmActive t' = [i, 1])"
proof -
  have "next_id [] 0 = Some 1" by (subst next_id.simps) (simp add: max_id_def mask_eq_exp_minus_1)
  then have "timerStart 20000000 True newTimerManager = Some (1, demo_timers)"
    by (simp add: timerStart_def newTimerManager_def demo_timers_def const_defs)
  then have "timer_reachable demo_timers" by (intro timer_reachable.step [OF timer_reachable.new timer_step.start])
  from timer_start_returns [OF this, of 5000000 False] show ?thesis by (auto simp: const_defs demo_timers_def)
qed

text \<open>
  A recurring timer cannot flood the guest: however often it fires, its identifier is in the queue once. But the queue of a guest
  that does not receive grows with the one-shot timers it starts, since a timer that fired no longer counts as active.
\<close>

lemma pending_once: "timer_reachable t \<Longrightarrow> distinct (tmPending t)"
  using timer_reachable_ok by (simp add: timers_ok_def)

lemma one_shot_step:
  assumes "timer_reachable t" "length (tmActive t) < TimerMaxActive" "tmActive t = []" "i = tmNext t + 1" "i \<le> max_id" "unat (tmNext t) + 1 = unat i" "\<forall>j\<in>set (tmPending t). j \<le> tmNext t"
  shows "\<exists>t'. timer_reachable t' \<and> tmActive t' = [] \<and> tmNext t' = i \<and> length (tmPending t') = Suc (length (tmPending t)) \<and> (\<forall>j\<in>set (tmPending t'). j \<le> i)"
proof -
  have ne: "i \<noteq> 0" using assms(6) by (metis add_eq_0_iff_both_eq_0 unat_0 zero_neq_one)
  then have "next_id (tmActive t) (tmNext t) = Some i" using assms by (subst next_id.simps) (simp add: Let_def)
  let ?t1 = "t\<lparr>tmNext := i, tmActive := [i], tmRuns := (i, False) # tmRuns t\<rparr>"
  let ?t2 = "enqueue i False (?t1\<lparr>tmRuns := remove1 (i, False) (tmRuns ?t1)\<rparr>)"
  have "timerStart 1000000 False t = Some (sint i, ?t1)"
    using \<open>next_id (tmActive t) (tmNext t) = Some i\<close> assms(2,3) by (simp add: timerStart_def const_defs)
  then have r1: "timer_reachable ?t1" by (intro timer_reachable.step [OF assms(1) timer_step.start])
  have r2: "timer_reachable ?t2" using timer_reachable.step [OF r1 timer_step.fire [of i False ?t1]] by simp
  have "i \<notin> set (tmPending t)" using assms(6,7) by (auto simp: word_le_nat_alt)
  moreover have "set (tmQueued t) = set (tmPending t)" using timer_reachable_ok [OF assms(1)] by (simp add: timers_ok_def)
  ultimately have "tmActive ?t2 = []" "tmNext ?t2 = i" "tmPending ?t2 = tmPending t @ [i]" by (simp_all add: enqueue_def Let_def)
  then show ?thesis using r2 assms(6,7) by (intro exI [of _ ?t2]) (auto simp: word_le_nat_alt)
qed

lemma pending_unbounded:
  assumes "n < unat max_id"
  shows "\<exists>t. timer_reachable t \<and> length (tmPending t) = n"
proof -
  have "\<exists>t. timer_reachable t \<and> tmActive t = [] \<and> unat (tmNext t) = n \<and> length (tmPending t) = n \<and> (\<forall>j\<in>set (tmPending t). j \<le> tmNext t)"
    using assms
  proof (induction n)
    case 0
    show ?case by (rule exI [of _ newTimerManager]) (simp add: newTimerManager_def timer_reachable.new [unfolded newTimerManager_def])
  next
    case (Suc n)
    then obtain t where t: "timer_reachable t" "tmActive t = []" "unat (tmNext t) = n" "length (tmPending t) = n" "\<forall>j\<in>set (tmPending t). j \<le> tmNext t" by auto
    note s = succ_id [of "tmNext t"]
    have "\<exists>t'. timer_reachable t' \<and> tmActive t' = [] \<and> tmNext t' = tmNext t + 1 \<and> length (tmPending t') = Suc (length (tmPending t)) \<and>
        (\<forall>j\<in>set (tmPending t'). j \<le> tmNext t + 1)"
      by (rule one_shot_step) (use t s Suc.prems in \<open>auto simp: TimerMaxActive_def\<close>)
    with t s Suc.prems show ?case by auto
  qed
  then show ?thesis by blast
qed

end
