(* ===== verification/Go_Text.thy ===== *)
theory Go_Text
  imports Plum_Prelude
begin

text \<open>
  Functions on text of the standard library that several components use: \<^verbatim>\<open>strings.TrimSpace\<close> and
  \<^verbatim>\<open>hex.EncodeToString\<close>.
\<close>

section \<open>Trimming\<close>

text \<open>
  \<^verbatim>\<open>strings.TrimSpace\<close> removes the characters of \<^verbatim>\<open>unicode.IsSpace\<close> at both ends; in
  UTF-8 a decoded space at either end is one of these byte sequences there.
\<close>

definition space_codes :: "string list" where
  "space_codes = map (map char_of) ([[9], [10], [11], [12], [13], [32], [0xC2, 0x85], [0xC2, 0xA0], [0xE1, 0x9A, 0x80],
     [0xE2, 0x80, 0xA8], [0xE2, 0x80, 0xA9], [0xE2, 0x80, 0xAF], [0xE2, 0x81, 0x9F], [0xE3, 0x80, 0x80]] @
     map (\<lambda>n. [0xE2, 0x80, 0x80 + n]) [0..<11 :: nat])"

fun strip_prefix :: "string list \<Rightarrow> string \<Rightarrow> string option" where
  "strip_prefix [] s = None"
| "strip_prefix (c # cs) s = (if c \<noteq> [] \<and> take (length c) s = c then Some (drop (length c) s) else strip_prefix cs s)"

function trim_left :: "string list \<Rightarrow> string \<Rightarrow> string" where
  "trim_left cs s = (case strip_prefix cs s of None \<Rightarrow> s | Some t \<Rightarrow> trim_left cs t)"
  by pat_completeness auto
termination
proof (relation "measure (length \<circ> snd)")
  fix cs s t
  have "strip_prefix ds s = Some t \<Longrightarrow> length t < length s" for ds
    by (induction ds) (cases s; auto split: if_splits)+
  then show "strip_prefix cs s = Some t \<Longrightarrow> ((cs, t), cs, s) \<in> measure (length \<circ> snd)" by auto
qed simp

declare trim_left.simps [simp del]

definition TrimSpace :: "string \<Rightarrow> string" where
  "TrimSpace s = rev (trim_left (map rev space_codes) (rev (trim_left space_codes s)))"

definition printable :: "char \<Rightarrow> bool" where
  "printable c \<longleftrightarrow> of_char c > (0x20 :: nat) \<and> of_char c < (0x7f :: nat)"

section \<open>Decimal and hexadecimal\<close>

text \<open>\<^verbatim>\<open>strconv.Itoa\<close>\<close>

fun digits_of :: "nat \<Rightarrow> string" where
  "digits_of n = (if n < 10 then [char_of (48 + n)] else digits_of (n div 10) @ [char_of (48 + n mod 10)])"

declare digits_of.simps [simp del]

definition Itoa :: "int \<Rightarrow> string" where
  "Itoa n = (if n < 0 then CHR ''-'' # digits_of (nat (- n)) else digits_of (nat n))"

definition hex_digit :: "nat \<Rightarrow> char" where
  "hex_digit n = ''0123456789abcdef'' ! (n mod 16)"

definition EncodeToString :: "bytes \<Rightarrow> string" where
  "EncodeToString b = concat (map (\<lambda>w. [hex_digit (unat w div 16), hex_digit (unat w)]) b)"

section \<open>Text of printable characters\<close>

lemma trim_left_printable:
  assumes "list_all (\<lambda>c. c \<noteq> [] \<and> \<not> printable (hd c)) cs" "list_all printable s"
  shows "trim_left cs s = s"
proof -
  have "strip_prefix cs s = None" using assms
  proof (induction cs)
    case (Cons c cs)
    then have "take (length c) s \<noteq> c" by (cases c; cases s) auto
    with Cons show ?case by auto
  qed simp
  then show ?thesis by (subst trim_left.simps) simp
qed

lemma spaces_not_printable:
  "list_all (\<lambda>c. c \<noteq> [] \<and> \<not> printable (hd c)) space_codes"
  "list_all (\<lambda>c. c \<noteq> [] \<and> \<not> printable (hd c)) (map rev space_codes)"
  by code_simp+

end
