(* ===== verification/Host_Egress.thy ===== *)
theory Host_Egress
  imports Host_Calls Go_Text
begin

text \<open>
  Outbound HTTP of a guest (\<^verbatim>\<open>AllowlistFetcher\<close> of \<^verbatim>\<open>internal/runner/fetch.go\<close>): the allowlist of hosts, the refusal of addresses that
  are not public, and the requests with their redirects.
\<close>

section \<open>Host names\<close>

fun labels :: "string \<Rightarrow> string list" where
  "labels [] = [[]]"
| "labels (c # s) = (if c = CHR ''.'' then [] # labels s else case labels s of [] \<Rightarrow> [[c]] | w # ws \<Rightarrow> (c # w) # ws)"

definition isDNSLabelChar :: "char \<Rightarrow> bool" where
  "isDNSLabelChar c \<longleftrightarrow> (let n = of_char c :: nat in 97 \<le> n \<and> n \<le> 122 \<or> 65 \<le> n \<and> n \<le> 90 \<or> 48 \<le> n \<and> n \<le> 57 \<or> n = 45)"

definition trim_prefix :: "string \<Rightarrow> string \<Rightarrow> string" where
  "trim_prefix p s = (if take (length p) s = p then drop (length p) s else s)"

text \<open>
  An entry: the range over the characters of a label may go over its bytes, since only ASCII is accepted.
\<close>

definition validAllowlistEntry :: "string \<Rightarrow> bool" where
  "validAllowlistEntry entry =
    (let body = (if has_prefix entry ''*.'' then trim_prefix ''*.'' entry else trim_prefix ''.'' entry) in
     if body = '''' \<or> length body > 253 then False
     else list_all (\<lambda>label. label \<noteq> '''' \<and> length label \<le> 63 \<and> hd label \<noteq> CHR ''-'' \<and> last label \<noteq> CHR ''-'' \<and> list_all isDNSLabelChar label) (labels body))"

definition trim_dot :: "string \<Rightarrow> string" where
  "trim_dot s = (if s \<noteq> '''' \<and> last s = CHR ''.'' then butlast s else s)"

definition has_suffix :: "string \<Rightarrow> string \<Rightarrow> bool" where
  "has_suffix suf s \<longleftrightarrow> length suf \<le> length s \<and> drop (length s - length suf) s = suf"

text \<open>\<open>lower\<close> is \<^verbatim>\<open>strings.ToLower\<close>, which is a table of Unicode.\<close>

definition allowed :: "(string \<Rightarrow> string) \<Rightarrow> string list \<Rightarrow> string \<Rightarrow> bool" where
  "allowed lower allow host =
    (let host = lower (trim_dot host) in
     list_ex (\<lambda>raw.
       let entry = lower (TrimSpace raw);
           wildcard = (has_prefix entry ''*.'' \<or> has_prefix entry ''.'');
           body = trim_prefix ''.'' (trim_prefix ''*.'' entry)
       in validAllowlistEntry entry \<and> (host = body \<or> wildcard \<and> has_suffix (''.'' @ body) host)) allow)"

section \<open>Addresses\<close>

datatype ip_addr = IPv4 u32 | IPv6 "128 word"

definition be_nat :: "bytes \<Rightarrow> nat" where
  "be_nat b = foldl (\<lambda>n x. n * 256 + unat x) 0 b"

definition AddrFromSlice :: "bytes \<Rightarrow> ip_addr option" where
  "AddrFromSlice b = (if length b = 4 then Some (IPv4 (of_nat (be_nat b))) else if length b = 16 then Some (IPv6 (of_nat (be_nat b))) else None)"

definition Unmap :: "ip_addr \<Rightarrow> ip_addr" where
  "Unmap a = (case a of IPv6 x \<Rightarrow> if drop_bit 32 x = 0xFFFF then IPv4 (ucast x) else a | _ \<Rightarrow> a)"

text \<open>The predicates of \<^verbatim>\<open>netip.Addr\<close>, by their masks.\<close>

fun IsUnspecified :: "ip_addr \<Rightarrow> bool" where
  "IsUnspecified (IPv4 x) = (x = 0)" | "IsUnspecified (IPv6 x) = (x = 0)"

fun IsLoopback :: "ip_addr \<Rightarrow> bool" where
  "IsLoopback (IPv4 x) = (drop_bit 24 x = 127)" | "IsLoopback (IPv6 x) = (x = 1)"

fun IsMulticast :: "ip_addr \<Rightarrow> bool" where
  "IsMulticast (IPv4 x) = (drop_bit 28 x = 0xE)" | "IsMulticast (IPv6 x) = (drop_bit 120 x = 0xFF)"

fun IsLinkLocalUnicast :: "ip_addr \<Rightarrow> bool" where
  "IsLinkLocalUnicast (IPv4 x) = (drop_bit 16 x = 0xA9FE)" | "IsLinkLocalUnicast (IPv6 x) = (drop_bit 118 x = 0x3FA)"

fun IsPrivate :: "ip_addr \<Rightarrow> bool" where
  "IsPrivate (IPv4 x) = (drop_bit 24 x = 10 \<or> drop_bit 20 x = 0xAC1 \<or> drop_bit 16 x = 0xC0A8)" | "IsPrivate (IPv6 x) = (drop_bit 121 x = 0x7E)"

definition IsGlobalUnicast :: "ip_addr \<Rightarrow> bool" where
  "IsGlobalUnicast a \<longleftrightarrow> a \<noteq> IPv4 0 \<and> a \<noteq> IPv4 0xFFFFFFFF \<and> a \<noteq> IPv6 0 \<and> \<not> IsLoopback a \<and> \<not> IsMulticast a \<and> \<not> IsLinkLocalUnicast a"

fun Contains :: "ip_addr \<times> nat \<Rightarrow> ip_addr \<Rightarrow> bool" where
  "Contains (IPv4 b, n) (IPv4 x) = (drop_bit (32 - n) x = drop_bit (32 - n) b)"
| "Contains (IPv6 b, n) (IPv6 x) = (drop_bit (128 - n) x = drop_bit (128 - n) b)"
| "Contains _ _ = False"

definition ip4 :: "nat \<Rightarrow> nat \<Rightarrow> nat \<Rightarrow> nat \<Rightarrow> ip_addr" where
  "ip4 a b c d = IPv4 (of_nat (((a * 256 + b) * 256 + c) * 256 + d))"

text \<open>The first three groups of an IPv6 address, the others are 0.\<close>

definition ip6 :: "nat \<Rightarrow> nat \<Rightarrow> nat \<Rightarrow> ip_addr" where
  "ip6 a b c = IPv6 (of_nat (((a * 65536 + b) * 65536 + c) * 2 ^ 80))"

definition nonPublicPrefixes :: "(ip_addr \<times> nat) list" where
  "nonPublicPrefixes =
    [(ip4 0 0 0 0, 8), (ip4 100 64 0 0, 10), (ip4 192 0 0 0, 24), (ip4 192 0 2 0, 24), (ip4 192 88 99 0, 24), (ip4 198 18 0 0, 15),
     (ip4 198 51 100 0, 24), (ip4 203 0 113 0, 24), (ip4 240 0 0 0, 4),
     (ip6 0x64 0xFF9B 0, 96), (ip6 0x64 0xFF9B 1, 48), (ip6 0x100 0 0, 64), (ip6 0x2001 0 0, 32), (ip6 0x2001 2 0, 48), (ip6 0x2001 0xDB8 0, 32), (ip6 0x2002 0 0, 16)]"

definition isNonPublicIP :: "bytes \<Rightarrow> bool" where
  "isNonPublicIP ip =
    (case AddrFromSlice ip of
       None \<Rightarrow> True
     | Some addr \<Rightarrow>
         let addr = Unmap addr in
         if \<not> IsGlobalUnicast addr \<or> IsPrivate addr \<or> IsLoopback addr \<or> IsLinkLocalUnicast addr \<or> IsMulticast addr \<or> IsUnspecified addr then True
         else list_ex (\<lambda>prefix. Contains prefix addr) nonPublicPrefixes)"

section \<open>Requests\<close>

record egress =
  egAllow :: "string list"
  egAllowPrivateIPs :: bool

text \<open>
  The world of a request: the URL parser (scheme and host name), whether \<^verbatim>\<open>http.NewRequest\<close> accepts method and URL, what a host name
  resolves to at the \<open>n\<close>-th request (an entry that is no address is \<^const>\<open>None\<close>), and what an address answers then.
\<close>

datatype reply = Unreachable | Moved bytes | Answer int bytes | Broken

record network =
  nwLower :: "string \<Rightarrow> string"
  nwURL :: "bytes \<Rightarrow> (string \<times> string) option"
  nwRequest :: "bytes \<Rightarrow> bytes \<Rightarrow> bool"
  nwResolve :: "nat \<Rightarrow> string \<Rightarrow> bytes option list"
  nwReply :: "nat \<Rightarrow> bytes \<Rightarrow> reply"

definition checkDialAddr :: "egress \<Rightarrow> bytes option \<Rightarrow> fetch_error option" where
  "checkDialAddr eg address =
    (if egAllowPrivateIPs eg then None
     else case address of
       None \<Rightarrow> Some ErrEgressDenied
     | Some ip \<Rightarrow> if isNonPublicIP ip then Some ErrEgressDenied else None)"

text \<open>
  The dialer tries the addresses in turn and reports its first error. The result has the addresses it connected to or tried to.
\<close>

fun dial :: "egress \<Rightarrow> (bytes \<Rightarrow> reply) \<Rightarrow> bytes option list \<Rightarrow> fetch_error option \<Rightarrow> bytes list \<times> (fetch_error + reply)" where
  "dial eg answer [] first = ([], Inl (case first of None \<Rightarrow> ErrTransport | Some e \<Rightarrow> e))"
| "dial eg answer (a # as) first =
    (let failed = (\<lambda>e. Some (case first of None \<Rightarrow> e | Some e' \<Rightarrow> e')) in
     case checkDialAddr eg a of
       Some e \<Rightarrow> dial eg answer as (failed e)
     | None \<Rightarrow> (case a of
         None \<Rightarrow> dial eg answer as (failed ErrTransport)
       | Some ip \<Rightarrow> (case answer ip of
           Unreachable \<Rightarrow> (case dial eg answer as (failed ErrTransport) of (tried, r) \<Rightarrow> (ip # tried, r))
         | r \<Rightarrow> ([ip], Inr r))))"

text \<open>
  The client: one request after the other. \<open>via\<close> counts the requests made; a redirect is followed when \<^verbatim>\<open>CheckRedirect\<close> allows it.
\<close>

function do_requests :: "egress \<Rightarrow> network \<Rightarrow> nat \<Rightarrow> bytes \<Rightarrow> (fetch_error + int \<times> bytes) \<times> (nat \<times> string \<times> bytes) list" where
  "do_requests eg nw via url =
    (case nwURL nw url of
       None \<Rightarrow> (Inl ErrTransport, [])
     | Some (scheme, host) \<Rightarrow>
         if scheme \<noteq> ''http'' \<and> scheme \<noteq> ''https'' then (Inl ErrTransport, [])
         else case dial eg (nwReply nw via) (nwResolve nw via host) None of
           (tried, r) \<Rightarrow>
             let trace = map (\<lambda>ip. (via, host, ip)) tried in
             (case r of
                Inl e \<Rightarrow> (Inl e, trace)
              | Inr (Moved location) \<Rightarrow>
                  if via + 1 \<ge> 5 then (Inl ErrTooManyRedirects, trace)
                  else (case nwURL nw location of
                      None \<Rightarrow> (Inl ErrTransport, trace)
                    | Some (_, host') \<Rightarrow>
                        if \<not> allowed (nwLower nw) (egAllow eg) host' then (Inl ErrEgressDenied, trace)
                        else case do_requests eg nw (via + 1) location of (res, trace') \<Rightarrow> (res, trace @ trace'))
              | Inr (Answer status body) \<Rightarrow> (Inr (status, body), trace)
              | Inr _ \<Rightarrow> (Inl ErrTransport, trace)))"
  by pat_completeness auto
termination by (relation "measure (\<lambda>(eg, nw, via, url). 5 - via)") auto

declare do_requests.simps [simp del]

definition Fetch :: "egress \<Rightarrow> network \<Rightarrow> fetch_request \<Rightarrow> (fetch_error + fetch_response) \<times> (nat \<times> string \<times> bytes) list" where
  "Fetch eg nw req =
    (if length (feMethod req) > FetchMaxMethod \<or> length (feURL req) > FetchMaxURL \<or> length (feBody req) > FetchMaxBody then (Inl ErrBadRequest, [])
     else case nwURL nw (feURL req) of
       None \<Rightarrow> (Inl ErrBadRequest, [])
     | Some (scheme, host) \<Rightarrow>
         if scheme \<noteq> ''http'' \<and> scheme \<noteq> ''https'' then (Inl ErrBadRequest, [])
         else if \<not> allowed (nwLower nw) (egAllow eg) host then (Inl ErrEgressDenied, [])
         else if \<not> nwRequest nw (if feMethod req = [] then str ''GET'' else feMethod req) (feURL req) then (Inl ErrBadRequest, [])
         else case do_requests eg nw 0 (feURL req) of
           (Inl e, trace) \<Rightarrow> (Inl e, trace)
         | (Inr (status, body), trace) \<Rightarrow>
             (if length body > FetchMaxBody then Inl ErrResponseTooLarge else Inr \<lparr>feStatus = status, feRespBody = body\<rparr>, trace))"

definition NewAllowlistFetcher :: "string list \<Rightarrow> egress" where
  "NewAllowlistFetcher allow = \<lparr>egAllow = allow, egAllowPrivateIPs = False\<rparr>"

text \<open>The error of the checked constructor lists the entries that are not valid.\<close>

definition NewValidatedAllowlistFetcher :: "string list \<Rightarrow> string list + egress" where
  "NewValidatedAllowlistFetcher allow =
    (let bad = filter (\<lambda>raw. \<not> validAllowlistEntry raw) allow in
     if bad \<noteq> [] then Inl bad else Inr (NewAllowlistFetcher allow))"

section \<open>Matching by labels\<close>

lemma labels_nonempty [simp]: "labels s \<noteq> []"
  by (cases s) (auto split: list.splits)

lemma labels_append: "labels (a @ CHR ''.'' # b) = labels a @ labels b"
proof (induction a)
  case (Cons c a)
  then show ?case by (cases "labels a") (auto split: list.splits)
qed simp

fun dotted :: "string list \<Rightarrow> string" where
  "dotted [] = ''''"
| "dotted [w] = w"
| "dotted (w # ws) = w @ CHR ''.'' # dotted ws"

lemma dotted_labels: "dotted (labels s) = s"
proof (induction s)
  case (Cons c s)
  obtain w ws where l: "labels s = w # ws" by (cases "labels s") auto
  with Cons show ?case by (cases ws) (auto simp: l)
qed simp

lemma dotted_append: "xs \<noteq> [] \<Longrightarrow> ys \<noteq> [] \<Longrightarrow> dotted (xs @ ys) = dotted xs @ CHR ''.'' # dotted ys"
  by (induction xs rule: dotted.induct) (auto simp: neq_Nil_conv)

lemma has_suffix_iff: "has_suffix suf s \<longleftrightarrow> (\<exists>pre. s = pre @ suf)"
  by (auto simp: has_suffix_def) (metis append_take_drop_id)

lemma suffix_labels: "has_suffix (''.'' @ body) host \<longleftrightarrow> (\<exists>pre. pre \<noteq> [] \<and> labels host = pre @ labels body)"
proof
  assume "has_suffix (''.'' @ body) host"
  then obtain pre where "host = pre @ CHR ''.'' # body" by (auto simp: has_suffix_iff)
  then have "labels host = labels pre @ labels body" by (simp add: labels_append)
  then show "\<exists>pre. pre \<noteq> [] \<and> labels host = pre @ labels body" using labels_nonempty by blast
next
  assume "\<exists>pre. pre \<noteq> [] \<and> labels host = pre @ labels body"
  then obtain pre where "pre \<noteq> []" "labels host = pre @ labels body" by blast
  then have "host = dotted pre @ ''.'' @ body"
    using dotted_append [of pre "labels body"] dotted_labels [of host] dotted_labels [of body] by simp
  then show "has_suffix (''.'' @ body) host" by (auto simp: has_suffix_iff)
qed

text \<open>
  What the allowlist means: the labels of the host are those of a valid entry or, for a wildcard, end with them.
\<close>

definition listed :: "(string \<Rightarrow> string) \<Rightarrow> string list \<Rightarrow> string \<Rightarrow> bool" where
  "listed lower allow host \<longleftrightarrow> (\<exists>raw\<in>set allow. let entry = lower (TrimSpace raw); body = labels (trim_prefix ''.'' (trim_prefix ''*.'' entry)) in
     validAllowlistEntry entry \<and> (labels (lower (trim_dot host)) = body \<or>
       (hd entry = CHR ''.'' \<or> take 2 entry = ''*.'') \<and> (\<exists>pre. pre \<noteq> [] \<and> labels (lower (trim_dot host)) = pre @ body)))"

lemma labels_inj: "labels a = labels b \<longleftrightarrow> a = b"
  using dotted_labels by metis

lemma allowed_listed: "allowed lower allow host \<longleftrightarrow> listed lower allow host"
proof -
  have pre: "has_prefix entry ''.'' \<longleftrightarrow> hd entry = CHR ''.''" if "validAllowlistEntry entry" for entry
    using that by (cases entry) (auto simp: has_prefix_def validAllowlistEntry_def trim_prefix_def)
  have star: "has_prefix entry ''*.'' \<longleftrightarrow> take 2 entry = ''*.''" for entry by (simp add: has_prefix_def numeral_2_eq_2)
  show ?thesis
    unfolding allowed_def listed_def Let_def list_ex_iff suffix_labels labels_inj star
    by (rule bex_cong [OF refl]) (use pre in auto)
qed

section \<open>The special-purpose addresses\<close>

text \<open>
  The addresses that an app must not reach, by their first and last one.
\<close>

definition quad :: "nat \<Rightarrow> nat \<Rightarrow> nat \<Rightarrow> nat \<Rightarrow> nat" where
  "quad a b c d = ((a * 256 + b) * 256 + c) * 256 + d"

definition special4 :: "(nat \<times> nat) list" where
  "special4 =
    [(quad 0 0 0 0, quad 0 255 255 255), (quad 10 0 0 0, quad 10 255 255 255), (quad 100 64 0 0, quad 100 127 255 255),
     (quad 127 0 0 0, quad 127 255 255 255), (quad 169 254 0 0, quad 169 254 255 255), (quad 172 16 0 0, quad 172 31 255 255),
     (quad 192 0 0 0, quad 192 0 0 255), (quad 192 0 2 0, quad 192 0 2 255), (quad 192 88 99 0, quad 192 88 99 255),
     (quad 192 168 0 0, quad 192 168 255 255), (quad 198 18 0 0, quad 198 19 255 255), (quad 198 51 100 0, quad 198 51 100 255),
     (quad 203 0 113 0, quad 203 0 113 255), (quad 224 0 0 0, quad 255 255 255 255)]"

text \<open>An IPv6 address by its first three groups and the value of all the others.\<close>

definition groups :: "nat \<Rightarrow> nat \<Rightarrow> nat \<Rightarrow> nat \<Rightarrow> nat" where
  "groups a b c rest = ((a * 65536 + b) * 65536 + c) * 2 ^ 80 + rest"

definition special6 :: "(nat \<times> nat) list" where
  "special6 =
    [(0, 1), (groups 0x64 0xFF9B 0 0, groups 0x64 0xFF9B 0 (2 ^ 32 - 1)), (groups 0x64 0xFF9B 1 0, groups 0x64 0xFF9B 1 (2 ^ 80 - 1)),
     (groups 0x100 0 0 0, groups 0x100 0 0 (2 ^ 64 - 1)), (groups 0x2001 0 0 0, groups 0x2001 0 0xFFFF (2 ^ 80 - 1)),
     (groups 0x2001 2 0 0, groups 0x2001 2 0 (2 ^ 80 - 1)), (groups 0x2001 0xDB8 0 0, groups 0x2001 0xDB8 0xFFFF (2 ^ 80 - 1)),
     (groups 0x2002 0 0 0, groups 0x2002 0xFFFF 0xFFFF (2 ^ 80 - 1)), (groups 0xFC00 0 0 0, groups 0xFDFF 0xFFFF 0xFFFF (2 ^ 80 - 1)),
     (groups 0xFE80 0 0 0, groups 0xFEBF 0xFFFF 0xFFFF (2 ^ 80 - 1)), (groups 0xFF00 0 0 0, groups 0xFFFF 0xFFFF 0xFFFF (2 ^ 80 - 1))]"

definition in_ranges :: "(nat \<times> nat) list \<Rightarrow> nat \<Rightarrow> bool" where
  "in_ranges rs n \<longleftrightarrow> list_ex (\<lambda>(lo, hi). lo \<le> n \<and> n \<le> hi) rs"

definition public_ip :: "bytes \<Rightarrow> bool" where
  "public_ip ip \<longleftrightarrow>
    (if length ip = 4 then \<not> in_ranges special4 (be_nat ip)
     else if length ip = 16 then
       (if be_nat ip div 2 ^ 32 = 0xFFFF then \<not> in_ranges special4 (be_nat ip mod 2 ^ 32) else \<not> in_ranges special6 (be_nat ip))
     else False)"

lemma div_range: "0 < m \<Longrightarrow> n div m = q \<longleftrightarrow> q * m \<le> n \<and> n < (q + 1) * m" for n m q :: nat
  by (metis Suc_eq_plus1 div_less_iff_less_mult le_antisym less_Suc_eq_le less_eq_div_iff_mult_less_eq order_refl)

lemma drop_bit_range:
  assumes "n < 2 ^ LENGTH('a)"
  shows "drop_bit k (of_nat n :: 'a::len word) = c \<longleftrightarrow> unat c * 2 ^ k \<le> n \<and> n < (unat c + 1) * 2 ^ k"
proof -
  have "unat (of_nat n :: 'a word) = n" using assms by (simp add: unat_of_nat)
  then have "drop_bit k (of_nat n :: 'a word) = c \<longleftrightarrow> n div 2 ^ k = unat c"
    by (simp only: word_unat_eq_iff unat_drop_bit_eq) (simp add: drop_bit_eq_div)
  also have "\<dots> \<longleftrightarrow> unat c * 2 ^ k \<le> n \<and> n < (unat c + 1) * 2 ^ k" by (rule div_range) simp
  finally show ?thesis .
qed

lemma of_nat_eq_range: "n < 2 ^ LENGTH('a) \<Longrightarrow> (of_nat n :: 'a::len word) = c \<longleftrightarrow> n = unat c"
  by (auto simp: word_unat_eq_iff unat_of_nat)

definition refused :: "ip_addr \<Rightarrow> bool" where
  "refused addr \<longleftrightarrow> \<not> IsGlobalUnicast addr \<or> IsPrivate addr \<or> IsLoopback addr \<or> IsLinkLocalUnicast addr \<or> IsMulticast addr \<or> IsUnspecified addr \<or>
     list_ex (\<lambda>prefix. Contains prefix addr) nonPublicPrefixes"

lemma refused4:
  assumes "n < 2 ^ 32"
  shows "refused (IPv4 (of_nat n)) \<longleftrightarrow> in_ranges special4 n"
proof -
  have r: "drop_bit k (of_nat n :: u32) = c \<longleftrightarrow> unat c * 2 ^ k \<le> n \<and> n < (unat c + 1) * 2 ^ k" "(of_nat n :: u32) = c \<longleftrightarrow> n = unat c" for k c
    using drop_bit_range [of n k c] of_nat_eq_range [of n c] assms by simp_all
  have d: "unat (drop_bit k (of_nat m :: u32)) = m div 2 ^ k" if "m < 2 ^ 32" for k m
    using that by (simp only: unat_drop_bit_eq) (simp add: drop_bit_eq_div unat_of_nat)
  show ?thesis
    unfolding refused_def IsGlobalUnicast_def nonPublicPrefixes_def ip4_def ip6_def in_ranges_def special4_def quad_def
    by (simp add: r d, rule iffI) (elim disjE; use assms in \<open>simp; linarith?\<close>)+
qed

lemma refused6:
  assumes "n < 2 ^ 128"
  shows "refused (IPv6 (of_nat n)) \<longleftrightarrow> in_ranges special6 n"
proof -
  have r: "drop_bit k (of_nat n :: 128 word) = c \<longleftrightarrow> unat c * 2 ^ k \<le> n \<and> n < (unat c + 1) * 2 ^ k" "(of_nat n :: 128 word) = c \<longleftrightarrow> n = unat c" for k c
    using drop_bit_range [of n k c] of_nat_eq_range [of n c] assms by simp_all
  have d: "unat (drop_bit k (of_nat m :: 128 word)) = m div 2 ^ k" if "m < 2 ^ 128" for k m
    using that by (simp only: unat_drop_bit_eq) (simp add: drop_bit_eq_div unat_of_nat)
  show ?thesis
    unfolding refused_def IsGlobalUnicast_def nonPublicPrefixes_def ip4_def ip6_def in_ranges_def special6_def groups_def
    by (simp add: r d, rule iffI) (elim disjE; use assms in \<open>simp; linarith?\<close>)+
qed

lemma be_nat_bound: "be_nat b < 256 ^ length b"
proof -
  have "foldl (\<lambda>n x. n * 256 + unat x) k b < (k + 1) * 256 ^ length b" for k
  proof (induction b arbitrary: k)
    case (Cons x b)
    have "unat x < 256" using unsigned_less [of x, where 'a=nat] by simp
    then have "(k * 256 + unat x + 1) * 256 ^ length b \<le> (k + 1) * 256 * 256 ^ length b"
      by (intro mult_right_mono) auto
    with Cons.IH [of "k * 256 + unat x"]
    have "foldl (\<lambda>n x. n * 256 + unat x) (k * 256 + unat x) b < (k + 1) * 256 * 256 ^ length b" by (rule less_le_trans)
    then show ?case by (simp only: foldl.simps length_Cons power_Suc mult.assoc)
  qed simp
  from this [of 0] show ?thesis by (simp add: be_nat_def)
qed

lemma Unmap_of_nat:
  assumes "n < 2 ^ 128"
  shows "Unmap (IPv6 (of_nat n)) = (if n div 2 ^ 32 = 0xFFFF then IPv4 (of_nat (n mod 2 ^ 32)) else IPv6 (of_nat n))"
proof -
  have "drop_bit 32 (of_nat n :: 128 word) = 0xFFFF \<longleftrightarrow> n div 2 ^ 32 = 0xFFFF"
    using drop_bit_range [of n 32 "0xFFFF :: 128 word"] div_range [of "2 ^ 32" n "0xFFFF"] assms by simp
  moreover have "ucast (of_nat n :: 128 word) = (of_nat (n mod 2 ^ 32) :: u32)"
    using assms by (simp add: word_unat_eq_iff unat_of_nat unsigned_ucast_eq take_bit_eq_mod)
  ultimately show ?thesis by (simp add: Unmap_def)
qed

lemma isNonPublicIP_exact: "isNonPublicIP ip \<longleftrightarrow> \<not> public_ip ip"
proof -
  have e: "isNonPublicIP ip \<longleftrightarrow> (case AddrFromSlice ip of None \<Rightarrow> True | Some addr \<Rightarrow> refused (Unmap addr))"
    by (auto simp: isNonPublicIP_def refused_def Let_def split: option.split)
  show ?thesis
  proof (cases "length ip = 4")
    case True
    have b: "be_nat ip < 2 ^ 32" using be_nat_bound [of ip] True by simp
    show ?thesis using True refused4 [OF b] by (simp add: e AddrFromSlice_def public_ip_def Unmap_def)
  next
    case F: False
    show ?thesis
    proof (cases "length ip = 16")
      case True
      have b: "be_nat ip < 2 ^ 128" using be_nat_bound [of ip] True by simp
      have m: "be_nat ip mod 2 ^ 32 < 2 ^ 32" by simp
      show ?thesis using True F refused6 [OF b] refused4 [OF m] Unmap_of_nat [OF b] by (simp add: e AddrFromSlice_def public_ip_def)
    next
      case False
      with F show ?thesis by (simp add: e AddrFromSlice_def public_ip_def)
    qed
  qed
qed

section \<open>Where requests go\<close>

lemma dial_public:
  assumes "\<not> egAllowPrivateIPs eg" "ip \<in> set (fst (dial eg answer as first))"
  shows "public_ip ip"
  using assms
proof (induction eg answer as first rule: dial.induct)
  case (2 eg answer a as first)
  then show ?case
    by (auto simp: checkDialAddr_def isNonPublicIP_exact Let_def split: if_splits option.splits reply.splits prod.splits)
qed simp

lemma do_requests_confined:
  assumes "\<not> egAllowPrivateIPs eg" "nwURL nw url = Some (scheme, h)" "listed (nwLower nw) (egAllow eg) h" "via < 5"
    and "(i, host, ip) \<in> set (snd (do_requests eg nw via url))"
  shows "i < 5 \<and> listed (nwLower nw) (egAllow eg) host \<and> public_ip ip"
  using assms
proof (induction eg nw via url arbitrary: scheme h rule: do_requests.induct)
  case (1 eg nw via url)
  let ?d = "dial eg (nwReply nw via) (nwResolve nw via h) None"
  consider (here) "i = via" "host = h" "ip \<in> set (fst ?d)"
    | (later) location s' h' where "snd ?d = Inr (Moved location)" "via + 1 < 5" "nwURL nw location = Some (s', h')" "allowed (nwLower nw) (egAllow eg) h'"
        "scheme = ''http'' \<or> scheme = ''https''" "(i, host, ip) \<in> set (snd (do_requests eg nw (via + 1) location))"
    using "1.prems"(2, 5)
    by (subst (asm) do_requests.simps) (auto simp: Let_def split: if_splits prod.splits sum.splits reply.splits option.splits)
  then show ?case
  proof cases
    case here
    with "1.prems" dial_public show ?thesis by blast
  next
    case later
    show ?thesis
      using "1.IH" [OF "1.prems"(2) refl _ prod.collapse refl later(1) refl _ later(3) refl] later "1.prems"(1) allowed_listed by simp
  qed
qed

definition demo_egress :: egress where
  "demo_egress = \<lparr>egAllow = [''example.com'', ''*.cdn.example.com''], egAllowPrivateIPs = False\<rparr>"

text \<open>
  A name that resolves to an internal address and to a public one, and a server that redirects to a second host.
\<close>

definition demo_network :: network where
  "demo_network =
    \<lparr>nwLower = (\<lambda>s. s), nwURL = (\<lambda>u. if u = str ''http://example.com/'' then Some (''http'', ''example.com'')
        else if u = str ''http://a.cdn.example.com/'' then Some (''http'', ''a.cdn.example.com'') else None),
     nwRequest = (\<lambda>_ _. True),
     nwResolve = (\<lambda>n _. if n = 0 then [Some [169, 254, 169, 254], Some [93, 184, 216, 34]] else [Some [1, 1, 1, 1]]),
     nwReply = (\<lambda>n _. if n = 0 then Moved (str ''http://a.cdn.example.com/'') else Answer 200 (str ''ok''))\<rparr>"

definition demo_get :: fetch_request where
  "demo_get = \<lparr>feMethod = str ''GET'', feURL = str ''http://example.com/'', feBody = []\<rparr>"

text \<open>
  C5: An app reaches only what its egress policy allows. When private addresses are not opened for development, every connection that a
  fetch opens or tries, for the requested URL and for every redirect that is followed, is for a host that matches an entry of the
  allowlist label by label, goes to an address outside the special-purpose ranges of IPv4 and IPv6 (also when the address is an IPv4
  address mapped into IPv6, and whatever the name resolves to at that moment), and belongs to one of at most five requests.
\<close>

theorem egress_confined:
  assumes "\<not> egAllowPrivateIPs eg"
    and "(via, host, ip) \<in> set (snd (Fetch eg nw req))"
  shows "listed (nwLower nw) (egAllow eg) host \<and> public_ip ip \<and> via < 5"
proof -
  obtain scheme h where "nwURL nw (feURL req) = Some (scheme, h)" "allowed (nwLower nw) (egAllow eg) h"
    "(via, host, ip) \<in> set (snd (do_requests eg nw 0 (feURL req)))"
    using assms(2) by (auto simp: Fetch_def split: if_splits option.splits prod.splits sum.splits)
  then show ?thesis using do_requests_confined assms(1) allowed_listed by fastforce
qed

lemma demo_addresses:
  "isNonPublicIP [169, 254, 169, 254]" "\<not> isNonPublicIP [93, 184, 216, 34]" "\<not> isNonPublicIP [1, 1, 1, 1]"
  by (simp_all add: isNonPublicIP_exact public_ip_def in_ranges_def special4_def quad_def be_nat_def)

lemma demo_urls:
  "nwURL demo_network (str ''http://example.com/'') = Some (''http'', ''example.com'')"
  "nwURL demo_network (str ''http://a.cdn.example.com/'') = Some (''http'', ''a.cdn.example.com'')"
  by (code_simp, code_simp)

lemma demo_allowed:
  "allowed (nwLower demo_network) (egAllow demo_egress) ''example.com''" "allowed (nwLower demo_network) (egAllow demo_egress) ''a.cdn.example.com''"
  by (code_simp, code_simp)

lemma demo_dial:
  "dial demo_egress (nwReply demo_network 0) (nwResolve demo_network 0 h) None = ([[93, 184, 216, 34]], Inr (Moved (str ''http://a.cdn.example.com/'')))"
  "dial demo_egress (nwReply demo_network (Suc 0)) (nwResolve demo_network (Suc 0) h) None = ([[1, 1, 1, 1]], Inr (Answer 200 (str ''ok'')))"
  by (simp_all add: checkDialAddr_def demo_addresses demo_network_def demo_egress_def Let_def)

lemma demo_fetch:
  "Fetch demo_egress demo_network demo_get =
    (Inr \<lparr>feStatus = 200, feRespBody = str ''ok''\<rparr>, [(0, ''example.com'', [93, 184, 216, 34]), (1, ''a.cdn.example.com'', [1, 1, 1, 1])])"
proof -
  have "do_requests demo_egress demo_network 1 (str ''http://a.cdn.example.com/'') = (Inr (200, str ''ok''), [(1, ''a.cdn.example.com'', [1, 1, 1, 1])])"
    by (subst do_requests.simps) (simp add: demo_urls demo_dial)
  then have "do_requests demo_egress demo_network 0 (str ''http://example.com/'') =
      (Inr (200, str ''ok''), [(0, ''example.com'', [93, 184, 216, 34]), (1, ''a.cdn.example.com'', [1, 1, 1, 1])])"
    by (subst do_requests.simps) (simp add: demo_urls demo_dial demo_allowed)
  then show ?thesis
    by (simp add: Fetch_def demo_get_def demo_urls demo_allowed) (simp add: demo_network_def str_def FetchMaxMethod_def FetchMaxURL_def FetchMaxBody_def)
qed

theorem egress_confined_witness:
  "\<not> egAllowPrivateIPs demo_egress \<and> (1, ''a.cdn.example.com'', [1, 1, 1, 1]) \<in> set (snd (Fetch demo_egress demo_network demo_get)) \<and>
   listed (nwLower demo_network) (egAllow demo_egress) ''a.cdn.example.com'' \<and> public_ip [1, 1, 1, 1] \<and> (1::nat) < 5"
  using egress_confined [of demo_egress 1 "''a.cdn.example.com''" "[1, 1, 1, 1]" demo_network demo_get]
  by (simp add: demo_fetch) (simp add: demo_egress_def)

end
