(* ===== verification/Host_Bus.thy ===== *)
theory Host_Bus
  imports Host_Calls
begin

text \<open>
  The in-memory bus of \<^verbatim>\<open>internal/runner/bus.go\<close> that the sessions of one app share. Each method is given by its critical
  sections, because another session can run between two of them; the steps of the bus interleave the sections of all sessions.
\<close>

section \<open>Subscriptions\<close>

definition busInboxSize :: nat where [const_defs]: "busInboxSize = 64"
definition busMaxTopicsPerSession :: nat where [const_defs]: "busMaxTopicsPerSession = 256"

record subscription =
  suEvents :: "event list"
  suTopics :: "bytes list"
  suClosed :: bool

text \<open>The registry has the subscriptions of a topic; a topic without subscriptions has no entry. A subscription is named by a number.\<close>

record mem_bus =
  mbSubs :: "bytes \<rightharpoonup> nat set"
  mbSessions :: "nat \<rightharpoonup> subscription"

definition NewMemBus :: mem_bus where
  "NewMemBus = \<lparr>mbSubs = Map.empty, mbSessions = Map.empty\<rparr>"

definition busOpen :: "nat \<Rightarrow> mem_bus \<Rightarrow> mem_bus" where
  "busOpen s b = b\<lparr>mbSessions := (mbSessions b)(s \<mapsto> \<lparr>suEvents = [], suTopics = [], suClosed = False\<rparr>)\<rparr>"

text \<open>
  \<^verbatim>\<open>Subscribe\<close> up to the registration: the error, whether the topic is to be registered, and the subscription.
\<close>

definition subscribe_section :: "bytes \<Rightarrow> subscription \<Rightarrow> bool \<times> bool \<times> subscription" where
  "subscribe_section topic s =
    (if suClosed s \<or> topic \<in> set (suTopics s) then (False, False, s)
     else if length (suTopics s) \<ge> busMaxTopicsPerSession then (True, False, s)
     else (False, True, s\<lparr>suTopics := suTopics s @ [topic]\<rparr>))"

definition register :: "bytes \<Rightarrow> nat \<Rightarrow> mem_bus \<Rightarrow> mem_bus" where
  "register topic s b =
    b\<lparr>mbSubs := (mbSubs b)(topic \<mapsto> insert s (case mbSubs b topic of None \<Rightarrow> {} | Some subs \<Rightarrow> subs))\<rparr>"

definition unregister :: "bytes \<Rightarrow> nat \<Rightarrow> mem_bus \<Rightarrow> mem_bus" where
  "unregister topic s b =
    (case mbSubs b topic of
       None \<Rightarrow> b
     | Some subs \<Rightarrow> b\<lparr>mbSubs := (mbSubs b)(topic := (if subs - {s} = {} then None else Some (subs - {s})))\<rparr>)"

text \<open>\<^verbatim>\<open>Close\<close> up to the removals: the topics that are to be removed.\<close>

definition close_section :: "subscription \<Rightarrow> bytes list \<times> subscription" where
  "close_section s = (if suClosed s then ([], s) else (suTopics s, s\<lparr>suClosed := True\<rparr>))"

definition deliver :: "bytes \<Rightarrow> bytes \<Rightarrow> subscription \<Rightarrow> bool \<times> subscription" where
  "deliver topic data s =
    (if length (suEvents s) < busInboxSize
     then (True, s\<lparr>suEvents := suEvents s @ [zero_event\<lparr>evKind := KindMessage, evTopic := topic, evData := data\<rparr>]\<rparr>)
     else (False, s))"

text \<open>\<^verbatim>\<open>Publish\<close> up to the deliveries.\<close>

definition targets :: "bytes \<Rightarrow> mem_bus \<Rightarrow> nat set" where
  "targets topic b = (case mbSubs b topic of None \<Rightarrow> {} | Some subs \<Rightarrow> subs)"

section \<open>Whole methods\<close>

definition put_session :: "nat \<Rightarrow> subscription \<Rightarrow> mem_bus \<Rightarrow> mem_bus" where
  "put_session s v b = b\<lparr>mbSessions := (mbSessions b)(s \<mapsto> v)\<rparr>"

definition busSubscribe :: "bytes \<Rightarrow> nat \<Rightarrow> mem_bus \<Rightarrow> bool \<times> mem_bus" where
  "busSubscribe topic s b =
    (case mbSessions b s of
       None \<Rightarrow> (False, b)
     | Some v \<Rightarrow> (case subscribe_section topic v of
         (err, new, v') \<Rightarrow> let b' = put_session s v' b in (err, if new then register topic s b' else b')))"

definition busClose :: "nat \<Rightarrow> mem_bus \<Rightarrow> mem_bus" where
  "busClose s b =
    (case mbSessions b s of
       None \<Rightarrow> b
     | Some v \<Rightarrow> (case close_section v of (topics, v') \<Rightarrow> foldl (\<lambda>b t. unregister t s b) (put_session s v' b) topics))"

fun deliver_all :: "bytes \<Rightarrow> bytes \<Rightarrow> nat list \<Rightarrow> mem_bus \<Rightarrow> nat \<times> mem_bus" where
  "deliver_all topic data [] b = (0, b)"
| "deliver_all topic data (s # ss) b =
    (case mbSessions b s of
       None \<Rightarrow> deliver_all topic data ss b
     | Some v \<Rightarrow> (case deliver topic data v of
         (ok, v') \<Rightarrow> (case deliver_all topic data ss (put_session s v' b) of (n, b') \<Rightarrow> (if ok then n + 1 else n, b'))))"

text \<open>The order of the deliveries is the one in which Go ranges over the set, so any order.\<close>

definition busPublish :: "nat list \<Rightarrow> bytes \<Rightarrow> bytes \<Rightarrow> mem_bus \<Rightarrow> nat \<times> mem_bus" where
  "busPublish order topic data b = deliver_all topic data order b"

definition publish_order :: "nat list \<Rightarrow> bytes \<Rightarrow> mem_bus \<Rightarrow> bool" where
  "publish_order order topic b \<longleftrightarrow> distinct order \<and> set order = targets topic b"

section \<open>Interleaved sections\<close>

text \<open>
  What is still to be done: registrations of running subscribes, removals of running closes and deliveries of running publishes, each of
  which has a number of its own.
\<close>

record bus_state =
  bsBus :: mem_bus
  bsRegister :: "(nat \<times> bytes) set"
  bsUnregister :: "(nat \<times> bytes) set"
  bsDeliver :: "(nat \<times> nat \<times> bytes \<times> bytes) set"

inductive bus_step :: "bus_state \<Rightarrow> bus_state \<Rightarrow> bool" where
  step_open: "mbSessions (bsBus b) s = None \<Longrightarrow> bus_step b (b\<lparr>bsBus := busOpen s (bsBus b)\<rparr>)"
| step_subscribe: "mbSessions (bsBus b) s = Some v \<Longrightarrow> subscribe_section topic v = (err, new, v') \<Longrightarrow>
    bus_step b (b\<lparr>bsBus := put_session s v' (bsBus b), bsRegister := (if new then insert (s, topic) (bsRegister b) else bsRegister b)\<rparr>)"
| step_register: "(s, topic) \<in> bsRegister b \<Longrightarrow> bus_step b (b\<lparr>bsBus := register topic s (bsBus b), bsRegister := bsRegister b - {(s, topic)}\<rparr>)"
| step_close: "mbSessions (bsBus b) s = Some v \<Longrightarrow> close_section v = (topics, v') \<Longrightarrow>
    bus_step b (b\<lparr>bsBus := put_session s v' (bsBus b), bsUnregister := bsUnregister b \<union> Pair s ` set topics\<rparr>)"
| step_unregister: "(s, topic) \<in> bsUnregister b \<Longrightarrow> bus_step b (b\<lparr>bsBus := unregister topic s (bsBus b), bsUnregister := bsUnregister b - {(s, topic)}\<rparr>)"
| step_publish: "n \<notin> fst ` bsDeliver b \<Longrightarrow> bus_step b (b\<lparr>bsDeliver := bsDeliver b \<union> (\<lambda>s. (n, s, topic, data)) ` targets topic (bsBus b)\<rparr>)"
| step_deliver: "(n, s, topic, data) \<in> bsDeliver b \<Longrightarrow> mbSessions (bsBus b) s = Some v \<Longrightarrow> deliver topic data v = (ok, v') \<Longrightarrow>
    bus_step b (b\<lparr>bsBus := put_session s v' (bsBus b), bsDeliver := bsDeliver b - {(n, s, topic, data)}\<rparr>)"
| step_receive: "mbSessions (bsBus b) s = Some v \<Longrightarrow> suEvents v \<noteq> [] \<Longrightarrow>
    bus_step b (b\<lparr>bsBus := put_session s (v\<lparr>suEvents := tl (suEvents v)\<rparr>) (bsBus b)\<rparr>)"

definition bus_start :: bus_state where
  "bus_start = \<lparr>bsBus = NewMemBus, bsRegister = {}, bsUnregister = {}, bsDeliver = {}\<rparr>"

definition bus_reachable :: "bus_state \<Rightarrow> bool" where
  "bus_reachable b \<longleftrightarrow> bus_step\<^sup>*\<^sup>* bus_start b"

section \<open>Isolation and bounds\<close>

text \<open>A session keeps to its bounds and has only messages of its topics.\<close>

definition session_ok :: "subscription \<Rightarrow> bool" where
  "session_ok v \<longleftrightarrow> length (suEvents v) \<le> busInboxSize \<and> length (suTopics v) \<le> busMaxTopicsPerSession \<and> distinct (suTopics v) \<and>
    (\<forall>e \<in> set (suEvents v). evKind e = KindMessage \<and> evTopic e \<in> set (suTopics v))"

text \<open>A session listens to a topic.\<close>

definition listens :: "mem_bus \<Rightarrow> nat \<Rightarrow> bytes \<Rightarrow> bool" where
  "listens b s topic \<longleftrightarrow> (\<exists>v. mbSessions b s = Some v \<and> topic \<in> set (suTopics v))"

definition bus_ok :: "bus_state \<Rightarrow> bool" where
  "bus_ok b \<longleftrightarrow>
    (\<forall>s v. mbSessions (bsBus b) s = Some v \<longrightarrow> session_ok v) \<and>
    (\<forall>topic. mbSubs (bsBus b) topic \<noteq> Some {}) \<and>
    (\<forall>topic. \<forall>s \<in> targets topic (bsBus b). listens (bsBus b) s topic) \<and>
    (\<forall>(s, topic) \<in> bsRegister b. listens (bsBus b) s topic) \<and>
    (\<forall>(n, s, topic, data) \<in> bsDeliver b. listens (bsBus b) s topic) \<and>
    (\<forall>(s, topic) \<in> bsUnregister b. \<exists>v. mbSessions (bsBus b) s = Some v \<and> suClosed v) \<and>
    (\<forall>s v topic. mbSessions (bsBus b) s = Some v \<longrightarrow> \<not> suClosed v \<longrightarrow> topic \<in> set (suTopics v) \<longrightarrow>
      s \<in> targets topic (bsBus b) \<or> (s, topic) \<in> bsRegister b)"

lemma bus_ok_start: "bus_ok bus_start"
  by (simp add: bus_ok_def bus_start_def NewMemBus_def targets_def)

text \<open>Replacing a session by one with at least its topics.\<close>

definition grows :: "subscription \<Rightarrow> subscription \<Rightarrow> bool" where
  "grows v v' \<longleftrightarrow> set (suTopics v) \<subseteq> set (suTopics v') \<and> (suClosed v \<longrightarrow> suClosed v')"

lemma put_session_simps [simp]:
  "mbSubs (put_session s v b) = mbSubs b" "mbSessions (put_session s v b) = (mbSessions b)(s \<mapsto> v)" "targets topic (put_session s v b) = targets topic b"
  by (simp_all add: put_session_def targets_def)

lemma listens_put: "mbSessions b s = Some v \<Longrightarrow> grows v v' \<Longrightarrow> listens b r topic \<Longrightarrow> listens (put_session s v' b) r topic"
  by (auto simp: listens_def grows_def)

lemma bus_okD:
  assumes "bus_ok b"
  shows "mbSessions (bsBus b) s = Some v \<Longrightarrow> session_ok v"
    and "mbSubs (bsBus b) topic \<noteq> Some {}"
    and "s \<in> targets topic (bsBus b) \<Longrightarrow> listens (bsBus b) s topic"
    and "(s, topic) \<in> bsRegister b \<Longrightarrow> listens (bsBus b) s topic"
    and "(n, s, topic, data) \<in> bsDeliver b \<Longrightarrow> listens (bsBus b) s topic"
    and "(s, topic) \<in> bsUnregister b \<Longrightarrow> \<exists>v. mbSessions (bsBus b) s = Some v \<and> suClosed v"
    and "mbSessions (bsBus b) s = Some v \<Longrightarrow> \<not> suClosed v \<Longrightarrow> topic \<in> set (suTopics v) \<Longrightarrow> s \<in> targets topic (bsBus b) \<or> (s, topic) \<in> bsRegister b"
  using assms unfolding bus_ok_def by blast+

lemma bus_okI:
  assumes "\<And>s v. mbSessions (bsBus b) s = Some v \<Longrightarrow> session_ok v"
    and "\<And>topic. mbSubs (bsBus b) topic \<noteq> Some {}"
    and "\<And>s topic. s \<in> targets topic (bsBus b) \<Longrightarrow> listens (bsBus b) s topic"
    and "\<And>s topic. (s, topic) \<in> bsRegister b \<Longrightarrow> listens (bsBus b) s topic"
    and "\<And>n s topic data. (n, s, topic, data) \<in> bsDeliver b \<Longrightarrow> listens (bsBus b) s topic"
    and "\<And>s topic. (s, topic) \<in> bsUnregister b \<Longrightarrow> \<exists>v. mbSessions (bsBus b) s = Some v \<and> suClosed v"
    and "\<And>s v topic. mbSessions (bsBus b) s = Some v \<Longrightarrow> \<not> suClosed v \<Longrightarrow> topic \<in> set (suTopics v) \<Longrightarrow> s \<in> targets topic (bsBus b) \<or> (s, topic) \<in> bsRegister b"
  shows "bus_ok b"
  using assms unfolding bus_ok_def by blast

lemma bus_ok_put:
  assumes ok: "bus_ok b" and s: "mbSessions (bsBus b) s = Some v" "grows v v'" "session_ok v'"
    and b': "bsBus b' = put_session s v' (bsBus b)" "bsDeliver b' \<subseteq> bsDeliver b"
    and new: "bsRegister b \<subseteq> bsRegister b'" "bsRegister b' \<subseteq> bsRegister b \<union> Pair s ` set (suTopics v')"
      "\<And>topic. \<not> suClosed v' \<Longrightarrow> topic \<in> set (suTopics v') \<Longrightarrow> topic \<notin> set (suTopics v) \<Longrightarrow> (s, topic) \<in> bsRegister b'"
    and un: "bsUnregister b' \<subseteq> bsUnregister b \<union> (if suClosed v' then {s} \<times> UNIV else {})"
  shows "bus_ok b'"
proof -
  have l: "listens (bsBus b') r topic" if "listens (bsBus b) r topic" for r topic
    using listens_put [OF s(1, 2) that] b'(1) by simp
  show ?thesis
  proof (rule bus_okI)
    fix r w assume "mbSessions (bsBus b') r = Some w"
    then show "session_ok w" using s(3) bus_okD(1) [OF ok] by (auto simp: b' split: if_splits)
  next
    fix topic show "mbSubs (bsBus b') topic \<noteq> Some {}" using bus_okD(2) [OF ok] by (simp add: b')
  next
    fix r topic assume "r \<in> targets topic (bsBus b')"
    then show "listens (bsBus b') r topic" using l bus_okD(3) [OF ok] by (simp add: b')
  next
    fix r topic assume "(r, topic) \<in> bsRegister b'"
    then consider "(r, topic) \<in> bsRegister b" | "r = s" "topic \<in> set (suTopics v')" using new(2) by auto
    then show "listens (bsBus b') r topic" by cases (use l bus_okD(4) [OF ok] in \<open>auto simp: listens_def b'\<close>)
  next
    fix n r topic data assume "(n, r, topic, data) \<in> bsDeliver b'"
    then show "listens (bsBus b') r topic" using l bus_okD(5) [OF ok] b'(2) by blast
  next
    fix r topic assume "(r, topic) \<in> bsUnregister b'"
    then consider "(r, topic) \<in> bsUnregister b" | "r = s" "suClosed v'" using un by (auto split: if_splits)
    then show "\<exists>w. mbSessions (bsBus b') r = Some w \<and> suClosed w"
    proof cases
      case 1
      then obtain w where "mbSessions (bsBus b) r = Some w" "suClosed w" using bus_okD(6) [OF ok] by blast
      then show ?thesis using s(1, 2) by (cases "r = s") (auto simp: b' grows_def)
    qed (simp add: b')
  next
    fix r w topic assume a: "mbSessions (bsBus b') r = Some w" "\<not> suClosed w" "topic \<in> set (suTopics w)"
    show "r \<in> targets topic (bsBus b') \<or> (r, topic) \<in> bsRegister b'"
    proof (cases "r = s \<and> topic \<notin> set (suTopics v)")
      case True
      then show ?thesis using a new(3) by (simp add: b')
    next
      case False
      have "\<exists>u. mbSessions (bsBus b) r = Some u \<and> \<not> suClosed u \<and> topic \<in> set (suTopics u)"
        using a s False by (cases "r = s") (auto simp: b' grows_def)
      then show ?thesis using bus_okD(7) [OF ok] new(1) by (fastforce simp: b')
    qed
  qed
qed

lemma bus_step_ok:
  assumes "bus_step b b'" "bus_ok b"
  shows "bus_ok b'"
  using assms
proof cases
  case (step_open s)
  have l: "listens (bsBus b') r topic \<longleftrightarrow> listens (bsBus b) r topic" for r topic using step_open by (auto simp: listens_def busOpen_def)
  have e: "mbSubs (bsBus b') = mbSubs (bsBus b)" "targets topic (bsBus b') = targets topic (bsBus b)" "bsRegister b' = bsRegister b" "bsDeliver b' = bsDeliver b"
    "bsUnregister b' = bsUnregister b" for topic using step_open by (simp_all add: busOpen_def targets_def)
  have m: "mbSessions (bsBus b') = (mbSessions (bsBus b))(s \<mapsto> \<lparr>suEvents = [], suTopics = [], suClosed = False\<rparr>)"
    using step_open by (simp add: busOpen_def)
  show ?thesis
  proof (rule bus_okI)
    fix r v assume "mbSessions (bsBus b') r = Some v"
    then show "session_ok v" using bus_okD(1) [OF assms(2)] by (auto simp: m session_ok_def split: if_splits)
  next
    fix r topic assume "(r, topic) \<in> bsUnregister b'"
    then obtain w where "mbSessions (bsBus b) r = Some w" "suClosed w" using bus_okD(6) [OF assms(2)] e by blast
    then show "\<exists>v. mbSessions (bsBus b') r = Some v \<and> suClosed v" using step_open(2) by (auto simp: m)
  next
    fix r v topic assume "mbSessions (bsBus b') r = Some v" "\<not> suClosed v" "topic \<in> set (suTopics v)"
    then have "mbSessions (bsBus b) r = Some v" "\<not> suClosed v" "topic \<in> set (suTopics v)" by (auto simp: m split: if_splits)
    then show "r \<in> targets topic (bsBus b') \<or> (r, topic) \<in> bsRegister b'" using bus_okD(7) [OF assms(2)] by (simp add: e)
  qed (simp_all add: l e bus_okD [OF assms(2)])
next
  case (step_subscribe s v topic err new v')
  have ok: "session_ok v" using bus_okD(1) assms(2) step_subscribe(2) by blast
  have "session_ok v'" "grows v v'" "\<not> new \<Longrightarrow> v' = v" "new \<Longrightarrow> set (suTopics v') = insert topic (set (suTopics v))"
    using step_subscribe(3) ok by (auto simp: subscribe_section_def session_ok_def grows_def split: if_splits)
  then show ?thesis using step_subscribe by (intro bus_ok_put [OF assms(2) step_subscribe(2)]) (auto split: if_splits)
next
  case (step_close s v topics v')
  have ok: "session_ok v" using bus_okD(1) assms(2) step_close(2) by blast
  have "session_ok v'" "grows v v'" "set (suTopics v') = set (suTopics v)" "topics \<noteq> [] \<longrightarrow> suClosed v'"
    using step_close(3) ok by (auto simp: close_section_def session_ok_def grows_def split: if_splits)
  then show ?thesis using step_close by (intro bus_ok_put [OF assms(2) step_close(2)]) auto
next
  case (step_deliver n s topic data v ok v')
  have v: "session_ok v" "topic \<in> set (suTopics v)"
    using bus_okD(1) [OF assms(2) step_deliver(3)] bus_okD(5) [OF assms(2) step_deliver(2)] step_deliver(3) by (auto simp: listens_def)
  then have "session_ok v'" "grows v v'" "suTopics v' = suTopics v"
    using step_deliver(4) by (auto simp: deliver_def session_ok_def grows_def split: if_splits)
  then show ?thesis using step_deliver by (intro bus_ok_put [OF assms(2) step_deliver(3)]) auto
next
  case (step_receive s v)
  have "session_ok v" using bus_okD(1) assms(2) step_receive(2) by blast
  then have "session_ok (v\<lparr>suEvents := tl (suEvents v)\<rparr>)" using step_receive(3) by (cases "suEvents v") (auto simp: session_ok_def)
  then show ?thesis using step_receive by (intro bus_ok_put [OF assms(2) step_receive(2)]) (auto simp: grows_def)
next
  case (step_register s topic)
  have m: "mbSessions (bsBus b') = mbSessions (bsBus b)" "listens (bsBus b') r t \<longleftrightarrow> listens (bsBus b) r t" for r t
    using step_register by (simp_all add: register_def listens_def)
  have t: "targets t (bsBus b') = (if t = topic then insert s (targets t (bsBus b)) else targets t (bsBus b))" for t
    using step_register by (simp add: register_def targets_def)
  have reg: "bsRegister b' = bsRegister b - {(s, topic)}" and rest: "bsDeliver b' = bsDeliver b" "bsUnregister b' = bsUnregister b" using step_register by simp_all
  show ?thesis
  proof (rule bus_okI)
    fix t show "mbSubs (bsBus b') t \<noteq> Some {}" using bus_okD(2) [OF assms(2)] step_register by (simp add: register_def)
  next
    fix r t assume "r \<in> targets t (bsBus b')"
    then show "listens (bsBus b') r t" using bus_okD(3, 4) [OF assms(2)] step_register(2) by (auto simp: m t split: if_splits)
  next
    fix r v t assume "mbSessions (bsBus b') r = Some v" "\<not> suClosed v" "t \<in> set (suTopics v)"
    then have "r \<in> targets t (bsBus b) \<or> (r, t) \<in> bsRegister b" using bus_okD(7) [OF assms(2)] by (simp add: m)
    then show "r \<in> targets t (bsBus b') \<or> (r, t) \<in> bsRegister b'" unfolding reg by (auto simp: t)
  qed (use reg rest in \<open>auto simp: m dest: bus_okD(1, 4, 5, 6) [OF assms(2)]\<close>)
next
  case (step_unregister s topic)
  have m: "mbSessions (bsBus b') = mbSessions (bsBus b)" "listens (bsBus b') r t \<longleftrightarrow> listens (bsBus b) r t" for r t
    using step_unregister by (simp_all add: unregister_def listens_def split: option.split)
  have t: "targets t (bsBus b') = (if t = topic then targets t (bsBus b) - {s} else targets t (bsBus b))" for t
    using step_unregister by (auto simp: unregister_def targets_def split: option.splits)
  have rest: "bsDeliver b' = bsDeliver b" "bsRegister b' = bsRegister b" "bsUnregister b' \<subseteq> bsUnregister b" using step_unregister by auto
  obtain u where u: "mbSessions (bsBus b) s = Some u" "suClosed u" using bus_okD(6) [OF assms(2) step_unregister(2)] by blast
  show ?thesis
  proof (rule bus_okI)
    fix t show "mbSubs (bsBus b') t \<noteq> Some {}" using bus_okD(2) [OF assms(2)] step_unregister by (auto simp: unregister_def split: option.split)
  next
    fix r v t assume a: "mbSessions (bsBus b') r = Some v" "\<not> suClosed v" "t \<in> set (suTopics v)"
    then have "r \<noteq> s" using u by (auto simp: m)
    moreover have "r \<in> targets t (bsBus b) \<or> (r, t) \<in> bsRegister b" using a bus_okD(7) [OF assms(2)] by (simp add: m)
    ultimately show "r \<in> targets t (bsBus b') \<or> (r, t) \<in> bsRegister b'" by (auto simp: t rest)
  next
    fix r t assume "r \<in> targets t (bsBus b')"
    then show "listens (bsBus b') r t" using bus_okD(3) [OF assms(2)] by (auto simp: m t split: if_splits)
  qed (use rest in \<open>auto simp: m dest: bus_okD(1, 4, 5, 6) [OF assms(2)]\<close>)
next
  case (step_publish n topic data)
  show ?thesis
    by (rule bus_okI) (use step_publish(1) bus_okD [OF assms(2)] in auto)
qed

lemma bus_reachable_ok: "bus_reachable b \<Longrightarrow> bus_ok b"
  unfolding bus_reachable_def by (induction rule: rtranclp_induct) (auto intro: bus_ok_start bus_step_ok)

lemma bus_reachable_step: "bus_reachable b \<Longrightarrow> bus_step b b' \<Longrightarrow> bus_reachable b'"
  unfolding bus_reachable_def by (rule rtranclp.rtrancl_into_rtrancl)

text \<open>
  C14: The sessions of an app cannot flood or eavesdrop on each other through the bus. In every state their calls can bring the bus into,
  however the critical sections of their methods interleave, a session has at most 64 pending messages and 256 topics, every pending
  message is of a topic the session subscribed to, it is registered for no other topic, and while it is open it is registered
  for each of its topics except one that a running subscribe is about to register.
\<close>

theorem bus_isolated:
  assumes "bus_reachable b" "mbSessions (bsBus b) s = Some v"
  shows "length (suEvents v) \<le> 64 \<and> length (suTopics v) \<le> 256 \<and>
    (\<forall>e \<in> set (suEvents v). evKind e = KindMessage \<and> evTopic e \<in> set (suTopics v)) \<and>
    (\<forall>topic. s \<in> targets topic (bsBus b) \<longrightarrow> topic \<in> set (suTopics v)) \<and>
    (\<not> suClosed v \<longrightarrow> (\<forall>topic \<in> set (suTopics v). s \<in> targets topic (bsBus b) \<or> (s, topic) \<in> bsRegister b))"
  using bus_okD(1, 3, 7) [OF bus_reachable_ok [OF assms(1)], of s] assms(2)
  by (auto simp: session_ok_def listens_def const_defs)

definition demo_session :: subscription where
  "demo_session = \<lparr>suEvents = [], suTopics = [[1]], suClosed = False\<rparr>"

definition demo_bus :: bus_state where
  "demo_bus = \<lparr>bsBus = \<lparr>mbSubs = [[1] \<mapsto> {0}], mbSessions = [0 \<mapsto> demo_session\<lparr>suEvents := [zero_event\<lparr>evKind := KindMessage, evTopic := [1], evData := [7]\<rparr>]\<rparr>]\<rparr>,
    bsRegister = {}, bsUnregister = {}, bsDeliver = {}\<rparr>"

lemma demo_bus_reachable: "bus_reachable demo_bus"
proof -
  let ?b0 = "bus_start\<lparr>bsBus := busOpen 0 NewMemBus\<rparr>"
  let ?b1 = "?b0\<lparr>bsBus := put_session 0 demo_session (bsBus ?b0), bsRegister := {(0, [1])}\<rparr>"
  let ?b2 = "?b1\<lparr>bsBus := register [1] 0 (bsBus ?b1), bsRegister := {}\<rparr>"
  let ?b3 = "?b2\<lparr>bsDeliver := {(0, 0, [1], [7])}\<rparr>"
  have "bus_reachable bus_start" by (simp add: bus_reachable_def)
  moreover have "bus_step bus_start ?b0" using step_open [of bus_start 0] by (simp add: bus_start_def NewMemBus_def)
  moreover have "bus_step ?b0 ?b1"
    using step_subscribe [of ?b0 0 "\<lparr>suEvents = [], suTopics = [], suClosed = False\<rparr>" "[1]" False True demo_session]
    by (simp add: busOpen_def NewMemBus_def bus_start_def subscribe_section_def const_defs demo_session_def)
  moreover have "bus_step ?b1 ?b2" using step_register [of 0 "[1]" ?b1] by simp
  moreover have "bus_step ?b2 ?b3" using step_publish [of 0 ?b2 "[1]" "[7]"]
    by (simp add: bus_start_def targets_def register_def NewMemBus_def busOpen_def)
  moreover have "bus_step ?b3 demo_bus" using step_deliver [of 0 0 "[1]" "[7]" ?b3 demo_session True]
    by (simp add: demo_session_def deliver_def const_defs bus_start_def register_def NewMemBus_def busOpen_def put_session_def demo_bus_def)
  ultimately show ?thesis by (meson bus_reachable_step)
qed

theorem bus_isolated_witness:
  "bus_reachable demo_bus \<and> (\<exists>v. mbSessions (bsBus demo_bus) 0 = Some v \<and> suEvents v \<noteq> [] \<and> \<not> suClosed v \<and>
    (\<forall>e \<in> set (suEvents v). evTopic e \<in> set (suTopics v)) \<and> (\<forall>topic \<in> set (suTopics v). 0 \<in> targets topic (bsBus demo_bus)))"
  using bus_isolated [OF demo_bus_reachable, of 0] demo_bus_reachable by (simp add: demo_bus_def demo_session_def)

section \<open>A publish\<close>

lemma deliver_all_ok:
  assumes "distinct order" "\<forall>s \<in> set order. mbSessions b s \<noteq> None" "deliver_all topic data order b = (n, b')"
  shows "n = card {s \<in> set order. length (suEvents (the (mbSessions b s))) < busInboxSize} \<and> mbSubs b' = mbSubs b \<and>
    mbSessions b' = (\<lambda>s. if s \<in> set order then Some (snd (deliver topic data (the (mbSessions b s)))) else mbSessions b s)"
  using assms
proof (induction order arbitrary: b n b')
  case Nil
  then show ?case by simp
next
  case (Cons s order)
  obtain v where v: "mbSessions b s = Some v" using Cons.prems(2) by auto
  obtain ok v' where d: "deliver topic data v = (ok, v')" by fastforce
  obtain m b1 where r: "deliver_all topic data order (put_session s v' b) = (m, b1)" by fastforce
  have ih: "m = card {r \<in> set order. length (suEvents (the (mbSessions (put_session s v' b) r))) < busInboxSize}" "mbSubs b1 = mbSubs b"
    "mbSessions b1 = (\<lambda>r. if r \<in> set order then Some (snd (deliver topic data (the (mbSessions (put_session s v' b) r)))) else mbSessions (put_session s v' b) r)"
    using Cons.IH [OF _ _ r] Cons.prems(1, 2) by auto
  have e: "{r \<in> set order. length (suEvents (the (mbSessions (put_session s v' b) r))) < busInboxSize} = {r \<in> set order. length (suEvents (the (mbSessions b r))) < busInboxSize}"
    using Cons.prems(1) by auto
  have "{r \<in> set (s # order). length (suEvents (the (mbSessions b r))) < busInboxSize} =
      (if ok then insert s else id) {r \<in> set order. length (suEvents (the (mbSessions b r))) < busInboxSize}"
    using v d by (auto simp: deliver_def split: if_splits)
  then have c: "card {r \<in> set (s # order). length (suEvents (the (mbSessions b r))) < busInboxSize} = (if ok then m + 1 else m)"
    using ih(1) e Cons.prems(1) by simp
  have nb: "n = (if ok then m + 1 else m)" "b' = b1" using Cons.prems(3) v d r by auto
  have "mbSessions b' = (\<lambda>r. if r \<in> set (s # order) then Some (snd (deliver topic data (the (mbSessions b r)))) else mbSessions b r)"
    using ih(3) nb(2) v d Cons.prems(1) by (auto simp: fun_eq_iff)
  then show ?case using c nb ih(2) by simp
qed

text \<open>
  A publish that no other call interrupts returns the number of registered sessions with room in their inbox, appends the message to
  each of those inboxes and changes nothing else.
\<close>

lemma publish_exact:
  assumes "bus_ok b" "publish_order order topic (bsBus b)" "busPublish order topic data (bsBus b) = (n, b')"
  shows "n = card {s \<in> targets topic (bsBus b). length (suEvents (the (mbSessions (bsBus b) s))) < busInboxSize} \<and> mbSubs b' = mbSubs (bsBus b) \<and>
    mbSessions b' = (\<lambda>s. if s \<in> targets topic (bsBus b) then Some (snd (deliver topic data (the (mbSessions (bsBus b) s)))) else mbSessions (bsBus b) s)"
proof -
  have o: "distinct order" "set order = targets topic (bsBus b)" using assms(2) by (auto simp: publish_order_def)
  have "\<forall>s \<in> set order. mbSessions (bsBus b) s \<noteq> None" using o(2) bus_okD(3) [OF assms(1)] by (fastforce simp: listens_def)
  from deliver_all_ok [OF o(1) this assms(3) [unfolded busPublish_def]] show ?thesis unfolding o(2) .
qed

lemma unregister_all: "targets t (foldl (\<lambda>b t. unregister t s b) b topics) = (if t \<in> set topics then targets t b - {s} else targets t b)"
proof (induction topics arbitrary: b)
  case (Cons u us)
  have "targets t (unregister u s b) = (if t = u then targets t b - {s} else targets t b)"
    by (auto simp: unregister_def targets_def split: option.splits)
  with Cons show ?case by auto
qed simp

text \<open>After a close that no subscribe of the same session overlaps, the session is registered nowhere, so no publish reaches it.\<close>

lemma close_unregisters:
  assumes "bus_ok b" "mbSessions (bsBus b) s = Some v" "\<not> suClosed v"
  shows "s \<notin> targets topic (busClose s (bsBus b))"
proof -
  have "targets topic (busClose s (bsBus b)) = (if topic \<in> set (suTopics v) then targets topic (bsBus b) - {s} else targets topic (bsBus b))"
    using assms by (simp add: busClose_def close_section_def unregister_all)
  then show ?thesis using assms(2) by (auto simp: listens_def dest: bus_okD(3) [OF assms(1)])
qed

text \<open>A subscribe that a close of its session overlaps registers the closed session, and nothing removes it any more.\<close>

lemma late_registration:
  "\<exists>b v. bus_reachable b \<and> mbSessions (bsBus b) 0 = Some v \<and> suClosed v \<and> 0 \<in> targets [1] (bsBus b) \<and> bsRegister b = {} \<and> bsUnregister b = {}"
proof -
  let ?b0 = "bus_start\<lparr>bsBus := busOpen 0 NewMemBus\<rparr>"
  let ?v = "\<lparr>suEvents = [], suTopics = [[1]], suClosed = False\<rparr>"
  let ?b1 = "?b0\<lparr>bsBus := put_session 0 ?v (bsBus ?b0), bsRegister := {(0, [1])}\<rparr>"
  let ?b2 = "?b1\<lparr>bsBus := put_session 0 (?v\<lparr>suClosed := True\<rparr>) (bsBus ?b1), bsUnregister := {(0, [1])}\<rparr>"
  let ?b3 = "?b2\<lparr>bsBus := unregister [1] 0 (bsBus ?b2), bsUnregister := {}\<rparr>"
  let ?b4 = "?b3\<lparr>bsBus := register [1] 0 (bsBus ?b3), bsRegister := {}\<rparr>"
  have "bus_step bus_start ?b0" using step_open [of bus_start 0] by (simp add: bus_start_def NewMemBus_def)
  moreover have "bus_step ?b0 ?b1"
    using step_subscribe [of ?b0 0 "\<lparr>suEvents = [], suTopics = [], suClosed = False\<rparr>" "[1]" False True ?v]
    by (simp add: busOpen_def NewMemBus_def bus_start_def subscribe_section_def const_defs)
  moreover have "bus_step ?b1 ?b2"
    using step_close [of ?b1 0 ?v "[[1]]" "?v\<lparr>suClosed := True\<rparr>"] by (simp add: bus_start_def close_section_def)
  moreover have "bus_step ?b2 ?b3" using step_unregister [of 0 "[1]" ?b2] by simp
  moreover have "bus_step ?b3 ?b4" using step_register [of 0 "[1]" ?b3] by simp
  ultimately have "bus_reachable ?b4" unfolding bus_reachable_def by (meson rtranclp.rtrancl_refl rtranclp.rtrancl_into_rtrancl)
  then show ?thesis
    by (intro exI [of _ ?b4] exI [of _ "?v\<lparr>suClosed := True\<rparr>"])
      (simp add: register_def unregister_def targets_def busOpen_def NewMemBus_def bus_start_def put_session_def)
qed

end
