(* ===== verification/Term_Screen.thy ===== *)
theory Term_Screen
  imports Abi_Codec Go_Utf8 Go_Text
begin

text \<open>
  Painting: \<^verbatim>\<open>internal/terminal/screen.go\<close>, which sends a terminal only what changed since the last paint, and the sinks of
  \<^verbatim>\<open>internal/runner/render.go\<close>, which bring frames of a guest to it. The statements run the bytes on a terminal that
  understands cursor positions, colours, decorations and characters and stops at everything else.
\<close>

unbundle bit_operations_syntax

section \<open>What reaches the terminal\<close>

definition sanitizeRune :: "u32 \<Rightarrow> u32" where
  "sanitizeRune r =
    (if r = 0 then 32
     else if sint r < 0x20 \<or> sint r = 0x7f then 32
     else if sint r \<ge> 0x80 \<and> sint r \<le> 0x9f then 32
     else if \<not> ValidRune (sint r) then 63
     else r)"

section \<open>The screen\<close>

definition DecorBold :: byte where [const_defs]: "DecorBold = 1"
definition DecorItalic :: byte where [const_defs]: "DecorItalic = 2"
definition DecorUnderline :: byte where [const_defs]: "DecorUnderline = 4"

definition MaxCells :: int where [const_defs]: "MaxCells = 150000"

text \<open>An escape character, then the text of a control sequence.\<close>

definition ESC :: "string \<Rightarrow> bytes" where
  "ESC s = 27 # str s"

definition DefaultBg :: bytes where "DefaultBg = ESC ''[48;2;25;23;29m''"
definition DefaultFg :: bytes where "DefaultFg = ESC ''[38;2;200;200;200m''"

definition decorCodes :: "(byte \<times> byte) list" where
  "decorCodes = [(DecorBold, 49), (DecorItalic, 51), (DecorUnderline, 52)]"

definition dec8 :: "byte \<Rightarrow> bytes" where
  "dec8 v = str (digits_of (unat v))"

record screen =
  scW :: nat
  scH :: nat
  scOld :: "cell list list"
  scCur :: "cell list list"
  scFailed :: bool

definition blank :: cell where
  "blank = zero_cell\<lparr>cellCh := 32\<rparr>"

definition resize :: "int \<Rightarrow> int \<Rightarrow> screen \<Rightarrow> screen" where
  "resize w h s =
    (let w = (if w < 1 then 1 else w);
         w = (if w > int MaxFrameWidth then int MaxFrameWidth else w);
         h = (if h < 1 then 1 else h);
         h = (if h > int MaxFrameHeight then int MaxFrameHeight else h);
         w = (if w > MaxCells div h then MaxCells div h else w)
     in s\<lparr>scW := nat w, scH := nat h,
          scOld := replicate (nat h) (replicate (nat w) zero_cell),
          scCur := replicate (nat h) (replicate (nat w) blank)\<rparr>)"

definition NewScreen :: "int \<Rightarrow> int \<Rightarrow> screen" where
  "NewScreen w h = resize w h \<lparr>scW = 0, scH = 0, scOld = [], scCur = [], scFailed = False\<rparr>"

definition setCell :: "int \<Rightarrow> int \<Rightarrow> cell \<Rightarrow> screen \<Rightarrow> screen" where
  "setCell x y c s =
    (if x < 0 \<or> x \<ge> int (scW s) \<or> y < 0 \<or> y \<ge> int (scH s) then s
     else s\<lparr>scCur := (scCur s)[nat y := (scCur s ! nat y)[nat x := c]]\<rparr>)"

definition SetRow :: "int \<Rightarrow> cell list \<Rightarrow> screen \<Rightarrow> screen" where
  "SetRow y cells s =
    (if y < 0 \<or> y \<ge> int (scH s) \<or> cells = [] then s
     else let cells = (if length cells > scW s then take (scW s) cells else cells) in
       s\<lparr>scCur := (scCur s)[nat y := put_at 0 cells (scCur s ! nat y)]\<rparr>)"

definition Healthy :: "screen \<Rightarrow> bool" where
  "Healthy s \<longleftrightarrow> \<not> scFailed s"

section \<open>Flush\<close>

definition appendColor :: "bytes \<Rightarrow> rgb \<Rightarrow> bool \<Rightarrow> bytes" where
  "appendColor b c foreground =
    (if c = \<lparr>rgbR = 0, rgbG = 0, rgbB = 0\<rparr> then b @ (if foreground then DefaultFg else DefaultBg)
     else b @ ESC (if foreground then ''[38;2;'' else ''[48;2;'') @ dec8 (rgbR c) @ [59] @ dec8 (rgbG c) @ [59] @ dec8 (rgbB c) @ [109])"

text \<open>What the loops of \<^verbatim>\<open>Flush\<close> carry; the cursor is unknown as \<^const>\<open>None\<close> where the code has column -1.\<close>

record paint =
  paBuf :: bytes
  paLast :: cell
  paStyled :: bool
  paCursor :: "(nat \<times> nat) option"

definition plain_ascii :: "u32 \<Rightarrow> bool" where
  "plain_ascii ch \<longleftrightarrow> sint ch \<ge> 32 \<and> sint ch \<le> 126"

definition same_style :: "cell \<Rightarrow> cell \<Rightarrow> bool" where
  "same_style c d \<longleftrightarrow> cellFg c = cellFg d \<and> cellBg c = cellBg d \<and> cellDecor c = cellDecor d"

text \<open>The end of the run that starts with a changed cell: cells of one style, up to the first one that is not ASCII.\<close>

function run_end :: "cell list \<Rightarrow> cell list \<Rightarrow> cell \<Rightarrow> nat \<Rightarrow> nat \<Rightarrow> nat" where
  "run_end cur old style w x =
    (if x < w \<and> cur ! x \<noteq> old ! x \<and> same_style (cur ! x) style then
       (if plain_ascii (cellCh (cur ! x)) then run_end cur old style w (x + 1) else x + 1)
     else x)"
  by pat_completeness auto
termination by (relation "measure (\<lambda>(cur, old, style, w, x). w - x)") auto

declare run_end.simps [simp del]

lemma run_end_ge: "x \<le> run_end cur old style w x"
proof (induction cur old style w x rule: run_end.induct)
  case (1 cur old style w x)
  then show ?case by (subst run_end.simps) auto
qed

lemma run_end_gt: "x < w \<Longrightarrow> cur ! x \<noteq> old ! x \<Longrightarrow> x < run_end cur old (cur ! x) w x"
  using run_end_ge [of "x + 1" cur old "cur ! x" w] by (subst run_end.simps) (auto simp: same_style_def)

definition moveTo :: "nat \<Rightarrow> nat \<Rightarrow> bytes" where
  "moveTo y x = ESC ''['' @ str (digits_of (y + 1)) @ [59] @ str (digits_of (x + 1)) @ [72]"

definition resetTo :: "byte \<Rightarrow> bytes" where
  "resetTo decor = ESC ''[0'' @ concat (map (\<lambda>(bit, code). if decor AND bit \<noteq> 0 then [59, code] else []) decorCodes) @ [109]"

definition glyph :: "u32 \<Rightarrow> bytes" where
  "glyph ch = (if plain_ascii ch then [ucast ch] else EncodeRune (sint ch))"

text \<open>The buffer with the cursor at the start of a run and the pen in its style.\<close>

definition style_run :: "paint \<Rightarrow> nat \<Rightarrow> nat \<Rightarrow> cell \<Rightarrow> bytes" where
  "style_run p y start style =
    (let b = paBuf p;
         b = (if paCursor p \<noteq> Some (start, y) then b @ moveTo y start else b);
         reset = (\<not> paStyled p \<or> cellDecor (paLast p) \<noteq> cellDecor style);
         b = (if reset then b @ resetTo (cellDecor style) else b);
         b = (if reset \<or> cellBg (paLast p) \<noteq> cellBg style then appendColor b (cellBg style) False else b)
     in if reset \<or> cellFg (paLast p) \<noteq> cellFg style then appendColor b (cellFg style) True else b)"

definition paint_run :: "cell list \<Rightarrow> nat \<Rightarrow> nat \<Rightarrow> nat \<Rightarrow> paint \<Rightarrow> paint" where
  "paint_run cur y start x p =
    (let style = cur ! start;
         chs = map cellCh (drop start (take x cur))
     in \<lparr>paBuf = style_run p y start style @ concat (map glyph chs), paLast = style, paStyled = True,
          paCursor = (if list_all plain_ascii chs then Some (x, y) else None)\<rparr>)"

function paint_row :: "cell list \<Rightarrow> cell list \<Rightarrow> nat \<Rightarrow> nat \<Rightarrow> nat \<Rightarrow> paint \<Rightarrow> paint" where
  "paint_row cur old w y x p =
    (if x < w then
       (if cur ! x = old ! x then paint_row cur old w y (x + 1) p
        else let x' = run_end cur old (cur ! x) w x in paint_row cur old w y x' (paint_run cur y x x' p))
     else p)"
  by pat_completeness auto
termination
  by (relation "measure (\<lambda>(cur, old, w, y, x, p). w - x)") (use run_end_gt in \<open>auto intro: diff_less_mono2\<close>)

declare paint_row.simps [simp del]

text \<open>
  The rows from \<open>y\<close> on, with the rows that were scanned. Two rows are first compared as memory: \<open>same\<close> is that comparison, which may
  find equal rows different in their padding.
\<close>

fun paint_rows :: "(cell list \<Rightarrow> cell list \<Rightarrow> bool) \<Rightarrow> nat \<Rightarrow> nat \<Rightarrow> cell list list \<Rightarrow> cell list list \<Rightarrow> paint \<Rightarrow> nat list \<Rightarrow> paint \<times> nat list" where
  "paint_rows same w y (cur # curs) (old # olds) p dirty =
    (if same cur old then paint_rows same w (y + 1) curs olds p dirty
     else paint_rows same w (y + 1) curs olds (paint_row cur old w y 0 p) (dirty @ [y]))"
| "paint_rows same w y _ _ p dirty = (p, dirty)"

definition start_paint :: paint where
  "start_paint = \<lparr>paBuf = [], paLast = zero_cell, paStyled = False, paCursor = None\<rparr>"

text \<open>
  \<open>wr\<close> is the writer: how many bytes it took and whether it reported an error. The first component of the result is what reached it.
\<close>

definition Flush :: "(cell list \<Rightarrow> cell list \<Rightarrow> bool) \<Rightarrow> (bytes \<Rightarrow> nat \<times> bool) \<Rightarrow> screen \<Rightarrow> bytes \<times> screen" where
  "Flush same wr s =
    (case paint_rows same (scW s) 0 (scCur s) (scOld s) start_paint [] of
       (p, dirty) \<Rightarrow>
         let b = paBuf p in
         if b = [] then ([], s)
         else case wr b of (n, err) \<Rightarrow>
           let failed = (err \<or> n \<noteq> length b) in
           (take n b,
            if failed then s\<lparr>scFailed := True\<rparr>
            else s\<lparr>scFailed := False, scOld := foldl (\<lambda>old y. old[y := scCur s ! y]) (scOld s) dirty\<rparr>))"

section \<open>The throttle and the sink of a terminal\<close>

text \<open>Times in nanoseconds; the zero time of Go is long before every other one.\<close>

record throttle =
  thMin :: int
  thLast :: "int option"

definition newThrottle :: "int \<Rightarrow> throttle" where
  "newThrottle maxFPS = (if maxFPS \<le> 0 then \<lparr>thMin = 0, thLast = None\<rparr> else \<lparr>thMin = 1000000000 div maxFPS, thLast = None\<rparr>)"

definition thAllow :: "throttle \<Rightarrow> int \<Rightarrow> bool \<times> throttle" where
  "thAllow t now =
    (if thMin t = 0 \<or> (case thLast t of None \<Rightarrow> True | Some l \<Rightarrow> now - l \<ge> thMin t) then (True, t\<lparr>thLast := Some now\<rparr>) else (False, t))"

record tty_sink =
  tsScr :: screen
  tsW :: int
  tsH :: int
  tsThr :: throttle
  tsDirty :: bool
  tsTimer :: bool

definition NewTTYSinkWriter :: "int \<Rightarrow> int \<Rightarrow> int \<Rightarrow> tty_sink" where
  "NewTTYSinkWriter w h maxFPS =
    \<lparr>tsScr = NewScreen w h, tsW = w, tsH = h, tsThr = newThrottle maxFPS, tsDirty = False, tsTimer = False\<rparr>"

definition sanitizeCell :: "cell \<Rightarrow> cell" where
  "sanitizeCell c = c\<lparr>cellCh := sanitizeRune (cellCh c)\<rparr>"

definition frame_row :: "frame \<Rightarrow> nat \<Rightarrow> cell list" where
  "frame_row f y = take (nat (frameW f)) (drop (y * nat (frameW f)) (frameCells f))"

definition set_rows :: "frame \<Rightarrow> screen \<Rightarrow> screen" where
  "set_rows f s = foldl (\<lambda>s y. SetRow (int y) (map sanitizeCell (frame_row f y)) s) s [0..<nat (frameH f)]"

definition ttyFlush :: "(cell list \<Rightarrow> cell list \<Rightarrow> bool) \<Rightarrow> (bytes \<Rightarrow> nat \<times> bool) \<Rightarrow> tty_sink \<Rightarrow> bytes \<times> tty_sink" where
  "ttyFlush same wr s = (case Flush same wr (tsScr s) of (b, scr) \<Rightarrow> (b, s\<lparr>tsScr := scr\<rparr>))"

definition ttyPresent :: "(cell list \<Rightarrow> cell list \<Rightarrow> bool) \<Rightarrow> (bytes \<Rightarrow> nat \<times> bool) \<Rightarrow> int \<Rightarrow> frame \<Rightarrow> tty_sink \<Rightarrow> bytes \<times> tty_sink" where
  "ttyPresent same wr now f s =
    (if \<not> validFrame f then ([], s)
     else
       let s = (if frameW f \<noteq> tsW s \<or> frameH f \<noteq> tsH s
                then s\<lparr>tsScr := resize (frameW f) (frameH f) (tsScr s), tsW := frameW f, tsH := frameH f\<rparr> else s);
           s = s\<lparr>tsScr := set_rows f (tsScr s)\<rparr>
       in case thAllow (tsThr s) now of
            (True, thr) \<Rightarrow> ttyFlush same wr (s\<lparr>tsThr := thr, tsTimer := False, tsDirty := False\<rparr>)
          | (False, _) \<Rightarrow> ([], s\<lparr>tsDirty := True, tsTimer := True\<rparr>))"

text \<open>The timer of a coalesced paint.\<close>

definition ttyFire :: "(cell list \<Rightarrow> cell list \<Rightarrow> bool) \<Rightarrow> (bytes \<Rightarrow> nat \<times> bool) \<Rightarrow> int \<Rightarrow> tty_sink \<Rightarrow> bytes \<times> tty_sink" where
  "ttyFire same wr now s =
    (let s = s\<lparr>tsTimer := False\<rparr> in
     if \<not> tsDirty s then ([], s)
     else ttyFlush same wr (s\<lparr>tsDirty := False, tsThr := snd (thAllow (tsThr s) now)\<rparr>))"

definition ttyClose :: "(cell list \<Rightarrow> cell list \<Rightarrow> bool) \<Rightarrow> (bytes \<Rightarrow> nat \<times> bool) \<Rightarrow> tty_sink \<Rightarrow> bytes \<times> tty_sink" where
  "ttyClose same wr s =
    (let s = s\<lparr>tsTimer := False\<rparr> in
     if tsDirty s then ttyFlush same wr (s\<lparr>tsDirty := False\<rparr>) else ([], s))"

section \<open>A terminal\<close>

text \<open>
  The pen has the decorations and the two colours; after a reset the colours are those of the terminal (\<^const>\<open>None\<close>). How wide a
  character outside ASCII is drawn depends on the terminal: it is put into the cell of the cursor and the cursor is unknown until it is
  positioned again.
\<close>

record pen =
  pnDecor :: "nat set"
  pnFg :: "(nat \<times> nat \<times> nat) option"
  pnBg :: "(nat \<times> nat \<times> nat) option"

record terminal =
  tmCursor :: "(nat \<times> nat) option"
  tmPen :: pen
  tmGrid :: "nat \<times> nat \<Rightarrow> (nat \<times> pen) option"

fun csi :: "nat list \<Rightarrow> nat \<Rightarrow> bytes \<Rightarrow> (nat list \<times> byte \<times> bytes) option" where
  "csi ps n [] = None"
| "csi ps n (b # bs) =
    (if 48 \<le> b \<and> b \<le> 57 then csi ps (n * 10 + (unat b - 48)) bs
     else if b = 59 then csi (ps @ [n]) 0 bs
     else if 64 \<le> b \<and> b \<le> 126 then Some (ps @ [n], b, bs)
     else None)"

fun sgr :: "nat list \<Rightarrow> pen \<Rightarrow> pen option" where
  "sgr [] p = Some p"
| "sgr (n # ps) p =
    (if n = 38 \<or> n = 48 then
       (case ps of m # r # g # b # ps' \<Rightarrow>
          if m = 2 then sgr ps' (if n = 38 then p\<lparr>pnFg := Some (r, g, b)\<rparr> else p\<lparr>pnBg := Some (r, g, b)\<rparr>) else None
        | _ \<Rightarrow> None)
     else if n = 0 then sgr ps \<lparr>pnDecor = {}, pnFg = None, pnBg = None\<rparr>
     else if n \<in> {1, 3, 4} then sgr ps (p\<lparr>pnDecor := insert n (pnDecor p)\<rparr>)
     else None)"

definition print_char :: "nat \<Rightarrow> terminal \<Rightarrow> terminal option" where
  "print_char r t =
    (case tmCursor t of
       None \<Rightarrow> None
     | Some (x, y) \<Rightarrow>
         Some (t\<lparr>tmGrid := (tmGrid t)((x, y) := Some (r, tmPen t)), tmCursor := (if r < 127 then Some (x + 1, y) else None)\<rparr>))"

definition control :: "nat list \<Rightarrow> byte \<Rightarrow> terminal \<Rightarrow> terminal option" where
  "control ps f t =
    (if f = 72 then (case ps of [r, c] \<Rightarrow> if r \<ge> 1 \<and> c \<ge> 1 then Some (t\<lparr>tmCursor := Some (c - 1, r - 1)\<rparr>) else None | _ \<Rightarrow> None)
     else if f = 109 then map_option (\<lambda>p. t\<lparr>tmPen := p\<rparr>) (sgr ps (tmPen t))
     else None)"

lemma csi_length: "csi ps n bs = Some (qs, f, rest) \<Longrightarrow> length rest < length bs"
  by (induction ps n bs rule: csi.induct) (fastforce split: if_splits)+

function feed :: "bytes \<Rightarrow> terminal \<Rightarrow> terminal option" where
  "feed bs t =
    (if bs = [] then Some t
     else if hd bs = 27 then
       (if length bs < 2 \<or> bs ! 1 \<noteq> 91 then None
        else case csi [] 0 (drop 2 bs) of
          None \<Rightarrow> None
        | Some (ps, f, rest) \<Rightarrow> (case control ps f t of None \<Rightarrow> None | Some t' \<Rightarrow> feed rest t'))
     else case DecodeRune bs of (r, sz) \<Rightarrow>
       if r = RuneError \<and> sz = 1 \<or> r < 32 \<or> r = 127 \<or> 128 \<le> r \<and> r < 160 then None
       else (case print_char r t of None \<Rightarrow> None | Some t' \<Rightarrow> feed (drop sz bs) t'))"
  by pat_completeness auto
termination
proof (relation "measure (length \<circ> fst)", goal_cases)
  case (2 bs)
  then show ?case by (fastforce dest: csi_length)
next
  case (3 bs)
  then show ?case using DecodeRune_size [of bs] by (cases "DecodeRune bs") auto
qed simp

declare feed.simps [simp del]

lemma feed_Nil [simp]: "feed [] t = Some t"
  by (simp add: feed.simps)

text \<open>How a cell looks: the zero colour is a default colour of the screen.\<close>

definition colour :: "rgb \<Rightarrow> nat \<times> nat \<times> nat \<Rightarrow> nat \<times> nat \<times> nat" where
  "colour c def = (if c = \<lparr>rgbR = 0, rgbG = 0, rgbB = 0\<rparr> then def else (unat (rgbR c), unat (rgbG c), unat (rgbB c)))"

definition decorations :: "byte \<Rightarrow> nat set" where
  "decorations d = (if d AND DecorBold \<noteq> 0 then {1} else {}) \<union> (if d AND DecorItalic \<noteq> 0 then {3} else {}) \<union> (if d AND DecorUnderline \<noteq> 0 then {4} else {})"

definition style_pen :: "cell \<Rightarrow> pen" where
  "style_pen c = \<lparr>pnDecor = decorations (cellDecor c), pnFg = Some (colour (cellFg c) (200, 200, 200)), pnBg = Some (colour (cellBg c) (25, 23, 29))\<rparr>"

definition look :: "cell \<Rightarrow> nat \<times> pen" where
  "look c = (unat (cellCh c), style_pen c)"

text \<open>Characters that the terminal shows and does not obey.\<close>

definition clean :: "u32 \<Rightarrow> bool" where
  "clean ch \<longleftrightarrow> ValidRune (sint ch) \<and> 32 \<le> sint ch \<and> sint ch \<noteq> 127 \<and> \<not> (128 \<le> sint ch \<and> sint ch < 160)"

lemma clean_sanitizeRune: "clean (sanitizeRune r)"
  by (auto simp: sanitizeRune_def clean_def ValidRune_def)

section \<open>Control sequences\<close>

lemma str_append [simp]: "str (a @ b) = str a @ str b"
  by (simp add: str_def)

lemma csi_digits: "csi ps n (str (digits_of m) @ bs) = csi ps (n * 10 ^ length (digits_of m) + m) bs"
proof (induction m arbitrary: n bs rule: digits_of.induct)
  case (1 m)
  have d: "csi ps k (str [char_of (48 + c)] @ r) = csi ps (k * 10 + c) r" if "c < 10" for k c r
  proof -
    have "unat (of_nat (48 + c) :: byte) = 48 + c" using that by (intro byte_nat) simp
    moreover have "(of_char (char_of (48 + c) :: char) :: nat) = 48 + c" using that by simp
    ultimately show ?thesis using that by (simp add: str_def word_le_nat_alt)
  qed
  show ?case
  proof (cases "m < 10")
    case True
    then show ?thesis using d [of m] by (subst (1 2) digits_of.simps) simp
  next
    case False
    have "csi ps n (str (digits_of m) @ bs) = csi ps n (str (digits_of (m div 10)) @ str [char_of (48 + m mod 10)] @ bs)"
      using False by (subst digits_of.simps) simp
    also have "\<dots> = csi ps ((n * 10 ^ length (digits_of (m div 10)) + m div 10) * 10 + m mod 10) bs"
      using "1.IH" [OF False] d [of "m mod 10"] by simp
    also have "(n * 10 ^ length (digits_of (m div 10)) + m div 10) * 10 + m mod 10 = n * 10 ^ length (digits_of m) + m"
      using False digits_of.simps [of m] div_mult_mod_eq [of m 10] by (simp add: algebra_simps)
    finally show ?thesis .
  qed
qed

lemma csi_number [simp]: "csi ps 0 (str (digits_of m) @ bs) = csi ps m bs"
  by (simp add: csi_digits)

lemma feed_csi:
  "csi [] 0 bs = Some (ps, f, rest) \<Longrightarrow> feed (27 # 91 # bs) t = Option.bind (control ps f t) (feed rest)"
  by (subst feed.simps) (simp split: option.split)

lemma feed_moveTo: "feed (moveTo y x @ rest) t = feed rest (t\<lparr>tmCursor := Some (x, y)\<rparr>)"
proof -
  have "moveTo y x @ rest = 27 # 91 # str (digits_of (y + 1)) @ 59 # str (digits_of (x + 1)) @ 72 # rest"
    by (simp add: moveTo_def ESC_def str_def)
  moreover have "csi [] 0 (str (digits_of (y + 1)) @ 59 # str (digits_of (x + 1)) @ 72 # rest) = Some ([y + 1, x + 1], 72, rest)"
    by simp
  ultimately show ?thesis by (simp add: feed_csi control_def)
qed

lemma feed_resetTo:
  "feed (resetTo d @ rest) t = feed rest (t\<lparr>tmPen := \<lparr>pnDecor = decorations d, pnFg = None, pnBg = None\<rparr>\<rparr>)"
proof -
  have e: "resetTo d @ rest = 27 # 91 # 48 # concat (map (\<lambda>(bit, code). if d AND bit \<noteq> 0 then [59, code] else []) decorCodes) @ 109 # rest"
    by (simp add: resetTo_def ESC_def str_def)
  show ?thesis
    unfolding e
    by (subst feed_csi [where ps = "0 # (if d AND DecorBold \<noteq> 0 then [1] else []) @ (if d AND DecorItalic \<noteq> 0 then [3] else []) @ (if d AND DecorUnderline \<noteq> 0 then [4] else [])"
          and f = 109 and rest = rest])
      (auto simp: decorCodes_def control_def decorations_def insert_commute)
qed

lemma appendColor_append: "appendColor b c fg = b @ appendColor [] c fg"
  by (simp add: appendColor_def)

lemma feed_colour:
  "feed (appendColor [] c fg @ rest) t =
    feed rest (t\<lparr>tmPen := (if fg then (tmPen t)\<lparr>pnFg := Some (colour c (200, 200, 200))\<rparr> else (tmPen t)\<lparr>pnBg := Some (colour c (25, 23, 29))\<rparr>)\<rparr>)"
proof -
  define n where "n = (if fg then 38 else 48 :: nat)"
  obtain r g b where c: "(r, g, b) = (if fg then colour c (200, 200, 200) else colour c (25, 23, 29))" by (metis prod_cases3)
  have "\<exists>bs. appendColor [] c fg @ rest = 27 # 91 # bs \<and> csi [] 0 bs = Some ([n, 2, r, g, b], 109, rest)"
    using c by (auto simp: appendColor_def DefaultFg_def DefaultBg_def ESC_def str_def [of "_ # _"] str_def [of "[]"] colour_def dec8_def n_def split: if_splits)
  then obtain bs where "appendColor [] c fg @ rest = 27 # 91 # bs" "csi [] 0 bs = Some ([n, 2, r, g, b], 109, rest)" by blast
  then show ?thesis using c by (simp add: feed_csi control_def n_def split: if_splits)
qed

section \<open>Characters\<close>

lemma feed_glyph:
  assumes "clean ch" "tmCursor t = Some (x, y)"
  shows "feed (glyph ch @ rest) t =
    feed rest (t\<lparr>tmGrid := (tmGrid t)((x, y) := Some (unat ch, tmPen t)), tmCursor := (if plain_ascii ch then Some (x + 1, y) else None)\<rparr>)"
proof (cases "plain_ascii ch")
  case True
  have u: "unat ch = nat (sint ch)" using True by (intro unat_sint) (simp add: plain_ascii_def)
  then have n: "32 \<le> unat ch" "unat ch \<le> 126" using True unfolding plain_ascii_def by linarith+
  then have b: "unat (ucast ch :: byte) = unat ch" by (simp add: unsigned_ucast_eq take_bit_nat_eq_self)
  then have "(ucast ch :: byte) \<noteq> 27" using n by auto
  then show ?thesis using True n assms b by (subst feed.simps) (simp add: glyph_def DecodeRune_def print_char_def RuneError_def)
next
  case False
  have c: "160 \<le> sint ch" "ValidRune (sint ch)" using assms(1) False by (auto simp: clean_def plain_ascii_def)
  then have u: "nat (sint ch) = unat ch" by (simp add: unat_sint)
  have d: "DecodeRune (EncodeRune (sint ch) @ rest) = (unat ch, length (EncodeRune (sint ch)))"
    using DecodeRune_EncodeRune [OF c(2)] u by simp
  have n: "160 \<le> unat ch" using c u by linarith
  have e: "EncodeRune (sint ch) \<noteq> []" "length (EncodeRune (sint ch)) \<noteq> 1" using c by (auto simp: EncodeRune_def Let_def)
  have "hd (EncodeRune (sint ch) @ rest) \<noteq> 27"
    using d n e(1) by (cases "EncodeRune (sint ch) @ rest") (auto simp: DecodeRune_def)
  then show ?thesis using False n assms(2) d e by (subst feed.simps) (simp add: glyph_def print_char_def)
qed

definition put_run :: "nat \<Rightarrow> nat \<Rightarrow> 'a list \<Rightarrow> (nat \<times> nat \<Rightarrow> 'a option) \<Rightarrow> nat \<times> nat \<Rightarrow> 'a option" where
  "put_run x y ls g = (\<lambda>(a, b). if b = y \<and> x \<le> a \<and> a < x + length ls then Some (ls ! (a - x)) else g (a, b))"

lemma put_run_Nil [simp]: "put_run x y [] g = g"
  by (auto simp: put_run_def fun_eq_iff)

lemma put_run_single: "put_run x y [l] g = g((x, y) := Some l)"
  by (auto simp: put_run_def fun_eq_iff)

lemma put_run_Cons: "put_run (Suc x) y ls (\<lambda>a. if a = (x, y) then Some l else g a) = put_run x y (l # ls) g"
  by (auto simp: put_run_def fun_eq_iff nth_Cons')

lemma feed_glyphs:
  assumes "list_all clean chs" "list_all plain_ascii (butlast chs)" "tmCursor t = Some (x, y)"
    and "tmGrid t' = put_run x y (map (\<lambda>ch. (unat ch, tmPen t)) chs) (tmGrid t)" "tmPen t' = tmPen t"
    and "tmCursor t' = (if list_all plain_ascii chs then Some (x + length chs, y) else None)"
  shows "feed (concat (map glyph chs) @ rest) t = feed rest t'"
  using assms
proof (induction chs arbitrary: t x)
  case Nil
  then have "t' = t" by (intro terminal.equality) auto
  then show ?case by simp
next
  case (Cons ch chs)
  let ?t = "t\<lparr>tmGrid := (tmGrid t)((x, y) := Some (unat ch, tmPen t)), tmCursor := (if plain_ascii ch then Some (x + 1, y) else None)\<rparr>"
  have 1: "feed (concat (map glyph (ch # chs)) @ rest) t = feed (concat (map glyph chs) @ rest) ?t"
    using Cons.prems by (simp add: feed_glyph)
  show ?case
  proof (cases "chs = []")
    case True
    with Cons.prems have "t' = ?t" by (intro terminal.equality) (auto simp: put_run_single)
    with True 1 show ?thesis by simp
  next
    case False
    with Cons.prems have "plain_ascii ch" by simp
    with False Cons.prems show ?thesis unfolding 1 by (intro Cons.IH [where x = "x + 1"]) (simp_all add: put_run_Cons)
  qed
qed

section \<open>Runs of cells\<close>

lemma run_end_le: "x \<le> w \<Longrightarrow> run_end cur old style w x \<le> w"
proof (induction cur old style w x rule: run_end.induct)
  case (1 cur old style w x)
  then show ?case by (subst run_end.simps) auto
qed

lemma run_end_inside:
  assumes "x \<le> i" "i < run_end cur old style w x"
  shows "cur ! i \<noteq> old ! i \<and> same_style (cur ! i) style \<and> (i + 1 < run_end cur old style w x \<longrightarrow> plain_ascii (cellCh (cur ! i)))"
  using assms
proof (induction cur old style w x rule: run_end.induct)
  case (1 cur old style w x)
  show ?case
  proof (cases "x < w \<and> cur ! x \<noteq> old ! x \<and> same_style (cur ! x) style")
    case True
    then have e: "run_end cur old style w x = (if plain_ascii (cellCh (cur ! x)) then run_end cur old style w (x + 1) else x + 1)"
      by (subst run_end.simps) simp
    show ?thesis
    proof (cases "i = x")
      case True
      with \<open>x < w \<and> _\<close> e show ?thesis by simp
    next
      case False
      with "1.prems" e have "plain_ascii (cellCh (cur ! x))" "x + 1 \<le> i" by (auto split: if_splits)
      with "1.IH" "1.prems" True e show ?thesis by simp
    qed
  next
    case False
    with "1.prems" show ?thesis by (subst (asm) run_end.simps) simp
  qed
qed

text \<open>What the bytes of a paint have done to a terminal.\<close>

definition painted :: "terminal \<Rightarrow> paint \<Rightarrow> terminal \<Rightarrow> bool" where
  "painted t0 p t \<longleftrightarrow> (\<forall>rest. feed (paBuf p @ rest) t0 = feed rest t) \<and> (\<forall>c. paCursor p = Some c \<longrightarrow> tmCursor t = Some c) \<and>
    (paStyled p \<longrightarrow> tmPen t = style_pen (paLast p))"

lemma feed_style_run:
  assumes "painted t0 p t"
  shows "feed (style_run p y start style @ rest) t0 = feed rest (t\<lparr>tmCursor := Some (start, y), tmPen := style_pen style\<rparr>)"
proof -
  define b where "b = (if paCursor p \<noteq> Some (start, y) then paBuf p @ moveTo y start else paBuf p)"
  define reset where "reset \<longleftrightarrow> \<not> paStyled p \<or> cellDecor (paLast p) \<noteq> cellDecor style"
  define b2 where "b2 = (if reset then b @ resetTo (cellDecor style) else b)"
  define b3 where "b3 = (if reset \<or> cellBg (paLast p) \<noteq> cellBg style then appendColor b2 (cellBg style) False else b2)"
  have e: "style_run p y start style = (if reset \<or> cellFg (paLast p) \<noteq> cellFg style then appendColor b3 (cellFg style) True else b3)"
    by (simp only: style_run_def Let_def b_def reset_def b2_def b3_def)
  have s: "tmPen t = style_pen (paLast p)" if "paStyled p" using assms that by (simp add: painted_def)
  have 1: "feed (b @ r) t0 = feed r (t\<lparr>tmCursor := Some (start, y)\<rparr>)" for r
  proof (cases "paCursor p = Some (start, y)")
    case True
    then have t: "t\<lparr>tmCursor := Some (start, y)\<rparr> = t" using assms by (intro terminal.equality) (auto simp: painted_def)
    show ?thesis unfolding t using True assms by (simp add: b_def painted_def)
  qed (use assms in \<open>simp add: b_def painted_def feed_moveTo\<close>)
  have 2: "feed (b2 @ r) t0 = feed r (t\<lparr>tmCursor := Some (start, y),
      tmPen := (if reset then \<lparr>pnDecor = decorations (cellDecor style), pnFg = None, pnBg = None\<rparr> else style_pen (paLast p))\<rparr>)" for r
  proof (cases reset)
    case False
    with s have t: "t\<lparr>tmCursor := c, tmPen := style_pen (paLast p)\<rparr> = t\<lparr>tmCursor := c\<rparr>" for c by (intro terminal.equality) (auto simp: reset_def)
    show ?thesis using False 1 [of r] t by (simp only: b2_def if_False)
  qed (simp add: b2_def 1 feed_resetTo)
  have 3: "feed (b3 @ r) t0 = feed r (t\<lparr>tmCursor := Some (start, y),
      tmPen := \<lparr>pnDecor = decorations (cellDecor style), pnFg = (if reset then None else pnFg (style_pen (paLast p))), pnBg = Some (colour (cellBg style) (25, 23, 29))\<rparr>\<rparr>)" for r
    by (auto simp: b3_def appendColor_append [of b2] 2 feed_colour reset_def style_pen_def)
  show ?thesis
    by (auto simp: e appendColor_append [of b3] 3 feed_colour reset_def style_pen_def)
qed

lemma paint_run_ok:
  assumes p: "painted t0 p t" and r: "start < e" "e \<le> length cur" "\<forall>i. start \<le> i \<and> i < e \<longrightarrow> same_style (cur ! i) (cur ! start)"
    "\<forall>i. start \<le> i \<and> i + 1 < e \<longrightarrow> plain_ascii (cellCh (cur ! i))" and c: "list_all (\<lambda>c. clean (cellCh c)) cur"
  obtains t' where "painted t0 (paint_run cur y start e p) t'" "tmGrid t' = put_run start y (map look (drop start (take e cur))) (tmGrid t)"
proof -
  define chs where "chs = map cellCh (drop start (take e cur))"
  define pn where "pn = style_pen (cur ! start)"
  have l: "start + length chs = e" using r by (simp add: chs_def)
  have n: "chs ! i = cellCh (cur ! (start + i))" if "start + i < e" for i using that r by (simp add: chs_def)
  have "list_all clean chs" using c by (auto simp: chs_def list_all_iff dest!: in_set_dropD in_set_takeD)
  moreover have "list_all plain_ascii (butlast chs)" using r(4) l n by (auto simp: list_all_length nth_butlast)
  ultimately have f: "feed (concat (map glyph chs) @ rest) (t\<lparr>tmCursor := Some (start, y), tmPen := pn\<rparr>) =
    feed rest (t\<lparr>tmPen := pn, tmGrid := put_run start y (map (\<lambda>ch. (unat ch, pn)) chs) (tmGrid t),
      tmCursor := (if list_all plain_ascii chs then Some (start + length chs, y) else None)\<rparr>)" for rest
    by (rule feed_glyphs [where x = start and y = y]) simp_all
  let ?t = "t\<lparr>tmPen := pn, tmGrid := put_run start y (map (\<lambda>ch. (unat ch, pn)) chs) (tmGrid t),
      tmCursor := (if list_all plain_ascii chs then Some (start + length chs, y) else None)\<rparr>"
  have "painted t0 (paint_run cur y start e p) ?t"
    unfolding painted_def paint_run_def Let_def chs_def [symmetric]
    using feed_style_run [OF p, of y start "cur ! start"] f l by (simp add: pn_def)
  moreover have "map (\<lambda>ch. (unat ch, pn)) chs = map look (drop start (take e cur))"
  proof (rule nth_equalityI)
    fix i
    assume "i < length (map (\<lambda>ch. (unat ch, pn)) chs)"
    then have i: "start + i < e" using l by simp
    then have "same_style (cur ! (start + i)) (cur ! start)" using r(3) by simp
    then have "style_pen (cur ! (start + i)) = pn" by (simp add: same_style_def style_pen_def pn_def)
    with i show "map (\<lambda>ch. (unat ch, pn)) chs ! i = map look (drop start (take e cur)) ! i"
      using n [of i] l r(2) by (simp add: look_def)
  qed (simp add: chs_def)
  ultimately show ?thesis by (intro that [of ?t]) simp_all
qed

section \<open>Rows\<close>

text \<open>The cells of a row that a paint changes from a column on.\<close>

definition repaint_row :: "cell list \<Rightarrow> cell list \<Rightarrow> nat \<Rightarrow> nat \<Rightarrow> (nat \<times> nat \<Rightarrow> (nat \<times> pen) option) \<Rightarrow> nat \<times> nat \<Rightarrow> (nat \<times> pen) option" where
  "repaint_row cur old y x g = (\<lambda>(a, b). if b = y \<and> x \<le> a \<and> a < length cur \<and> cur ! a \<noteq> old ! a then Some (look (cur ! a)) else g (a, b))"

lemma paint_row_ok:
  assumes "painted t0 p t" "list_all (\<lambda>c. clean (cellCh c)) cur" "w = length cur" "x \<le> w"
  shows "\<exists>t'. painted t0 (paint_row cur old w y x p) t' \<and> tmGrid t' = repaint_row cur old y x (tmGrid t)"
  using assms
proof (induction cur old w y x p arbitrary: t rule: paint_row.induct)
  case (1 cur old w y x p)
  consider (fin) "x = w" | (same) "x < w" "cur ! x = old ! x" | (change) "x < w" "cur ! x \<noteq> old ! x" using "1.prems" by linarith
  then show ?case
  proof cases
    case fin
    then have "paint_row cur old w y x p = p" by (subst paint_row.simps) simp
    moreover have "repaint_row cur old y x g = g" for g using fin "1.prems" by (auto simp: repaint_row_def fun_eq_iff)
    ultimately show ?thesis using "1.prems" by auto
  next
    case same
    then have "paint_row cur old w y x p = paint_row cur old w y (x + 1) p" by (subst paint_row.simps) simp
    moreover have "repaint_row cur old y (x + 1) g = repaint_row cur old y x g" for g
      using same by (auto simp: repaint_row_def fun_eq_iff Suc_le_eq order_le_less)
    ultimately show ?thesis using "1.IH"(1) [OF same] "1.prems" same by simp
  next
    case change
    define e where "e = run_end cur old (cur ! x) w x"
    have e: "x < e" "e \<le> w" using run_end_gt [OF change] run_end_le [of x w] change by (simp_all add: e_def)
    have i: "cur ! i \<noteq> old ! i" "same_style (cur ! i) (cur ! x)" "i + 1 < e \<longrightarrow> plain_ascii (cellCh (cur ! i))" if "x \<le> i" "i < e" for i
      using run_end_inside [of x i cur old "cur ! x" w] that by (auto simp: e_def)
    obtain t1 where t1: "painted t0 (paint_run cur y x e p) t1" "tmGrid t1 = put_run x y (map look (drop x (take e cur))) (tmGrid t)"
      using paint_run_ok [OF "1.prems"(1) e(1), of cur y] e i "1.prems" by auto
    have r: "paint_row cur old w y x p = paint_row cur old w y e (paint_run cur y x e p)"
      using change by (subst paint_row.simps) (simp add: e_def Let_def)
    have "repaint_row cur old y e (tmGrid t1) = repaint_row cur old y x (tmGrid t)"
      using i(1) e "1.prems"(3) by (auto simp: repaint_row_def t1(2) put_run_def fun_eq_iff)
    moreover have "\<exists>t'. painted t0 (paint_row cur old w y e (paint_run cur y x e p)) t' \<and> tmGrid t' = repaint_row cur old y e (tmGrid t1)"
      using "1.IH"(2) [OF change e_def t1(1)] "1.prems" e(2) by simp
    ultimately show ?thesis by (simp add: r)
  qed
qed

text \<open>A memory comparison may only find rows equal that are equal.\<close>

definition comparison :: "(cell list \<Rightarrow> cell list \<Rightarrow> bool) \<Rightarrow> bool" where
  "comparison same \<longleftrightarrow> (\<forall>r r'. same r r' \<longrightarrow> r = r')"

definition repaint_rows :: "cell list list \<Rightarrow> cell list list \<Rightarrow> nat \<Rightarrow> (nat \<times> nat \<Rightarrow> (nat \<times> pen) option) \<Rightarrow> nat \<times> nat \<Rightarrow> (nat \<times> pen) option" where
  "repaint_rows curs olds y g = (\<lambda>(a, b). if y \<le> b \<and> b < y + length curs \<and> a < length (curs ! (b - y)) \<and> curs ! (b - y) ! a \<noteq> olds ! (b - y) ! a
     then Some (look (curs ! (b - y) ! a)) else g (a, b))"

lemma paint_rows_ok:
  assumes "comparison same" "painted t0 p t" "length olds = length curs"
    "list_all (\<lambda>row. length row = w \<and> list_all (\<lambda>c. clean (cellCh c)) row) curs"
  shows "\<exists>t'. painted t0 (fst (paint_rows same w y curs olds p dirty)) t' \<and> tmGrid t' = repaint_rows curs olds y (tmGrid t)"
  using assms
proof (induction same w y curs olds p dirty arbitrary: t rule: paint_rows.induct)
  case (1 same w y cur curs old olds p dirty)
  have split: "repaint_rows curs olds (y + 1) (repaint_row cur old y 0 g) = repaint_rows (cur # curs) (old # olds) y g" for g
    by (auto simp: repaint_rows_def repaint_row_def fun_eq_iff nth_Cons' Suc_le_eq)
  show ?case
  proof (cases "same cur old")
    case True
    then have "cur = old" using "1.prems"(1) by (simp add: comparison_def)
    then have "repaint_row cur old y 0 g = g" for g by (auto simp: repaint_row_def fun_eq_iff)
    with split True "1.IH"(1) [OF True "1.prems"(1, 2)] "1.prems" show ?thesis by simp
  next
    case False
    obtain t1 where t1: "painted t0 (paint_row cur old w y 0 p) t1" "tmGrid t1 = repaint_row cur old y 0 (tmGrid t)"
      using paint_row_ok [OF "1.prems"(2), of cur w 0 old y] "1.prems"(4) by auto
    show ?thesis using False split [of "tmGrid t"] "1.IH"(2) [OF False "1.prems"(1) t1(1)] t1(2) "1.prems" by simp
  qed
qed (auto simp: repaint_rows_def fun_eq_iff)

lemma paint_rows_dirty:
  "snd (paint_rows same w y curs olds p dirty) = dirty @ filter (\<lambda>i. \<not> same (curs ! (i - y)) (olds ! (i - y))) [y..<y + min (length curs) (length olds)]"
proof (induction same w y curs olds p dirty rule: paint_rows.induct)
  case (1 same w y cur curs old olds p dirty)
  have u: "[y..<y + min (length (cur # curs)) (length (old # olds))] = y # [Suc y..<Suc (y + min (length curs) (length olds))]"
    using upt_conv_Cons [of y "y + Suc (min (length curs) (length olds))"] by (simp del: upt_Suc)
  have f: "filter (\<lambda>i. \<not> same ((cur # curs) ! (i - y)) ((old # olds) ! (i - y))) [Suc y..<Suc (y + min (length curs) (length olds))] =
      filter (\<lambda>i. \<not> same (curs ! (i - Suc y)) (olds ! (i - Suc y))) [Suc y..<Suc (y + min (length curs) (length olds))]"
    by (rule filter_cong) (auto simp: nth_Cons')
  have g: "filter (\<lambda>i. \<not> same ((cur # curs) ! (i - y)) ((old # olds) ! (i - y))) [y..<y + min (length (cur # curs)) (length (old # olds))] =
      (if same cur old then [] else [y]) @ filter (\<lambda>i. \<not> same (curs ! (i - Suc y)) (olds ! (i - Suc y))) [Suc y..<Suc (y + min (length curs) (length olds))]"
    unfolding u by (simp add: f del: upt_Suc)
  show ?case unfolding g using 1 by (simp del: upt_Suc)
qed auto

section \<open>A flush\<close>

definition screen_ok :: "screen \<Rightarrow> bool" where
  "screen_ok s \<longleftrightarrow> length (scCur s) = scH s \<and> length (scOld s) = scH s \<and>
    list_all (\<lambda>row. length row = scW s \<and> list_all (\<lambda>c. clean (cellCh c)) row) (scCur s) \<and> list_all (\<lambda>row. length row = scW s) (scOld s)"

text \<open>The terminal has what the screen remembers of it, and what the screen is to show.\<close>

definition remembers :: "terminal \<Rightarrow> screen \<Rightarrow> bool" where
  "remembers t s \<longleftrightarrow> (\<forall>y < scH s. \<forall>x < scW s. scOld s ! y ! x = zero_cell \<or> tmGrid t (x, y) = Some (look (scOld s ! y ! x)))"

definition displays :: "terminal \<Rightarrow> screen \<Rightarrow> bool" where
  "displays t s \<longleftrightarrow> (\<forall>y < scH s. \<forall>x < scW s. tmGrid t (x, y) = Some (look (scCur s ! y ! x)))"

text \<open>A writer that takes everything, or fails and takes nothing.\<close>

definition tty_writer :: "bool \<Rightarrow> bytes \<Rightarrow> nat \<times> bool" where
  "tty_writer ok b = (if ok then (length b, False) else (0, True))"

lemma foldl_rows_length [simp]: "length (foldl (\<lambda>old y. old[y := cur ! y]) old ys) = length old"
  by (induction ys arbitrary: old) auto

lemma foldl_rows: "i < length old \<Longrightarrow> foldl (\<lambda>old y. old[y := cur ! y]) old ys ! i = (if i \<in> set ys then cur ! i else old ! i)"
  by (induction ys arbitrary: old) (auto simp: nth_list_update)

lemma clean_not_zero: "clean (cellCh c) \<Longrightarrow> c \<noteq> zero_cell"
  by (auto simp: clean_def zero_cell_def)

lemma Flush_ok:
  assumes "comparison same" "screen_ok s" "remembers t s" "Flush same (tty_writer ok) s = (b, s')"
  obtains t' where "feed b t = Some t'" "remembers t' s'" "ok \<or> \<not> scFailed s' \<longrightarrow> displays t' s'"
    "screen_ok s'" "scCur s' = scCur s" "scW s' = scW s" "scH s' = scH s"
proof -
  define r where "r = paint_rows same (scW s) 0 (scCur s) (scOld s) start_paint []"
  have "painted t start_paint t" by (simp add: painted_def start_paint_def)
  then obtain t1 where t1: "painted t (fst r) t1" "tmGrid t1 = repaint_rows (scCur s) (scOld s) 0 (tmGrid t)"
    using paint_rows_ok [of same t start_paint t "scOld s" "scCur s" "scW s" 0 "[]"] assms by (auto simp: r_def screen_ok_def)
  have f: "feed (paBuf (fst r)) t = Some t1"
    using t1(1) [unfolded painted_def, THEN conjunct1, rule_format, of "[]"] by simp
  have cell: "tmGrid t1 (x, y) = Some (look (scCur s ! y ! x))" if "y < scH s" "x < scW s" for x y
  proof (cases "scCur s ! y ! x = scOld s ! y ! x")
    case True
    have "clean (cellCh (scCur s ! y ! x))" using assms(2) that by (simp add: screen_ok_def list_all_length)
    with True assms(3) that have "tmGrid t (x, y) = Some (look (scCur s ! y ! x))" using clean_not_zero by (auto simp: remembers_def)
    with True show ?thesis by (simp add: t1(2) repaint_rows_def)
  qed (use assms(2) that in \<open>simp add: t1(2) repaint_rows_def screen_ok_def list_all_length\<close>)
  have d: "snd r = filter (\<lambda>i. \<not> same (scCur s ! i) (scOld s ! i)) [0..<scH s]"
    using paint_rows_dirty [of same "scW s" 0 "scCur s" "scOld s" start_paint "[]"] assms(2) by (simp add: r_def screen_ok_def)
  have old: "foldl (\<lambda>old y. old[y := scCur s ! y]) (scOld s) (snd r) = scCur s"
  proof (rule nth_equalityI)
    fix i
    assume i: "i < length (foldl (\<lambda>old y. old[y := scCur s ! y]) (scOld s) (snd r))"
    have "scCur s ! i = scOld s ! i" if "same (scCur s ! i) (scOld s ! i)" using assms(1) that by (simp add: comparison_def)
    with i assms(2) show "foldl (\<lambda>old y. old[y := scCur s ! y]) (scOld s) (snd r) ! i = scCur s ! i"
      by (auto simp: d foldl_rows screen_ok_def)
  qed (use assms(2) in \<open>simp add: screen_ok_def\<close>)
  have F: "Flush same (tty_writer ok) s = (if paBuf (fst r) = [] then ([], s) else if ok then (paBuf (fst r), s\<lparr>scFailed := False, scOld := scCur s\<rparr>) else ([], s\<lparr>scFailed := True\<rparr>))"
    unfolding Flush_def r_def [symmetric] by (simp add: old tty_writer_def Let_def case_prod_unfold)
  consider (none) "paBuf (fst r) = []" "b = []" "s' = s"
    | (ok) ok "b = paBuf (fst r)" "s' = s\<lparr>scFailed := False, scOld := scCur s\<rparr>"
    | (failed) "\<not> ok" "b = []" "s' = s\<lparr>scFailed := True\<rparr>"
    using assms(4) F by (auto split: if_splits)
  then show ?thesis
  proof cases
    case none
    with f have "t1 = t" by simp
    with none cell that [of t] assms show ?thesis by (simp add: displays_def)
  next
    case ok
    then show ?thesis using that [of t1] f cell assms(2) by (auto simp: displays_def remembers_def screen_ok_def list_all_length)
  next
    case failed
    then show ?thesis using that [of t] assms by (simp add: remembers_def screen_ok_def)
  qed
qed

section \<open>The sink\<close>

datatype sink_op = Present int frame | Fire int | Close

fun sink_step :: "(cell list \<Rightarrow> cell list \<Rightarrow> bool) \<Rightarrow> sink_op \<times> bool \<Rightarrow> tty_sink \<Rightarrow> bytes \<times> tty_sink" where
  "sink_step same (Present now f, ok) s = ttyPresent same (tty_writer ok) now f s"
| "sink_step same (Fire now, ok) s = ttyFire same (tty_writer ok) now s"
| "sink_step same (Close, ok) s = ttyClose same (tty_writer ok) s"

text \<open>A run of the sink with the terminal at its end.\<close>

fun sink_run :: "(cell list \<Rightarrow> cell list \<Rightarrow> bool) \<Rightarrow> (sink_op \<times> bool) list \<Rightarrow> tty_sink \<Rightarrow> terminal \<Rightarrow> (tty_sink \<times> terminal) option" where
  "sink_run same [] s t = Some (s, t)"
| "sink_run same (op # ops) s t =
    (case sink_step same op s of (b, s') \<Rightarrow> (case feed b t of None \<Rightarrow> None | Some t' \<Rightarrow> sink_run same ops s' t'))"

fun last_frame :: "frame option \<Rightarrow> (sink_op \<times> bool) list \<Rightarrow> frame option" where
  "last_frame l [] = l"
| "last_frame l ((Present now f, ok) # ops) = last_frame (if validFrame f then Some f else l) ops"
| "last_frame l (_ # ops) = last_frame l ops"

definition frame_rows :: "frame \<Rightarrow> cell list list" where
  "frame_rows f = map (\<lambda>y. map sanitizeCell (frame_row f y)) [0..<nat (frameH f)]"

lemma frame_row_length:
  assumes "validFrame f" "y < nat (frameH f)"
  shows "length (frame_row f y) = nat (frameW f)"
proof -
  have "length (frameCells f) = nat (frameW f * frameH f)" using assms(1) by (metis nat_int validFrame_def)
  then have "length (frameCells f) = nat (frameW f) * nat (frameH f)" using assms(1) by (simp add: validFrame_def nat_mult_distrib)
  moreover have "Suc y * nat (frameW f) \<le> nat (frameH f) * nat (frameW f)" using assms(2) by (intro mult_right_mono) auto
  ultimately have "y * nat (frameW f) + nat (frameW f) \<le> length (frameCells f)" by (simp add: mult.commute add.commute)
  then show ?thesis by (simp add: frame_row_def)
qed

lemma set_rows_valid:
  assumes "validFrame f" "scW s = nat (frameW f)" "scH s = nat (frameH f)" "length (scCur s) = scH s" "list_all (\<lambda>row. length row = scW s) (scCur s)"
  shows "set_rows f s = s\<lparr>scCur := frame_rows f\<rparr>"
proof -
  have "foldl (\<lambda>s y. SetRow (int y) (map sanitizeCell (frame_row f y)) s) s [0..<n] =
      s\<lparr>scCur := map (\<lambda>y. map sanitizeCell (frame_row f y)) [0..<n] @ drop n (scCur s)\<rparr>" if "n \<le> scH s" for n
    using that
  proof (induction n)
    case (Suc n)
    let ?row = "map sanitizeCell (frame_row f n)"
    have l: "length ?row = scW s" "length (scCur s ! n) = scW s" "?row \<noteq> []"
      using frame_row_length [OF assms(1), of n] Suc.prems assms by (auto simp: list_all_length validFrame_def)
    have "put_at 0 ?row (scCur s ! n) = ?row" using l by (simp add: put_at_def)
    moreover have "(map (\<lambda>y. map sanitizeCell (frame_row f y)) [0..<n] @ drop n (scCur s)) ! n = scCur s ! n"
      using Suc.prems assms(4) by (simp add: nth_append)
    moreover have "(map (\<lambda>y. map sanitizeCell (frame_row f y)) [0..<n] @ drop n (scCur s))[n := ?row] =
        map (\<lambda>y. map sanitizeCell (frame_row f y)) [0..<Suc n] @ drop (Suc n) (scCur s)"
      using Suc.prems assms(4) by (simp add: list_update_append Cons_nth_drop_Suc [symmetric])
    ultimately show ?case using Suc l by (simp add: SetRow_def Let_def)
  qed simp
  from this [of "scH s"] show ?thesis using assms by (simp add: set_rows_def frame_rows_def)
qed

lemma resize_dims: "scW (resize w h s) = scW (resize w h s')" "scH (resize w h s) = scH (resize w h s')"
  by (simp_all add: resize_def Let_def)

lemma resize_valid:
  assumes "validFrame f"
  shows "scW (resize (frameW f) (frameH f) s) = nat (frameW f) \<and> scH (resize (frameW f) (frameH f) s) = nat (frameH f)"
proof -
  have b: "1 \<le> frameW f" "frameW f \<le> 500" "1 \<le> frameH f" "frameH f \<le> 300"
    using assms by (simp_all add: validFrame_def const_defs)
  then have "frameW f * frameH f \<le> 500 * 300" by (intro mult_mono) auto
  then have "frameW f \<le> 150000 div frameH f" using zdiv_mono1 [of "frameW f * frameH f" 150000 "frameH f"] b by simp
  then show ?thesis using b by (simp add: resize_def Let_def const_defs)
qed

lemma resize_ok: "screen_ok (resize w h s)" "remembers t (resize w h s)"
  by (auto simp: screen_ok_def remembers_def resize_def Let_def blank_def zero_cell_def clean_def ValidRune_def list_all_length)

text \<open>The sink with the last frame it was given and the terminal.\<close>

definition sink_holds :: "frame option \<Rightarrow> tty_sink \<Rightarrow> terminal \<Rightarrow> bool" where
  "sink_holds l s t \<longleftrightarrow> screen_ok (tsScr s) \<and> remembers t (tsScr s) \<and>
    scW (tsScr s) = scW (resize (tsW s) (tsH s) (tsScr s)) \<and> scH (tsScr s) = scH (resize (tsW s) (tsH s) (tsScr s)) \<and>
    (\<forall>f. l = Some f \<longrightarrow> scCur (tsScr s) = frame_rows f \<and> scW (tsScr s) = nat (frameW f) \<and> scH (tsScr s) = nat (frameH f))"

definition sink_ok :: "frame option \<Rightarrow> tty_sink \<Rightarrow> terminal \<Rightarrow> bool" where
  "sink_ok l s t \<longleftrightarrow> sink_holds l s t \<and> (l \<noteq> None \<longrightarrow> \<not> tsDirty s \<longrightarrow> \<not> scFailed (tsScr s) \<longrightarrow> displays t (tsScr s))"

lemma sink_holds_update [simp]:
  "sink_holds l (s\<lparr>tsTimer := b\<rparr>) t = sink_holds l s t" "sink_holds l (s\<lparr>tsDirty := b\<rparr>) t = sink_holds l s t" "sink_holds l (s\<lparr>tsThr := th\<rparr>) t = sink_holds l s t"
  by (simp_all add: sink_holds_def)

lemma ttyFlush_ok:
  assumes "comparison same" "sink_holds l s t" "ttyFlush same (tty_writer ok) s = (b, s')"
  shows "\<exists>t'. feed b t = Some t' \<and> sink_ok l s' t'"
proof -
  obtain scr where f: "Flush same (tty_writer ok) (tsScr s) = (b, scr)" and s': "s' = s\<lparr>tsScr := scr\<rparr>"
    using assms(3) by (auto simp: ttyFlush_def split: prod.splits)
  have "screen_ok (tsScr s)" "remembers t (tsScr s)" using assms(2) by (simp_all add: sink_holds_def)
  then obtain t' where t': "feed b t = Some t'" "remembers t' scr" "ok \<or> \<not> scFailed scr \<longrightarrow> displays t' scr"
    "screen_ok scr" "scCur scr = scCur (tsScr s)" "scW scr = scW (tsScr s)" "scH scr = scH (tsScr s)"
    using Flush_ok [OF assms(1) _ _ f] by metis
  then have "sink_ok l s' t'"
    using assms(2) resize_dims [of "tsW s" "tsH s" scr "tsScr s"] by (auto simp: sink_ok_def sink_holds_def s')
  with t'(1) show ?thesis by blast
qed

lemma frame_rows_ok: "validFrame f \<Longrightarrow> list_all (\<lambda>row. length row = nat (frameW f) \<and> list_all (\<lambda>c. clean (cellCh c)) row) (frame_rows f)"
  by (auto simp: frame_rows_def list_all_iff frame_row_length sanitizeCell_def clean_sanitizeRune)

lemma present_holds:
  assumes "sink_holds l s t" "validFrame f"
  defines "s1 \<equiv> (if frameW f \<noteq> tsW s \<or> frameH f \<noteq> tsH s
                then s\<lparr>tsScr := resize (frameW f) (frameH f) (tsScr s), tsW := frameW f, tsH := frameH f\<rparr> else s)"
  shows "sink_holds (Some f) (s1\<lparr>tsScr := set_rows f (tsScr s1)\<rparr>) t"
proof -
  have d: "scW (tsScr s1) = nat (frameW f)" "scH (tsScr s1) = nat (frameH f)" "tsW s1 = frameW f" "tsH s1 = frameH f"
    using assms(1) resize_valid [OF assms(2), of "tsScr s"] by (auto simp: s1_def sink_holds_def)
  have ok: "screen_ok (tsScr s1)" "remembers t (tsScr s1)"
    using assms(1) resize_ok by (auto simp: s1_def sink_holds_def)
  have "set_rows f (tsScr s1) = (tsScr s1)\<lparr>scCur := frame_rows f\<rparr>"
    using ok d by (intro set_rows_valid assms) (auto simp: screen_ok_def list_all_iff)
  moreover have "length (frame_rows f) = nat (frameH f)" by (simp add: frame_rows_def)
  ultimately show ?thesis
    using ok d frame_rows_ok [OF assms(2)] resize_valid [OF assms(2)] by (simp add: sink_holds_def screen_ok_def remembers_def)
qed

lemma sink_step_ok:
  assumes "comparison same" "sink_ok l s t" "sink_step same (op, ok) s = (b, s')"
  shows "\<exists>t'. feed b t = Some t' \<and> sink_ok (last_frame l [(op, ok)]) s' t'"
proof (cases op)
  case (Present now f)
  show ?thesis
  proof (cases "validFrame f")
    case True
    let ?s = "if frameW f \<noteq> tsW s \<or> frameH f \<noteq> tsH s
                then s\<lparr>tsScr := resize (frameW f) (frameH f) (tsScr s), tsW := frameW f, tsH := frameH f\<rparr> else s"
    let ?s1 = "?s\<lparr>tsScr := set_rows f (tsScr ?s)\<rparr>"
    have h: "sink_holds (Some f) ?s1 t" using present_holds [of l s t f] True assms(2) unfolding sink_ok_def by blast
    have e: "sink_step same (op, ok) s = (case thAllow (tsThr ?s1) now of
        (True, thr) \<Rightarrow> ttyFlush same (tty_writer ok) (?s1\<lparr>tsThr := thr, tsTimer := False, tsDirty := False\<rparr>)
      | (False, _) \<Rightarrow> ([], ?s1\<lparr>tsDirty := True, tsTimer := True\<rparr>))"
      using True by (simp only: Present sink_step.simps ttyPresent_def Let_def if_True not_True_eq_False if_False)
    obtain a thr where a: "thAllow (tsThr ?s1) now = (a, thr)" by fastforce
    show ?thesis
    proof (cases a)
      case allow: True
      have fl: "ttyFlush same (tty_writer ok) (?s1\<lparr>tsThr := thr, tsTimer := False, tsDirty := False\<rparr>) = (b, s')"
        using assms(3) allow a by (simp only: e) simp
      have "sink_holds (Some f) (?s1\<lparr>tsThr := thr, tsTimer := False, tsDirty := False\<rparr>) t" using h by simp
      then show ?thesis using ttyFlush_ok [OF assms(1) _ fl] True Present by simp
    next
      case False
      then have "b = []" "s' = ?s1\<lparr>tsDirty := True, tsTimer := True\<rparr>" using assms(3) a by (simp_all only: e) simp_all
      with h True Present show ?thesis by (simp add: sink_ok_def)
    qed
  qed (use assms Present in \<open>auto simp: ttyPresent_def\<close>)
next
  case (Fire now)
  show ?thesis
  proof (cases "tsDirty s")
    case True
    have "ttyFlush same (tty_writer ok) (s\<lparr>tsTimer := False, tsDirty := False, tsThr := snd (thAllow (tsThr s) now)\<rparr>) = (b, s')"
      using assms(3) True Fire by (simp add: ttyFire_def Let_def)
    then have "\<exists>t'. feed b t = Some t' \<and> sink_ok l s' t'" by (intro ttyFlush_ok [OF assms(1)]) (use assms(2) in \<open>simp_all add: sink_ok_def\<close>)
    with Fire show ?thesis by simp
  qed (use assms Fire in \<open>auto simp: ttyFire_def sink_ok_def\<close>)
next
  case Close
  show ?thesis
  proof (cases "tsDirty s")
    case True
    have "ttyFlush same (tty_writer ok) (s\<lparr>tsTimer := False, tsDirty := False\<rparr>) = (b, s')"
      using assms(3) True Close by (simp add: ttyClose_def Let_def)
    then have "\<exists>t'. feed b t = Some t' \<and> sink_ok l s' t'" by (intro ttyFlush_ok [OF assms(1)]) (use assms(2) in \<open>simp_all add: sink_ok_def\<close>)
    with Close show ?thesis by simp
  qed (use assms Close in \<open>auto simp: ttyClose_def sink_ok_def\<close>)
qed

lemma sink_run_ok:
  assumes "comparison same" "sink_ok l s t"
  shows "\<exists>s' t'. sink_run same ops s t = Some (s', t') \<and> sink_ok (last_frame l ops) s' t'"
  using assms(2)
proof (induction ops arbitrary: l s t)
  case (Cons op ops)
  obtain o' ok where op: "op = (o', ok)" by fastforce
  obtain b s1 where 1: "sink_step same op s = (b, s1)" by fastforce
  obtain t1 where 2: "feed b t = Some t1" "sink_ok (last_frame l [op]) s1 t1"
    using sink_step_ok [OF assms(1) Cons.prems] 1 op by metis
  have "last_frame l (op # ops) = last_frame (last_frame l [op]) ops" using op by (cases o') auto
  with Cons.IH [OF 2(2)] 1 2 show ?case by simp
qed simp

definition shows_frame :: "terminal \<Rightarrow> frame \<Rightarrow> bool" where
  "shows_frame t f \<longleftrightarrow> (\<forall>y < nat (frameH f). \<forall>x < nat (frameW f).
     tmGrid t (x, y) = Some (look (sanitizeCell (frameCells f ! (y * nat (frameW f) + x)))))"

lemma last_frame_valid: "(\<forall>f. l = Some f \<longrightarrow> validFrame f) \<Longrightarrow> last_frame l ops = Some f \<Longrightarrow> validFrame f"
proof (induction l ops rule: last_frame.induct)
  case (2 l now g ok ops)
  then show ?case by (cases "validFrame g") simp_all
qed simp_all

lemma frame_rows_nth:
  assumes "validFrame f" "y < nat (frameH f)" "x < nat (frameW f)"
  shows "frame_rows f ! y ! x = sanitizeCell (frameCells f ! (y * nat (frameW f) + x))"
proof -
  have l: "length (frame_row f y) = nat (frameW f)" using frame_row_length assms by blast
  then have "frame_row f y ! x = frameCells f ! (y * nat (frameW f) + x)" using assms(3) by (simp add: frame_row_def)
  with l assms show ?thesis by (simp add: frame_rows_def)
qed

definition blank_terminal :: terminal where
  "blank_terminal = \<lparr>tmCursor = None, tmPen = \<lparr>pnDecor = {}, pnFg = None, pnBg = None\<rparr>, tmGrid = (\<lambda>_. None)\<rparr>"

text \<open>
  C22: A terminal shows what the guest last presented and obeys nothing a guest sends. Whatever frames a guest presents (of any size, with
  any characters, malformed ones too), whenever the delayed paints run and whenever a write fails as a whole, the bytes that the sink
  writes are understood by a terminal that accepts only cursor positions, colours, decorations and printable characters, each of them
  written at a known position. When no paint is pending and the last write succeeded, the terminal shows the last valid frame, cell by
  cell: its character after the control characters were replaced, in its colours and decorations, although only the cells that changed
  were sent.
\<close>

theorem terminal_shows_last_frame:
  assumes "comparison same"
  shows "\<exists>s t'. sink_run same ops (NewTTYSinkWriter w h maxFPS) t = Some (s, t') \<and>
    (\<forall>f. last_frame None ops = Some f \<longrightarrow> \<not> tsDirty s \<longrightarrow> Healthy (tsScr s) \<longrightarrow> shows_frame t' f)"
proof -
  have "sink_ok None (NewTTYSinkWriter w h maxFPS) t"
    using resize_ok resize_dims by (auto simp: sink_ok_def sink_holds_def NewTTYSinkWriter_def NewScreen_def)
  then obtain s t' where r: "sink_run same ops (NewTTYSinkWriter w h maxFPS) t = Some (s, t')" "sink_ok (last_frame None ops) s t'"
    using sink_run_ok [OF assms] by blast
  have "shows_frame t' f" if f: "last_frame None ops = Some f" "\<not> tsDirty s" "Healthy (tsScr s)" for f
  proof -
    have v: "validFrame f" using last_frame_valid [OF _ f(1)] by simp
    have "displays t' (tsScr s)" "scCur (tsScr s) = frame_rows f" "scW (tsScr s) = nat (frameW f)" "scH (tsScr s) = nat (frameH f)"
      using r(2) f by (auto simp: sink_ok_def sink_holds_def Healthy_def)
    then show ?thesis using frame_rows_nth [OF v] by (simp add: displays_def shows_frame_def)
  qed
  with r(1) show ?thesis by blast
qed

text \<open>A terminal of one row on which two frames follow each other, the second one painted late.\<close>

definition demo_cell :: "char \<Rightarrow> cell" where
  "demo_cell c = zero_cell\<lparr>cellCh := of_nat (of_char c)\<rparr>"

definition demo_frame :: "string \<Rightarrow> frame" where
  "demo_frame s = \<lparr>frameW = int (length s), frameH = 1, frameQuit = False, frameCells = map demo_cell s\<rparr>"

definition demo_paints :: "(sink_op \<times> bool) list" where
  "demo_paints = [(Present 0 (demo_frame ''ab''), True), (Present 1 (demo_frame ''ac''), True), (Fire 2, False), (Present 1000000000 (demo_frame ''ac''), True)]"

lemma sink_run_sink: "sink_run same ops s t = Some (s', t') \<Longrightarrow> s' = foldl (\<lambda>s op. snd (sink_step same op s)) s ops"
  by (induction ops arbitrary: s t) (auto split: prod.splits option.splits)

lemma demo_sink:
  "(\<lambda>s. (tsDirty s, Healthy (tsScr s))) (foldl (\<lambda>s op. snd (sink_step (=) op s)) (NewTTYSinkWriter 2 1 60) demo_paints) = (False, True)"
  by code_simp

lemma demo_last: "last_frame None demo_paints = Some (demo_frame ''ac'')"
  by (simp add: demo_paints_def validFrame_def demo_frame_def const_defs)

theorem terminal_shows_last_frame_witness:
  "comparison (=) \<and> last_frame None demo_paints = Some (demo_frame ''ac'') \<and>
   (\<exists>s t'. sink_run (=) demo_paints (NewTTYSinkWriter 2 1 60) blank_terminal = Some (s, t') \<and> \<not> tsDirty s \<and> Healthy (tsScr s) \<and>
     shows_frame t' (demo_frame ''ac''))"
proof -
  have c: "comparison (=)" by (simp add: comparison_def)
  then obtain s t' where r: "sink_run (=) demo_paints (NewTTYSinkWriter 2 1 60) blank_terminal = Some (s, t')"
    "\<forall>f. last_frame None demo_paints = Some f \<longrightarrow> \<not> tsDirty s \<longrightarrow> Healthy (tsScr s) \<longrightarrow> shows_frame t' f"
    using terminal_shows_last_frame [of "(=)" demo_paints 2 1 60 blank_terminal] by auto
  have "\<not> tsDirty s" "Healthy (tsScr s)" using demo_sink sink_run_sink [OF r(1)] by simp_all
  with c r demo_last show ?thesis by auto
qed

text \<open>
  A write that fails after it reached the terminal is not repaired by going back to the previous picture: the screen still remembers that
  one, so nothing differs and nothing is sent, whatever the writer does, while the terminal shows the picture of the failed write.
\<close>

lemma paint_rows_same: "paint_rows (=) w y rows rows p dirty = (p, dirty)"
  by (induction rows arbitrary: y) auto

lemma failed_write_not_healed:
  assumes "screen_ok s" "remembers t s" "Flush (=) (\<lambda>b. (length b, True)) s = (b, s1)"
  shows "\<exists>t'. feed b t = Some t' \<and> displays t' s \<and> fst (Flush (=) wr (s1\<lparr>scCur := scOld s\<rparr>)) = []"
proof -
  have c: "comparison (=)" by (simp add: comparison_def)
  obtain s' where f: "Flush (=) (tty_writer True) s = (b, s')"
    using assms(3) by (auto simp: Flush_def tty_writer_def Let_def split: prod.splits if_splits)
  obtain t' where "feed b t = Some t'" "displays t' s'" "scCur s' = scCur s" "scW s' = scW s" "scH s' = scH s"
    using Flush_ok [OF c assms(1, 2) f] by metis
  moreover have "scOld s1 = scOld s" using assms(3) by (auto simp: Flush_def Let_def split: prod.splits if_splits)
  then have "fst (Flush (=) wr (s1\<lparr>scCur := scOld s\<rparr>)) = []" by (simp add: Flush_def paint_rows_same start_paint_def)
  ultimately show ?thesis by (auto simp: displays_def)
qed

end
