(* ===== verification/Repo_Model.thy ===== *)
theory Repo_Model
  imports Go_Text
begin

text \<open>
  The control plane's repository (\<^verbatim>\<open>internal/sqlite\<close>): the tables of
  \<^verbatim>\<open>schema.go\<close> as a record of lists of rows, the constraints the schema puts
  on them, the transaction wrapper \<^verbatim>\<open>mutate\<close> and the input checks and the
  audit log that every operation shares. The operations themselves are in
  \<open>Repo_Authors\<close>, \<open>Repo_Apps\<close>, \<open>Repo_Deploy\<close> and \<open>Repo_Kv\<close>.

  A \<^verbatim>\<open>TEXT\<close> column is a \<open>string\<close> (a list of 8-bit characters, as a Go string is
  a list of bytes), a \<^verbatim>\<open>BLOB\<close> is \<open>bytes\<close>, a nullable column is an option, and
  a column \<^verbatim>\<open>..._ns\<close> is an integer. SHA-256, the lower-casing of non-ASCII text
  and \<^verbatim>\<open>json.Valid\<close> are parameters.
\<close>

section \<open>Errors and time\<close>

text \<open>
  The errors of the package, and the two kinds of error the engine reports for a
  statement: a violated UNIQUE or PRIMARY KEY constraint, and any other failure
  (CHECK, foreign key, trigger, I/O).
\<close>

datatype repo_error =
    ErrInvalid | ErrNotFound | ErrConflict | ErrQuota | ErrSuspended
  | ErrInjectedStatement | ErrInjectedCommit
  | ErrStorage | ErrListener | ErrIntegrity
  | SqlUnique | SqlOther

text \<open>
  A \<^verbatim>\<open>time.Time\<close> is its distance from the Unix epoch in nanoseconds. The zero value is
  the first of January of the year 1, which does not fit 64 bits: \<^verbatim>\<open>UnixNano\<close> wraps.
\<close>

type_synonym gotime = int

definition zeroTime :: gotime where
  "zeroTime = - 62135596800 * 10 ^ 9"

definition UnixNano :: "gotime \<Rightarrow> int" where
  "UnixNano t = (t + 2 ^ 63) mod 2 ^ 64 - 2 ^ 63"

definition day_ns :: int where
  "day_ns = 24 * 3600 * 10 ^ 9"

section \<open>Tables\<close>

record server_identity =
  siId :: string
  siAlgorithm :: string
  siFingerprint :: string
  siCreated :: int

record author =
  auId :: string
  auHandle :: string
  auSuspended :: bool
  auCreated :: int
  auUpdated :: int

record tombstone =
  tbHandle :: string
  tbFormer :: string
  tbReason :: string
  tbReserved :: int
  tbAvailable :: int

record recovery =
  rcAuthor :: string
  rcSalt :: bytes
  rcVerifier :: bytes
  rcGeneration :: int
  rcCreated :: int
  rcRotated :: int

text \<open>
  \<open>device\<close> is the DTO that the repository returns; the stored row extends it.
\<close>

record device =
  dvId :: string
  dvAuthor :: string
  dvName :: string
  dvPublicKey :: string
  dvFingerprint :: string
  dvCreated :: int
  dvRevoked :: "int option"

record device_row = device +
  dvRevokedByKind :: "string option"
  dvRevokedById :: "string option"

record enrollment_token =
  etId :: string
  etAuthor :: string
  etPurpose :: string
  etIssuedByKind :: string
  etIssuedByDevice :: "string option"
  etDeviceName :: string
  etSalt :: bytes
  etVerifier :: bytes
  etFailed :: nat
  etCreated :: int
  etExpires :: int
  etConsumed :: "int option"

record bootstrap_authority =
  baId :: string
  baHandle :: string
  baDeviceName :: string
  baSalt :: bytes
  baVerifier :: bytes
  baFailed :: nat
  baCreated :: int
  baExpires :: int
  baConsumed :: "int option"

record app =
  apId :: string
  apAuthor :: string
  apName :: string
  apKind :: string
  apAccess :: string
  apSuspended :: bool
  apCreated :: int
  apUpdated :: int

record blob =
  blDigest :: string
  blSize :: int
  blWasm :: bytes

record artifact =
  arId :: string
  arDigest :: string
  arSize :: int
  arAbi :: int
  arCreated :: int

record access_key =
  akId :: string
  akApp :: string
  akName :: string
  akPublicKey :: string
  akFingerprint :: string
  akAddedBy :: string
  akCreated :: int

record deployment =
  dpId :: string
  dpApp :: string
  dpArtifact :: string
  dpDevice :: string
  dpCreated :: int

record secret =
  scApp :: string
  scKey :: string
  scVersion :: int
  scCreated :: int
  scUpdated :: int

record session_row =
  ssId :: string
  ssApp :: string
  ssDeployment :: string
  ssDigest :: string
  ssStarted :: int
  ssEnded :: "int option"
  ssLog :: string
  ssTruncated :: bool
  ssIdentity :: string

record kv_entry =
  keApp :: string
  keKey :: bytes
  keValue :: bytes
  keRevision :: int
  keUpdated :: int

record kv_usage =
  kuApp :: string
  kuKeys :: int
  kuBytes :: int

record quota =
  qtAuthor :: string
  qtApps :: int
  qtDeployments :: int
  qtSecrets :: int
  qtSessions :: int

record audit_event =
  aeId :: string
  aeScope :: string
  aeOccurred :: int
  aeActorKind :: string
  aeActorAuthor :: string
  aeActorDevice :: string
  aeAction :: string
  aeTargetKind :: string
  aeTargetId :: string
  aeActorSnapshot :: string
  aeTargetSnapshot :: string
  aeDetails :: string

text \<open>
  The database. Tables of two or three columns are lists of tuples: build metadata
  (artifact, key, value), active deployments (app, deployment), capability
  configuration and values (app, capability, key, value and, for values, the time of
  the update), secret values (app, key, value) and egress hosts (app, host).
\<close>

record db =
  serverIdentity :: "server_identity option"
  authors :: "author list"
  tombstones :: "tombstone list"
  recoveries :: "recovery list"
  devices :: "device_row list"
  tokens :: "enrollment_token list"
  authorities :: "bootstrap_authority list"
  apps :: "app list"
  blobs :: "blob list"
  artifacts :: "artifact list"
  buildMetadata :: "(string \<times> string \<times> string) list"
  accessKeys :: "access_key list"
  deployments :: "deployment list"
  activeDeployments :: "(string \<times> string) list"
  capabilityConfig :: "(string \<times> string \<times> string \<times> string) list"
  capabilityValues :: "(string \<times> string \<times> string \<times> bytes \<times> int) list"
  secrets :: "secret list"
  secretValues :: "(string \<times> string \<times> bytes) list"
  egress :: "(string \<times> string) list"
  sessions :: "session_row list"
  kvEntries :: "kv_entry list"
  kvUsages :: "kv_usage list"
  quotas :: "quota list"
  suspendedDeployments :: "string list"
  auditEvents :: "audit_event list"

definition empty_db :: db where
  "empty_db = \<lparr>serverIdentity = None, authors = [], tombstones = [], recoveries = [], devices = [], tokens = [],
    authorities = [], apps = [], blobs = [], artifacts = [], buildMetadata = [], accessKeys = [], deployments = [],
    activeDeployments = [], capabilityConfig = [], capabilityValues = [], secrets = [], secretValues = [], egress = [],
    sessions = [], kvEntries = [], kvUsages = [], quotas = [], suspendedDeployments = [], auditEvents = []\<rparr>"

section \<open>Statements\<close>

text \<open>
  \<open>sum_bind\<close> is the shape \<^verbatim>\<open>if err != nil { return err }\<close>. \<open>insert_row\<close> is an
  \<^verbatim>\<open>INSERT\<close> that the engine checks in its order: the CHECK constraints of the row, the
  UNIQUE constraints against the stored rows, the foreign keys at the end of the
  statement. \<open>update_rows\<close> is \<^verbatim>\<open>UPDATE ... WHERE\<close>, \<open>delete_rows\<close> is
  \<^verbatim>\<open>DELETE ... WHERE\<close>, \<open>count_rows\<close> is \<^verbatim>\<open>SELECT COUNT(*)\<close> and \<open>find\<close> is the
  \<^verbatim>\<open>SELECT\<close> of the one row with a given key.
\<close>

definition sum_bind :: "'e + 'a \<Rightarrow> ('a \<Rightarrow> 'e + 'b) \<Rightarrow> 'e + 'b" where
  "sum_bind x f = (case x of Inl e \<Rightarrow> Inl e | Inr a \<Rightarrow> f a)"

definition insert_row :: "bool \<Rightarrow> ('r \<Rightarrow> bool) \<Rightarrow> bool \<Rightarrow> 'r \<Rightarrow> 'r list \<Rightarrow> repo_error + 'r list" where
  "insert_row checks clash fks r rows =
    (if \<not> checks then Inl SqlOther
     else if list_ex clash rows then Inl SqlUnique
     else if \<not> fks then Inl SqlOther
     else Inr (rows @ [r]))"

definition update_rows :: "('r \<Rightarrow> bool) \<Rightarrow> ('r \<Rightarrow> 'r) \<Rightarrow> 'r list \<Rightarrow> 'r list" where
  "update_rows P f rows = map (\<lambda>r. if P r then f r else r) rows"

definition delete_rows :: "('r \<Rightarrow> bool) \<Rightarrow> 'r list \<Rightarrow> 'r list" where
  "delete_rows P rows = filter (\<lambda>r. \<not> P r) rows"

definition count_rows :: "('r \<Rightarrow> bool) \<Rightarrow> 'r list \<Rightarrow> nat" where
  "count_rows P rows = length (filter P rows)"

section \<open>Transactions\<close>

text \<open>
  What an operation takes from outside: the clock (\<^verbatim>\<open>r.now\<close>, and its later reading
  for the audit row), whether the engine starts and commits the transaction, the statements
  and commits that \<^verbatim>\<open>Faults\<close> or the engine fail, by operation name, whether a commit listener fails, SHA-256, the lower case of a text
  that is not ASCII, JSON validity, the two readings of the clock that
  \<^verbatim>\<open>randomRepositoryID\<close> prints, and the key/value budgets of the repository.
\<close>

record repo_env =
  eNow :: gotime
  eAuditNow :: gotime
  eBegin :: bool
  eStatement :: "string \<Rightarrow> bool"
  eEngine :: "string \<Rightarrow> bool"
  eCommitFault :: "string \<Rightarrow> bool"
  eCommit :: bool
  eListener :: bool
  eSha :: "bytes \<Rightarrow> bytes"
  eLower :: "string \<Rightarrow> string"
  eJson :: "string \<Rightarrow> bool"
  eRandom1 :: string
  eRandom2 :: string
  eKVMaxKeys :: int
  eKVMaxBytes :: int

definition repository_errors :: "repo_error list" where
  "repository_errors = [ErrInvalid, ErrNotFound, ErrConflict, ErrQuota, ErrSuspended, ErrInjectedStatement, ErrInjectedCommit]"

definition storageError :: "repo_error \<Rightarrow> repo_error" where
  "storageError e = (if e \<in> set repository_errors then e else ErrStorage)"

definition mapConstraint :: "repo_error \<Rightarrow> repo_error" where
  "mapConstraint e = (if e = SqlUnique then ErrConflict else storageError e)"

definition mapRepositoryError :: "repo_error \<Rightarrow> repo_error" where
  "mapRepositoryError e = (if e \<in> set repository_errors then e else mapConstraint e)"

text \<open>
  \<^verbatim>\<open>mutate\<close>: the body runs on the transaction's view, an error rolls it back, and only a
  commit makes the new view the database. A listener runs after the commit, so its
  error is returned although the change is durable. Every body starts with a statement,
  so an injected statement fault ends it; at which statement an engine error occurs makes
  no difference, because the view is dropped.
\<close>

definition notify :: "repo_env \<Rightarrow> string \<Rightarrow> 'a \<Rightarrow> repo_error + 'a" where
  "notify env kind x = (if kind \<noteq> '''' \<and> eListener env then Inl ErrListener else Inr x)"

definition mutate ::
  "repo_env \<Rightarrow> string \<Rightarrow> string \<Rightarrow> (db \<Rightarrow> repo_error + 'a \<times> db) \<Rightarrow> db \<Rightarrow> (repo_error + 'a) \<times> db" where
  "mutate env operation kind fn d =
    (if \<not> eBegin env then (Inl ErrStorage, d)
     else case (if eStatement env operation then Inl ErrInjectedStatement
                else if eEngine env operation then Inl SqlOther else fn d) of
       Inl e \<Rightarrow> (Inl (mapRepositoryError e), d)
     | Inr (x, d') \<Rightarrow>
         if eCommitFault env operation then (Inl ErrInjectedCommit, d)
         else if \<not> eCommit env then (Inl ErrStorage, d)
         else (notify env kind x, d'))"

text \<open>
  An operation checks its input first and enters the transaction only with a valid one.
\<close>

definition checked :: "bool \<Rightarrow> (repo_error + 'a) \<times> db \<Rightarrow> db \<Rightarrow> (repo_error + 'a) \<times> db" where
  "checked ok run d = (if ok then run else (Inl ErrInvalid, d))"

section \<open>Input checks\<close>

definition validateID :: "string \<Rightarrow> bool" where
  "validateID s = (let v = TrimSpace s in
    v \<noteq> '''' \<and> length v \<le> 128 \<and> \<not> list_ex (\<lambda>c. of_char c < (0x20 :: nat) \<or> of_char c = (0x7f :: nat)) v)"

definition ToLower :: "repo_env \<Rightarrow> string \<Rightarrow> string" where
  "ToLower env s =
    (if list_ex (\<lambda>c. of_char c \<ge> (0x80 :: nat)) s then eLower env s
     else map (\<lambda>c. if 65 \<le> (of_char c :: nat) \<and> (of_char c :: nat) \<le> 90 then char_of (of_char c + 32 :: nat) else c) s)"

definition validateHandle :: "repo_env \<Rightarrow> string \<Rightarrow> bool" where
  "validateHandle env s = (validateID s \<and> ToLower env s = s \<and> \<not> list_ex (\<lambda>c. c \<in> {CHR '' '', CHR ''/'', CHR 0x5C}) s)"

definition nullableID :: "string \<Rightarrow> string option" where
  "nullableID s = (if s = '''' then None else Some s)"

text \<open>
  The time an operation stamps its row with: the caller's, or the clock when
  \<^verbatim>\<open>UnixNano\<close> of the caller's time is 0.
\<close>

definition stamp :: "repo_env \<Rightarrow> gotime \<Rightarrow> int" where
  "stamp env t = (let ns = UnixNano t in if ns = 0 then UnixNano (eNow env) else ns)"

text \<open>
  The zero time is not replaced by the clock: it wraps to a time in the year 1754.
\<close>

lemma zero_time_kept: "stamp env zeroTime = - 6795364578871345152"
  by (simp add: stamp_def UnixNano_def zeroTime_def)

text \<open>
  \<^verbatim>\<open>fmt.Sprint\<close> of an integer.
\<close>

function show_nat :: "nat \<Rightarrow> string" where
  "show_nat n = (if n < 10 then [char_of (48 + n)] else show_nat (n div 10) @ [char_of (48 + n mod 10)])"
  by pat_completeness auto
termination by (relation "measure id") auto

declare show_nat.simps [simp del]

definition Sprint :: "int \<Rightarrow> string" where
  "Sprint i = (if i < 0 then ''-'' @ show_nat (nat (- i)) else show_nat (nat i))"

text \<open>
  \<^verbatim>\<open>bytesEqual\<close>, which looks at every byte: the accumulated difference is zero.
\<close>

definition bytesEqual :: "bytes \<Rightarrow> bytes \<Rightarrow> bool" where
  "bytesEqual a b = (length a = length b \<and> foldl (\<lambda>x (p, q). x OR (p XOR q)) (0 :: byte) (zip a b) = 0)"

section \<open>Audit log\<close>

text \<open>
  \<open>audit\<close> appends one event, whose \<open>aeOccurred\<close> and empty details it fills in.
\<close>

definition actor_kinds :: "string list" where
  "actor_kinds = [''public_registration'', ''device'', ''recovery'', ''operator'', ''system'']"

definition audit :: "repo_env \<Rightarrow> audit_event \<Rightarrow> db \<Rightarrow> repo_error + db" where
  "audit env input d =
    (if \<not> validateID (aeId input) then Inl ErrInvalid
     else if aeActorKind input = '''' \<or> aeAction input = '''' \<or> aeTargetKind input = '''' \<or> aeTargetId input = '''' then Inl ErrInvalid
     else if length (aeActorSnapshot input) > 2048 \<or> length (aeTargetSnapshot input) > 2048 \<or> length (aeDetails input) > 8192 then Inl ErrInvalid
     else let e = (if aeDetails input = '''' then input\<lparr>aeDetails := ''{}''\<rparr> else input) in
       if aeDetails e \<noteq> ''{}'' \<and> \<not> eJson env (aeDetails e) then Inl ErrInvalid
       else sum_bind
         (insert_row (aeActorKind e \<in> set actor_kinds) (\<lambda>r. aeId r = aeId e) True
           (e\<lparr>aeOccurred := UnixNano (eAuditNow env)\<rparr>) (auditEvents d))
         (\<lambda>rows. Inr (d\<lparr>auditEvents := rows\<rparr>)))"

text \<open>
  The event of an operation by one actor on one target; details are left empty.
\<close>

definition event_of ::
  "string \<Rightarrow> string \<Rightarrow> string \<Rightarrow> string \<Rightarrow> string \<Rightarrow> string \<Rightarrow> string \<Rightarrow> string \<Rightarrow> string \<Rightarrow> string \<Rightarrow> audit_event" where
  "event_of i scope kind actor dev action tkind target asnap tsnap =
    \<lparr>aeId = i, aeScope = scope, aeOccurred = 0, aeActorKind = kind, aeActorAuthor = actor, aeActorDevice = dev,
     aeAction = action, aeTargetKind = tkind, aeTargetId = target, aeActorSnapshot = asnap, aeTargetSnapshot = tsnap,
     aeDetails = ''''\<rparr>"

definition clampLimit :: "int \<Rightarrow> nat" where
  "clampLimit limit = (if limit \<le> 0 \<or> limit > 1000 then 1000 else nat limit)"

text \<open>
  \<^verbatim>\<open>ORDER BY occurred_at_ns DESC\<close>; rows of equal time keep the order of the table.
\<close>

definition audit_order :: "audit_event list \<Rightarrow> audit_event list" where
  "audit_order rows = sort_key (\<lambda>e. - aeOccurred e) rows"

definition ListAudit :: "db \<Rightarrow> string \<Rightarrow> int \<Rightarrow> audit_event list" where
  "ListAudit d scope limit = take (clampLimit limit) (audit_order (filter (\<lambda>e. aeScope e = scope) (auditEvents d)))"

definition ListAuditFiltered :: "db \<Rightarrow> string \<Rightarrow> string \<Rightarrow> string \<Rightarrow> gotime \<Rightarrow> int \<Rightarrow> repo_error + audit_event list" where
  "ListAuditFiltered d scope action tkind before limit =
    (if scope \<noteq> '''' \<and> \<not> validateID scope then Inl ErrInvalid
     else if action \<noteq> '''' \<and> \<not> validateID action then Inl ErrInvalid
     else if tkind \<noteq> '''' \<and> \<not> validateID tkind then Inl ErrInvalid
     else Inr (take (clampLimit limit) (audit_order (filter (\<lambda>e.
        (scope = '''' \<or> aeScope e = scope) \<and> (action = '''' \<or> aeAction e = action) \<and>
        (tkind = '''' \<or> aeTargetKind e = tkind) \<and> (before = zeroTime \<or> aeOccurred e < UnixNano before)) (auditEvents d)))))"

definition PruneAudit :: "repo_env \<Rightarrow> gotime \<Rightarrow> db \<Rightarrow> (repo_error + nat) \<times> db" where
  "PruneAudit env before = mutate env ''audit-prune'' ''audit'' (\<lambda>d.
    let old = (\<lambda>e. aeOccurred e < UnixNano before) in
    Inr (count_rows old (auditEvents d), d\<lparr>auditEvents := delete_rows old (auditEvents d)\<rparr>))"

definition SetServerIdentity :: "repo_env \<Rightarrow> server_identity \<Rightarrow> gotime \<Rightarrow> db \<Rightarrow> (repo_error + unit) \<times> db" where
  "SetServerIdentity env s created d =
    checked (validateID (siId s) \<and> siAlgorithm s \<noteq> '''' \<and> siFingerprint s \<noteq> '''')
     (mutate env ''server-identity'' ''server'' (\<lambda>d. Inr ((), d\<lparr>serverIdentity := Some (case serverIdentity d of
        None \<Rightarrow> s\<lparr>siCreated := stamp env created\<rparr>
      | Some old \<Rightarrow> s\<lparr>siCreated := siCreated old\<rparr>)\<rparr>)) d) d"

definition ServerIdentity :: "db \<Rightarrow> repo_error + server_identity" where
  "ServerIdentity d = (case serverIdentity d of None \<Rightarrow> Inl ErrNotFound | Some s \<Rightarrow> Inr s)"

text \<open>
  An environment in which the engine and the listeners work.
\<close>

definition healthy :: "repo_env \<Rightarrow> repo_env" where
  "healthy env = env\<lparr>eBegin := True, eStatement := (\<lambda>_. False), eEngine := (\<lambda>_. False), eCommitFault := (\<lambda>_. False),
     eCommit := True, eListener := False\<rparr>"

text \<open>
  A working environment, for examples.
\<close>

definition demo_env :: repo_env where
  "demo_env = \<lparr>eNow = 5, eAuditNow = 6, eBegin = True, eStatement = (\<lambda>_. False), eEngine = (\<lambda>_. False),
     eCommitFault = (\<lambda>_. False), eCommit = True, eListener = False, eSha = (\<lambda>b. b), eLower = id, eJson = (\<lambda>_. True),
     eRandom1 = ''1'', eRandom2 = ''2'', eKVMaxKeys = 1, eKVMaxBytes = 9\<rparr>"

section \<open>Lemmas on statements and transactions\<close>

named_theorems repo_simps \<open>rules that unfold a successful transaction body\<close>

lemma sum_bind_Inr [repo_simps]: "sum_bind x f = Inr y \<longleftrightarrow> (\<exists>a. x = Inr a \<and> f a = Inr y)"
  by (auto simp: sum_bind_def split: sum.splits)

lemma guard_Inr [repo_simps]: "(if P then Inl e else r) = Inr y \<longleftrightarrow> \<not> P \<and> r = Inr y"
  by simp

lemma sum_bind_simps [simp]: "sum_bind (Inr a) f = f a" "sum_bind (Inl e) f = Inl e"
  by (simp_all add: sum_bind_def)

lemma insert_row_Inr [repo_simps]:
  "insert_row checks clash fks r rows = Inr rows' \<longleftrightarrow> checks \<and> (\<forall>x\<in>set rows. \<not> clash x) \<and> fks \<and> rows' = rows @ [r]"
  by (auto simp: insert_row_def list_ex_iff)

lemma set_delete_rows [simp]: "set (delete_rows P rows) = {r \<in> set rows. \<not> P r}"
  by (auto simp: delete_rows_def)

lemma set_update_rows: "set (update_rows P f rows) = (\<lambda>r. if P r then f r else r) ` set rows"
  by (auto simp: update_rows_def)

lemma count_rows_zero [simp]: "count_rows P rows = 0 \<longleftrightarrow> (\<forall>r\<in>set rows. \<not> P r)"
  by (auto simp: count_rows_def filter_empty_conv)

lemma update_rows_keep: "(\<And>r. P r \<Longrightarrow> g (f r) = g r) \<Longrightarrow> map g (update_rows P f rows) = map g rows"
  by (simp add: update_rows_def)

lemma distinct_delete_rows: "distinct (map g rows) \<Longrightarrow> distinct (map g (delete_rows P rows))"
  by (auto simp: delete_rows_def distinct_map_filter)

lemma find_set: "find P rows = Some r \<Longrightarrow> r \<in> set rows \<and> P r"
  by (metis find_Some_iff nth_mem)

lemma find_none: "find P rows = None \<longleftrightarrow> (\<forall>r\<in>set rows. \<not> P r)"
  by (auto simp: find_None_iff)

lemma find_unique:
  "distinct (map g rows) \<Longrightarrow> r \<in> set rows \<Longrightarrow> find (\<lambda>x. g x = g r) rows = Some r"
  by (induction rows) (auto simp: image_iff)

lemma find_key: "distinct (map g rows) \<Longrightarrow> find (\<lambda>x. g x = k) rows = Some r \<longleftrightarrow> r \<in> set rows \<and> g r = k"
  using find_unique [of g rows r] by (auto dest: find_set)

lemma update_rows_none: "\<forall>x\<in>set xs. \<not> P x \<Longrightarrow> update_rows P f xs = xs"
  by (simp add: update_rows_def map_idI)

lemma find_update:
  "(\<And>u. g (f u) = g u) \<Longrightarrow>
   find (\<lambda>u. g u = x) (update_rows P f us) = map_option (\<lambda>u. if P u then f u else u) (find (\<lambda>u. g u = x) us)"
  by (induction us) (auto simp: update_rows_def)

lemma audit_Inr:
  "audit env e d = Inr d' \<Longrightarrow> \<exists>rows. d' = d\<lparr>auditEvents := rows\<rparr>"
  by (auto simp: audit_def Let_def repo_simps split: if_splits)

lemma mapRepositoryError_not_listener [simp]: "mapRepositoryError e \<noteq> ErrListener"
  by (auto simp: mapRepositoryError_def mapConstraint_def storageError_def repository_errors_def)

lemma mutate_cases:
  obtains (same) e where "mutate env operation kind fn d = (Inl e, d)" "e \<noteq> ErrListener"
  | (changed) x d' where "fn d = Inr (x, d')" "mutate env operation kind fn d = (notify env kind x, d')"
proof (cases "fn d")
  case (Inl e)
  then show thesis by (cases "eBegin env"; cases "eStatement env operation"; cases "eEngine env operation") (auto simp: mutate_def intro: same)
next
  case (Inr p)
  show thesis
  proof (cases "eBegin env \<and> \<not> eStatement env operation \<and> \<not> eEngine env operation \<and> \<not> eCommitFault env operation \<and> eCommit env")
    case True
    with Inr show thesis by (cases p) (auto simp: mutate_def intro: changed)
  next
    case False
    with Inr have "\<exists>e. mutate env operation kind fn d = (Inl e, d) \<and> e \<noteq> ErrListener"
      by (cases p) (simp add: mutate_def, blast)
    then show thesis using same by blast
  qed
qed

lemma mutate_inv:
  assumes "Q d" and "\<And>x d'. fn d = Inr (x, d') \<Longrightarrow> Q d'"
  shows "Q (snd (mutate env operation kind fn d))"
  using assms by (cases rule: mutate_cases [of env operation kind fn d]) auto

lemma mutate_error_unchanged:
  "mutate env operation kind fn d = (Inl e, d') \<Longrightarrow> e \<noteq> ErrListener \<Longrightarrow> d' = d"
  by (cases rule: mutate_cases [of env operation kind fn d]) (auto simp: notify_def split: if_splits)

lemma mutate_Inr:
  "mutate env operation kind fn d = (Inr x, d') \<Longrightarrow> fn d = Inr (x, d')"
  by (cases rule: mutate_cases [of env operation kind fn d]) (auto simp: notify_def split: if_splits)

lemma checked_inv: "Q d \<Longrightarrow> (ok \<Longrightarrow> Q (snd run)) \<Longrightarrow> Q (snd (checked ok run d))"
  by (simp add: checked_def)

lemma checked_Inr: "checked ok run d = (Inr x, d') \<longleftrightarrow> ok \<and> run = (Inr x, d')"
  by (simp add: checked_def)

lemma mutate_healthy:
  "mutate (healthy env) operation kind fn d = (case fn d of Inl e \<Rightarrow> (Inl (mapRepositoryError e), d) | Inr (x, d') \<Rightarrow> (Inr x, d'))"
  by (simp add: mutate_def healthy_def notify_def split: sum.splits prod.splits)

lemma healthy_fields [simp]:
  "eListener (healthy env) = False" "eSha (healthy env) = eSha env" "eNow (healthy env) = eNow env"
  "eKVMaxKeys (healthy env) = eKVMaxKeys env" "eKVMaxBytes (healthy env) = eKVMaxBytes env"
  by (simp_all add: healthy_def)

lemma bytesEqual_iff: "bytesEqual a b \<longleftrightarrow> a = b"
proof -
  have "foldl (\<lambda>x (p, q). x OR (p XOR q)) acc (zip a b) = 0 \<longleftrightarrow> acc = 0 \<and> a = b" if "length a = length b" for acc
    using that
  proof (induction a b arbitrary: acc rule: list_induct2)
    case (Cons p a q b)
    have "acc OR (p XOR q) = 0 \<longleftrightarrow> acc = 0 \<and> p = q"
      by (auto simp: bit_eq_iff bit_simps)
    with Cons show ?case by auto
  qed simp
  then show ?thesis by (auto simp: bytesEqual_def)
qed

section \<open>Identifiers of printable characters\<close>

lemma validateID_printable: "s \<noteq> [] \<Longrightarrow> length s \<le> 128 \<Longrightarrow> list_all printable s \<Longrightarrow> validateID s"
  by (auto simp: validateID_def TrimSpace_def trim_left_printable spaces_not_printable)
    (auto simp: list_ex_iff list_all_iff printable_def)

end
