(* ===== verification/Repo_Schema.thy ===== *)
theory Repo_Schema
  imports Repo_Model
begin

text \<open>
  The writes to the tables of the repository with the constraints of
  \<^verbatim>\<open>internal/sqlite/schema.go\<close>: one definition per \<^verbatim>\<open>INSERT\<close>, the cascades of a
  deleted author or deployment, and what a successful insert says about the tables.
\<close>

section \<open>Existence of a row\<close>

definition has_author :: "db \<Rightarrow> string \<Rightarrow> bool" where
  "has_author d i = list_ex (\<lambda>a. auId a = i) (authors d)"

definition has_app :: "db \<Rightarrow> string \<Rightarrow> bool" where
  "has_app d i = list_ex (\<lambda>a. apId a = i) (apps d)"

definition has_device :: "db \<Rightarrow> string \<Rightarrow> bool" where
  "has_device d i = list_ex (\<lambda>v. dvId v = i) (devices d)"

definition has_artifact :: "db \<Rightarrow> string \<Rightarrow> bool" where
  "has_artifact d i = list_ex (\<lambda>a. arId a = i) (artifacts d)"

definition active_device :: "db \<Rightarrow> string \<Rightarrow> string \<Rightarrow> bool" where
  "active_device d i author = list_ex (\<lambda>v. dvId v = i \<and> dvAuthor v = author \<and> dvRevoked v = None) (devices d)"

section \<open>Inserts\<close>

definition insert_author :: "author \<Rightarrow> db \<Rightarrow> repo_error + db" where
  "insert_author r d = sum_bind
    (insert_row True (\<lambda>x. auId x = auId r \<or> auHandle x = auHandle r) True r (authors d)) (\<lambda>rows. Inr (d\<lparr>authors := rows\<rparr>))"

definition insert_tombstone :: "tombstone \<Rightarrow> db \<Rightarrow> repo_error + db" where
  "insert_tombstone r d = sum_bind
    (insert_row (tbReason r \<in> {''renamed'', ''removed''} \<and> tbReserved r \<le> tbAvailable r)
      (\<lambda>x. tbHandle x = tbHandle r) True r (tombstones d)) (\<lambda>rows. Inr (d\<lparr>tombstones := rows\<rparr>))"

definition insert_recovery :: "recovery \<Rightarrow> db \<Rightarrow> repo_error + db" where
  "insert_recovery r d = sum_bind
    (insert_row (1 \<le> rcGeneration r) (\<lambda>x. rcAuthor x = rcAuthor r) (has_author d (rcAuthor r)) r (recoveries d))
    (\<lambda>rows. Inr (d\<lparr>recoveries := rows\<rparr>))"

definition insert_device :: "device_row \<Rightarrow> db \<Rightarrow> repo_error + db" where
  "insert_device r d = sum_bind
    (insert_row True (\<lambda>x. dvId x = dvId r \<or> dvFingerprint x = dvFingerprint r \<or> (dvAuthor x = dvAuthor r \<and> dvName x = dvName r))
      (has_author d (dvAuthor r)) r (devices d))
    (\<lambda>rows. Inr (d\<lparr>devices := rows\<rparr>))"

definition insert_token :: "enrollment_token \<Rightarrow> db \<Rightarrow> repo_error + db" where
  "insert_token r d = sum_bind
    (insert_row (etPurpose r \<in> {''add_device'', ''operator_recovery''} \<and> etIssuedByKind r \<in> {''device'', ''operator''} \<and>
        etFailed r \<le> 5 \<and> etCreated r < etExpires r \<and> (etIssuedByKind r = ''device'' \<longleftrightarrow> etIssuedByDevice r \<noteq> None))
      (\<lambda>x. etId x = etId r) (has_author d (etAuthor r)) r (tokens d))
    (\<lambda>rows. Inr (d\<lparr>tokens := rows\<rparr>))"

definition insert_authority :: "bootstrap_authority \<Rightarrow> db \<Rightarrow> repo_error + db" where
  "insert_authority r d = sum_bind
    (insert_row (baFailed r \<le> 5 \<and> baCreated r < baExpires r) (\<lambda>x. baId x = baId r) True r (authorities d))
    (\<lambda>rows. Inr (d\<lparr>authorities := rows\<rparr>))"

definition insert_app :: "app \<Rightarrow> db \<Rightarrow> repo_error + db" where
  "insert_app r d = sum_bind
    (insert_row (apKind r \<in> {''tui'', ''cli'', ''vm''} \<and> apAccess r \<in> {''public'', ''restricted''})
      (\<lambda>x. apId x = apId r \<or> (apAuthor x = apAuthor r \<and> apName x = apName r)) (has_author d (apAuthor r)) r (apps d))
    (\<lambda>rows. Inr (d\<lparr>apps := rows\<rparr>))"

text \<open>
  \<^verbatim>\<open>length(digest)=71 AND substr(digest,1,7)='sha256:' AND substr(digest,8) NOT GLOB '*[^0-9a-f]*'\<close>,
  and the triggers that keep the sizes of an artifact and its blob equal.
\<close>

definition digest_format :: "string \<Rightarrow> bool" where
  "digest_format s = (length s = 71 \<and> take 7 s = ''sha256:'' \<and> list_all (\<lambda>c. c \<in> set ''0123456789abcdef'') (drop 7 s))"

definition insert_blob :: "blob \<Rightarrow> db \<Rightarrow> repo_error + db" where
  "insert_blob r d = sum_bind
    (insert_row (0 \<le> blSize r \<and> int (length (blWasm r)) = blSize r \<and> digest_format (blDigest r) \<and>
        \<not> list_ex (\<lambda>a. arDigest a = blDigest r \<and> arSize a \<noteq> blSize r) (artifacts d))
      (\<lambda>x. blDigest x = blDigest r) True r (blobs d))
    (\<lambda>rows. Inr (d\<lparr>blobs := rows\<rparr>))"

definition insert_artifact :: "artifact \<Rightarrow> db \<Rightarrow> repo_error + db" where
  "insert_artifact r d = sum_bind
    (insert_row (0 \<le> arSize r \<and> 0 \<le> arAbi r \<and> arAbi r \<le> 255 \<and> digest_format (arDigest r) \<and>
        \<not> list_ex (\<lambda>b. blDigest b = arDigest r \<and> blSize b \<noteq> arSize r) (blobs d))
      (\<lambda>x. arId x = arId r) True r (artifacts d))
    (\<lambda>rows. Inr (d\<lparr>artifacts := rows\<rparr>))"

definition insert_metadata :: "string \<times> string \<times> string \<Rightarrow> db \<Rightarrow> repo_error + db" where
  "insert_metadata r d = sum_bind
    (insert_row True (\<lambda>x. fst x = fst r \<and> fst (snd x) = fst (snd r)) (has_artifact d (fst r)) r (buildMetadata d))
    (\<lambda>rows. Inr (d\<lparr>buildMetadata := rows\<rparr>))"

definition insert_access_key :: "access_key \<Rightarrow> db \<Rightarrow> repo_error + db" where
  "insert_access_key r d = sum_bind
    (insert_row True (\<lambda>x. akId x = akId r \<or> (akApp x = akApp r \<and> (akName x = akName r \<or> akFingerprint x = akFingerprint r)))
      (has_app d (akApp r) \<and> has_device d (akAddedBy r)) r (accessKeys d))
    (\<lambda>rows. Inr (d\<lparr>accessKeys := rows\<rparr>))"

definition insert_deployment :: "deployment \<Rightarrow> db \<Rightarrow> repo_error + db" where
  "insert_deployment r d = sum_bind
    (insert_row True (\<lambda>x. dpId x = dpId r)
      (has_app d (dpApp r) \<and> has_artifact d (dpArtifact r) \<and> has_device d (dpDevice r)) r (deployments d))
    (\<lambda>rows. Inr (d\<lparr>deployments := rows\<rparr>))"

text \<open>
  \<^verbatim>\<open>INSERT ... ON CONFLICT(key) DO UPDATE\<close>. For the active deployment of an app the
  deployment is UNIQUE too, and the pair references a deployment of this app.
\<close>

definition upsert :: "('r \<Rightarrow> bool) \<Rightarrow> ('r \<Rightarrow> 'r) \<Rightarrow> 'r \<Rightarrow> 'r list \<Rightarrow> 'r list" where
  "upsert same f r rows = (if list_ex same rows then update_rows same f rows else rows @ [r])"

definition set_active :: "string \<Rightarrow> string \<Rightarrow> db \<Rightarrow> repo_error + db" where
  "set_active a i d =
    (if list_ex (\<lambda>(a', i'). i' = i \<and> a' \<noteq> a) (activeDeployments d) then Inl SqlUnique
     else if \<not> list_ex (\<lambda>p. dpId p = i \<and> dpApp p = a) (deployments d) then Inl SqlOther
     else Inr (d\<lparr>activeDeployments := upsert (\<lambda>x. fst x = a) (\<lambda>x. (a, i)) (a, i) (activeDeployments d)\<rparr>))"

definition insert_quota :: "quota \<Rightarrow> db \<Rightarrow> repo_error + db" where
  "insert_quota r d = sum_bind
    (insert_row True (\<lambda>x. qtAuthor x = qtAuthor r) (has_author d (qtAuthor r)) r (quotas d)) (\<lambda>rows. Inr (d\<lparr>quotas := rows\<rparr>))"

definition insert_session :: "session_row \<Rightarrow> db \<Rightarrow> repo_error + db" where
  "insert_session r d = sum_bind
    (insert_row True (\<lambda>x. ssId x = ssId r) True r (sessions d)) (\<lambda>rows. Inr (d\<lparr>sessions := rows\<rparr>))"

section \<open>Cascading deletes\<close>

text \<open>
  \<^verbatim>\<open>DELETE FROM app_deployments\<close>: the suspension row goes with it; a remaining reference
  from the active deployments (no cascade) fails the statement.
\<close>

definition delete_deployment :: "string \<Rightarrow> db \<Rightarrow> repo_error + db" where
  "delete_deployment i d =
    (if list_ex (\<lambda>(a, i'). i' = i) (activeDeployments d) then Inl SqlOther
     else Inr (d\<lparr>deployments := delete_rows (\<lambda>p. dpId p = i) (deployments d),
                 suspendedDeployments := delete_rows (\<lambda>s. s = i) (suspendedDeployments d)\<rparr>))"

text \<open>
  \<^verbatim>\<open>DELETE FROM artifacts\<close> removes the build metadata too.
\<close>

definition delete_artifacts :: "(artifact \<Rightarrow> bool) \<Rightarrow> db \<Rightarrow> db" where
  "delete_artifacts P d = d\<lparr>artifacts := delete_rows P (artifacts d),
     buildMetadata := delete_rows (\<lambda>m. list_ex (\<lambda>a. P a \<and> arId a = fst m) (artifacts d)) (buildMetadata d)\<rparr>"

text \<open>
  \<^verbatim>\<open>DELETE FROM authors WHERE id=?\<close> with everything that references the author, its apps and
  their deployments; devices are also referenced without a cascade, by access keys
  and deployments, and the statement fails if one of them would dangle.
\<close>

definition delete_author :: "string \<Rightarrow> db \<Rightarrow> repo_error + db" where
  "delete_author i d =
    (let app_gone = (\<lambda>a. list_ex (\<lambda>x. apId x = a \<and> apAuthor x = i) (apps d));
         dep_gone = (\<lambda>p. list_ex (\<lambda>x. dpId x = p \<and> app_gone (dpApp x)) (deployments d));
         dev_gone = (\<lambda>v. list_ex (\<lambda>x. dvId x = v \<and> dvAuthor x = i) (devices d));
         keys' = delete_rows (\<lambda>k. app_gone (akApp k)) (accessKeys d);
         deps' = delete_rows (\<lambda>p. app_gone (dpApp p)) (deployments d);
         active' = delete_rows (\<lambda>x. app_gone (fst x)) (activeDeployments d)
     in if list_ex (\<lambda>k. dev_gone (akAddedBy k)) keys' \<or> list_ex (\<lambda>p. dev_gone (dpDevice p)) deps' \<or>
           list_ex (\<lambda>x. dep_gone (snd x)) active' then Inl SqlOther
        else Inr (d\<lparr>authors := delete_rows (\<lambda>a. auId a = i) (authors d),
          recoveries := delete_rows (\<lambda>r. rcAuthor r = i) (recoveries d),
          devices := delete_rows (\<lambda>v. dvAuthor v = i) (devices d),
          tokens := delete_rows (\<lambda>t. etAuthor t = i) (tokens d),
          quotas := delete_rows (\<lambda>q. qtAuthor q = i) (quotas d),
          apps := delete_rows (\<lambda>a. apAuthor a = i) (apps d),
          accessKeys := keys', deployments := deps', activeDeployments := active',
          suspendedDeployments := delete_rows dep_gone (suspendedDeployments d),
          capabilityConfig := delete_rows (\<lambda>c. app_gone (fst c)) (capabilityConfig d),
          capabilityValues := delete_rows (\<lambda>c. app_gone (fst c)) (capabilityValues d),
          secrets := delete_rows (\<lambda>s. app_gone (scApp s)) (secrets d),
          secretValues := delete_rows (\<lambda>s. app_gone (fst s)) (secretValues d),
          egress := delete_rows (\<lambda>e. app_gone (fst e)) (egress d),
          kvEntries := delete_rows (\<lambda>e. app_gone (keApp e)) (kvEntries d),
          kvUsages := delete_rows (\<lambda>u. app_gone (kuApp u)) (kvUsages d)\<rparr>))"

section \<open>Successful inserts\<close>

lemma insert_author_Inr [repo_simps]:
  "insert_author r d = Inr d' \<longleftrightarrow> (\<forall>x\<in>set (authors d). auId x \<noteq> auId r \<and> auHandle x \<noteq> auHandle r) \<and>
     d' = d\<lparr>authors := authors d @ [r]\<rparr>"
  by (auto simp: insert_author_def sum_bind_Inr insert_row_Inr)

lemma insert_tombstone_Inr [repo_simps]:
  "insert_tombstone r d = Inr d' \<longleftrightarrow> tbReason r \<in> {''renamed'', ''removed''} \<and> tbReserved r \<le> tbAvailable r \<and>
     (\<forall>x\<in>set (tombstones d). tbHandle x \<noteq> tbHandle r) \<and> d' = d\<lparr>tombstones := tombstones d @ [r]\<rparr>"
  by (auto simp: insert_tombstone_def sum_bind_Inr insert_row_Inr)

lemma insert_recovery_Inr [repo_simps]:
  "insert_recovery r d = Inr d' \<longleftrightarrow> 1 \<le> rcGeneration r \<and> (\<forall>x\<in>set (recoveries d). rcAuthor x \<noteq> rcAuthor r) \<and>
     has_author d (rcAuthor r) \<and> d' = d\<lparr>recoveries := recoveries d @ [r]\<rparr>"
  by (auto simp: insert_recovery_def sum_bind_Inr insert_row_Inr)

lemma insert_device_Inr [repo_simps]:
  "insert_device r d = Inr d' \<longleftrightarrow> (\<forall>x\<in>set (devices d). dvId x \<noteq> dvId r \<and> dvFingerprint x \<noteq> dvFingerprint r \<and>
     \<not> (dvAuthor x = dvAuthor r \<and> dvName x = dvName r)) \<and> has_author d (dvAuthor r) \<and> d' = d\<lparr>devices := devices d @ [r]\<rparr>"
  by (auto simp: insert_device_def sum_bind_Inr insert_row_Inr)

lemma insert_quota_Inr [repo_simps]:
  "insert_quota r d = Inr d' \<longleftrightarrow> (\<forall>x\<in>set (quotas d). qtAuthor x \<noteq> qtAuthor r) \<and> has_author d (qtAuthor r) \<and>
     d' = d\<lparr>quotas := quotas d @ [r]\<rparr>"
  by (auto simp: insert_quota_def sum_bind_Inr insert_row_Inr)

lemma insert_blob_Inr [repo_simps]:
  "insert_blob r d = Inr d' \<longleftrightarrow> int (length (blWasm r)) = blSize r \<and> digest_format (blDigest r) \<and>
     (\<forall>a\<in>set (artifacts d). arDigest a = blDigest r \<longrightarrow> arSize a = blSize r) \<and>
     (\<forall>x\<in>set (blobs d). blDigest x \<noteq> blDigest r) \<and> d' = d\<lparr>blobs := blobs d @ [r]\<rparr>"
  by (auto simp: insert_blob_def sum_bind_Inr insert_row_Inr list_ex_iff)

lemma insert_artifact_Inr [repo_simps]:
  "insert_artifact r d = Inr d' \<longleftrightarrow> 0 \<le> arSize r \<and> 0 \<le> arAbi r \<and> arAbi r \<le> 255 \<and> digest_format (arDigest r) \<and>
     (\<forall>b\<in>set (blobs d). blDigest b = arDigest r \<longrightarrow> blSize b = arSize r) \<and>
     (\<forall>x\<in>set (artifacts d). arId x \<noteq> arId r) \<and> d' = d\<lparr>artifacts := artifacts d @ [r]\<rparr>"
  by (auto simp: insert_artifact_def sum_bind_Inr insert_row_Inr list_ex_iff)

lemma insert_deployment_Inr [repo_simps]:
  "insert_deployment r d = Inr d' \<longleftrightarrow> (\<forall>x\<in>set (deployments d). dpId x \<noteq> dpId r) \<and> has_app d (dpApp r) \<and>
     has_artifact d (dpArtifact r) \<and> has_device d (dpDevice r) \<and> d' = d\<lparr>deployments := deployments d @ [r]\<rparr>"
  by (auto simp: insert_deployment_def sum_bind_Inr insert_row_Inr)

lemma insert_metadata_frame: "insert_metadata r d = Inr d' \<Longrightarrow> \<exists>x. d' = d\<lparr>buildMetadata := x\<rparr>"
  by (auto simp: insert_metadata_def sum_bind_Inr)

lemma insert_app_frame: "insert_app r d = Inr d' \<Longrightarrow> d' = d\<lparr>apps := apps d @ [r]\<rparr>"
  by (auto simp: insert_app_def sum_bind_Inr insert_row_Inr)

section \<open>Upserts\<close>

lemma find_upsert:
  assumes "\<And>u. g u = k \<Longrightarrow> g (f u) = k" "g r = k"
  shows "find (\<lambda>u. g u = x) (upsert (\<lambda>u. g u = k) f r us) =
    (if x = k then Some (case find (\<lambda>u. g u = k) us of None \<Rightarrow> r | Some u \<Rightarrow> f u) else find (\<lambda>u. g u = x) us)"
proof -
  have "find (\<lambda>u. g u = x) (update_rows (\<lambda>u. g u = k) f us) =
     (if x = k then map_option f (find (\<lambda>u. g u = k) us) else find (\<lambda>u. g u = x) us)"
    using assms(1) by (induction us) (auto simp: update_rows_def)
  moreover have "list_ex (\<lambda>u. g u = k) us \<longleftrightarrow> find (\<lambda>u. g u = k) us \<noteq> None"
    by (induction us) auto
  moreover have "find (\<lambda>u. g u = x) (us @ [r]) = (case find (\<lambda>u. g u = x) us of None \<Rightarrow> if g r = x then Some r else None | Some u \<Rightarrow> Some u)"
    by (induction us) auto
  ultimately show ?thesis using assms(2) by (auto simp: upsert_def split: option.splits)
qed

lemma distinct_upsert:
  assumes "distinct (map g us)" "\<And>u. same u \<Longrightarrow> g (f u) = g u" "\<And>u. same u \<longleftrightarrow> g u = g r"
  shows "distinct (map g (upsert same f r us))"
proof (cases "list_ex same us")
  case True
  then show ?thesis using assms(1) update_rows_keep [of same g f us] assms(2) by (simp add: upsert_def)
next
  case False
  then show ?thesis using assms(1,3) by (auto simp: upsert_def list_ex_iff)
qed

end
