(* ===== verification/Repo_Authors.thy ===== *)
theory Repo_Authors
  imports Repo_Schema
begin

text \<open>
  The identity side of the repository: authors and their handles, recovery material,
  devices, enrollment tokens and the operator's bootstrap authorities
  (\<^verbatim>\<open>repository.go\<close>, \<^verbatim>\<open>repository_operations.go\<close> and \<^verbatim>\<open>pairing.go\<close> of
  \<^verbatim>\<open>internal/sqlite\<close>).

  Each operation has a definition for its transaction body (suffix \<open>_tx\<close>) and one for
  the whole method: the input checks and the body inside \<^verbatim>\<open>mutate\<close>.
\<close>

section \<open>Registration\<close>

record registration_input =
  riAuthor :: string
  riHandle :: string
  riDevice :: string
  riDeviceName :: string
  riPublicKey :: string
  riFingerprint :: string
  riSalt :: bytes
  riVerifier :: bytes
  riCreated :: gotime
  riQuota :: "quota option"

definition ensureHandleAvailable :: "string \<Rightarrow> int \<Rightarrow> db \<Rightarrow> repo_error + db" where
  "ensureHandleAvailable handle nowNS d =
    (if list_ex (\<lambda>a. auHandle a = handle) (authors d) then Inl ErrConflict
     else let available = (case find (\<lambda>t. tbHandle t = handle) (tombstones d) of None \<Rightarrow> 0 | Some t \<Rightarrow> tbAvailable t);
              found = list_ex (\<lambda>t. tbHandle t = handle) (tombstones d)
       in if found \<and> available > nowNS then Inl ErrConflict
          else if available \<le> nowNS then Inr (d\<lparr>tombstones := delete_rows (\<lambda>t. tbHandle t = handle) (tombstones d)\<rparr>)
          else Inr d)"

definition new_device :: "string \<Rightarrow> string \<Rightarrow> string \<Rightarrow> string \<Rightarrow> string \<Rightarrow> int \<Rightarrow> device_row" where
  "new_device i author name key fp ns = \<lparr>dvId = i, dvAuthor = author, dvName = name, dvPublicKey = key, dvFingerprint = fp,
     dvCreated = ns, dvRevoked = None, dvRevokedByKind = None, dvRevokedById = None\<rparr>"

definition new_author :: "registration_input \<Rightarrow> int \<Rightarrow> author" where
  "new_author input ns =
    \<lparr>auId = riAuthor input, auHandle = riHandle input, auSuspended = False, auCreated = ns, auUpdated = ns\<rparr>"

definition registered_device :: "registration_input \<Rightarrow> int \<Rightarrow> device_row" where
  "registered_device input ns =
    new_device (riDevice input) (riAuthor input) (riDeviceName input) (riPublicKey input) (riFingerprint input) ns"

definition new_recovery :: "registration_input \<Rightarrow> int \<Rightarrow> recovery" where
  "new_recovery input ns = \<lparr>rcAuthor = riAuthor input, rcSalt = riSalt input, rcVerifier = riVerifier input,
     rcGeneration = 1, rcCreated = ns, rcRotated = ns\<rparr>"

text \<open>
  The quota of a registration. Only the public registration rejects negative limits.
\<close>

definition negative_quota :: "quota \<Rightarrow> bool" where
  "negative_quota q \<longleftrightarrow> qtApps q < 0 \<or> qtDeployments q < 0 \<or> qtSecrets q < 0 \<or> qtSessions q < 0"

definition register_quota :: "bool \<Rightarrow> registration_input \<Rightarrow> db \<Rightarrow> repo_error + db" where
  "register_quota check input d = (case riQuota input of
     None \<Rightarrow> Inr d
   | Some q \<Rightarrow>
       if qtAuthor q \<noteq> '''' \<and> qtAuthor q \<noteq> riAuthor input then Inl ErrInvalid
       else if check \<and> negative_quota q then Inl ErrInvalid
       else insert_quota (q\<lparr>qtAuthor := riAuthor input\<rparr>) d)"

text \<open>
  The rows of a new author, in the order of the statements that the public registration and
  the bootstrap registration share.
\<close>

definition registration_rows :: "bool \<Rightarrow> registration_input \<Rightarrow> int \<Rightarrow> db \<Rightarrow> repo_error + db" where
  "registration_rows check input ns d =
     sum_bind (ensureHandleAvailable (riHandle input) ns d) (\<lambda>d.
     sum_bind (insert_author (new_author input ns) d) (\<lambda>d.
     sum_bind (insert_recovery (new_recovery input ns) d) (\<lambda>d.
     sum_bind (insert_device (registered_device input ns) d) (register_quota check input))))"

definition RegisterAuthor_tx :: "repo_env \<Rightarrow> registration_input \<Rightarrow> db \<Rightarrow> repo_error + (author \<times> device_row) \<times> db" where
  "RegisterAuthor_tx env input d =
    (let ns = stamp env (riCreated input) in
     sum_bind (registration_rows True input ns d) (\<lambda>d.
     sum_bind (audit env (event_of (''audit_'' @ riAuthor input) (riAuthor input) ''public_registration'' (riAuthor input) ''''
        ''author.register'' ''author'' (riAuthor input) (riAuthor input) (riHandle input)) d) (\<lambda>d.
     Inr ((new_author input ns, registered_device input ns), d))))"

definition verifier_ok :: "bytes \<Rightarrow> bool" where
  "verifier_ok v \<longleftrightarrow> v \<noteq> [] \<and> length v \<le> 1024"

definition registration_ok :: "repo_env \<Rightarrow> registration_input \<Rightarrow> bool" where
  "registration_ok env input \<longleftrightarrow> validateID (riAuthor input) \<and> validateHandle env (riHandle input) \<and>
     list_all validateID [riDevice input, riDeviceName input, riPublicKey input, riFingerprint input]"

definition RegisterAuthor ::
  "repo_env \<Rightarrow> registration_input \<Rightarrow> db \<Rightarrow> (repo_error + author \<times> device_row) \<times> db" where
  "RegisterAuthor env input d =
    checked (registration_ok env input \<and> verifier_ok (riSalt input) \<and> verifier_ok (riVerifier input))
     (mutate env ''public-registration'' ''author'' (RegisterAuthor_tx env input) d) d"

section \<open>Authors\<close>

definition RenameAuthor_tx :: "repo_env \<Rightarrow> string \<Rightarrow> string \<Rightarrow> gotime \<Rightarrow> db \<Rightarrow> repo_error + unit \<times> db" where
  "RenameAuthor_tx env authorID newHandle reserveUntil d =
    (case find (\<lambda>a. auId a = authorID) (authors d) of
       None \<Rightarrow> Inl ErrNotFound
     | Some a \<Rightarrow>
         if auHandle a = newHandle then Inr ((), d)
         else let now = UnixNano (eNow env);
                  until = UnixNano reserveUntil;
                  available = (if until \<le> now then UnixNano (now + day_ns) else until) in
           sum_bind (ensureHandleAvailable newHandle now d) (\<lambda>d.
           sum_bind (insert_tombstone \<lparr>tbHandle = auHandle a, tbFormer = authorID, tbReason = ''renamed'',
              tbReserved = now, tbAvailable = available\<rparr> d) (\<lambda>d.
           if list_ex (\<lambda>x. auHandle x = newHandle \<and> auId x \<noteq> authorID) (authors d) then Inl SqlUnique
           else sum_bind (audit env (event_of (''audit_'' @ authorID @ ''_rename_'' @ Sprint now) authorID ''recovery'' authorID ''''
              ''author.rename'' ''author'' authorID ''recovery'' newHandle)
              (d\<lparr>authors := update_rows (\<lambda>x. auId x = authorID) (auHandle_update (\<lambda>_. newHandle) \<circ> auUpdated_update (\<lambda>_. now)) (authors d)\<rparr>)) (\<lambda>d.
           Inr ((), d)))))"

definition RenameAuthor :: "repo_env \<Rightarrow> string \<Rightarrow> string \<Rightarrow> gotime \<Rightarrow> db \<Rightarrow> (repo_error + unit) \<times> db" where
  "RenameAuthor env authorID newHandle reserveUntil d =
    checked (validateID authorID \<and> validateHandle env newHandle)
     (mutate env ''author-rename'' ''author'' (RenameAuthor_tx env authorID newHandle reserveUntil) d) d"

definition RetireAuthor_tx :: "repo_env \<Rightarrow> string \<Rightarrow> bytes \<Rightarrow> gotime \<Rightarrow> db \<Rightarrow> repo_error + unit \<times> db" where
  "RetireAuthor_tx env authorID verifier reserveUntil d =
    (case find (\<lambda>a. auId a = authorID) (authors d) of
       None \<Rightarrow> Inl ErrNotFound
     | Some a \<Rightarrow>
         sum_bind
          (if verifier = [] then Inr ()
           else case find (\<lambda>r. rcAuthor r = authorID) (recoveries d) of
             None \<Rightarrow> Inl ErrNotFound
           | Some r \<Rightarrow> if bytesEqual (rcVerifier r) verifier then Inr () else Inl ErrConflict) (\<lambda>_.
         let now = UnixNano (eNow env);
             until = UnixNano reserveUntil;
             available = (if until \<le> now then UnixNano (eNow env + day_ns) else until);
             actor = (if verifier = [] then ''operator'' else ''recovery'') in
         sum_bind (insert_tombstone \<lparr>tbHandle = auHandle a, tbFormer = authorID, tbReason = ''removed'',
            tbReserved = now, tbAvailable = available\<rparr> d) (\<lambda>d.
         sum_bind (audit env (event_of (''audit_'' @ authorID @ ''_retire'') authorID actor authorID ''''
            ''author.retire'' ''author'' authorID actor (auHandle a)) d) (\<lambda>d.
         sum_bind (delete_author authorID d) (\<lambda>d. Inr ((), d))))))"

definition RetireAuthor :: "repo_env \<Rightarrow> string \<Rightarrow> bytes \<Rightarrow> gotime \<Rightarrow> db \<Rightarrow> (repo_error + unit) \<times> db" where
  "RetireAuthor env authorID verifier reserveUntil d =
    checked (validateID authorID)
     (mutate env ''author-retire'' ''author'' (RetireAuthor_tx env authorID verifier reserveUntil) d) d"

definition getAuthor :: "db \<Rightarrow> string \<Rightarrow> repo_error + author" where
  "getAuthor d i = (if \<not> validateID i then Inl ErrInvalid
     else case find (\<lambda>a. auId a = i) (authors d) of None \<Rightarrow> Inl ErrNotFound | Some a \<Rightarrow> Inr a)"

definition RecoverySalt :: "db \<Rightarrow> string \<Rightarrow> repo_error + bytes" where
  "RecoverySalt d i = (if \<not> validateID i then Inl ErrInvalid
     else case find (\<lambda>r. rcAuthor r = i) (recoveries d) of None \<Rightarrow> Inl ErrNotFound | Some r \<Rightarrow> Inr (rcSalt r))"

text \<open>
  \<^verbatim>\<open>RotateRecovery\<close> replaces the recovery material when the current verifier is presented.
\<close>

definition rotate :: "repo_env \<Rightarrow> string \<Rightarrow> bytes \<Rightarrow> bytes \<Rightarrow> int \<Rightarrow> db \<Rightarrow> db" where
  "rotate env authorID salt verifier generation d =
    d\<lparr>recoveries := update_rows (\<lambda>r. rcAuthor r = authorID)
       (\<lambda>r. r\<lparr>rcSalt := salt, rcVerifier := verifier, rcGeneration := generation, rcRotated := UnixNano (eNow env)\<rparr>) (recoveries d)\<rparr>"

definition RotateRecovery_tx ::
  "repo_env \<Rightarrow> string \<Rightarrow> bytes \<Rightarrow> bytes \<Rightarrow> bytes \<Rightarrow> db \<Rightarrow> repo_error + unit \<times> db" where
  "RotateRecovery_tx env authorID currentVerifier newSalt newVerifier d =
    (case find (\<lambda>r. rcAuthor r = authorID) (recoveries d) of
       None \<Rightarrow> Inl ErrNotFound
     | Some r \<Rightarrow>
         if \<not> bytesEqual (rcVerifier r) currentVerifier then Inl ErrConflict
         else sum_bind (audit env (event_of (''audit_recovery_'' @ authorID @ ''_'' @ Sprint (rcGeneration r + 1)) authorID
            ''recovery'' authorID '''' ''author.recovery.rotate'' ''author'' authorID ''recovery'' authorID)
            (rotate env authorID newSalt newVerifier (rcGeneration r + 1) d)) (\<lambda>d. Inr ((), d)))"

definition RotateRecovery ::
  "repo_env \<Rightarrow> string \<Rightarrow> bytes \<Rightarrow> bytes \<Rightarrow> bytes \<Rightarrow> db \<Rightarrow> (repo_error + unit) \<times> db" where
  "RotateRecovery env authorID currentVerifier newSalt newVerifier d =
    checked (validateID authorID \<and> currentVerifier \<noteq> [] \<and> verifier_ok newSalt \<and> verifier_ok newVerifier)
     (mutate env ''recovery-rotate'' ''author'' (RotateRecovery_tx env authorID currentVerifier newSalt newVerifier) d) d"

definition SetQuota :: "repo_env \<Rightarrow> quota \<Rightarrow> db \<Rightarrow> (repo_error + unit) \<times> db" where
  "SetQuota env q d = checked (validateID (qtAuthor q) \<and> \<not> negative_quota q)
    (mutate env ''quota-set'' ''author'' (\<lambda>d.
      if \<not> has_author d (qtAuthor q) then Inl ErrNotFound
      else Inr ((), d\<lparr>quotas := upsert (\<lambda>x. qtAuthor x = qtAuthor q) (\<lambda>_. q) q (quotas d)\<rparr>)) d) d"

section \<open>Devices\<close>

definition getDevice :: "db \<Rightarrow> string \<Rightarrow> repo_error + device" where
  "getDevice d i = (if \<not> validateID i then Inl ErrInvalid
     else case find (\<lambda>v. dvId v = i) (devices d) of None \<Rightarrow> Inl ErrNotFound | Some v \<Rightarrow> Inr (device.truncate v))"

definition DeviceByFingerprint :: "db \<Rightarrow> string \<Rightarrow> repo_error + device" where
  "DeviceByFingerprint d fp = (if TrimSpace fp = '''' then Inl ErrInvalid
     else case find (\<lambda>v. dvFingerprint v = fp \<and> dvRevoked v = None) (devices d) of
       None \<Rightarrow> Inl ErrNotFound | Some v \<Rightarrow> Inr (device.truncate v))"

definition active_count :: "db \<Rightarrow> string \<Rightarrow> nat" where
  "active_count d author = count_rows (\<lambda>v. dvAuthor v = author \<and> dvRevoked v = None) (devices d)"

definition revoke :: "int \<Rightarrow> string \<Rightarrow> string option \<Rightarrow> (device_row \<Rightarrow> bool) \<Rightarrow> db \<Rightarrow> db" where
  "revoke now kind actor which d = d\<lparr>devices := update_rows (\<lambda>v. which v \<and> dvRevoked v = None)
     (\<lambda>v. v\<lparr>dvRevoked := Some now, dvRevokedByKind := Some kind, dvRevokedById := actor\<rparr>) (devices d)\<rparr>"

definition RevokeDevice_tx :: "repo_env \<Rightarrow> string \<Rightarrow> string \<Rightarrow> string \<Rightarrow> db \<Rightarrow> repo_error + unit \<times> db" where
  "RevokeDevice_tx env deviceID byKind byID d =
    (let now = UnixNano (eNow env) in
     case find (\<lambda>v. dvId v = deviceID \<and> dvRevoked v = None) (devices d) of
       None \<Rightarrow> Inl ErrNotFound
     | Some v \<Rightarrow>
         sum_bind (audit env (event_of (''audit_'' @ deviceID @ ''_revoke_'' @ Sprint now) (dvAuthor v) byKind (dvAuthor v) byID
            ''device.revoke'' ''device'' deviceID byID deviceID)
            (revoke now byKind (nullableID byID) (\<lambda>v. dvId v = deviceID) d)) (\<lambda>d. Inr ((), d)))"

definition RevokeDevice :: "repo_env \<Rightarrow> string \<Rightarrow> string \<Rightarrow> string \<Rightarrow> db \<Rightarrow> (repo_error + unit) \<times> db" where
  "RevokeDevice env deviceID byKind byID d =
    checked (validateID deviceID \<and> byKind \<in> {''device'', ''recovery'', ''operator''} \<and> (byKind = ''operator'' \<or> validateID byID))
     (mutate env ''device-revoke'' ''device'' (RevokeDevice_tx env deviceID byKind byID) d) d"

definition RevokeDeviceAuthorized_tx :: "repo_env \<Rightarrow> string \<Rightarrow> string \<Rightarrow> string \<Rightarrow> db \<Rightarrow> repo_error + unit \<times> db" where
  "RevokeDeviceAuthorized_tx env authorID actor target d =
    (let now = UnixNano (eNow env) in
     if \<not> active_device d actor authorID then Inl ErrNotFound
     else if \<not> active_device d target authorID then Inl ErrNotFound
     else if active_count d authorID \<le> 1 then Inl ErrConflict
     else sum_bind (audit env (event_of (''audit_'' @ target @ ''_revoke_'' @ Sprint now) authorID ''device'' authorID actor
        ''device.revoke'' ''device'' target actor target)
        (revoke now ''device'' (Some actor) (\<lambda>v. dvId v = target) d)) (\<lambda>d. Inr ((), d)))"

definition RevokeDeviceAuthorized :: "repo_env \<Rightarrow> string \<Rightarrow> string \<Rightarrow> string \<Rightarrow> db \<Rightarrow> (repo_error + unit) \<times> db" where
  "RevokeDeviceAuthorized env authorID actor target d =
    checked (list_all validateID [authorID, actor, target])
     (mutate env ''device-revoke-authorized'' ''device'' (RevokeDeviceAuthorized_tx env authorID actor target) d) d"

definition RevokeDeviceWithRecovery_tx :: "repo_env \<Rightarrow> string \<Rightarrow> bytes \<Rightarrow> string \<Rightarrow> db \<Rightarrow> repo_error + unit \<times> db" where
  "RevokeDeviceWithRecovery_tx env authorID verifier target d =
    (let now = UnixNano (eNow env) in
     case find (\<lambda>r. rcAuthor r = authorID) (recoveries d) of
       None \<Rightarrow> Inl ErrNotFound
     | Some r \<Rightarrow>
         if \<not> bytesEqual (rcVerifier r) verifier then Inl ErrConflict
         else if \<not> active_device d target authorID then Inl ErrNotFound
         else if active_count d authorID \<le> 1 then Inl ErrConflict
         else sum_bind (audit env (event_of (''audit_'' @ target @ ''_revoke_recovery_'' @ Sprint now) authorID ''recovery'' authorID ''''
            ''device.revoke'' ''device'' target ''recovery'' target)
            (revoke now ''recovery'' (Some authorID) (\<lambda>v. dvId v = target) d)) (\<lambda>d. Inr ((), d)))"

definition RevokeDeviceWithRecovery :: "repo_env \<Rightarrow> string \<Rightarrow> bytes \<Rightarrow> string \<Rightarrow> db \<Rightarrow> (repo_error + unit) \<times> db" where
  "RevokeDeviceWithRecovery env authorID verifier target d =
    checked (list_all validateID [authorID, target] \<and> verifier \<noteq> [])
     (mutate env ''device-revoke-recovery'' ''device'' (RevokeDeviceWithRecovery_tx env authorID verifier target) d) d"

section \<open>Enrollment tokens\<close>

record token_input =
  tiId :: string
  tiAuthor :: string
  tiPurpose :: string
  tiIssuedByKind :: string
  tiIssuedByDevice :: string
  tiDeviceName :: string
  tiSalt :: bytes
  tiVerifier :: bytes
  tiExpires :: gotime

definition new_token :: "repo_env \<Rightarrow> token_input \<Rightarrow> enrollment_token" where
  "new_token env input = \<lparr>etId = tiId input, etAuthor = tiAuthor input, etPurpose = tiPurpose input,
     etIssuedByKind = tiIssuedByKind input, etIssuedByDevice = nullableID (tiIssuedByDevice input),
     etDeviceName = tiDeviceName input, etSalt = tiSalt input, etVerifier = tiVerifier input, etFailed = 0,
     etCreated = UnixNano (eNow env), etExpires = UnixNano (tiExpires input), etConsumed = None\<rparr>"

definition CreateEnrollmentToken_tx :: "repo_env \<Rightarrow> token_input \<Rightarrow> db \<Rightarrow> repo_error + enrollment_token \<times> db" where
  "CreateEnrollmentToken_tx env input d =
    (if \<not> has_author d (tiAuthor input) then Inl ErrNotFound
     else if tiIssuedByKind input = ''device'' \<and> \<not> active_device d (tiIssuedByDevice input) (tiAuthor input) then Inl ErrNotFound
     else sum_bind (insert_token (new_token env input) d) (\<lambda>d. Inr (new_token env input, d)))"

definition CreateEnrollmentToken :: "repo_env \<Rightarrow> token_input \<Rightarrow> db \<Rightarrow> (repo_error + enrollment_token) \<times> db" where
  "CreateEnrollmentToken env input d =
    checked (list_all validateID [tiId input, tiAuthor input, tiDeviceName input] \<and>
        tiPurpose input \<in> {''add_device'', ''operator_recovery''} \<and> tiIssuedByKind input \<in> {''device'', ''operator''} \<and>
        (if tiIssuedByKind input = ''device'' then validateID (tiIssuedByDevice input) else tiIssuedByDevice input = '''') \<and>
        verifier_ok (tiSalt input) \<and> verifier_ok (tiVerifier input) \<and> tiExpires input \<noteq> zeroTime \<and> tiExpires input > eNow env)
     (mutate env ''enrollment-token-create'' ''token'' (CreateEnrollmentToken_tx env input) d) d"

text \<open>
  A token can be used while it is not consumed, not expired and has fewer than five
  failures. A transaction that only counts a failure commits, and the method then
  reports the conflict: the body returns \<open>None\<close> for it.
\<close>

definition token_usable :: "repo_env \<Rightarrow> enrollment_token \<Rightarrow> bool" where
  "token_usable env t \<longleftrightarrow> etConsumed t = None \<and> etExpires t > UnixNano (eNow env) \<and> etFailed t < 5"

definition update_token :: "string \<Rightarrow> (enrollment_token \<Rightarrow> enrollment_token) \<Rightarrow> db \<Rightarrow> db" where
  "update_token i f d = d\<lparr>tokens := update_rows (\<lambda>t. etId t = i) f (tokens d)\<rparr>"

definition verification_result :: "(repo_error + 'a option) \<times> db \<Rightarrow> (repo_error + 'a) \<times> db" where
  "verification_result r = (case r of
     (Inl e, d) \<Rightarrow> (Inl e, d)
   | (Inr None, d) \<Rightarrow> (Inl ErrConflict, d)
   | (Inr (Some x), d) \<Rightarrow> (Inr x, d))"

definition VerifyEnrollmentToken_tx :: "repo_env \<Rightarrow> string \<Rightarrow> bytes \<Rightarrow> db \<Rightarrow> repo_error + enrollment_token option \<times> db" where
  "VerifyEnrollmentToken_tx env tokenID verifier d =
    (case find (\<lambda>t. etId t = tokenID) (tokens d) of
       None \<Rightarrow> Inl ErrNotFound
     | Some t \<Rightarrow>
         if \<not> token_usable env t then Inl ErrConflict
         else if \<not> bytesEqual (etVerifier t) verifier then
           Inr (None, update_token tokenID (etFailed_update (\<lambda>_. etFailed t + 1)) d)
         else let consumed = etConsumed_update (\<lambda>_. Some (UnixNano (eNow env))) in
           Inr (Some (consumed t), update_token tokenID consumed d))"

definition VerifyEnrollmentToken ::
  "repo_env \<Rightarrow> string \<Rightarrow> bytes \<Rightarrow> db \<Rightarrow> (repo_error + enrollment_token) \<times> db" where
  "VerifyEnrollmentToken env tokenID verifier d =
    checked (validateID tokenID)
     (verification_result (mutate env ''enrollment-token-verify'' '''' (VerifyEnrollmentToken_tx env tokenID verifier) d)) d"

record enrollment_input =
  eiToken :: string
  eiDevice :: string
  eiPublicKey :: string
  eiFingerprint :: string
  eiVerifier :: bytes

definition CompleteDeviceEnrollment_tx ::
  "repo_env \<Rightarrow> enrollment_input \<Rightarrow> db \<Rightarrow> repo_error + device_row option \<times> db" where
  "CompleteDeviceEnrollment_tx env input d =
    (case find (\<lambda>t. etId t = eiToken input) (tokens d) of
       None \<Rightarrow> Inl ErrNotFound
     | Some t \<Rightarrow>
         if etPurpose t \<noteq> ''add_device'' \<or> \<not> token_usable env t then Inl ErrConflict
         else if \<not> bytesEqual (etVerifier t) (eiVerifier input) then
           Inr (None, update_token (eiToken input) (etFailed_update (\<lambda>_. etFailed t + 1)) d)
         else let now = UnixNano (eNow env);
                  issuer = (case etIssuedByDevice t of None \<Rightarrow> '''' | Some i \<Rightarrow> i);
                  device = new_device (eiDevice input) (etAuthor t) (etDeviceName t) (eiPublicKey input) (eiFingerprint input) now in
           sum_bind (insert_device device d) (\<lambda>d.
           sum_bind (audit env (event_of (''audit_'' @ eiDevice input) (etAuthor t) (etIssuedByKind t) (etAuthor t) issuer
              ''device.add'' ''device'' (eiDevice input) issuer (etDeviceName t))
              (update_token (eiToken input) (etConsumed_update (\<lambda>_. Some now)) d)) (\<lambda>d.
           Inr (Some device, d))))"

definition CompleteDeviceEnrollment ::
  "repo_env \<Rightarrow> enrollment_input \<Rightarrow> db \<Rightarrow> (repo_error + device_row) \<times> db" where
  "CompleteDeviceEnrollment env input d =
    checked (list_all validateID [eiToken input, eiDevice input, eiPublicKey input, eiFingerprint input] \<and> verifier_ok (eiVerifier input))
     (verification_result (mutate env ''device-enrollment'' '''' (CompleteDeviceEnrollment_tx env input) d)) d"

definition EnrollmentSalt :: "db \<Rightarrow> string \<Rightarrow> repo_error + bytes" where
  "EnrollmentSalt d i = (if \<not> validateID i then Inl ErrInvalid
     else case find (\<lambda>t. etId t = i) (tokens d) of None \<Rightarrow> Inl ErrNotFound | Some t \<Rightarrow> Inr (etSalt t))"

section \<open>Pairing\<close>

record pairing_credential =
  pcAuthor :: string
  pcHandle :: string
  pcDeviceName :: string
  pcSalt :: bytes
  pcVerifier :: bytes
  pcGeneration :: int

definition EnrollmentCredential :: "repo_env \<Rightarrow> db \<Rightarrow> string \<Rightarrow> repo_error + pairing_credential" where
  "EnrollmentCredential env d i = (if \<not> validateID i then Inl ErrInvalid
     else case find (\<lambda>t. etId t = i) (tokens d) of
       None \<Rightarrow> Inl ErrNotFound
     | Some t \<Rightarrow>
         if etPurpose t \<noteq> ''add_device'' \<or> \<not> token_usable env t then Inl ErrConflict
         else Inr \<lparr>pcAuthor = etAuthor t, pcHandle = '''', pcDeviceName = etDeviceName t, pcSalt = etSalt t,
            pcVerifier = etVerifier t, pcGeneration = 0\<rparr>)"

definition RecoveryCredential :: "repo_env \<Rightarrow> db \<Rightarrow> string \<Rightarrow> repo_error + pairing_credential" where
  "RecoveryCredential env d handle = (if \<not> validateHandle env handle then Inl ErrInvalid
     else case find (\<lambda>a. auHandle a = handle \<and> \<not> auSuspended a) (authors d) of
       None \<Rightarrow> Inl ErrNotFound
     | Some a \<Rightarrow> (case find (\<lambda>r. rcAuthor r = auId a) (recoveries d) of
         None \<Rightarrow> Inl ErrNotFound
       | Some r \<Rightarrow> Inr \<lparr>pcAuthor = auId a, pcHandle = auHandle a, pcDeviceName = '''', pcSalt = rcSalt r,
            pcVerifier = rcVerifier r, pcGeneration = rcGeneration r\<rparr>))"

record recovery_input =
  cvAuthor :: string
  cvDevice :: string
  cvDeviceName :: string
  cvPublicKey :: string
  cvFingerprint :: string
  cvCurrent :: bytes
  cvNextSalt :: bytes
  cvNextVerifier :: bytes
  cvRevokeOld :: bool

definition CompleteRecovery_tx :: "repo_env \<Rightarrow> recovery_input \<Rightarrow> db \<Rightarrow> repo_error + device_row \<times> db" where
  "CompleteRecovery_tx env input d =
    (let now = UnixNano (eNow env); author = cvAuthor input;
         device = new_device (cvDevice input) author (cvDeviceName input) (cvPublicKey input) (cvFingerprint input) now in
     if \<not> list_ex (\<lambda>a. auId a = author \<and> \<not> auSuspended a) (authors d) then Inl ErrNotFound
     else case find (\<lambda>r. rcAuthor r = author) (recoveries d) of
       None \<Rightarrow> Inl ErrNotFound
     | Some r \<Rightarrow>
         if \<not> bytesEqual (rcVerifier r) (cvCurrent input) then Inl ErrConflict
         else sum_bind (insert_device device d) (\<lambda>d.
           let d = rotate env author (cvNextSalt input) (cvNextVerifier input) (rcGeneration r + 1) d;
               d = d\<lparr>tokens := update_rows (\<lambda>t. etAuthor t = author \<and> etConsumed t = None)
                     (etConsumed_update (\<lambda>_. Some now)) (tokens d)\<rparr>;
               d = (if cvRevokeOld input then revoke now ''recovery'' (Some author) (\<lambda>v. dvAuthor v = author \<and> dvId v \<noteq> cvDevice input) d else d) in
           sum_bind (audit env (event_of (''audit_recovery_'' @ cvDevice input) author ''recovery'' author ''''
              ''author.recover'' ''device'' (cvDevice input) '''' '''') d) (\<lambda>d.
           Inr (device, d))))"

definition CompleteRecovery :: "repo_env \<Rightarrow> recovery_input \<Rightarrow> db \<Rightarrow> (repo_error + device_row) \<times> db" where
  "CompleteRecovery env input d =
    checked (list_all validateID [cvAuthor input, cvDevice input, cvDeviceName input, cvPublicKey input, cvFingerprint input] \<and>
        cvCurrent input \<noteq> [] \<and> cvNextSalt input \<noteq> [] \<and> cvNextVerifier input \<noteq> [])
     (mutate env ''author-recovery'' ''author'' (CompleteRecovery_tx env input) d) d"

record authority_input =
  aiId :: string
  aiHandle :: string
  aiDeviceName :: string
  aiSalt :: bytes
  aiVerifier :: bytes
  aiExpires :: gotime

definition new_authority :: "repo_env \<Rightarrow> authority_input \<Rightarrow> bootstrap_authority" where
  "new_authority env input = \<lparr>baId = aiId input, baHandle = aiHandle input, baDeviceName = aiDeviceName input,
     baSalt = aiSalt input, baVerifier = aiVerifier input, baFailed = 0, baCreated = UnixNano (eNow env),
     baExpires = UnixNano (aiExpires input), baConsumed = None\<rparr>"

definition CreateBootstrapAuthority ::
  "repo_env \<Rightarrow> authority_input \<Rightarrow> db \<Rightarrow> (repo_error + bootstrap_authority) \<times> db" where
  "CreateBootstrapAuthority env input d =
    checked (validateID (aiId input) \<and> validateHandle env (aiHandle input) \<and> validateID (aiDeviceName input) \<and>
        verifier_ok (aiSalt input) \<and> verifier_ok (aiVerifier input) \<and> aiExpires input > eNow env)
     (mutate env ''bootstrap-authority-create'' '''' (\<lambda>d.
        sum_bind (insert_authority (new_authority env input) d) (\<lambda>d. Inr (new_authority env input, d))) d) d"

definition BootstrapAuthorityCredential :: "repo_env \<Rightarrow> db \<Rightarrow> string \<Rightarrow> repo_error + bootstrap_authority" where
  "BootstrapAuthorityCredential env d i = (if \<not> validateID i then Inl ErrInvalid
     else case find (\<lambda>b. baId b = i) (authorities d) of
       None \<Rightarrow> Inl ErrNotFound
     | Some b \<Rightarrow> if baConsumed b \<noteq> None \<or> \<not> baExpires b > eNow env \<or> baFailed b \<ge> 5 then Inl ErrConflict else Inr b)"

definition update_authority :: "string \<Rightarrow> (bootstrap_authority \<Rightarrow> bootstrap_authority) \<Rightarrow> db \<Rightarrow> db" where
  "update_authority i f d = d\<lparr>authorities := update_rows (\<lambda>b. baId b = i) f (authorities d)\<rparr>"

definition CompleteBootstrapRegistration_tx ::
  "repo_env \<Rightarrow> string \<Rightarrow> bytes \<Rightarrow> registration_input \<Rightarrow> db \<Rightarrow> repo_error + (author \<times> device_row) option \<times> db" where
  "CompleteBootstrapRegistration_tx env authorityID verifier input d =
    (case find (\<lambda>b. baId b = authorityID) (authorities d) of
       None \<Rightarrow> Inl ErrNotFound
     | Some b \<Rightarrow>
         let now = UnixNano (eNow env) in
         if baConsumed b \<noteq> None \<or> baExpires b \<le> now \<or> baFailed b \<ge> 5 \<or> baHandle b \<noteq> riHandle input \<or>
            baDeviceName b \<noteq> riDeviceName input then Inl ErrConflict
         else if \<not> bytesEqual (baVerifier b) verifier then
           Inr (None, update_authority authorityID (baFailed_update (\<lambda>_. baFailed b + 1)) d)
         else
           sum_bind (registration_rows False input now d) (\<lambda>d.
           sum_bind (audit env (event_of (''audit_'' @ riAuthor input) (riAuthor input) ''operator'' (riAuthor input) ''''
              ''author.register'' ''author'' (riAuthor input) '''' '''')
              (update_authority authorityID (baConsumed_update (\<lambda>_. Some now)) d)) (\<lambda>d.
           Inr (Some (new_author input now, registered_device input now), d))))"

definition CompleteBootstrapRegistration ::
  "repo_env \<Rightarrow> string \<Rightarrow> bytes \<Rightarrow> registration_input \<Rightarrow> db \<Rightarrow> (repo_error + author \<times> device_row) \<times> db" where
  "CompleteBootstrapRegistration env authorityID verifier input d =
    checked (validateID authorityID \<and> registration_ok env input \<and> verifier \<noteq> [] \<and> riSalt input \<noteq> [] \<and> riVerifier input \<noteq> [])
     (verification_result
       (mutate env ''bootstrap-registration'' ''author'' (CompleteBootstrapRegistration_tx env authorityID verifier input) d)) d"

end
