(* ===== verification/Repo_Apps.thy ===== *)
theory Repo_Apps
  imports Repo_Schema "HOL-Library.List_Lexorder" "HOL-Library.Char_ord" "HOL-Library.Product_Lexorder"
begin

text \<open>
  The application side of the repository: apps, access keys, configuration, secrets,
  egress hosts and sessions (\<^verbatim>\<open>repository_operations.go\<close> and the readers of
  \<^verbatim>\<open>deployment_api.go\<close> in \<^verbatim>\<open>internal/sqlite\<close>). A listing sorts as its
  \<^verbatim>\<open>ORDER BY\<close> does; rows that compare equal keep the order of the table.
\<close>

section \<open>Apps\<close>

record app_input =
  inId :: string
  inAuthor :: string
  inName :: string
  inKind :: string
  inAccess :: string
  inDevice :: string
  inCreated :: gotime

definition kinds_ok :: "string \<Rightarrow> string \<Rightarrow> bool" where
  "kinds_ok kind access \<longleftrightarrow> kind \<in> {''tui'', ''cli'', ''vm''} \<and> access \<in> {''public'', ''restricted''}"

definition author_limit :: "(quota \<Rightarrow> int) \<Rightarrow> string \<Rightarrow> db \<Rightarrow> int" where
  "author_limit f author d = (case find (\<lambda>q. qtAuthor q = author) (quotas d) of None \<Rightarrow> 0 | Some q \<Rightarrow> f q)"

text \<open>
  The limit of the author of an app: the join \<^verbatim>\<open>author_quotas q JOIN apps a ON a.author_id=q.author_id\<close>.
\<close>

definition app_limit :: "(quota \<Rightarrow> int) \<Rightarrow> string \<Rightarrow> db \<Rightarrow> int" where
  "app_limit f i d = (case find (\<lambda>a. apId a = i) (apps d) of None \<Rightarrow> 0 | Some a \<Rightarrow> author_limit f (apAuthor a) d)"

definition over_limit :: "int \<Rightarrow> nat \<Rightarrow> bool" where
  "over_limit limit n \<longleftrightarrow> limit > 0 \<and> int n \<ge> limit"

definition CreateApp_tx :: "repo_env \<Rightarrow> app_input \<Rightarrow> db \<Rightarrow> repo_error + app \<times> db" where
  "CreateApp_tx env input d =
    (let ns = stamp env (inCreated input);
         a = \<lparr>apId = inId input, apAuthor = inAuthor input, apName = inName input, apKind = inKind input,
              apAccess = inAccess input, apSuspended = False, apCreated = ns, apUpdated = ns\<rparr> in
     if \<not> has_author d (inAuthor input) then Inl ErrNotFound
     else if inDevice input \<noteq> '''' \<and> \<not> active_device d (inDevice input) (inAuthor input) then Inl ErrNotFound
     else if over_limit (author_limit qtApps (inAuthor input) d) (count_rows (\<lambda>x. apAuthor x = inAuthor input) (apps d)) then Inl ErrQuota
     else sum_bind (insert_app a d) (\<lambda>d.
       sum_bind (audit env (event_of (''audit_'' @ apId a) (apAuthor a) ''device'' (apAuthor a) '''' ''app.create'' ''app'' (apId a)
          (apAuthor a) (apName a)) d) (\<lambda>d. Inr (a, d))))"

definition CreateApp :: "repo_env \<Rightarrow> app_input \<Rightarrow> db \<Rightarrow> (repo_error + app) \<times> db" where
  "CreateApp env input d =
    checked (validateID (inId input) \<and> validateID (inAuthor input) \<and> validateID (inName input) \<and> kinds_ok (inKind input) (inAccess input))
     (mutate env ''app-create'' ''app'' (CreateApp_tx env input) d) d"

definition ListApps :: "db \<Rightarrow> string \<Rightarrow> repo_error + app list" where
  "ListApps d author = (if \<not> validateID author then Inl ErrInvalid
     else Inr (sort_key apName (filter (\<lambda>a. apAuthor a = author) (apps d))))"

definition getApp :: "db \<Rightarrow> string \<Rightarrow> repo_error + app" where
  "getApp d i = (if \<not> validateID i then Inl ErrInvalid
     else case find (\<lambda>a. apId a = i) (apps d) of None \<Rightarrow> Inl ErrNotFound | Some a \<Rightarrow> Inr a)"

definition ListDevices :: "db \<Rightarrow> string \<Rightarrow> repo_error + device list" where
  "ListDevices d author = (if \<not> validateID author then Inl ErrInvalid
     else Inr (map device.truncate (sort_key (\<lambda>v. (dvCreated v, dvId v)) (filter (\<lambda>v. dvAuthor v = author) (devices d)))))"

section \<open>Access keys\<close>

text \<open>
  The device acts for the author of the app: \<^verbatim>\<open>apps a JOIN devices d ON d.author_id=a.author_id\<close>
  with the device not revoked.
\<close>

definition acts_for :: "db \<Rightarrow> string \<Rightarrow> string \<Rightarrow> bool" where
  "acts_for d app_id device = list_ex (\<lambda>a. apId a = app_id \<and> active_device d device (apAuthor a)) (apps d)"

definition AddAccessKey_tx :: "repo_env \<Rightarrow> access_key \<Rightarrow> gotime \<Rightarrow> db \<Rightarrow> repo_error + access_key \<times> db" where
  "AddAccessKey_tx env input created d =
    (let key = input\<lparr>akCreated := stamp env created\<rparr> in
     if \<not> acts_for d (akApp key) (akAddedBy key) then Inl ErrNotFound
     else sum_bind (insert_access_key key d) (\<lambda>d.
       case find (\<lambda>a. apId a = akApp key) (apps d) of
         None \<Rightarrow> Inl SqlOther
       | Some a \<Rightarrow> sum_bind (audit env (event_of (''audit_'' @ akId key) (apAuthor a) ''device'' (apAuthor a) (akAddedBy key)
           ''app.access.add'' ''access_key'' (akId key) (akAddedBy key) (akApp key)) d) (\<lambda>d. Inr (key, d))))"

definition AddAccessKey :: "repo_env \<Rightarrow> access_key \<Rightarrow> gotime \<Rightarrow> db \<Rightarrow> (repo_error + access_key) \<times> db" where
  "AddAccessKey env input created d =
    checked (list_all validateID [akId input, akApp input, akName input, akPublicKey input, akFingerprint input, akAddedBy input])
     (mutate env ''access-key-add'' ''access-key'' (AddAccessKey_tx env input created) d) d"

definition ListAccessKeys :: "db \<Rightarrow> string \<Rightarrow> string \<Rightarrow> repo_error + access_key list" where
  "ListAccessKeys d author app_id = (if \<not> list_all validateID [author, app_id] then Inl ErrInvalid
     else Inr (sort_key (\<lambda>k. (akCreated k, akId k)) (filter (\<lambda>k. akApp k = app_id \<and>
       list_ex (\<lambda>a. apId a = app_id \<and> apAuthor a = author) (apps d)) (accessKeys d))))"

definition RemoveAccessKey_tx :: "repo_env \<Rightarrow> string \<Rightarrow> string \<Rightarrow> string \<Rightarrow> string \<Rightarrow> db \<Rightarrow> repo_error + unit \<times> db" where
  "RemoveAccessKey_tx env author app_id key actor d =
    (if \<not> list_ex (\<lambda>k. akId k = key \<and> akApp k = app_id) (accessKeys d) \<or>
        \<not> list_ex (\<lambda>a. apId a = app_id \<and> apAuthor a = author) (apps d) \<or> \<not> active_device d actor author then Inl ErrNotFound
     else sum_bind (audit env (event_of (''audit_'' @ key @ ''_remove'') author ''device'' author actor
        ''app.access.remove'' ''access_key'' key actor app_id)
        (d\<lparr>accessKeys := delete_rows (\<lambda>k. akId k = key \<and> akApp k = app_id) (accessKeys d)\<rparr>)) (\<lambda>d. Inr ((), d)))"

definition RemoveAccessKey :: "repo_env \<Rightarrow> string \<Rightarrow> string \<Rightarrow> string \<Rightarrow> string \<Rightarrow> db \<Rightarrow> (repo_error + unit) \<times> db" where
  "RemoveAccessKey env author app_id key actor d =
    checked (list_all validateID [author, app_id, key, actor])
     (mutate env ''access-key-remove'' ''access-key'' (RemoveAccessKey_tx env author app_id key actor) d) d"

section \<open>Configuration\<close>

definition appExists :: "db \<Rightarrow> string \<Rightarrow> repo_error + unit" where
  "appExists d i = (if has_app d i then Inr () else Inl ErrNotFound)"

definition SetCapabilityConfig ::
  "repo_env \<Rightarrow> string \<Rightarrow> string \<Rightarrow> string \<Rightarrow> string \<Rightarrow> db \<Rightarrow> (repo_error + unit) \<times> db" where
  "SetCapabilityConfig env a capability key v d =
    checked (list_all validateID [a, capability, key] \<and> length v \<le> 8192)
     (mutate env ''capability-config'' ''app'' (\<lambda>d.
        sum_bind (appExists d a) (\<lambda>_. Inr ((), d\<lparr>capabilityConfig :=
          upsert (\<lambda>(a', c', k', _). a' = a \<and> c' = capability \<and> k' = key) (\<lambda>_. (a, capability, key, v))
            (a, capability, key, v) (capabilityConfig d)\<rparr>))) d) d"

definition SetCapabilityValue ::
  "repo_env \<Rightarrow> string \<Rightarrow> string \<Rightarrow> string \<Rightarrow> bytes \<Rightarrow> db \<Rightarrow> (repo_error + unit) \<times> db" where
  "SetCapabilityValue env a capability key v d =
    checked (list_all validateID [a, capability, key] \<and> length v \<le> 2 ^ 20)
     (mutate env ''capability-value'' ''app'' (\<lambda>d.
        sum_bind (appExists d a) (\<lambda>_. Inr ((), d\<lparr>capabilityValues :=
          upsert (\<lambda>(a', c', k', _). a' = a \<and> c' = capability \<and> k' = key) (\<lambda>_. (a, capability, key, v, UnixNano (eNow env)))
            (a, capability, key, v, UnixNano (eNow env)) (capabilityValues d)\<rparr>))) d) d"

definition CapabilityConfig :: "db \<Rightarrow> string \<Rightarrow> repo_error + (string \<times> string \<times> string) list" where
  "CapabilityConfig d a = (if \<not> validateID a then Inl ErrInvalid
     else Inr (sort_key (\<lambda>(c, k, v). (c, k)) (map snd (filter (\<lambda>r. fst r = a) (capabilityConfig d)))))"

definition CapabilityValues :: "db \<Rightarrow> string \<Rightarrow> repo_error + (string \<times> string \<times> bytes \<times> int) list" where
  "CapabilityValues d a = (if \<not> validateID a then Inl ErrInvalid
     else Inr (sort_key (\<lambda>(c, k, v). (c, k)) (map snd (filter (\<lambda>r. fst r = a) (capabilityValues d)))))"

definition SetEgressHost :: "repo_env \<Rightarrow> string \<Rightarrow> string \<Rightarrow> bool \<Rightarrow> db \<Rightarrow> (repo_error + unit) \<times> db" where
  "SetEgressHost env a host allowed d =
    checked (validateID a \<and> TrimSpace host \<noteq> '''' \<and> length host \<le> 255)
     (mutate env ''egress-set'' ''app'' (\<lambda>d.
        sum_bind (appExists d a) (\<lambda>_. Inr ((), d\<lparr>egress :=
          (if allowed then upsert (\<lambda>x. x = (a, host)) id (a, host) (egress d)
           else delete_rows (\<lambda>x. x = (a, host)) (egress d))\<rparr>))) d) d"

definition ListEgressHosts :: "db \<Rightarrow> string \<Rightarrow> repo_error + string list" where
  "ListEgressHosts d a = (if \<not> validateID a then Inl ErrInvalid
     else Inr (sort (map snd (filter (\<lambda>x. fst x = a) (egress d)))))"

section \<open>Secrets\<close>

definition is_secret :: "string \<Rightarrow> string \<Rightarrow> secret \<Rightarrow> bool" where
  "is_secret a key s \<longleftrightarrow> scApp s = a \<and> scKey s = key"

definition SetSecret_tx :: "repo_env \<Rightarrow> string \<Rightarrow> string \<Rightarrow> bytes \<Rightarrow> db \<Rightarrow> repo_error + secret \<times> db" where
  "SetSecret_tx env a key v d =
    (let now = UnixNano (eNow env) in
     sum_bind (appExists d a) (\<lambda>_.
     if over_limit (app_limit qtSecrets a d) (count_rows (\<lambda>s. scApp s = a) (secrets d)) \<and> \<not> list_ex (is_secret a key) (secrets d)
     then Inl ErrQuota
     else let (version, created) = (case find (is_secret a key) (secrets d) of
                None \<Rightarrow> (1, now) | Some s \<Rightarrow> (scVersion s + 1, scCreated s)) in
       Inr (\<lparr>scApp = a, scKey = key, scVersion = version, scCreated = created, scUpdated = now\<rparr>,
         d\<lparr>secrets := upsert (is_secret a key) (\<lambda>s. s\<lparr>scVersion := version, scUpdated := now\<rparr>)
              \<lparr>scApp = a, scKey = key, scVersion = version, scCreated = now, scUpdated = now\<rparr> (secrets d),
           secretValues := upsert (\<lambda>(a', k', _). a' = a \<and> k' = key) (\<lambda>_. (a, key, v)) (a, key, v) (secretValues d)\<rparr>)))"

definition SetSecret :: "repo_env \<Rightarrow> string \<Rightarrow> string \<Rightarrow> bytes \<Rightarrow> db \<Rightarrow> (repo_error + secret) \<times> db" where
  "SetSecret env a key v d =
    checked (validateID a \<and> validateID key \<and> length v \<le> 2 ^ 20) (mutate env ''secret-set'' ''secret'' (SetSecret_tx env a key v) d) d"

definition Secret :: "db \<Rightarrow> string \<Rightarrow> string \<Rightarrow> repo_error + secret \<times> bytes" where
  "Secret d a key = (case find (is_secret a key) (secrets d) of
     None \<Rightarrow> Inl ErrNotFound
   | Some s \<Rightarrow> (case find (\<lambda>(a', k', _). a' = a \<and> k' = key) (secretValues d) of
       None \<Rightarrow> Inl ErrNotFound
     | Some (_, _, v) \<Rightarrow> Inr (s, v)))"

definition ListSecrets :: "db \<Rightarrow> string \<Rightarrow> repo_error + secret list" where
  "ListSecrets d a = (if \<not> validateID a then Inl ErrInvalid
     else Inr (sort_key scKey (filter (\<lambda>s. scApp s = a) (secrets d))))"

definition SetSecretDelete :: "repo_env \<Rightarrow> string \<Rightarrow> string \<Rightarrow> db \<Rightarrow> (repo_error + unit) \<times> db" where
  "SetSecretDelete env a key d =
    checked (validateID a \<and> validateID key) (mutate env ''secret-delete'' ''secret'' (\<lambda>d.
      if \<not> list_ex (is_secret a key) (secrets d) then Inl ErrNotFound
      else Inr ((), d\<lparr>secrets := delete_rows (is_secret a key) (secrets d),
             secretValues := delete_rows (\<lambda>(a', k', _). a' = a \<and> k' = key) (secretValues d)\<rparr>)) d) d"

section \<open>Sessions\<close>

definition is_active :: "db \<Rightarrow> string \<Rightarrow> string \<Rightarrow> bool" where
  "is_active d a i = list_ex (\<lambda>x. x = (a, i)) (activeDeployments d)"

definition StartSession_tx :: "repo_env \<Rightarrow> session_row \<Rightarrow> gotime \<Rightarrow> db \<Rightarrow> repo_error + unit \<times> db" where
  "StartSession_tx env s started d =
    (case find (\<lambda>a. apId a = ssApp s) (apps d) of
       None \<Rightarrow> Inl ErrNotFound
     | Some a \<Rightarrow> (case find (\<lambda>p. dpId p = ssDeployment s \<and> dpApp p = ssApp s) (deployments d) of
         None \<Rightarrow> Inl ErrNotFound
       | Some p \<Rightarrow> (case find (\<lambda>r. arId r = dpArtifact p) (artifacts d) of
           None \<Rightarrow> Inl ErrNotFound
         | Some r \<Rightarrow>
             if \<not> is_active d (ssApp s) (ssDeployment s) then Inl ErrNotFound
             else if apSuspended a \<or> ssDeployment s \<in> set (suspendedDeployments d) then Inl ErrSuspended
             else if arDigest r \<noteq> ssDigest s then Inl ErrNotFound
             else if over_limit (author_limit qtSessions (apAuthor a) d)
                 (count_rows (\<lambda>x. ssApp x = ssApp s \<and> ssEnded x = None) (sessions d)) then Inl ErrQuota
             else sum_bind (insert_session (s\<lparr>ssStarted := stamp env started, ssEnded := None\<rparr>) d) (\<lambda>d. Inr ((), d)))))"

definition StartSession :: "repo_env \<Rightarrow> session_row \<Rightarrow> gotime \<Rightarrow> db \<Rightarrow> (repo_error + unit) \<times> db" where
  "StartSession env s started d =
    checked (validateID (ssId s) \<and> list_all validateID [ssApp s, ssDeployment s, ssDigest s] \<and> length (ssIdentity s) \<le> 2048)
     (mutate env ''session-start'' ''session'' (StartSession_tx env s started) d) d"

definition open_session :: "string \<Rightarrow> session_row \<Rightarrow> bool" where
  "open_session i s \<longleftrightarrow> ssId s = i \<and> ssEnded s = None"

definition RecordSessionLog :: "repo_env \<Rightarrow> string \<Rightarrow> string \<Rightarrow> bool \<Rightarrow> db \<Rightarrow> (repo_error + unit) \<times> db" where
  "RecordSessionLog env i log truncated d =
    checked (validateID i \<and> length log \<le> 4 * 2 ^ 20) (mutate env ''session-log'' ''session'' (\<lambda>d.
      if count_rows (open_session i) (sessions d) = 0 then Inl ErrNotFound
      else Inr ((), d\<lparr>sessions := update_rows (open_session i) (\<lambda>s. s\<lparr>ssLog := log, ssTruncated := truncated\<rparr>) (sessions d)\<rparr>)) d) d"

definition EndSession_tx :: "repo_env \<Rightarrow> string \<Rightarrow> db \<Rightarrow> repo_error + gotime \<times> db" where
  "EndSession_tx env i d =
    (case find (\<lambda>s. ssId s = i) (sessions d) of
       None \<Rightarrow> Inl ErrNotFound
     | Some s \<Rightarrow> (case ssEnded s of
         Some previous \<Rightarrow> Inr (previous, d)
       | None \<Rightarrow> Inr (eNow env, d\<lparr>sessions := update_rows (open_session i)
             (ssEnded_update (\<lambda>_. Some (UnixNano (eNow env)))) (sessions d)\<rparr>)))"

definition EndSession :: "repo_env \<Rightarrow> string \<Rightarrow> db \<Rightarrow> (repo_error + gotime) \<times> db" where
  "EndSession env i d = checked (validateID i) (mutate env ''session-end'' ''session'' (EndSession_tx env i) d) d"

definition ListSessions :: "db \<Rightarrow> string \<Rightarrow> int \<Rightarrow> repo_error + session_row list" where
  "ListSessions d a limit = (if \<not> validateID a then Inl ErrInvalid
     else Inr (take (clampLimit limit) (sort_key (\<lambda>s. - ssStarted s) (filter (\<lambda>s. ssApp s = a) (sessions d)))))"

end
