(* ===== verification/Repo_Deploy.thy ===== *)
theory Repo_Deploy
  imports Repo_Apps
begin

text \<open>
  Artifacts and deployments (\<^verbatim>\<open>repository.go\<close>, \<^verbatim>\<open>repository_operations.go\<close> and
  \<^verbatim>\<open>deployment_api.go\<close> of \<^verbatim>\<open>internal/sqlite\<close>): storing WASM by its digest, deploying and
  activating it, resolving what a leaf session runs, and garbage collection.
\<close>

section \<open>Artifacts\<close>

definition digest_of :: "(bytes \<Rightarrow> bytes) \<Rightarrow> bytes \<Rightarrow> string" where
  "digest_of sha wasm = ''sha256:'' @ EncodeToString (sha wasm)"

definition VerifyDigestBytes :: "repo_env \<Rightarrow> string \<Rightarrow> bytes \<Rightarrow> bool" where
  "VerifyDigestBytes env digest wasm \<longleftrightarrow> digest = digest_of (eSha env) wasm"

record artifact_input =
  xiId :: string
  xiDigest :: string
  xiWasm :: bytes
  xiAbi :: int
  xiCreated :: gotime
  xiMetadata :: "(string \<times> string) list"

definition validateArtifact :: "repo_env \<Rightarrow> artifact_input \<Rightarrow> repo_error + artifact" where
  "validateArtifact env input =
    (if \<not> validateID (xiId input) \<or> length (xiWasm input) > 64 * 2 ^ 20 then Inl ErrInvalid
     else if xiDigest input \<noteq> digest_of (eSha env) (xiWasm input) \<or> xiAbi input < 0 \<or> xiAbi input > 255 then Inl ErrInvalid
     else Inr \<lparr>arId = xiId input, arDigest = xiDigest input, arSize = int (length (xiWasm input)), arAbi = xiAbi input,
        arCreated = UnixNano (if xiCreated input = zeroTime then eNow env else xiCreated input)\<rparr>)"

text \<open>
  The common part of \<^verbatim>\<open>PutArtifact\<close> and \<^verbatim>\<open>DeployApplication\<close>: the blob is stored once per
  digest and compared with the bytes that are already there, then the artifact and its build
  metadata follow. The metadata is given in the order in which the map is iterated.
\<close>

definition store_blob :: "artifact \<Rightarrow> bytes \<Rightarrow> db \<Rightarrow> repo_error + db" where
  "store_blob a wasm d = (case find (\<lambda>b. blDigest b = arDigest a) (blobs d) of
     Some b \<Rightarrow> if blSize b \<noteq> arSize a \<or> blWasm b \<noteq> wasm then Inl ErrConflict else Inr d
   | None \<Rightarrow> insert_blob \<lparr>blDigest = arDigest a, blSize = arSize a, blWasm = wasm\<rparr> d)"

fun store_metadata :: "string \<Rightarrow> (string \<times> string) list \<Rightarrow> db \<Rightarrow> repo_error + db" where
  "store_metadata i [] d = Inr d"
| "store_metadata i ((key, v) # rest) d =
    (if \<not> validateID key \<or> length v > 2048 then Inl ErrInvalid
     else sum_bind (insert_metadata (i, key, v) d) (store_metadata i rest))"

definition store_artifact :: "artifact \<Rightarrow> artifact_input \<Rightarrow> db \<Rightarrow> repo_error + db" where
  "store_artifact a input d =
    sum_bind (store_blob a (xiWasm input) d) (\<lambda>d.
    sum_bind (insert_artifact a d) (store_metadata (arId a) (xiMetadata input)))"

definition PutArtifact_tx :: "repo_env \<Rightarrow> artifact \<Rightarrow> artifact_input \<Rightarrow> db \<Rightarrow> repo_error + artifact \<times> db" where
  "PutArtifact_tx env a input d =
    sum_bind (store_artifact a input d) (\<lambda>d.
    sum_bind (audit env (event_of (''audit_'' @ arId a) '''' ''system'' '''' '''' ''artifact.put'' ''artifact'' (arId a)
       ''system'' (arDigest a)) d) (\<lambda>d. Inr (a, d)))"

definition PutArtifact :: "repo_env \<Rightarrow> artifact_input \<Rightarrow> db \<Rightarrow> (repo_error + artifact) \<times> db" where
  "PutArtifact env input d = (case validateArtifact env input of
     Inl e \<Rightarrow> (Inl e, d)
   | Inr a \<Rightarrow> mutate env ''artifact-put'' ''artifact'' (PutArtifact_tx env a input) d)"

definition ListArtifactMetadata :: "db \<Rightarrow> int \<Rightarrow> artifact list" where
  "ListArtifactMetadata d limit = take (clampLimit limit) (sort_key (\<lambda>a. - arCreated a) (artifacts d))"

section \<open>Deployments\<close>

definition CreateDeployment_tx :: "repo_env \<Rightarrow> deployment \<Rightarrow> gotime \<Rightarrow> db \<Rightarrow> repo_error + deployment \<times> db" where
  "CreateDeployment_tx env input created d =
    (let p = input\<lparr>dpCreated := stamp env created\<rparr> in
     if \<not> acts_for d (dpApp p) (dpDevice p) \<or> \<not> has_artifact d (dpArtifact p) then Inl ErrNotFound
     else if over_limit (app_limit qtDeployments (dpApp p) d) (count_rows (\<lambda>x. dpApp x = dpApp p) (deployments d)) then Inl ErrQuota
     else sum_bind (insert_deployment p d) (\<lambda>d. Inr (p, d)))"

definition CreateDeployment :: "repo_env \<Rightarrow> deployment \<Rightarrow> gotime \<Rightarrow> db \<Rightarrow> (repo_error + deployment) \<times> db" where
  "CreateDeployment env input created d =
    checked (list_all validateID [dpId input, dpApp input, dpArtifact input, dpDevice input])
     (mutate env ''deployment-create'' ''deployment'' (CreateDeployment_tx env input created) d) d"

definition ActivateDeployment_tx :: "string \<Rightarrow> string \<Rightarrow> db \<Rightarrow> repo_error + unit \<times> db" where
  "ActivateDeployment_tx a i d =
    (if \<not> list_ex (\<lambda>p. dpId p = i \<and> dpApp p = a) (deployments d) then Inl ErrNotFound
     else sum_bind (set_active a i d) (\<lambda>d. Inr ((), d)))"

definition ActivateDeployment :: "repo_env \<Rightarrow> string \<Rightarrow> string \<Rightarrow> db \<Rightarrow> (repo_error + unit) \<times> db" where
  "ActivateDeployment env a i d =
    checked (validateID a \<and> validateID i) (mutate env ''deployment-activate'' ''deployment'' (ActivateDeployment_tx a i) d) d"

definition SetDeploymentSuspended_tx :: "string \<Rightarrow> bool \<Rightarrow> db \<Rightarrow> repo_error + unit \<times> db" where
  "SetDeploymentSuspended_tx i suspended d =
    (if \<not> list_ex (\<lambda>p. dpId p = i) (deployments d) then Inl ErrNotFound
     else Inr ((), d\<lparr>suspendedDeployments :=
       (if suspended then upsert (\<lambda>s. s = i) id i (suspendedDeployments d)
        else delete_rows (\<lambda>s. s = i) (suspendedDeployments d))\<rparr>))"

definition SetDeploymentSuspended :: "repo_env \<Rightarrow> string \<Rightarrow> bool \<Rightarrow> db \<Rightarrow> (repo_error + unit) \<times> db" where
  "SetDeploymentSuspended env i suspended d =
    checked (validateID i) (mutate env ''deployment-suspension'' ''deployment'' (SetDeploymentSuspended_tx i suspended) d) d"

definition getDeployment :: "db \<Rightarrow> string \<Rightarrow> repo_error + deployment \<times> app" where
  "getDeployment d i = (if \<not> validateID i then Inl ErrInvalid
     else case find (\<lambda>p. dpId p = i) (deployments d) of
       None \<Rightarrow> Inl ErrNotFound
     | Some p \<Rightarrow> (case find (\<lambda>a. apId a = dpApp p) (apps d) of None \<Rightarrow> Inl ErrNotFound | Some a \<Rightarrow> Inr (p, a)))"

definition CurrentDeployment :: "db \<Rightarrow> string \<Rightarrow> repo_error + deployment \<times> artifact" where
  "CurrentDeployment d a = (if \<not> validateID a then Inl ErrInvalid
     else case map_of (activeDeployments d) a of
       None \<Rightarrow> Inl ErrNotFound
     | Some i \<Rightarrow> (case find (\<lambda>p. dpId p = i) (deployments d) of
         None \<Rightarrow> Inl ErrNotFound
       | Some p \<Rightarrow> (case find (\<lambda>r. arId r = dpArtifact p) (artifacts d) of None \<Rightarrow> Inl ErrNotFound | Some r \<Rightarrow> Inr (p, r))))"

section \<open>Deploying an application\<close>

record deploy_input =
  diAuthor :: string
  diDevice :: string
  diName :: string
  diKind :: string
  diAccess :: string
  diSource :: string
  diPrevious :: string
  diArtifact :: artifact_input

text \<open>
  The app of a deployment: the one of the previous deployment, the author's app of that
  name, or a new one. Its kind and access mode are reconciled with the request.
\<close>

definition deploy_app :: "repo_env \<Rightarrow> deploy_input \<Rightarrow> db \<Rightarrow> repo_error + app \<times> db" where
  "deploy_app env input d =
    (if diPrevious input \<noteq> '''' then
       (case find (\<lambda>p. dpId p = diPrevious input) (deployments d) of
          None \<Rightarrow> Inl ErrNotFound
        | Some p \<Rightarrow> (case find (\<lambda>a. apId a = dpApp p) (apps d) of
            None \<Rightarrow> Inl ErrNotFound
          | Some a \<Rightarrow> if apAuthor a \<noteq> diAuthor input \<or> apName a \<noteq> diName input then Inl ErrNotFound else Inr (a, d)))
     else case find (\<lambda>a. apAuthor a = diAuthor input \<and> apName a = diName input) (apps d) of
       Some a \<Rightarrow> Inr (a, d)
     | None \<Rightarrow>
         let now = UnixNano (eNow env);
             a = \<lparr>apId = ''app_'' @ eRandom1 env, apAuthor = diAuthor input, apName = diName input, apKind = diKind input,
                  apAccess = diAccess input, apSuspended = False, apCreated = now, apUpdated = now\<rparr> in
         sum_bind (insert_app a d) (\<lambda>d. Inr (a, d)))"

definition reconcile_app :: "repo_env \<Rightarrow> deploy_input \<Rightarrow> app \<Rightarrow> db \<Rightarrow> app \<times> db" where
  "reconcile_app env input a d =
    (if apId a \<noteq> '''' \<and> (apKind a \<noteq> diKind input \<or> apAccess a \<noteq> diAccess input) then
       let f = (\<lambda>x. x\<lparr>apKind := diKind input, apAccess := diAccess input, apUpdated := UnixNano (eNow env)\<rparr>) in
       (f a, d\<lparr>apps := update_rows (\<lambda>x. apId x = apId a) f (apps d)\<rparr>)
     else (a, d))"

text \<open>
  A replaced deployment without an open session is removed, then its artifact and the blob,
  each when nothing else refers to it.
\<close>

definition drop_replaced :: "string \<Rightarrow> db \<Rightarrow> repo_error + db" where
  "drop_replaced old d =
    (if count_rows (\<lambda>s. ssDeployment s = old \<and> ssEnded s = None) (sessions d) \<noteq> 0 then Inr d
     else case find (\<lambda>p. dpId p = old) (deployments d) of
       None \<Rightarrow> Inr d
     | Some p \<Rightarrow> (case find (\<lambda>r. arId r = dpArtifact p) (artifacts d) of
         None \<Rightarrow> Inl SqlOther
       | Some r \<Rightarrow>
           sum_bind (delete_deployment old d) (\<lambda>d.
           let d = delete_artifacts (\<lambda>x. arId x = arId r \<and> \<not> list_ex (\<lambda>p. dpArtifact p = arId r) (deployments d)) d in
           Inr (d\<lparr>blobs := delete_rows (\<lambda>b. blDigest b = arDigest r \<and> \<not> list_ex (\<lambda>x. arDigest x = arDigest r) (artifacts d)) (blobs d)\<rparr>))))"

definition new_deployment :: "repo_env \<Rightarrow> app \<Rightarrow> artifact \<Rightarrow> string \<Rightarrow> deployment" where
  "new_deployment env a meta device = \<lparr>dpId = ''dep_'' @ eRandom2 env, dpApp = apId a, dpArtifact = arId meta, dpDevice = device,
     dpCreated = UnixNano (eNow env)\<rparr>"

definition DeployApplication_tx ::
  "repo_env \<Rightarrow> artifact \<Rightarrow> deploy_input \<Rightarrow> db \<Rightarrow> repo_error + (app \<times> deployment \<times> artifact) \<times> db" where
  "DeployApplication_tx env meta input d =
    (if \<not> active_device d (diDevice input) (diAuthor input) then Inl ErrNotFound
     else sum_bind (deploy_app env input d) (\<lambda>(a, d).
       let (a, d) = reconcile_app env input a d;
           old = map_of (activeDeployments d) (apId a);
           p = new_deployment env a meta (diDevice input) in
       sum_bind (store_artifact meta (diArtifact input) d) (\<lambda>d.
       sum_bind (insert_deployment p d) (\<lambda>d.
       sum_bind (set_active (apId a) (dpId p) d) (\<lambda>d.
       sum_bind (case old of None \<Rightarrow> Inr d
                 | Some i \<Rightarrow> if i \<noteq> '''' \<and> i \<noteq> dpId p then drop_replaced i d else Inr d) (\<lambda>d.
       sum_bind (audit env (event_of (''audit_'' @ dpId p) (diAuthor input) ''device'' (diAuthor input) (diDevice input)
          ''deployment.replace'' ''deployment'' (dpId p) (diDevice input) (apName a)) d) (\<lambda>d.
       Inr ((a, p, meta), d))))))))"

definition DeployApplication ::
  "repo_env \<Rightarrow> deploy_input \<Rightarrow> db \<Rightarrow> (repo_error + app \<times> deployment \<times> artifact) \<times> db" where
  "DeployApplication env input d =
    checked (validateID (diAuthor input) \<and> validateID (diDevice input) \<and> validateID (diName input) \<and>
        kinds_ok (diKind input) (diAccess input) \<and> diSource input \<noteq> '''')
     (case validateArtifact env (diArtifact input) of
        Inl e \<Rightarrow> (Inl e, d)
      | Inr meta \<Rightarrow> mutate env ''application-deploy'' ''deployment'' (DeployApplication_tx env meta input) d) d"

section \<open>Resolving what a session runs\<close>

record runnable =
  rnApp :: app
  rnDeployment :: string
  rnArtifact :: artifact
  rnWasm :: bytes

definition ResolveRunnable :: "repo_env \<Rightarrow> db \<Rightarrow> string \<Rightarrow> string \<Rightarrow> repo_error + runnable" where
  "ResolveRunnable env d author name =
    (if \<not> validateID author then Inl ErrInvalid
     else case find (\<lambda>a. apAuthor a = author \<and> apName a = name) (apps d) of
       None \<Rightarrow> Inl ErrNotFound
     | Some a \<Rightarrow> (case map_of (activeDeployments d) (apId a) of
         None \<Rightarrow> Inl ErrNotFound
       | Some i \<Rightarrow> (case find (\<lambda>p. dpId p = i \<and> dpApp p = apId a) (deployments d) of
           None \<Rightarrow> Inl ErrNotFound
         | Some p \<Rightarrow> (case find (\<lambda>r. arId r = dpArtifact p) (artifacts d) of
             None \<Rightarrow> Inl ErrNotFound
           | Some r \<Rightarrow>
               if apSuspended a \<or> i \<in> set (suspendedDeployments d) then Inl ErrSuspended
               else case find (\<lambda>b. blDigest b = arDigest r) (blobs d) of
                 None \<Rightarrow> Inl ErrNotFound
               | Some b \<Rightarrow>
                   if int (length (blWasm b)) \<noteq> arSize r \<or> \<not> VerifyDigestBytes env (arDigest r) (blWasm b) then Inl ErrIntegrity
                   else Inr \<lparr>rnApp = a, rnDeployment = i, rnArtifact = r, rnWasm = blWasm b\<rparr>))))"

definition ResolveLeafRunnable :: "repo_env \<Rightarrow> db \<Rightarrow> string \<Rightarrow> string \<Rightarrow> string \<Rightarrow> string \<Rightarrow> repo_error + runnable" where
  "ResolveLeafRunnable env d handle name fingerprint identityAuthor =
    (if \<not> validateHandle env handle then Inl ErrInvalid
     else if \<not> validateID name \<or> name = '''' then Inl ErrInvalid
     else case find (\<lambda>a. auHandle a = handle) (authors d) of
       None \<Rightarrow> Inl ErrNotFound
     | Some u \<Rightarrow>
         if auSuspended u then Inl ErrSuspended
         else sum_bind (ResolveRunnable env d (auId u) name) (\<lambda>r.
           if apAccess (rnApp r) = ''public'' \<or> identityAuthor = auId u then Inr r
           else if TrimSpace fingerprint = '''' then Inl ErrNotFound
           else if list_ex (\<lambda>k. akApp k = apId (rnApp r) \<and> akFingerprint k = fingerprint) (accessKeys d) \<or>
                   list_ex (\<lambda>v. dvFingerprint v = fingerprint \<and> dvAuthor v = apAuthor (rnApp r) \<and> dvRevoked v = None) (devices d)
                then Inr r
           else Inl ErrNotFound))"

section \<open>Garbage collection\<close>

text \<open>
  The four deletes are the entries of a Go map, so they run in an arbitrary order, which is the
  parameter \<open>order\<close>; the result counts the removed rows of each.
\<close>

datatype gc_query = GcAudit | GcSessions | GcArtifacts | GcBlobs

definition gc_delete :: "int \<Rightarrow> gc_query \<Rightarrow> db \<Rightarrow> nat \<times> db" where
  "gc_delete cutoff q d = (case q of
     GcAudit \<Rightarrow> let P = (\<lambda>e. aeOccurred e < cutoff) in
       (count_rows P (auditEvents d), d\<lparr>auditEvents := delete_rows P (auditEvents d)\<rparr>)
   | GcSessions \<Rightarrow> let P = (\<lambda>s. case ssEnded s of None \<Rightarrow> False | Some t \<Rightarrow> t < cutoff) in
       (count_rows P (sessions d), d\<lparr>sessions := delete_rows P (sessions d)\<rparr>)
   | GcArtifacts \<Rightarrow> let P = (\<lambda>a. arCreated a < cutoff \<and> \<not> list_ex (\<lambda>p. dpArtifact p = arId a) (deployments d)) in
       (count_rows P (artifacts d), delete_artifacts P d)
   | GcBlobs \<Rightarrow> let P = (\<lambda>b. \<not> list_ex (\<lambda>a. arDigest a = blDigest b) (artifacts d)) in
       (count_rows P (blobs d), d\<lparr>blobs := delete_rows P (blobs d)\<rparr>))"

fun gc_run :: "int \<Rightarrow> gc_query list \<Rightarrow> db \<Rightarrow> (gc_query \<times> nat) list \<times> db" where
  "gc_run cutoff [] d = ([], d)"
| "gc_run cutoff (q # qs) d = (let (n, d) = gc_delete cutoff q d; (ns, d) = gc_run cutoff qs d in ((q, n) # ns, d))"

definition GarbageCollect_tx :: "repo_env \<Rightarrow> gc_query list \<Rightarrow> gotime \<Rightarrow> db \<Rightarrow> repo_error + (gc_query \<times> nat) list \<times> db" where
  "GarbageCollect_tx env order before d =
    (let (ns, d) = gc_run (UnixNano before) order d in
     Inr (ns, d\<lparr>tombstones := delete_rows (\<lambda>t. tbAvailable t \<le> UnixNano (eNow env)) (tombstones d)\<rparr>))"

definition GarbageCollect ::
  "repo_env \<Rightarrow> gc_query list \<Rightarrow> gotime \<Rightarrow> db \<Rightarrow> (repo_error + (gc_query \<times> nat) list) \<times> db" where
  "GarbageCollect env order before d = mutate env ''garbage-collect'' ''gc'' (GarbageCollect_tx env order before) d"

end
