(* ===== verification/Repo_Kv.thy ===== *)
theory Repo_Kv
  imports Repo_Apps Kv_Store
begin

text \<open>
  The key/value tables of the repository (\<^verbatim>\<open>internal/sqlite/repository_kv.go\<close>) and the
  adapter that gives them to a guest as a \<open>Store\<close>
  (\<^verbatim>\<open>internal/gateway/kvstore.go\<close>). The usage row of an app is shown to be
  exact, each operation on the tables is shown to be the operation of \<open>MemStore\<close> on the
  app's entries, and the adapter is an instance of the interface \<open>kv_store\<close>.
\<close>

section \<open>Operations\<close>

definition kvMaxKeyLen :: nat where "kvMaxKeyLen = 256"

definition validateKVKey :: "bytes \<Rightarrow> bool" where
  "validateKVKey key \<longleftrightarrow> key \<noteq> [] \<and> length key \<le> kvMaxKeyLen"

definition is_entry :: "string \<Rightarrow> bytes \<Rightarrow> kv_entry \<Rightarrow> bool" where
  "is_entry a key e \<longleftrightarrow> keApp e = a \<and> keKey e = key"

definition KVGet :: "db \<Rightarrow> string \<Rightarrow> bytes \<Rightarrow> repo_error + bytes option" where
  "KVGet d a key =
    (if \<not> validateID a then Inl ErrInvalid
     else if \<not> validateKVKey key then Inl ErrInvalid
     else Inr (map_option keValue (find (is_entry a key) (kvEntries d))))"

definition usage_of :: "string \<Rightarrow> db \<Rightarrow> int \<times> int" where
  "usage_of a d = (case find (\<lambda>u. kuApp u = a) (kvUsages d) of None \<Rightarrow> (0, 0) | Some u \<Rightarrow> (kuKeys u, kuBytes u))"

definition put_entry :: "repo_env \<Rightarrow> string \<Rightarrow> bytes \<Rightarrow> bytes \<Rightarrow> int \<Rightarrow> db \<Rightarrow> db" where
  "put_entry env a key val revision d = d\<lparr>kvEntries :=
     upsert (is_entry a key) (\<lambda>e. e\<lparr>keValue := val, keRevision := revision, keUpdated := UnixNano (eNow env)\<rparr>)
       \<lparr>keApp = a, keKey = key, keValue = val, keRevision = revision, keUpdated = UnixNano (eNow env)\<rparr> (kvEntries d)\<rparr>"

definition put_usage :: "string \<Rightarrow> int \<Rightarrow> int \<Rightarrow> db \<Rightarrow> db" where
  "put_usage a keys bytes d = d\<lparr>kvUsages :=
     upsert (\<lambda>u. kuApp u = a) (\<lambda>u. u\<lparr>kuKeys := keys, kuBytes := bytes\<rparr>)
       \<lparr>kuApp = a, kuKeys = keys, kuBytes = bytes\<rparr> (kvUsages d)\<rparr>"

definition kvWrite_tx :: "repo_env \<Rightarrow> string \<Rightarrow> bytes \<Rightarrow> bytes option \<Rightarrow> bytes \<Rightarrow> db \<Rightarrow> repo_error + unit \<times> db" where
  "kvWrite_tx env a key expected val d =
    sum_bind (appExists d a) (\<lambda>_.
    let entry = find (is_entry a key) (kvEntries d);
        existed = (entry \<noteq> None);
        previous = (case entry of None \<Rightarrow> [] | Some e \<Rightarrow> keValue e);
        revision = (case entry of None \<Rightarrow> 1 | Some e \<Rightarrow> keRevision e + 1);
        actual = (if existed then eSha env previous else zero_hash) in
    if expected \<noteq> None \<and> expected \<noteq> Some actual then Inl repo_error.ErrConflict
    else
      let (usedKeys, usedBytes) = usage_of a d;
          newBytes = usedBytes + int (length val) - int (length previous);
          newBytes = (if existed then newBytes else newBytes + int (length key));
          newKeys = (if existed then usedKeys else usedKeys + 1) in
      if \<not> existed \<and> eKVMaxKeys env > 0 \<and> newKeys > eKVMaxKeys env then Inl repo_error.ErrQuota
      else if eKVMaxBytes env > 0 \<and> newBytes > eKVMaxBytes env then Inl repo_error.ErrQuota
      else if newKeys < 0 \<or> newBytes < 0 then Inl SqlOther
      else Inr ((), put_usage a newKeys newBytes (put_entry env a key val revision d)))"

definition kvWrite :: "repo_env \<Rightarrow> string \<Rightarrow> bytes \<Rightarrow> bytes option \<Rightarrow> bytes \<Rightarrow> db \<Rightarrow> (repo_error + unit) \<times> db" where
  "kvWrite env a key expected val d =
    checked (validateID a \<and> validateKVKey key) (mutate env ''kv-write'' ''app'' (kvWrite_tx env a key expected val) d) d"

definition KVSet :: "repo_env \<Rightarrow> string \<Rightarrow> bytes \<Rightarrow> bytes \<Rightarrow> db \<Rightarrow> (repo_error + unit) \<times> db" where
  "KVSet env a key val = kvWrite env a key None val"

definition KVCompareAndSwap :: "repo_env \<Rightarrow> string \<Rightarrow> bytes \<Rightarrow> bytes \<Rightarrow> bytes \<Rightarrow> db \<Rightarrow> (repo_error + unit) \<times> db" where
  "KVCompareAndSwap env a key expected val = kvWrite env a key (Some expected) val"

definition KVDelete_tx :: "string \<Rightarrow> bytes \<Rightarrow> db \<Rightarrow> repo_error + unit \<times> db" where
  "KVDelete_tx a key d =
    (case find (is_entry a key) (kvEntries d) of
       None \<Rightarrow> Inr ((), d)
     | Some e \<Rightarrow>
         let n = int (length key) + int (length (keValue e)) in
         Inr ((), d\<lparr>kvEntries := delete_rows (is_entry a key) (kvEntries d),
           kvUsages := update_rows (\<lambda>u. kuApp u = a \<and> kuKeys u > 0 \<and> kuBytes u \<ge> n)
             (\<lambda>u. u\<lparr>kuKeys := kuKeys u - 1, kuBytes := kuBytes u - n\<rparr>) (kvUsages d)\<rparr>))"

definition KVDelete :: "repo_env \<Rightarrow> string \<Rightarrow> bytes \<Rightarrow> db \<Rightarrow> (repo_error + unit) \<times> db" where
  "KVDelete env a key d =
    checked (validateID a \<and> validateKVKey key) (mutate env ''kv-delete'' ''app'' (KVDelete_tx a key) d) d"

definition KVList :: "db \<Rightarrow> string \<Rightarrow> bytes \<Rightarrow> int \<Rightarrow> repo_error + bytes list" where
  "KVList d a p limit =
    (if \<not> validateID a then Inl ErrInvalid
     else if limit < 1 \<or> limit > 256 \<or> length p > kvMaxKeyLen then Inl ErrInvalid
     else Inr (take (nat limit) (sort (map keKey (filter (\<lambda>e. keApp e = a \<and> has_prefix (keKey e) p) (kvEntries d))))))"

definition KVUsage :: "db \<Rightarrow> string \<Rightarrow> repo_error + int \<times> int" where
  "KVUsage d a = (if \<not> validateID a then Inl ErrInvalid else Inr (usage_of a d))"

section \<open>The store of a guest\<close>

text \<open>
  The adapter turns the two errors the host functions distinguish into the runner's and
  passes every other one on, which the host reports as internal.
\<close>

definition kv_quota :: "repo_error \<Rightarrow> kv_error" where
  "kv_quota e = (if e = repo_error.ErrQuota then kv_error.ErrQuota else ErrIO)"

definition kv_conflict :: "repo_error \<Rightarrow> kv_error" where
  "kv_conflict e = (if e = repo_error.ErrQuota then kv_error.ErrQuota
     else if e = repo_error.ErrConflict then kv_error.ErrConflict else ErrIO)"

definition store_result :: "(repo_error \<Rightarrow> kv_error) \<Rightarrow> (repo_error + unit) \<times> db \<Rightarrow> kv_error option \<times> db" where
  "store_result f r = (case r of (Inl e, d) \<Rightarrow> (Some (f e), d) | (Inr _, d) \<Rightarrow> (None, d))"

definition sqlite_ops :: "repo_env \<Rightarrow> string \<Rightarrow> db store_ops" where
  "sqlite_ops env a =
    \<lparr>opGet = (\<lambda>d key. case KVGet d a key of Inl _ \<Rightarrow> Inl ErrIO | Inr v \<Rightarrow> Inr v),
     opSet = (\<lambda>d key val. store_result kv_quota (KVSet env a key val d)),
     opDelete = (\<lambda>d key. store_result (\<lambda>_. ErrIO) (KVDelete env a key d)),
     opList = (\<lambda>d p limit. case KVList d a p limit of Inl _ \<Rightarrow> Inl ErrIO | Inr ks \<Rightarrow> Inr ks),
     opCAS = (\<lambda>d key h val. store_result kv_conflict (KVCompareAndSwap env a key h val d))\<rparr>"

section \<open>Usage accounting\<close>

abbreviation ent :: "string \<Rightarrow> kv_entry list \<Rightarrow> kvmap" where
  "ent a es \<equiv> map (\<lambda>e. (keKey e, keValue e)) (filter (\<lambda>e. keApp e = a) es)"

definition entries_of :: "string \<Rightarrow> db \<Rightarrow> kvmap" where
  "entries_of a d = map (\<lambda>e. (keKey e, keValue e)) (filter (\<lambda>e. keApp e = a) (kvEntries d))"

text \<open>
  The usage row of every app counts its entries and their bytes.
\<close>

definition usage_ok :: "db \<Rightarrow> bool" where
  "usage_ok d \<longleftrightarrow> distinct (map (\<lambda>e. (keApp e, keKey e)) (kvEntries d)) \<and> distinct (map kuApp (kvUsages d)) \<and>
     (\<forall>a. usage_of a d = (int (length (entries_of a d)), file_bytes (entries_of a d)))"

text \<open>
  An app's entries as a \<open>MemStore\<close> with the repository's budgets.
\<close>

definition kv_view :: "repo_env \<Rightarrow> string \<Rightarrow> db \<Rightarrow> memstore" where
  "kv_view env a d = \<lparr>msM = entries_of a d, msBytes = snd (usage_of a d),
     msMaxKeys = eKVMaxKeys env, msMaxBytes = eKVMaxBytes env\<rparr>"

text \<open>
  One write of a guest through a store.
\<close>

fun store_step :: "'s store_ops \<Rightarrow> kv_op \<Rightarrow> 's \<Rightarrow> kv_error option \<times> 's" where
  "store_step ops (KSet k v) s = opSet ops s k v"
| "store_step ops (KDelete k) s = opDelete ops s k"
| "store_step ops (KCas k h v) s = opCAS ops s k h v"

primrec op_key :: "kv_op \<Rightarrow> bytes" where
  "op_key (KSet k v) = k"
| "op_key (KDelete k) = k"
| "op_key (KCas k h v) = k"

definition kv_inv :: "string \<Rightarrow> db \<Rightarrow> bool" where
  "kv_inv a d \<longleftrightarrow> usage_ok d \<and> has_app d a \<and> validateID a"

text \<open>
  What a step of the app \<open>a\<close> may change.
\<close>

definition step_ok :: "repo_env \<Rightarrow> string \<Rightarrow> db \<Rightarrow> db \<Rightarrow> bool" where
  "step_ok env a d d' \<longleftrightarrow> kv_inv a d' \<and> (\<forall>b. b \<noteq> a \<longrightarrow> kv_view env b d' = kv_view env b d)"

text \<open>
  An app for examples.
\<close>

definition demo_app :: app where
  "demo_app = \<lparr>apId = ''a'', apAuthor = ''u'', apName = ''n'', apKind = ''cli'', apAccess = ''public'', apSuspended = False,
     apCreated = 0, apUpdated = 0\<rparr>"

section \<open>Entries of an app\<close>

lemma map_of_ent: "map_of (ent a es) key = map_option keValue (find (is_entry a key) es)"
  by (induction es) (auto simp: is_entry_def)

lemma keys_ent: "distinct (map (\<lambda>e. (keApp e, keKey e)) es) \<Longrightarrow> distinct (map fst (ent a es))"
  by (induction es) (auto simp: image_iff)

lemma ent_delete: "ent a (delete_rows (is_entry a key) es) = AList.delete key (ent a es)"
  by (induction es) (auto simp: delete_rows_def is_entry_def)

lemma ent_delete_other: "b \<noteq> a \<Longrightarrow> ent b (delete_rows (is_entry a key) es) = ent b es"
  by (induction es) (auto simp: delete_rows_def is_entry_def)

lemma alist_update_new: "key \<notin> fst ` set m \<Longrightarrow> AList.update key v m = m @ [(key, v)]"
  by (induction m) auto

lemma ent_update:
  assumes "distinct (map (\<lambda>e. (keApp e, keKey e)) es)" "list_ex (is_entry a key) es"
    and "\<And>e. keApp (f e) = keApp e \<and> keKey (f e) = keKey e \<and> keValue (f e) = v"
  shows "ent a (update_rows (is_entry a key) f es) = AList.update key v (ent a es)"
  using assms(1,2)
proof (induction es)
  case (Cons e es)
  show ?case
  proof (cases "is_entry a key e")
    case True
    with Cons.prems have "\<forall>x\<in>set es. \<not> is_entry a key x"
      by (auto simp: is_entry_def image_iff)
    then have "update_rows (is_entry a key) f es = es" by (rule update_rows_none)
    with True assms(3) show ?thesis by (simp add: update_rows_def) (simp add: is_entry_def)
  next
    case False
    with Cons show ?thesis by (auto simp: update_rows_def is_entry_def)
  qed
qed simp

lemma ent_upsert:
  assumes "distinct (map (\<lambda>e. (keApp e, keKey e)) es)"
    and "\<And>e. keApp (f e) = keApp e \<and> keKey (f e) = keKey e \<and> keValue (f e) = v"
    and "keApp r = a" "keKey r = key" "keValue r = v"
  shows "ent a (upsert (is_entry a key) f r es) = AList.update key v (ent a es)"
proof (cases "list_ex (is_entry a key) es")
  case True then show ?thesis using assms by (simp add: upsert_def ent_update)
next
  case False
  then have "key \<notin> fst ` set (ent a es)" by (auto simp: list_ex_iff is_entry_def)
  with False assms(3-5) show ?thesis by (simp add: upsert_def alist_update_new)
qed

lemma ent_upsert_other:
  assumes "\<And>e. keApp (f e) = keApp e" and "keApp r = a" and "b \<noteq> a"
  shows "ent b (upsert (is_entry a key) f r es) = ent b es"
proof -
  have "ent b (update_rows (is_entry a key) f es) = ent b es"
    using assms by (induction es) (auto simp: update_rows_def is_entry_def)
  with assms show ?thesis by (simp add: upsert_def)
qed

section \<open>The tables behave as MemStore\<close>

lemma usage_put [simp]:
  "usage_of b (put_usage a n m d) = (if b = a then (n, m) else usage_of b d)"
  "usage_of b (put_entry env a key val r d) = usage_of b d"
  by (simp_all add: usage_of_def put_usage_def put_entry_def find_upsert [of kuApp] split: option.splits)

lemma entries_put_usage [simp]: "entries_of b (put_usage a n m d) = entries_of b d"
  by (simp add: entries_of_def put_usage_def)

lemma entries_put_entry:
  "distinct (map (\<lambda>e. (keApp e, keKey e)) (kvEntries d)) \<Longrightarrow>
   entries_of a (put_entry env a key val r d) = AList.update key val (entries_of a d)"
  by (simp add: entries_of_def put_entry_def ent_upsert)

lemma entries_put_other [simp]: "b \<noteq> a \<Longrightarrow> entries_of b (put_entry env a key val r d) = entries_of b d"
  by (simp add: entries_of_def put_entry_def ent_upsert_other)

lemma put_tables [simp]:
  "apps (put_usage a n m d) = apps d" "apps (put_entry env a key val r d) = apps d"
  "kvEntries (put_usage a n m d) = kvEntries d" "kvUsages (put_entry env a key val r d) = kvUsages d"
  by (simp_all add: put_usage_def put_entry_def)

lemma put_keys:
  "distinct (map kuApp (kvUsages d)) \<Longrightarrow> distinct (map kuApp (kvUsages (put_usage a n m d)))"
  "distinct (map (\<lambda>e. (keApp e, keKey e)) (kvEntries d)) \<Longrightarrow>
   distinct (map (\<lambda>e. (keApp e, keKey e)) (kvEntries (put_entry env a key val r d)))"
  by (auto simp: put_usage_def put_entry_def is_entry_def intro!: distinct_upsert)

lemma usage_okD:
  "usage_ok d \<Longrightarrow> usage_of a d = (int (length (entries_of a d)), file_bytes (entries_of a d))"
  "usage_ok d \<Longrightarrow> distinct (map fst (entries_of a d))"
  by (simp_all add: usage_ok_def entries_of_def keys_ent del: map_map)

lemma view_inv: "usage_ok d \<Longrightarrow> mem_inv (kv_view env a d)"
  by (simp add: mem_inv_def kv_view_def usage_okD)

lemma map_of_entries: "map_of (entries_of a d) key = map_option keValue (find (is_entry a key) (kvEntries d))"
  by (simp add: entries_of_def map_of_ent)

lemma file_bytes_nonneg: "0 \<le> file_bytes m"
  by (induction m) auto

text \<open>
  A write without an expectation is \<open>memSet\<close> on the view of the app, and leaves every
  other app's view alone.
\<close>

lemma write_refines:
  assumes inv: "usage_ok d" and app: "has_app d a"
  shows "case memSet (kv_view env a d) key val of
      (None, s') \<Rightarrow> \<exists>d'. kvWrite_tx env a key None val d = Inr ((), d') \<and> kv_view env a d' = s' \<and> usage_ok d' \<and>
         (\<forall>b. b \<noteq> a \<longrightarrow> kv_view env b d' = kv_view env b d) \<and> apps d' = apps d
    | (Some _, _) \<Rightarrow> kvWrite_tx env a key None val d = Inl repo_error.ErrQuota"
proof -
  define entry where "entry = find (is_entry a key) (kvEntries d)"
  define n m r where "n = (if entry = None then int (length (entries_of a d)) + 1 else int (length (entries_of a d)))"
    and "m = file_bytes (entries_of a d) + int (length val) + (case entry of None \<Rightarrow> int (length key) | Some e \<Rightarrow> - int (length (keValue e)))"
    and "r = (case entry of None \<Rightarrow> 1 | Some e \<Rightarrow> keRevision e + 1)"
  define d' where "d' = put_usage a n m (put_entry env a key val r d)"
  have keys: "distinct (map (\<lambda>e. (keApp e, keKey e)) (kvEntries d))" "distinct (map kuApp (kvUsages d))"
    using inv by (simp_all add: usage_ok_def)
  have ents: "entries_of a d' = AList.update key val (entries_of a d)"
    by (simp add: d'_def entries_put_entry [OF keys(1)])
  have m: "file_bytes (entries_of a d') = m"
    unfolding ents m_def using file_bytes_update [OF usage_okD(2) [OF inv], of key val]
    by (simp add: map_of_entries entry_def split: option.splits)
  have n: "int (length (entries_of a d')) = n"
    unfolding ents n_def by (simp add: length_update map_of_entries entry_def)
  have usage: "usage_of b d' = (int (length (entries_of b d')), file_bytes (entries_of b d'))" for b
    using m n usage_okD(1) [OF inv, of b] by (cases "b = a") (simp_all add: d'_def)
  have ok: "usage_ok d'"
    using usage put_keys keys by (simp add: usage_ok_def) (simp add: d'_def put_keys)
  have quota: "kvWrite_tx env a key None val d =
      (if entry = None \<and> eKVMaxKeys env > 0 \<and> n > eKVMaxKeys env then Inl repo_error.ErrQuota
       else if eKVMaxBytes env > 0 \<and> m > eKVMaxBytes env then Inl repo_error.ErrQuota
       else Inr ((), d'))"
  proof -
    have "0 \<le> n" "0 \<le> m" using n m file_bytes_nonneg by (metis of_nat_0_le_iff, metis)
    then show ?thesis
      using app unfolding kvWrite_tx_def appExists_def
      by (cases entry) (simp_all add: Let_def usage_okD(1) [OF inv] entry_def [symmetric] d'_def n_def m_def r_def algebra_simps)
  qed
  have view: "memSet (kv_view env a d) key val =
      (if entry = None \<and> eKVMaxKeys env > 0 \<and> n > eKVMaxKeys env then (Some kv_error.ErrQuota, kv_view env a d)
       else if eKVMaxBytes env > 0 \<and> m > eKVMaxBytes env then (Some kv_error.ErrQuota, kv_view env a d)
       else (None, kv_view env a d'))"
    using usage [of a] ents m usage_okD(1) [OF inv, of a]
    by (cases entry) (simp_all add: memSet_def Let_def kv_view_def map_of_entries entry_def [symmetric] n_def m_def algebra_simps)
  have "kv_view env b d' = kv_view env b d" if "b \<noteq> a" for b
    using that by (simp add: kv_view_def d'_def)
  then show ?thesis using quota view ok by (simp add: d'_def)
qed

lemma length_delete_key:
  "distinct (map fst m) \<Longrightarrow> map_of m k = Some p \<Longrightarrow> length (AList.delete k m) + 1 = length m"
proof (induction m)
  case (Cons x m)
  have "AList.delete k m = m" if "k \<notin> fst ` set m"
    using that by (simp add: AList.delete_idem)
  with Cons show ?case by (cases x) auto
qed simp

lemma delete_refines:
  assumes inv: "usage_ok d"
  shows "\<exists>d'. KVDelete_tx a key d = Inr ((), d') \<and> memDelete (kv_view env a d) key = (None, kv_view env a d') \<and>
    usage_ok d' \<and> (\<forall>b. b \<noteq> a \<longrightarrow> kv_view env b d' = kv_view env b d) \<and> apps d' = apps d"
proof (cases "find (is_entry a key) (kvEntries d)")
  case None
  then show ?thesis using inv by (simp add: KVDelete_tx_def memDelete_def kv_view_def map_of_entries)
next
  case (Some e)
  define n where "n = int (length key) + int (length (keValue e))"
  define d' where "d' = d\<lparr>kvEntries := delete_rows (is_entry a key) (kvEntries d),
     kvUsages := update_rows (\<lambda>u. kuApp u = a \<and> kuKeys u > 0 \<and> kuBytes u \<ge> n)
             (\<lambda>u. u\<lparr>kuKeys := kuKeys u - 1, kuBytes := kuBytes u - n\<rparr>) (kvUsages d)\<rparr>"
  have tx: "KVDelete_tx a key d = Inr ((), d')"
    using Some by (simp add: KVDelete_tx_def d'_def n_def Let_def)
  have val: "map_of (entries_of a d) key = Some (keValue e)"
    using Some by (simp add: map_of_entries)
  have ents: "entries_of a d' = AList.delete key (entries_of a d)"
    by (simp add: entries_of_def d'_def ent_delete)
  have others: "entries_of b d' = entries_of b d" if "b \<noteq> a" for b
    using that by (simp add: entries_of_def d'_def ent_delete_other)
  have bytes: "file_bytes (entries_of a d') = file_bytes (entries_of a d) - n"
    unfolding ents n_def using file_bytes_delete [OF usage_okD(2) [OF inv] val] by simp
  have len: "length (entries_of a d') + 1 = length (entries_of a d)"
    unfolding ents by (rule length_delete_key [OF usage_okD(2) [OF inv] val])
  have usage: "usage_of b d' = (int (length (entries_of b d')), file_bytes (entries_of b d'))" for b
  proof (cases "b = a")
    case True
    obtain u where u: "find (\<lambda>u. kuApp u = a) (kvUsages d) = Some u"
        "kuKeys u = int (length (entries_of a d))" "kuBytes u = file_bytes (entries_of a d)"
      using usage_okD(1) [OF inv, of a] len by (auto simp: usage_of_def split: option.splits)
    then have "kuApp u = a" "kuKeys u > 0" "n \<le> kuBytes u"
      using len bytes file_bytes_nonneg [of "entries_of a d'"] find_set [OF u(1)] by auto
    with u(1) have "find (\<lambda>u. kuApp u = a) (kvUsages d') = Some (u\<lparr>kuKeys := kuKeys u - 1, kuBytes := kuBytes u - n\<rparr>)"
      by (simp add: d'_def find_update)
    with True u(2,3) len bytes show ?thesis by (simp add: usage_of_def)
  next
    case False
    then have "find (\<lambda>u. kuApp u = b) (kvUsages d') = find (\<lambda>u. kuApp u = b) (kvUsages d)"
      by (cases "find (\<lambda>u. kuApp u = b) (kvUsages d)") (auto simp: d'_def find_update dest: find_set)
    with others [OF False] usage_okD(1) [OF inv, of b] show ?thesis by (simp add: usage_of_def)
  qed
  have ok: "usage_ok d'"
    using usage inv distinct_delete_rows [of "\<lambda>e. (keApp e, keKey e)" "kvEntries d"]
    by (auto simp: usage_ok_def d'_def update_rows_keep)
  show ?thesis
    using tx ok usage usage_okD(1) [OF inv] others ents bytes val
    by (auto simp: memDelete_def kv_view_def n_def) (simp add: d'_def)
qed

lemma cas_tx:
  "has_app d a \<Longrightarrow> kvWrite_tx env a key (Some h) val d =
    (if (case map_of (entries_of a d) key of None \<Rightarrow> zero_hash | Some p \<Rightarrow> eSha env p) \<noteq> h then Inl repo_error.ErrConflict
     else kvWrite_tx env a key None val d)"
  by (cases "find (is_entry a key) (kvEntries d)")
    (auto simp: kvWrite_tx_def appExists_def map_of_entries Let_def split: prod.splits)

section \<open>The adapter meets the interface\<close>

text \<open>
  One write through the adapter, whatever the engine does, is the write of \<open>MemStore\<close> or an
  internal error that changes nothing; other apps see no difference.
\<close>

lemma mutate_outcome:
  assumes "\<not> eListener env"
  shows "(\<exists>e. mutate env operation kind fn d = (Inl e, d) \<and> e \<notin> {repo_error.ErrQuota, repo_error.ErrConflict}) \<or>
    mutate env operation kind fn d = (case fn d of Inl e \<Rightarrow> (Inl (mapRepositoryError e), d) | Inr (x, d') \<Rightarrow> (Inr x, d'))"
  using assms
  by (cases "fn d") (auto simp: mutate_def notify_def mapRepositoryError_def mapConstraint_def storageError_def repository_errors_def
      split: if_splits)

lemma step_ok_refl: "kv_inv a d \<Longrightarrow> step_ok env a d d"
  by (simp add: step_ok_def)

lemma tx_refines:
  assumes inv: "kv_inv a d" and listener: "\<not> eListener env"
    and ok: "q = None \<Longrightarrow> \<exists>d'. fn d = Inr ((), d') \<and> kv_view env a d' = s' \<and> step_ok env a d d'"
    and err: "\<And>e. q = Some e \<Longrightarrow> s' = kv_view env a d \<and> (\<exists>e'. fn d = Inl e' \<and> e' \<in> set repository_errors \<and> f e' = e)"
    and io: "\<And>e. e \<notin> {repo_error.ErrQuota, repo_error.ErrConflict} \<Longrightarrow> f e = ErrIO"
    and run: "store_result f (mutate env operation kind fn d) = (r, d')"
  shows "step_ok env a d d' \<and> (r = Some ErrIO \<and> d' = d \<or> (q, s') = (r, kv_view env a d'))"
  using mutate_outcome [OF listener, of operation kind fn d]
proof
  assume "\<exists>e. mutate env operation kind fn d = (Inl e, d) \<and> e \<notin> {repo_error.ErrQuota, repo_error.ErrConflict}"
  then show ?thesis using run io step_ok_refl [OF inv] by (auto simp: store_result_def)
next
  assume "mutate env operation kind fn d = (case fn d of Inl e \<Rightarrow> (Inl (mapRepositoryError e), d) | Inr (x, d') \<Rightarrow> (Inr x, d'))"
  then show ?thesis
    using run ok err step_ok_refl [OF inv] by (cases q) (auto simp: store_result_def mapRepositoryError_def)
qed

lemma set_view:
  assumes "kv_inv a d" "memSet (kv_view env a d) key val = (q, s')"
  shows "(q = None \<longrightarrow> (\<exists>d'. kvWrite_tx env a key None val d = Inr ((), d') \<and> kv_view env a d' = s' \<and> step_ok env a d d')) \<and>
    (\<forall>e. q = Some e \<longrightarrow> s' = kv_view env a d \<and> e = kv_error.ErrQuota \<and> kvWrite_tx env a key None val d = Inl repo_error.ErrQuota)"
proof -
  have inv: "usage_ok d" "has_app d a" "validateID a" using assms(1) by (simp_all add: kv_inv_def)
  from write_refines [OF inv(1,2), of env key val] memSet_cases [OF view_inv [OF inv(1)], of env a key val] assms(2) inv(2,3)
  show ?thesis by (cases q) (auto simp: step_ok_def kv_inv_def has_app_def)
qed

lemma errors_io:
  "kv_quota e = (if e = repo_error.ErrQuota then kv_error.ErrQuota else ErrIO)"
  "e \<notin> {repo_error.ErrQuota, repo_error.ErrConflict} \<Longrightarrow> kv_conflict e = ErrIO"
  by (simp_all add: kv_quota_def kv_conflict_def)

lemma sqlite_set_refines:
  assumes "kv_inv a d" "validateKVKey key" "\<not> eListener env" "opSet (sqlite_ops env a) d key val = (r, d')"
  shows "step_ok env a d d' \<and> (r = Some ErrIO \<and> d' = d \<or> memSet (kv_view env a d) key val = (r, kv_view env a d'))"
proof -
  obtain q s' where mem: "memSet (kv_view env a d) key val = (q, s')" by (cases "memSet (kv_view env a d) key val")
  have "store_result kv_quota (mutate env ''kv-write'' ''app'' (kvWrite_tx env a key None val) d) = (r, d')"
    using assms by (simp add: sqlite_ops_def KVSet_def kvWrite_def checked_def kv_inv_def)
  from tx_refines [OF assms(1,3) _ _ _ this, of q s'] set_view [OF assms(1) mem] show ?thesis
    unfolding mem by (auto simp: errors_io repository_errors_def)
qed

lemma sqlite_cas_refines:
  assumes "kv_inv a d" "validateKVKey key" "\<not> eListener env" "opCAS (sqlite_ops env a) d key h val = (r, d')"
  shows "step_ok env a d d' \<and> (r = Some ErrIO \<and> d' = d \<or>
    memCompareAndSwap (eSha env) (kv_view env a d) key h val = (r, kv_view env a d'))"
proof -
  obtain q s' where mem: "memSet (kv_view env a d) key val = (q, s')" by (cases "memSet (kv_view env a d) key val")
  define fresh where "fresh \<longleftrightarrow> (case map_of (entries_of a d) key of None \<Rightarrow> zero_hash | Some p \<Rightarrow> eSha env p) = h"
  have cas: "memCompareAndSwap (eSha env) (kv_view env a d) key h val =
      (if fresh then q else Some kv_error.ErrConflict, if fresh then s' else kv_view env a d)"
    by (simp add: memCAS_eq fresh_def mem kv_view_def [of env a d, THEN arg_cong [of _ _ msM]])
  have run: "store_result kv_conflict (mutate env ''kv-write'' ''app'' (kvWrite_tx env a key (Some h) val) d) = (r, d')"
    using assms by (simp add: sqlite_ops_def KVCompareAndSwap_def kvWrite_def checked_def kv_inv_def)
  have tx: "kvWrite_tx env a key (Some h) val d =
      (if fresh then kvWrite_tx env a key None val d else Inl repo_error.ErrConflict)"
    using assms(1) by (simp add: cas_tx kv_inv_def fresh_def)
  show ?thesis
    unfolding cas
    by (rule tx_refines [OF assms(1,3) _ _ _ run])
      (use set_view [OF assms(1) mem] tx errors_io in \<open>auto simp: repository_errors_def kv_conflict_def split: if_splits\<close>)
qed

lemma sqlite_delete_refines:
  assumes "kv_inv a d" "validateKVKey key" "\<not> eListener env" "opDelete (sqlite_ops env a) d key = (r, d')"
  shows "step_ok env a d d' \<and> (r = Some ErrIO \<and> d' = d \<or> memDelete (kv_view env a d) key = (r, kv_view env a d'))"
proof -
  have inv: "usage_ok d" "has_app d a" "validateID a" using assms(1) by (simp_all add: kv_inv_def)
  obtain d1 where d1: "KVDelete_tx a key d = Inr ((), d1)" "memDelete (kv_view env a d) key = (None, kv_view env a d1)"
      "step_ok env a d d1"
    using delete_refines [OF inv(1), of a key env] inv by (auto simp: step_ok_def kv_inv_def has_app_def)
  have "store_result (\<lambda>_. ErrIO) (mutate env ''kv-delete'' ''app'' (KVDelete_tx a key) d) = (r, d')"
    using assms by (simp add: sqlite_ops_def KVDelete_def checked_def kv_inv_def)
  from tx_refines [OF assms(1,3) _ _ _ this, of None "kv_view env a d1"] d1 show ?thesis by auto
qed

lemma healthy_write: "kvWrite_tx (healthy env) a key h val d = kvWrite_tx env a key h val d"
  unfolding kvWrite_tx_def put_entry_def healthy_fields ..

lemma sqlite_cas_eq:
  assumes "kv_inv a d" "validateKVKey key"
  shows "opCAS (sqlite_ops (healthy env) a) d key h val =
    (if (case map_of (entries_of a d) key of None \<Rightarrow> zero_hash | Some p \<Rightarrow> eSha env p) \<noteq> h then (Some kv_error.ErrConflict, d)
     else opSet (sqlite_ops (healthy env) a) d key val)"
proof -
  obtain q s' where mem: "memSet (kv_view env a d) key val = (q, s')" by (cases "memSet (kv_view env a d) key val")
  have "kvWrite_tx env a key None val d = Inl repo_error.ErrQuota \<or> (\<exists>d'. kvWrite_tx env a key None val d = Inr ((), d'))"
    using set_view [OF assms(1) mem] by (cases q) auto
  with assms show ?thesis
    by (auto simp: sqlite_ops_def KVCompareAndSwap_def KVSet_def kvWrite_def checked_def kv_inv_def mutate_healthy cas_tx
        healthy_write store_result_def kv_conflict_def kv_quota_def mapRepositoryError_def repository_errors_def)
qed

lemma list_keys:
  "map keKey (filter (\<lambda>e. keApp e = a \<and> has_prefix (keKey e) p) es) = filter (\<lambda>k. has_prefix k p) (map fst (ent a es))"
  by (induction es) auto

interpretation sqlite_store: kv_store "sqlite_ops (healthy env) a" "eSha env" "\<lambda>d. map_of (entries_of a d)" "kv_inv a" validateKVKey
proof (unfold_locales, goal_cases)
  case (1 d k)
  then show ?case by (simp add: sqlite_ops_def KVGet_def kv_inv_def map_of_entries)
next
  case (2 d k v r d')
  then show ?case using sqlite_set_refines [of a d k "healthy env" v r d'] by (simp add: step_ok_def)
next
  case (3 d k v d')
  then show ?case
    using sqlite_set_refines [of a d k "healthy env" v None d'] memSet_cases [OF view_inv, of d "healthy env" a k v]
    by (auto simp: kv_inv_def kv_view_def)
next
  case (4 d k v e d')
  then show ?case
    using sqlite_set_refines [of a d k "healthy env" v "Some e" d'] memSet_cases [OF view_inv, of d "healthy env" a k v]
    by (auto simp: kv_inv_def kv_view_def)
next
  case (5 d k r d')
  then show ?case using sqlite_delete_refines [of a d k "healthy env" r d'] by (simp add: step_ok_def)
next
  case (6 d k d')
  then show ?case
    using sqlite_delete_refines [of a d k "healthy env" None d'] memDelete_spec [OF view_inv, of d "healthy env" a k]
    by (auto simp: kv_inv_def kv_view_def)
next
  case (7 d k e d')
  then show ?case
    using sqlite_delete_refines [of a d k "healthy env" "Some e" d'] memDelete_spec [OF view_inv, of d "healthy env" a k]
    by (auto simp: kv_inv_def kv_view_def)
next
  case (8 d n p)
  then show ?case
    by (intro exI [of _ "map fst (entries_of a d)"])
      (auto simp: sqlite_ops_def KVList_def kv_inv_def kvMaxKeyLen_def const_defs listing_def usage_okD(2) list_keys
        entries_of_def dom_map_of_conv_image_fst keys_ent usage_ok_def simp del: map_map)
next
  case (9 d k h v r d')
  then show ?case using sqlite_cas_refines [of a d k "healthy env" h v r d'] by (simp add: step_ok_def)
next
  case (10 d k h v)
  then show ?case using sqlite_cas_eq [of a d k env h v] by auto
next
  case (11 d k h v)
  then show ?case by (simp add: sqlite_cas_eq)
qed

section \<open>Properties\<close>

text \<open>
  C26: The key/value tables of the repository implement \<open>MemStore\<close>. Whatever the
  engine does, a write of a guest through the adapter either has exactly the result and
  the effect that the same write has on a \<open>MemStore\<close> holding the app's entries
  with the repository's budgets, or is an internal error that changes nothing; the usage
  row stays exact and no other app's entries change.
\<close>

theorem repository_kv_refines_memstore:
  assumes "kv_inv a d" and "validateKVKey (op_key opn)" and "\<not> eListener env"
    and "store_step (sqlite_ops env a) opn d = (r, d')"
  shows "kv_inv a d' \<and> (\<forall>b. b \<noteq> a \<longrightarrow> kv_view env b d' = kv_view env b d) \<and>
    (r = Some ErrIO \<and> d' = d \<or> store_step (mem_ops (eSha env)) opn (kv_view env a d) = (r, kv_view env a d'))"
proof (cases opn)
  case (KSet k v)
  with assms show ?thesis using sqlite_set_refines [of a d k env v r d'] by (simp add: step_ok_def mem_ops_def)
next
  case (KDelete k)
  with assms show ?thesis using sqlite_delete_refines [of a d k env r d'] by (simp add: step_ok_def mem_ops_def)
next
  case (KCas k h v)
  with assms show ?thesis using sqlite_cas_refines [of a d k env h v r d'] by (simp add: step_ok_def mem_ops_def)
qed

lemma valid_a: "validateID ''a''"
  by code_simp

lemma demo_inv: "kv_inv ''a'' (empty_db\<lparr>apps := [demo_app]\<rparr>)"
  by (simp add: kv_inv_def usage_ok_def usage_of_def entries_of_def empty_db_def has_app_def demo_app_def valid_a)

theorem repository_kv_refines_memstore_witness:
  "store_step (mem_ops (eSha demo_env)) (KSet [1] [2, 3]) (kv_view demo_env ''a'' (empty_db\<lparr>apps := [demo_app]\<rparr>)) =
    (None, kv_view demo_env ''a'' (snd (store_step (sqlite_ops demo_env ''a'') (KSet [1] [2, 3]) (empty_db\<lparr>apps := [demo_app]\<rparr>))))"
proof -
  let ?d = "empty_db\<lparr>apps := [demo_app]\<rparr>"
  have run: "store_step (sqlite_ops demo_env ''a'') (KSet [1] [2, 3]) ?d =
      (None, snd (store_step (sqlite_ops demo_env ''a'') (KSet [1] [2, 3]) ?d))"
    by (simp add: sqlite_ops_def KVSet_def kvWrite_def checked_def valid_a validateKVKey_def kvMaxKeyLen_def kvWrite_tx_def
        mutate_def appExists_def has_app_def demo_app_def empty_db_def Let_def usage_of_def demo_env_def notify_def store_result_def)
  show ?thesis
    using repository_kv_refines_memstore [OF demo_inv _ _ run]
    by (simp add: validateKVKey_def kvMaxKeyLen_def demo_env_def)
qed

end
