(* ===== verification/Repo_Inv.thy ===== *)
theory Repo_Inv
  imports Repo_Authors Repo_Deploy Repo_Kv
begin

text \<open>
  The repository as a state machine: every operation that writes, with any input, any clock
  and any behaviour of the engine and the listeners, is a step on the database. This theory
  states the invariants of the reachable databases and what follows from them for the operations.
\<close>

section \<open>Operations as steps\<close>

datatype repo_op =
    OpServerIdentity server_identity gotime
  | OpRegister registration_input
  | OpRename string string gotime
  | OpRetire string bytes gotime
  | OpRotate string bytes bytes bytes
  | OpQuota quota
  | OpRevoke string string string
  | OpRevokeAuthorized string string string
  | OpRevokeRecovery string bytes string
  | OpToken token_input
  | OpVerify string bytes
  | OpEnroll enrollment_input
  | OpRecover recovery_input
  | OpAuthority authority_input
  | OpBootstrap string bytes registration_input
  | OpApp app_input
  | OpAddKey access_key gotime
  | OpRemoveKey string string string string
  | OpCapConfig string string string string
  | OpCapValue string string string bytes
  | OpEgress string string bool
  | OpSecret string string bytes
  | OpSecretDelete string string
  | OpStart session_row gotime
  | OpLog string string bool
  | OpEnd string
  | OpArtifact artifact_input
  | OpDeployment deployment gotime
  | OpActivate string string
  | OpSuspend string bool
  | OpDeploy deploy_input
  | OpGc "gc_query list" gotime
  | OpKvWrite string bytes "bytes option" bytes
  | OpKvDelete string bytes
  | OpPrune gotime

definition outcome :: "(repo_error + 'a) \<times> db \<Rightarrow> repo_error option \<times> db" where
  "outcome r = (case r of (Inl e, d) \<Rightarrow> (Some e, d) | (Inr _, d) \<Rightarrow> (None, d))"

fun run_op :: "repo_env \<Rightarrow> repo_op \<Rightarrow> db \<Rightarrow> repo_error option \<times> db" where
  "run_op env (OpServerIdentity s t) d = outcome (SetServerIdentity env s t d)"
| "run_op env (OpRegister i) d = outcome (RegisterAuthor env i d)"
| "run_op env (OpRename a h t) d = outcome (RenameAuthor env a h t d)"
| "run_op env (OpRetire a v t) d = outcome (RetireAuthor env a v t d)"
| "run_op env (OpRotate a c s v) d = outcome (RotateRecovery env a c s v d)"
| "run_op env (OpQuota q) d = outcome (SetQuota env q d)"
| "run_op env (OpRevoke i k b) d = outcome (RevokeDevice env i k b d)"
| "run_op env (OpRevokeAuthorized a i j) d = outcome (RevokeDeviceAuthorized env a i j d)"
| "run_op env (OpRevokeRecovery a v i) d = outcome (RevokeDeviceWithRecovery env a v i d)"
| "run_op env (OpToken i) d = outcome (CreateEnrollmentToken env i d)"
| "run_op env (OpVerify i v) d = outcome (VerifyEnrollmentToken env i v d)"
| "run_op env (OpEnroll i) d = outcome (CompleteDeviceEnrollment env i d)"
| "run_op env (OpRecover i) d = outcome (CompleteRecovery env i d)"
| "run_op env (OpAuthority i) d = outcome (CreateBootstrapAuthority env i d)"
| "run_op env (OpBootstrap b v i) d = outcome (CompleteBootstrapRegistration env b v i d)"
| "run_op env (OpApp i) d = outcome (CreateApp env i d)"
| "run_op env (OpAddKey k t) d = outcome (AddAccessKey env k t d)"
| "run_op env (OpRemoveKey u a k v) d = outcome (RemoveAccessKey env u a k v d)"
| "run_op env (OpCapConfig a c k v) d = outcome (SetCapabilityConfig env a c k v d)"
| "run_op env (OpCapValue a c k v) d = outcome (SetCapabilityValue env a c k v d)"
| "run_op env (OpEgress a h b) d = outcome (SetEgressHost env a h b d)"
| "run_op env (OpSecret a k v) d = outcome (SetSecret env a k v d)"
| "run_op env (OpSecretDelete a k) d = outcome (SetSecretDelete env a k d)"
| "run_op env (OpStart s t) d = outcome (StartSession env s t d)"
| "run_op env (OpLog i l b) d = outcome (RecordSessionLog env i l b d)"
| "run_op env (OpEnd i) d = outcome (EndSession env i d)"
| "run_op env (OpArtifact i) d = outcome (PutArtifact env i d)"
| "run_op env (OpDeployment p t) d = outcome (CreateDeployment env p t d)"
| "run_op env (OpActivate a i) d = outcome (ActivateDeployment env a i d)"
| "run_op env (OpSuspend i b) d = outcome (SetDeploymentSuspended env i b d)"
| "run_op env (OpDeploy i) d = outcome (DeployApplication env i d)"
| "run_op env (OpGc qs t) d = outcome (GarbageCollect env qs t d)"
| "run_op env (OpKvWrite a k h v) d = outcome (kvWrite env a k h v d)"
| "run_op env (OpKvDelete a k) d = outcome (KVDelete env a k d)"
| "run_op env (OpPrune t) d = outcome (PruneAudit env t d)"

text \<open>
  A step under one SHA-256 function; everything else of the environment is arbitrary.
\<close>

inductive repo_step :: "(bytes \<Rightarrow> bytes) \<Rightarrow> repo_op \<Rightarrow> db \<Rightarrow> db \<Rightarrow> bool" for sha where
  step: "eSha env = sha \<Longrightarrow> run_op env opn d = (r, d') \<Longrightarrow> repo_step sha opn d d'"

text \<open>
  The reachable databases: from an empty one, by any operations; and by any operations but
  \<^verbatim>\<open>RevokeDevice\<close>, the operator's revocation without last-device protection.
\<close>

definition any_step :: "(bytes \<Rightarrow> bytes) \<Rightarrow> db \<Rightarrow> db \<Rightarrow> bool" where
  "any_step sha d d' \<longleftrightarrow> (\<exists>opn. repo_step sha opn d d')"

definition guarded_step :: "(bytes \<Rightarrow> bytes) \<Rightarrow> db \<Rightarrow> db \<Rightarrow> bool" where
  "guarded_step sha d d' \<longleftrightarrow> (\<exists>opn. (\<forall>i k b. opn \<noteq> OpRevoke i k b) \<and> repo_step sha opn d d')"

text \<open>
  What a step can commit. The operations that matter for an invariant below are given by their
  transaction body, the others by the tables they write.
\<close>

fun effect :: "repo_env \<Rightarrow> repo_op \<Rightarrow> db \<Rightarrow> db \<Rightarrow> bool" where
  "effect env (OpServerIdentity s t) d d' = (\<exists>x. d' = d\<lparr>serverIdentity := x\<rparr>)"
| "effect env (OpRegister i) d d' = (\<exists>x. RegisterAuthor_tx env i d = Inr (x, d'))"
| "effect env (OpRename a h t) d d' = (\<exists>x. RenameAuthor_tx env a h t d = Inr (x, d'))"
| "effect env (OpRetire a v t) d d' = (\<exists>x. RetireAuthor_tx env a v t d = Inr (x, d'))"
| "effect env (OpRotate a c s v) d d' = (\<exists>x ae. d' = d\<lparr>recoveries := x, auditEvents := ae\<rparr>)"
| "effect env (OpQuota q) d d' = (\<exists>x. d' = d\<lparr>quotas := x\<rparr>)"
| "effect env (OpRevoke i k b) d d' = (\<exists>x ae. d' = d\<lparr>devices := x, auditEvents := ae\<rparr>)"
| "effect env (OpRevokeAuthorized a i j) d d' = (\<exists>x. RevokeDeviceAuthorized_tx env a i j d = Inr (x, d'))"
| "effect env (OpRevokeRecovery a v i) d d' = (\<exists>x. RevokeDeviceWithRecovery_tx env a v i d = Inr (x, d'))"
| "effect env (OpToken i) d d' = (\<exists>x. d' = d\<lparr>tokens := x\<rparr>)"
| "effect env (OpVerify i v) d d' = (\<exists>x. d' = d\<lparr>tokens := x\<rparr>)"
| "effect env (OpEnroll i) d d' = (\<exists>x. CompleteDeviceEnrollment_tx env i d = Inr (x, d'))"
| "effect env (OpRecover i) d d' = (\<exists>x. CompleteRecovery_tx env i d = Inr (x, d'))"
| "effect env (OpAuthority i) d d' = (\<exists>x. d' = d\<lparr>authorities := x\<rparr>)"
| "effect env (OpBootstrap b v i) d d' = (\<exists>x. CompleteBootstrapRegistration_tx env b v i d = Inr (x, d'))"
| "effect env (OpApp i) d d' = (\<exists>x ae. d' = d\<lparr>apps := x, auditEvents := ae\<rparr>)"
| "effect env (OpAddKey k t) d d' = (\<exists>x ae. d' = d\<lparr>accessKeys := x, auditEvents := ae\<rparr>)"
| "effect env (OpRemoveKey u a k v) d d' = (\<exists>x ae. d' = d\<lparr>accessKeys := x, auditEvents := ae\<rparr>)"
| "effect env (OpCapConfig a c k v) d d' = (\<exists>x. d' = d\<lparr>capabilityConfig := x\<rparr>)"
| "effect env (OpCapValue a c k v) d d' = (\<exists>x. d' = d\<lparr>capabilityValues := x\<rparr>)"
| "effect env (OpEgress a h b) d d' = (\<exists>x. d' = d\<lparr>egress := x\<rparr>)"
| "effect env (OpSecret a k v) d d' = (\<exists>x y. d' = d\<lparr>secrets := x, secretValues := y\<rparr>)"
| "effect env (OpSecretDelete a k) d d' = (\<exists>x y. d' = d\<lparr>secrets := x, secretValues := y\<rparr>)"
| "effect env (OpStart s t) d d' = (\<exists>x. d' = d\<lparr>sessions := x\<rparr>)"
| "effect env (OpLog i l b) d d' = (\<exists>x. d' = d\<lparr>sessions := x\<rparr>)"
| "effect env (OpEnd i) d d' = (\<exists>x. d' = d\<lparr>sessions := x\<rparr>)"
| "effect env (OpArtifact i) d d' = (\<exists>a x. validateArtifact env i = Inr a \<and> PutArtifact_tx env a i d = Inr (x, d'))"
| "effect env (OpDeployment p t) d d' = (\<exists>x. CreateDeployment_tx env p t d = Inr (x, d'))"
| "effect env (OpActivate a i) d d' = (\<exists>x. ActivateDeployment_tx a i d = Inr (x, d'))"
| "effect env (OpSuspend i b) d d' = (\<exists>x. d' = d\<lparr>suspendedDeployments := x\<rparr>)"
| "effect env (OpDeploy i) d d' = (\<exists>a x. validateArtifact env (diArtifact i) = Inr a \<and> DeployApplication_tx env a i d = Inr (x, d'))"
| "effect env (OpGc qs t) d d' = (\<exists>x. GarbageCollect_tx env qs t d = Inr (x, d'))"
| "effect env (OpKvWrite a k h v) d d' = (\<exists>x. kvWrite_tx env a k h v d = Inr (x, d'))"
| "effect env (OpKvDelete a k) d d' = (\<exists>x. KVDelete_tx a k d = Inr (x, d'))"
| "effect env (OpPrune t) d d' = (\<exists>x. d' = d\<lparr>auditEvents := x\<rparr>)"

section \<open>Invariants\<close>

text \<open>
  Author ids and handles are unique and no active handle is reserved by a tombstone.
\<close>

definition handles_ok :: "db \<Rightarrow> bool" where
  "handles_ok d \<longleftrightarrow> distinct (map auId (authors d)) \<and> distinct (map auHandle (authors d)) \<and>
     (\<forall>t\<in>set (tombstones d). \<forall>a\<in>set (authors d). tbHandle t \<noteq> auHandle a)"

text \<open>
  Every author has a device that is not revoked.
\<close>

definition devices_ok :: "db \<Rightarrow> bool" where
  "devices_ok d \<longleftrightarrow> distinct (map auId (authors d)) \<and> distinct (map dvId (devices d)) \<and>
     (\<forall>a\<in>set (authors d). 1 \<le> active_count d (auId a))"

text \<open>
  A blob is stored under the digest of its bytes, an artifact has its blob, a deployment its
  artifact, and an active deployment is a deployment of its app.
\<close>

definition blobs_ok :: "(bytes \<Rightarrow> bytes) \<Rightarrow> db \<Rightarrow> bool" where
  "blobs_ok sha d \<longleftrightarrow>
     (\<forall>b\<in>set (blobs d). blDigest b = digest_of sha (blWasm b) \<and> blSize b = int (length (blWasm b))) \<and>
     (\<forall>r\<in>set (artifacts d). \<exists>b\<in>set (blobs d). blDigest b = arDigest r \<and> blSize b = arSize r)"

definition deployments_ok :: "db \<Rightarrow> bool" where
  "deployments_ok d \<longleftrightarrow> distinct (map arId (artifacts d)) \<and> distinct (map dpId (deployments d)) \<and>
     distinct (map fst (activeDeployments d)) \<and>
     (\<forall>p\<in>set (deployments d). has_artifact d (dpArtifact p)) \<and>
     (\<forall>(a, i)\<in>set (activeDeployments d). \<exists>p\<in>set (deployments d). dpId p = i \<and> dpApp p = a)"

definition bytes_ok :: "(bytes \<Rightarrow> bytes) \<Rightarrow> db \<Rightarrow> bool" where
  "bytes_ok sha d \<longleftrightarrow> distinct (map blDigest (blobs d)) \<and> blobs_ok sha d \<and> deployments_ok d"

section \<open>Every step commits an effect or nothing\<close>

lemmas frame_simps = Let_def sum_bind_Inr insert_row_Inr appExists_def

lemma mutate_snd:
  assumes "\<And>x d'. fn d = Inr (x, d') \<Longrightarrow> P d'"
  shows "snd (mutate env operation kind fn d) = d \<or> P (snd (mutate env operation kind fn d))"
  using assms by (cases rule: mutate_cases [of env operation kind fn d]) auto

lemma snd_outcome [simp]: "snd (outcome run) = snd run"
  by (auto simp: outcome_def split: prod.splits sum.splits)

lemma snd_verification [simp]: "snd (verification_result run) = snd run"
  by (auto simp: verification_result_def split: prod.splits sum.splits option.splits)

lemma committed:
  assumes "\<And>x d'. fn d = Inr (x, d') \<Longrightarrow> P d'"
  shows "snd (outcome (checked ok (mutate env operation kind fn d) d)) = d \<or>
    P (snd (outcome (checked ok (mutate env operation kind fn d) d)))"
  using mutate_snd [of fn d P env operation kind, OF assms] by (simp add: checked_def)

lemma committed_verification:
  assumes "\<And>x d'. fn d = Inr (x, d') \<Longrightarrow> P d'"
  shows "snd (outcome (checked ok (verification_result (mutate env operation kind fn d)) d)) = d \<or>
    P (snd (outcome (checked ok (verification_result (mutate env operation kind fn d)) d)))"
  using mutate_snd [of fn d P env operation kind, OF assms] by (simp add: checked_def)

lemma committed_plain:
  assumes "\<And>x d'. fn d = Inr (x, d') \<Longrightarrow> P d'"
  shows "snd (outcome (mutate env operation kind fn d)) = d \<or> P (snd (outcome (mutate env operation kind fn d)))"
  using mutate_snd [of fn d P env operation kind, OF assms] by simp

lemma step_effect: "snd (run_op env opn d) = d \<or> effect env opn d (snd (run_op env opn d))"
proof (cases opn)
  case (OpServerIdentity x1 x2)
  show ?thesis unfolding OpServerIdentity run_op.simps SetServerIdentity_def
    by (rule committed) (auto simp: frame_simps split: if_splits)
next
  case (OpRegister x1)
  show ?thesis unfolding OpRegister run_op.simps RegisterAuthor_def by (rule committed) auto
next
  case (OpRename x1 x2 x3)
  show ?thesis unfolding OpRename run_op.simps RenameAuthor_def by (rule committed) auto
next
  case (OpRetire x1 x2 x3)
  show ?thesis unfolding OpRetire run_op.simps RetireAuthor_def by (rule committed) auto
next
  case (OpRotate x1 x2 x3 x4)
  show ?thesis unfolding OpRotate run_op.simps RotateRecovery_def
    by (rule committed) (auto simp: RotateRecovery_tx_def rotate_def frame_simps dest!: audit_Inr split: if_splits option.splits)
next
  case (OpQuota x1)
  show ?thesis unfolding OpQuota run_op.simps SetQuota_def
    by (rule committed) (auto simp: frame_simps split: if_splits)
next
  case (OpRevoke x1 x2 x3)
  show ?thesis unfolding OpRevoke run_op.simps RevokeDevice_def
    by (rule committed) (auto simp: RevokeDevice_tx_def revoke_def frame_simps dest!: audit_Inr split: if_splits option.splits)
next
  case (OpRevokeAuthorized x1 x2 x3)
  show ?thesis unfolding OpRevokeAuthorized run_op.simps RevokeDeviceAuthorized_def by (rule committed) auto
next
  case (OpRevokeRecovery x1 x2 x3)
  show ?thesis unfolding OpRevokeRecovery run_op.simps RevokeDeviceWithRecovery_def by (rule committed) auto
next
  case (OpToken x1)
  show ?thesis unfolding OpToken run_op.simps CreateEnrollmentToken_def
    by (rule committed) (auto simp: CreateEnrollmentToken_tx_def insert_token_def frame_simps dest!: audit_Inr split: if_splits option.splits)
next
  case (OpVerify x1 x2)
  show ?thesis unfolding OpVerify run_op.simps VerifyEnrollmentToken_def
    by (rule committed_verification) (auto simp: VerifyEnrollmentToken_tx_def update_token_def frame_simps split: if_splits option.splits)
next
  case (OpEnroll x1)
  show ?thesis unfolding OpEnroll run_op.simps CompleteDeviceEnrollment_def by (rule committed_verification) auto
next
  case (OpRecover x1)
  show ?thesis unfolding OpRecover run_op.simps CompleteRecovery_def by (rule committed) auto
next
  case (OpAuthority x1)
  show ?thesis unfolding OpAuthority run_op.simps CreateBootstrapAuthority_def
    by (rule committed) (auto simp: insert_authority_def frame_simps dest!: audit_Inr split: if_splits option.splits)
next
  case (OpBootstrap x1 x2 x3)
  show ?thesis unfolding OpBootstrap run_op.simps CompleteBootstrapRegistration_def by (rule committed_verification) auto
next
  case (OpApp x1)
  show ?thesis unfolding OpApp run_op.simps CreateApp_def
    by (rule committed) (auto simp: CreateApp_tx_def insert_app_def frame_simps dest!: audit_Inr split: if_splits option.splits)
next
  case (OpAddKey x1 x2)
  show ?thesis unfolding OpAddKey run_op.simps AddAccessKey_def
    by (rule committed) (auto simp: AddAccessKey_tx_def insert_access_key_def frame_simps dest!: audit_Inr split: if_splits option.splits)
next
  case (OpRemoveKey x1 x2 x3 x4)
  show ?thesis unfolding OpRemoveKey run_op.simps RemoveAccessKey_def
    by (rule committed) (auto simp: RemoveAccessKey_tx_def frame_simps dest!: audit_Inr split: if_splits option.splits)
next
  case (OpCapConfig x1 x2 x3 x4)
  show ?thesis unfolding OpCapConfig run_op.simps SetCapabilityConfig_def
    by (rule committed) (simp only: sum_bind_Inr sum.inject prod.inject effect.simps, blast)
next
  case (OpCapValue x1 x2 x3 x4)
  show ?thesis unfolding OpCapValue run_op.simps SetCapabilityValue_def
    by (rule committed) (simp only: sum_bind_Inr sum.inject prod.inject effect.simps, blast)
next
  case (OpEgress x1 x2 x3)
  show ?thesis unfolding OpEgress run_op.simps SetEgressHost_def
    by (rule committed) (simp only: sum_bind_Inr sum.inject prod.inject effect.simps, blast)
next
  case (OpSecret x1 x2 x3)
  show ?thesis unfolding OpSecret run_op.simps SetSecret_def
    by (rule committed) (auto simp: SetSecret_tx_def frame_simps dest!: audit_Inr split: if_splits option.splits prod.splits)
next
  case (OpSecretDelete x1 x2)
  show ?thesis unfolding OpSecretDelete run_op.simps SetSecretDelete_def
    by (rule committed) (auto simp: frame_simps split: if_splits)
next
  case (OpStart x1 x2)
  show ?thesis unfolding OpStart run_op.simps StartSession_def
    by (rule committed) (auto simp: StartSession_tx_def insert_session_def frame_simps dest!: audit_Inr split: if_splits option.splits)
next
  case (OpLog x1 x2 x3)
  show ?thesis unfolding OpLog run_op.simps RecordSessionLog_def
    by (rule committed) (auto simp: frame_simps split: if_splits)
next
  case (OpEnd x1)
  show ?thesis unfolding OpEnd run_op.simps EndSession_def
    by (rule committed) (auto simp: EndSession_tx_def frame_simps dest!: audit_Inr split: if_splits option.splits,
      rule exI [of _ "sessions d"], simp)
next
  case (OpArtifact x1)
  then show ?thesis
    by (cases "validateArtifact env x1") (simp add: PutArtifact_def outcome_def, simp only: run_op.simps PutArtifact_def sum.case effect.simps, rule committed_plain, auto)
next
  case (OpDeployment x1 x2)
  show ?thesis unfolding OpDeployment run_op.simps CreateDeployment_def by (rule committed) auto
next
  case (OpActivate x1 x2)
  show ?thesis unfolding OpActivate run_op.simps ActivateDeployment_def by (rule committed) auto
next
  case (OpSuspend x1 x2)
  show ?thesis unfolding OpSuspend run_op.simps SetDeploymentSuspended_def
    by (rule committed) (auto simp: SetDeploymentSuspended_tx_def frame_simps dest!: audit_Inr split: if_splits option.splits)
next
  case (OpDeploy x1)
  then show ?thesis
    by (cases "validateArtifact env (diArtifact x1)") (simp add: DeployApplication_def checked_def outcome_def, simp only: run_op.simps DeployApplication_def sum.case effect.simps, rule committed, auto)
next
  case (OpGc x1 x2)
  show ?thesis unfolding OpGc run_op.simps GarbageCollect_def by (rule committed_plain) auto
next
  case (OpKvWrite x1 x2 x3 x4)
  show ?thesis unfolding OpKvWrite run_op.simps kvWrite_def by (rule committed) auto
next
  case (OpKvDelete x1 x2)
  show ?thesis unfolding OpKvDelete run_op.simps KVDelete_def by (rule committed) auto
next
  case (OpPrune x1)
  show ?thesis unfolding OpPrune run_op.simps PruneAudit_def by (rule committed_plain) (auto simp: Let_def)
qed

end
