(* ===== verification/Repo_Safety.thy ===== *)
theory Repo_Safety
  imports Repo_Inv
begin

text \<open>
  What the transactions of the repository write, and that every step keeps two invariants: handles
  have one owner, and every author keeps an active device.
\<close>

section \<open>Registration\<close>

lemma ensure_available:
  assumes "ensureHandleAvailable h now d = Inr d1"
  shows "\<exists>ts. d1 = d\<lparr>tombstones := ts\<rparr> \<and> set ts \<subseteq> set (tombstones d) \<and> (\<forall>a\<in>set (authors d). auHandle a \<noteq> h) \<and>
    (\<forall>t\<in>set ts. tbHandle t \<noteq> h)"
proof (cases "find (\<lambda>t. tbHandle t = h) (tombstones d)")
  case None
  then have del: "delete_rows (\<lambda>t. tbHandle t = h) (tombstones d) = tombstones d"
    by (simp add: delete_rows_def filter_id_conv find_none)
  with assms have "d1 = d" "\<forall>a\<in>set (authors d). auHandle a \<noteq> h"
    by (auto simp: ensureHandleAvailable_def Let_def list_ex_iff split: if_splits)
  with None show ?thesis by (intro exI [of _ "tombstones d"]) (auto simp: find_none)
next
  case (Some t)
  then have "list_ex (\<lambda>t. tbHandle t = h) (tombstones d)" by (auto simp: list_ex_iff dest: find_set)
  with assms Some have "d1 = d\<lparr>tombstones := delete_rows (\<lambda>t. tbHandle t = h) (tombstones d)\<rparr>"
      "\<forall>a\<in>set (authors d). auHandle a \<noteq> h"
    by (auto simp: ensureHandleAvailable_def Let_def list_ex_iff split: if_splits)
  then show ?thesis by auto
qed

lemma register_quota_frame:
  "register_quota check i d = Inr d' \<Longrightarrow> \<exists>qs. d' = d\<lparr>quotas := qs\<rparr>"
  by (cases "riQuota i") (auto simp: register_quota_def repo_simps split: if_splits intro: exI [of _ "quotas d"])

lemma registration_effect:
  assumes "registration_rows check i ns d = Inr d'"
  obtains ts qs where "d' = d\<lparr>tombstones := ts, authors := authors d @ [new_author i ns], recoveries := recoveries d @ [new_recovery i ns],
      devices := devices d @ [registered_device i ns], quotas := qs\<rparr>"
    and "set ts \<subseteq> set (tombstones d)" and "\<forall>t\<in>set ts. tbHandle t \<noteq> riHandle i"
    and "\<forall>a\<in>set (authors d). auId a \<noteq> riAuthor i \<and> auHandle a \<noteq> riHandle i" and "\<forall>v\<in>set (devices d). dvId v \<noteq> riDevice i"
proof -
  obtain d1 d2 d3 d4 where tx: "ensureHandleAvailable (riHandle i) ns d = Inr d1" "insert_author (new_author i ns) d1 = Inr d2"
      "insert_recovery (new_recovery i ns) d2 = Inr d3" "insert_device (registered_device i ns) d3 = Inr d4"
      "register_quota check i d4 = Inr d'"
    using assms by (auto simp: registration_rows_def sum_bind_Inr)
  obtain ts where "d1 = d\<lparr>tombstones := ts\<rparr>" "set ts \<subseteq> set (tombstones d)" "\<forall>a\<in>set (authors d). auHandle a \<noteq> riHandle i"
      "\<forall>t\<in>set ts. tbHandle t \<noteq> riHandle i"
    using ensure_available [OF tx(1)] by blast
  moreover obtain qs where "d' = d4\<lparr>quotas := qs\<rparr>" using register_quota_frame [OF tx(5)] by blast
  ultimately show thesis using tx(2-4) that
    by (auto simp: insert_author_Inr insert_recovery_Inr insert_device_Inr)
      (simp add: new_author_def registered_device_def new_device_def)
qed

section \<open>Handles\<close>

lemma distinct_update_fresh:
  assumes "distinct (map k xs)" "distinct (map g xs)" "\<forall>x\<in>set xs. g x \<noteq> h" "\<And>x. g (f x) = h"
  shows "distinct (map g (update_rows (\<lambda>x. k x = i) f xs))"
  using assms(1-3)
proof (induction xs)
  case (Cons x xs)
  show ?case
  proof (cases "k x = i")
    case True
    with Cons.prems have "update_rows (\<lambda>x. k x = i) f xs = xs" by (intro update_rows_none) (auto simp: image_iff)
    with True Cons.prems assms(4) show ?thesis by (auto simp: update_rows_def)
  next
    case False
    have "g x \<notin> (\<lambda>y. g (if k y = i then f y else y)) ` set xs"
      using Cons.prems assms(4) by (auto split: if_splits)
    with False Cons show ?thesis by (simp add: update_rows_def)
  qed
qed (simp add: update_rows_def)

lemma delete_author_effect:
  assumes "delete_author i d = Inr d'"
  shows "authors d' = delete_rows (\<lambda>a. auId a = i) (authors d)" "tombstones d' = tombstones d"
    "devices d' = delete_rows (\<lambda>v. dvAuthor v = i) (devices d)" "blobs d' = blobs d" "artifacts d' = artifacts d"
    "\<exists>gone. deployments d' = delete_rows (\<lambda>p. gone (dpApp p)) (deployments d) \<and>
       activeDeployments d' = delete_rows (\<lambda>x. gone (fst x)) (activeDeployments d) \<and>
       kvEntries d' = delete_rows (\<lambda>e. gone (keApp e)) (kvEntries d) \<and> kvUsages d' = delete_rows (\<lambda>u. gone (kuApp u)) (kvUsages d)"
  using assms by (auto simp: delete_author_def Let_def guard_Inr)

lemma RetireAuthor_effect:
  assumes "RetireAuthor_tx env i v t d = Inr (x, d')"
  obtains a tb ae where "a \<in> set (authors d)" "auId a = i" "tbHandle tb = auHandle a"
    "delete_author i (d\<lparr>tombstones := tombstones d @ [tb], auditEvents := ae\<rparr>) = Inr d'"
proof -
  obtain a where a: "find (\<lambda>a. auId a = i) (authors d) = Some a"
    using assms by (auto simp: RetireAuthor_tx_def split: option.splits)
  have "\<exists>tb ae. tbHandle tb = auHandle a \<and> delete_author i (d\<lparr>tombstones := tombstones d @ [tb], auditEvents := ae\<rparr>) = Inr d'"
    using assms a
    by (auto simp: RetireAuthor_tx_def Let_def sum_bind_Inr insert_tombstone_Inr dest!: audit_Inr) (metis tombstone.select_convs(1))+
  with that find_set [OF a] show thesis by blast
qed

lemma handles_register:
  assumes "registration_rows check i ns d = Inr d'" "handles_ok d"
  shows "handles_ok d'"
proof (rule registration_effect [OF assms(1)])
  fix ts qs
  assume d': "d' = d\<lparr>tombstones := ts, authors := authors d @ [new_author i ns], recoveries := recoveries d @ [new_recovery i ns],
      devices := devices d @ [registered_device i ns], quotas := qs\<rparr>" "set ts \<subseteq> set (tombstones d)"
      "\<forall>t\<in>set ts. tbHandle t \<noteq> riHandle i" "\<forall>a\<in>set (authors d). auId a \<noteq> riAuthor i \<and> auHandle a \<noteq> riHandle i"
  then have "riAuthor i \<notin> auId ` set (authors d)" "riHandle i \<notin> auHandle ` set (authors d)" by (auto simp: image_iff)
  with d' assms(2) show ?thesis by (auto simp: handles_ok_def new_author_def)
qed

lemma other_handles:
  "handles_ok d \<Longrightarrow> a \<in> set (authors d) \<Longrightarrow> auId a = i \<Longrightarrow> \<forall>x\<in>set (authors d). auId x \<noteq> i \<longrightarrow> auHandle a \<noteq> auHandle x"
  by (auto simp: handles_ok_def distinct_map inj_on_def)

lemma RenameAuthor_effect:
  assumes "RenameAuthor_tx env i h t d = Inr (x, d')"
  obtains (same) "d' = d"
  | (renamed) a tb ts now ae where "a \<in> set (authors d)" "auId a = i" "auHandle a \<noteq> h" "tbHandle tb = auHandle a"
      "set ts \<subseteq> set (tombstones d)" "\<forall>x\<in>set (authors d). auHandle x \<noteq> h" "\<forall>t\<in>set ts. tbHandle t \<noteq> h"
      "d' = d\<lparr>tombstones := ts @ [tb], authors := update_rows (\<lambda>x. auId x = i)
          (auHandle_update (\<lambda>_. h) \<circ> auUpdated_update (\<lambda>_. now)) (authors d), auditEvents := ae\<rparr>"
proof -
  obtain a where a: "find (\<lambda>a. auId a = i) (authors d) = Some a"
    using assms by (auto simp: RenameAuthor_tx_def split: option.splits)
  show thesis
  proof (cases "auHandle a = h")
    case True
    with assms a same show thesis by (simp add: RenameAuthor_tx_def)
  next
    case False
    define now where "now = UnixNano (eNow env)"
    define av where "av = (if UnixNano t \<le> now then UnixNano (now + day_ns) else UnixNano t)"
    let ?t = "\<lparr>tbHandle = auHandle a, tbFormer = i, tbReason = ''renamed'', tbReserved = now, tbAvailable = av\<rparr>"
    obtain d1 d2 ae where tx: "ensureHandleAvailable h now d = Inr d1" "insert_tombstone ?t d1 = Inr d2"
        "d' = d2\<lparr>authors := update_rows (\<lambda>x. auId x = i) (auHandle_update (\<lambda>_. h) \<circ> auUpdated_update (\<lambda>_. now)) (authors d2), auditEvents := ae\<rparr>"
      using assms a False
      by (auto simp: RenameAuthor_tx_def Let_def sum_bind_Inr guard_Inr now_def [symmetric] av_def [symmetric] dest!: audit_Inr)
    obtain ts where ts: "d1 = d\<lparr>tombstones := ts\<rparr>" "set ts \<subseteq> set (tombstones d)" "\<forall>a\<in>set (authors d). auHandle a \<noteq> h"
        "\<forall>t\<in>set ts. tbHandle t \<noteq> h"
      using ensure_available [OF tx(1)] by blast
    show thesis
      by (rule renamed [of a ?t ts ae now]) (use find_set [OF a] False ts tx(2,3) in \<open>auto simp: insert_tombstone_Inr\<close>)
  qed
qed

lemma handles_rename:
  assumes "RenameAuthor_tx env i h t d = Inr (x, d')" "handles_ok d"
  shows "handles_ok d'"
  using assms(1)
proof (cases rule: RenameAuthor_effect)
  case (renamed a tb ts now ae)
  let ?f = "auHandle_update (\<lambda>_. h) \<circ> auUpdated_update (\<lambda>_. now)"
  have d': "authors d' = update_rows (\<lambda>x. auId x = i) ?f (authors d)" "tombstones d' = ts @ [tb]"
    by (simp_all add: renamed(8))
  have "map auId (authors d') = map auId (authors d)"
    unfolding d' by (rule update_rows_keep) simp
  moreover have "distinct (map auHandle (authors d'))"
    unfolding d'(1) using assms(2) renamed(6) by (intro distinct_update_fresh [where h = h]) (auto simp: handles_ok_def)
  moreover have "\<forall>t\<in>set (tombstones d'). \<forall>x\<in>set (authors d'). tbHandle t \<noteq> auHandle x"
    using assms(2) renamed(3-7) other_handles [OF assms(2) renamed(1,2)] by (auto simp: d' set_update_rows handles_ok_def)
  ultimately show ?thesis using assms(2) by (simp add: handles_ok_def)
qed (use assms in simp)

lemma handles_retire:
  assumes "RetireAuthor_tx env i v t d = Inr (x, d')" "handles_ok d"
  shows "handles_ok d'"
proof (rule RetireAuthor_effect [OF assms(1)])
  fix a tb ae
  assume a: "a \<in> set (authors d)" "auId a = i" "tbHandle tb = auHandle a"
    "delete_author i (d\<lparr>tombstones := tombstones d @ [tb], auditEvents := ae\<rparr>) = Inr d'"
  have d': "authors d' = delete_rows (\<lambda>a. auId a = i) (authors d)" "tombstones d' = tombstones d @ [tb]"
    using delete_author_effect(1,2) [OF a(4)] by simp_all
  from other_handles [OF assms(2) a(1,2)] assms(2) a(3) show ?thesis
    by (auto simp: handles_ok_def d' distinct_delete_rows)
qed

lemma gc_delete_frame:
  "gc_delete c q d = (n, d') \<Longrightarrow> authors d' = authors d \<and> devices d' = devices d \<and> tombstones d' = tombstones d \<and>
     deployments d' = deployments d \<and> activeDeployments d' = activeDeployments d \<and> kvEntries d' = kvEntries d \<and> kvUsages d' = kvUsages d"
  by (cases q) (auto simp: gc_delete_def Let_def delete_artifacts_def)

lemma gc_frame:
  "gc_run c qs d = (ns, d') \<Longrightarrow> authors d' = authors d \<and> devices d' = devices d \<and> tombstones d' = tombstones d \<and>
     deployments d' = deployments d \<and> activeDeployments d' = activeDeployments d \<and> kvEntries d' = kvEntries d \<and> kvUsages d' = kvUsages d"
proof (induction qs arbitrary: d ns)
  case (Cons q qs)
  obtain n d1 where "gc_delete c q d = (n, d1)" by fastforce
  with Cons.prems Cons.IH [of d1] gc_delete_frame [of c q d n d1] show ?case by (auto simp: Let_def split: prod.splits)
qed simp

lemma GarbageCollect_effect:
  assumes "GarbageCollect_tx env qs t d = Inr (x, d')"
  obtains d1 ts where "gc_run (UnixNano t) qs d = (x, d1)" "d' = d1\<lparr>tombstones := ts\<rparr>" "set ts \<subseteq> set (tombstones d)"
proof -
  obtain ns d1 where run: "gc_run (UnixNano t) qs d = (ns, d1)" by fastforce
  with assms gc_frame [OF run] that show thesis by (auto simp: GarbageCollect_tx_def Let_def)
qed

section \<open>What the other transactions write\<close>

lemma revoke_authorized_effect:
  assumes "RevokeDeviceAuthorized_tx env a i j d = Inr (x, d')"
  shows "active_device d j a \<and> 1 < active_count d a \<and>
    (\<exists>ae. d' = (revoke (UnixNano (eNow env)) ''device'' (Some i) (\<lambda>v. dvId v = j) d)\<lparr>auditEvents := ae\<rparr>)"
  using assms by (auto simp: RevokeDeviceAuthorized_tx_def Let_def guard_Inr sum_bind_Inr dest!: audit_Inr)

lemma revoke_recovery_effect:
  assumes "RevokeDeviceWithRecovery_tx env a v j d = Inr (x, d')"
  shows "active_device d j a \<and> 1 < active_count d a \<and>
    (\<exists>ae. d' = (revoke (UnixNano (eNow env)) ''recovery'' (Some a) (\<lambda>v. dvId v = j) d)\<lparr>auditEvents := ae\<rparr>)"
  using assms by (auto simp: RevokeDeviceWithRecovery_tx_def Let_def guard_Inr sum_bind_Inr split: option.splits dest!: audit_Inr)

lemma enroll_effect:
  assumes "CompleteDeviceEnrollment_tx env i d = Inr (x, d')"
  obtains (counted) ts where "d' = d\<lparr>tokens := ts\<rparr>"
  | (enrolled) v ts ae where "insert_device v d = Inr (d\<lparr>devices := devices d @ [v]\<rparr>)"
      "d' = d\<lparr>devices := devices d @ [v], tokens := ts, auditEvents := ae\<rparr>"
proof -
  obtain t where t: "find (\<lambda>t. etId t = eiToken i) (tokens d) = Some t"
    using assms by (auto simp: CompleteDeviceEnrollment_tx_def split: option.splits)
  define v where "v = new_device (eiDevice i) (etAuthor t) (etDeviceName t) (eiPublicKey i) (eiFingerprint i) (UnixNano (eNow env))"
  show thesis
  proof (cases "bytesEqual (etVerifier t) (eiVerifier i)")
    case True
    then have "insert_device v d = Inr (d\<lparr>devices := devices d @ [v]\<rparr>)"
        "\<exists>ts ae. d' = d\<lparr>devices := devices d @ [v], tokens := ts, auditEvents := ae\<rparr>"
      using assms t
      by (auto simp: CompleteDeviceEnrollment_tx_def Let_def guard_Inr sum_bind_Inr v_def [symmetric] update_token_def insert_device_Inr
          dest!: audit_Inr)
    then show thesis using enrolled by blast
  next
    case False
    then show thesis using assms t counted
      by (auto simp: CompleteDeviceEnrollment_tx_def Let_def guard_Inr update_token_def)
  qed
qed

lemma recover_effect:
  assumes "CompleteRecovery_tx env i d = Inr (x, d')"
  obtains v where "dvId v = cvDevice i" "dvAuthor v = cvAuthor i" "dvRevoked v = None" "insert_device v d = Inr (d\<lparr>devices := devices d @ [v]\<rparr>)"
    "devices d' = devices d @ [v] \<or> devices d' = devices (revoke (UnixNano (eNow env)) ''recovery'' (Some (cvAuthor i))
       (\<lambda>v. dvAuthor v = cvAuthor i \<and> dvId v \<noteq> cvDevice i) (d\<lparr>devices := devices d @ [v]\<rparr>))"
    "\<exists>vs rs ts ae. d' = d\<lparr>devices := vs, recoveries := rs, tokens := ts, auditEvents := ae\<rparr>"
proof -
  define v where "v = new_device (cvDevice i) (cvAuthor i) (cvDeviceName i) (cvPublicKey i) (cvFingerprint i) (UnixNano (eNow env))"
  obtain r where r: "find (\<lambda>r. rcAuthor r = cvAuthor i) (recoveries d) = Some r"
    using assms by (auto simp: CompleteRecovery_tx_def Let_def guard_Inr split: option.splits)
  have ins: "insert_device v d = Inr (d\<lparr>devices := devices d @ [v]\<rparr>)"
    using assms r by (auto simp: CompleteRecovery_tx_def Let_def guard_Inr sum_bind_Inr v_def [symmetric] insert_device_Inr)
  have rest: "(devices d' = devices d @ [v] \<or> devices d' = devices (revoke (UnixNano (eNow env)) ''recovery'' (Some (cvAuthor i))
       (\<lambda>v. dvAuthor v = cvAuthor i \<and> dvId v \<noteq> cvDevice i) (d\<lparr>devices := devices d @ [v]\<rparr>))) \<and>
      d' = d\<lparr>devices := devices d', recoveries := recoveries d', tokens := tokens d', auditEvents := auditEvents d'\<rparr>"
    using assms r ins
    by (cases "cvRevokeOld i")
      (auto simp: CompleteRecovery_tx_def Let_def guard_Inr sum_bind_Inr v_def [symmetric] rotate_def revoke_def dest!: audit_Inr)
  show thesis by (rule that [of v]) (use ins rest in \<open>auto simp: v_def new_device_def\<close>)
qed

lemma bootstrap_effect:
  assumes "CompleteBootstrapRegistration_tx env b v i d = Inr (x, d')"
  shows "(\<exists>as. d' = d\<lparr>authorities := as\<rparr>) \<or>
    (\<exists>d1 as ae. registration_rows False i (UnixNano (eNow env)) d = Inr d1 \<and> d' = d1\<lparr>authorities := as, auditEvents := ae\<rparr>)"
  using assms
  by (auto simp: CompleteBootstrapRegistration_tx_def Let_def guard_Inr sum_bind_Inr update_authority_def
      split: option.splits if_splits dest!: audit_Inr)

lemma metadata_frame: "store_metadata i ms d = Inr d' \<Longrightarrow> \<exists>x. d' = d\<lparr>buildMetadata := x\<rparr>"
proof (induction ms arbitrary: d)
  case Nil
  then show ?case by (auto intro: exI [of _ "buildMetadata d"])
next
  case (Cons m ms)
  then show ?case by (cases m) (fastforce simp: guard_Inr sum_bind_Inr dest!: insert_metadata_frame)
qed

lemma store_artifact_effect:
  assumes "store_artifact a i d = Inr d'"
  obtains bs ms where "d' = d\<lparr>blobs := bs, artifacts := artifacts d @ [a], buildMetadata := ms\<rparr>"
    and "\<forall>x\<in>set (artifacts d). arId x \<noteq> arId a"
    and "bs = blobs d \<and> (\<exists>b\<in>set bs. blDigest b = arDigest a \<and> blSize b = arSize a) \<or>
      bs = blobs d @ [\<lparr>blDigest = arDigest a, blSize = arSize a, blWasm = xiWasm i\<rparr>] \<and> (\<forall>b\<in>set (blobs d). blDigest b \<noteq> arDigest a) \<and>
        int (length (xiWasm i)) = arSize a"
proof -
  obtain d1 d2 where tx: "store_blob a (xiWasm i) d = Inr d1" "insert_artifact a d1 = Inr d2"
      "store_metadata (arId a) (xiMetadata i) d2 = Inr d'"
    using assms by (auto simp: store_artifact_def sum_bind_Inr)
  have "\<exists>bs. d1 = d\<lparr>blobs := bs\<rparr> \<and> (bs = blobs d \<and> (\<exists>b\<in>set bs. blDigest b = arDigest a \<and> blSize b = arSize a) \<or>
      bs = blobs d @ [\<lparr>blDigest = arDigest a, blSize = arSize a, blWasm = xiWasm i\<rparr>] \<and> (\<forall>b\<in>set (blobs d). blDigest b \<noteq> arDigest a) \<and>
        int (length (xiWasm i)) = arSize a)"
  proof (cases "find (\<lambda>b. blDigest b = arDigest a) (blobs d)")
    case None
    with tx(1) show ?thesis by (auto simp: store_blob_def insert_blob_Inr)
  next
    case (Some b)
    with tx(1) find_set [OF Some] show ?thesis
      by (intro exI [of _ "blobs d"]) (auto simp: store_blob_def guard_Inr)
  qed
  then obtain bs where "d1 = d\<lparr>blobs := bs\<rparr>" "bs = blobs d \<and> (\<exists>b\<in>set bs. blDigest b = arDigest a \<and> blSize b = arSize a) \<or>
      bs = blobs d @ [\<lparr>blDigest = arDigest a, blSize = arSize a, blWasm = xiWasm i\<rparr>] \<and> (\<forall>b\<in>set (blobs d). blDigest b \<noteq> arDigest a) \<and>
        int (length (xiWasm i)) = arSize a" by blast
  moreover obtain ms where "d' = d2\<lparr>buildMetadata := ms\<rparr>" using metadata_frame [OF tx(3)] by blast
  ultimately show thesis using tx(2) that by (simp add: insert_artifact_Inr)
qed

lemma put_artifact_effect:
  assumes "PutArtifact_tx env a i d = Inr (x, d')"
  obtains d1 ae where "store_artifact a i d = Inr d1" "d' = d1\<lparr>auditEvents := ae\<rparr>"
  using assms by (auto simp: PutArtifact_tx_def sum_bind_Inr dest!: audit_Inr)

lemma create_deployment_effect:
  assumes "CreateDeployment_tx env p t d = Inr (x, d')"
  obtains q where "insert_deployment q d = Inr d'"
  using assms by (auto simp: CreateDeployment_tx_def Let_def guard_Inr sum_bind_Inr)

lemma activate_effect:
  "ActivateDeployment_tx a i d = Inr (x, d') \<Longrightarrow> set_active a i d = Inr d'"
  by (auto simp: ActivateDeployment_tx_def guard_Inr sum_bind_Inr)

lemma deploy_app_frame:
  "deploy_app env i d = Inr (a, d') \<Longrightarrow> \<exists>x. d' = d\<lparr>apps := x\<rparr>"
  by (auto simp: deploy_app_def Let_def guard_Inr sum_bind_Inr split: if_splits option.splits dest!: insert_app_frame
      intro: exI [of _ "apps d"])

lemma reconcile_frame: "reconcile_app env i a d = (a', d') \<Longrightarrow> \<exists>x. d' = d\<lparr>apps := x\<rparr>"
  by (auto simp: reconcile_app_def Let_def split: if_splits intro: exI [of _ "apps d"])

lemma deploy_effect:
  assumes "DeployApplication_tx env m i d = Inr (x, d')"
  obtains apps1 d1 p d2 d3 d4 ae where "store_artifact m (diArtifact i) (d\<lparr>apps := apps1\<rparr>) = Inr d1"
    "insert_deployment p d1 = Inr d2" "set_active (dpApp p) (dpId p) d2 = Inr d3"
    "d4 = d3 \<or> (\<exists>old. old \<noteq> dpId p \<and> drop_replaced old d3 = Inr d4)" "d' = d4\<lparr>auditEvents := ae\<rparr>"
proof -
  obtain a1 e1 where e1: "deploy_app env i d = Inr (a1, e1)"
    using assms by (auto simp: DeployApplication_tx_def guard_Inr sum_bind_Inr)
  obtain a2 e2 where e2: "reconcile_app env i a1 e1 = (a2, e2)" by fastforce
  obtain apps1 where apps1: "e2 = d\<lparr>apps := apps1\<rparr>"
    using deploy_app_frame [OF e1] reconcile_frame [OF e2] by auto
  let ?p = "new_deployment env a2 m (diDevice i)"
  have "\<exists>d1 d2 d3 d4. store_artifact m (diArtifact i) e2 = Inr d1 \<and> insert_deployment ?p d1 = Inr d2 \<and> set_active (apId a2) (dpId ?p) d2 = Inr d3 \<and>
      (case map_of (activeDeployments e2) (apId a2) of None \<Rightarrow> Inr d3
         | Some i \<Rightarrow> if i \<noteq> '''' \<and> i \<noteq> dpId ?p then drop_replaced i d3 else Inr d3) = Inr d4 \<and> (\<exists>ae. d' = d4\<lparr>auditEvents := ae\<rparr>)"
    using assms e1 e2
    by (auto simp: DeployApplication_tx_def guard_Inr sum_bind_Inr Let_def dest!: audit_Inr)
  then obtain d1 d2 d3 d4 where tx: "store_artifact m (diArtifact i) e2 = Inr d1" "insert_deployment ?p d1 = Inr d2"
      "set_active (apId a2) (dpId ?p) d2 = Inr d3" "(case map_of (activeDeployments e2) (apId a2) of None \<Rightarrow> Inr d3
         | Some i \<Rightarrow> if i \<noteq> '''' \<and> i \<noteq> dpId ?p then drop_replaced i d3 else Inr d3) = Inr d4" "\<exists>ae. d' = d4\<lparr>auditEvents := ae\<rparr>"
    by blast
  moreover have "dpApp ?p = apId a2" by (simp add: new_deployment_def)
  moreover have "d4 = d3 \<or> (\<exists>old. old \<noteq> dpId ?p \<and> drop_replaced old d3 = Inr d4)"
    using tx(4) by (auto split: option.splits if_splits)
  ultimately show thesis using that [of apps1 d1 ?p] apps1 by metis
qed

lemma drop_frame:
  "drop_replaced old d = Inr d' \<Longrightarrow> authors d' = authors d \<and> tombstones d' = tombstones d \<and> devices d' = devices d \<and>
     kvEntries d' = kvEntries d \<and> kvUsages d' = kvUsages d"
  by (auto simp: drop_replaced_def Let_def sum_bind_Inr delete_deployment_def delete_artifacts_def guard_Inr split: if_splits option.splits)

lemma set_active_frame:
  "set_active a i d = Inr d' \<Longrightarrow> d' = d\<lparr>activeDeployments := upsert (\<lambda>x. fst x = a) (\<lambda>x. (a, i)) (a, i) (activeDeployments d)\<rparr> \<and>
     (\<exists>p\<in>set (deployments d). dpId p = i \<and> dpApp p = a) \<and> (\<forall>x\<in>set (activeDeployments d). snd x = i \<longrightarrow> fst x = a)"
  by (auto simp: set_active_def guard_Inr list_ex_iff)

text \<open>
  The steps on artifacts and deployments leave the identity tables alone.
\<close>

lemma deploy_frame:
  assumes "effect env opn d d'" "opn = OpArtifact i \<or> opn = OpDeployment p t \<or> opn = OpActivate a j \<or> opn = OpDeploy k"
  shows "authors d' = authors d \<and> tombstones d' = tombstones d \<and> devices d' = devices d \<and> kvEntries d' = kvEntries d \<and> kvUsages d' = kvUsages d"
  using assms(2)
proof (elim disjE)
  assume "opn = OpArtifact i"
  with assms(1) show ?thesis
    by (auto elim!: put_artifact_effect store_artifact_effect)
next
  assume "opn = OpDeployment p t"
  with assms(1) show ?thesis by (auto simp: insert_deployment_Inr elim!: create_deployment_effect)
next
  assume "opn = OpActivate a j"
  with assms(1) show ?thesis by (auto dest!: activate_effect set_active_frame)
next
  assume "opn = OpDeploy k"
  with assms(1) obtain m x where "DeployApplication_tx env m k d = Inr (x, d')" by auto
  then show ?thesis
  proof (rule deploy_effect)
    fix apps1 d1 p d2 d3 d4 ae
    assume tx: "store_artifact m (diArtifact k) (d\<lparr>apps := apps1\<rparr>) = Inr d1" "insert_deployment p d1 = Inr d2"
      "set_active (dpApp p) (dpId p) d2 = Inr d3" "d4 = d3 \<or> (\<exists>old. old \<noteq> dpId p \<and> drop_replaced old d3 = Inr d4)"
      "d' = d4\<lparr>auditEvents := ae\<rparr>"
    from tx(1) show ?thesis
      by (rule store_artifact_effect)
        (use tx(2,4,5) set_active_frame [OF tx(3)] in \<open>auto simp: insert_deployment_Inr dest!: drop_frame\<close>)
  qed
qed

section \<open>Handles are kept by every step\<close>

lemma handles_effect:
  assumes "effect env opn d d'" "handles_ok d"
  shows "handles_ok d'"
proof (cases opn)
  case (OpRegister i)
  with assms(1) obtain d1 ae ns where "registration_rows True i ns d = Inr d1" "d' = d1\<lparr>auditEvents := ae\<rparr>"
    by (auto simp: RegisterAuthor_tx_def Let_def sum_bind_Inr dest!: audit_Inr)
  with handles_register [of True i ns d d1] assms(2) show ?thesis by (simp add: handles_ok_def)
next
  case (OpRename a h t)
  with assms show ?thesis by (auto intro: handles_rename)
next
  case (OpRetire a v t)
  with assms show ?thesis by (auto intro: handles_retire)
next
  case (OpGc qs t)
  then obtain x where "GarbageCollect_tx env qs t d = Inr (x, d')" using assms by auto
  then show ?thesis
  proof (rule GarbageCollect_effect)
    fix d1 ts
    assume "gc_run (UnixNano t) qs d = (x, d1)" "d' = d1\<lparr>tombstones := ts\<rparr>" "set ts \<subseteq> set (tombstones d)"
    then show ?thesis using gc_frame [of "UnixNano t" qs d x d1] assms(2) by (auto simp: handles_ok_def)
  qed
next
  case (OpBootstrap b v i)
  then obtain x where "CompleteBootstrapRegistration_tx env b v i d = Inr (x, d')" using assms(1) by auto
  from bootstrap_effect [OF this] show ?thesis
  proof (elim disjE exE conjE)
    fix d1 as ae
    assume "registration_rows False i (UnixNano (eNow env)) d = Inr d1" "d' = d1\<lparr>authorities := as, auditEvents := ae\<rparr>"
    with handles_register [of False i "UnixNano (eNow env)" d d1] assms(2) show ?thesis by (simp add: handles_ok_def)
  qed (use assms(2) in \<open>simp add: handles_ok_def\<close>)
next
  case (OpEnroll i)
  with assms show ?thesis by (auto simp: handles_ok_def elim!: enroll_effect)
next
  case (OpRecover i)
  with assms show ?thesis by (auto simp: handles_ok_def elim!: recover_effect)
next
  case (OpRevokeAuthorized a i j)
  with assms show ?thesis by (auto simp: handles_ok_def revoke_def dest!: revoke_authorized_effect)
next
  case (OpRevokeRecovery a v j)
  with assms show ?thesis by (auto simp: handles_ok_def revoke_def dest!: revoke_recovery_effect)
next
  case (OpKvWrite a k h v)
  then have "authors d' = authors d" "tombstones d' = tombstones d"
    using assms(1) by (auto simp: kvWrite_tx_def Let_def sum_bind_Inr guard_Inr put_usage_def put_entry_def split: prod.splits)
  with assms(2) show ?thesis by (simp add: handles_ok_def)
next
  case (OpKvDelete a k)
  then have "authors d' = authors d" "tombstones d' = tombstones d"
    using assms(1) by (auto simp: KVDelete_tx_def Let_def split: option.splits)
  with assms(2) show ?thesis by (simp add: handles_ok_def)
next
  case (OpArtifact i)
  with assms deploy_frame [OF assms(1)] show ?thesis by (simp add: handles_ok_def)
next
  case (OpDeployment p t)
  with assms deploy_frame [OF assms(1)] show ?thesis by (simp add: handles_ok_def)
next
  case (OpActivate a i)
  with assms deploy_frame [OF assms(1)] show ?thesis by (simp add: handles_ok_def)
next
  case (OpDeploy i)
  with assms deploy_frame [OF assms(1)] show ?thesis by (simp add: handles_ok_def)
qed (use assms in \<open>auto simp: handles_ok_def\<close>)

section \<open>Every author keeps a device\<close>

lemma active_iff: "1 \<le> active_count d a \<longleftrightarrow> (\<exists>v\<in>set (devices d). dvAuthor v = a \<and> dvRevoked v = None)"
proof -
  have "1 \<le> active_count d a \<longleftrightarrow> active_count d a \<noteq> 0" by linarith
  then show ?thesis by (simp add: active_count_def)
qed

lemma devices_ok_alt:
  "devices_ok d \<longleftrightarrow> distinct (map auId (authors d)) \<and> distinct (map dvId (devices d)) \<and>
     (\<forall>a\<in>set (authors d). \<exists>v\<in>set (devices d). dvAuthor v = auId a \<and> dvRevoked v = None)"
  unfolding devices_ok_def active_iff ..

lemma another_row:
  assumes "distinct (map g xs)" "1 < length (filter P xs)"
  shows "\<exists>x\<in>set xs. P x \<and> g x \<noteq> k"
proof (rule ccontr)
  assume "\<not> ?thesis"
  then have "set (map g (filter P xs)) \<subseteq> {k}" by auto
  moreover have "distinct (map g (filter P xs))" using assms(1) by (rule distinct_map_filter)
  ultimately have "length (map g (filter P xs)) \<le> 1"
    by (metis card_mono distinct_card finite.emptyI finite.insertI is_singletonI is_singleton_altdef)
  with assms(2) show False by simp
qed

lemma devices_register:
  assumes "registration_rows check i ns d = Inr d'" "devices_ok d"
  shows "devices_ok d'"
proof (rule registration_effect [OF assms(1)])
  fix ts qs
  assume d': "d' = d\<lparr>tombstones := ts, authors := authors d @ [new_author i ns], recoveries := recoveries d @ [new_recovery i ns],
      devices := devices d @ [registered_device i ns], quotas := qs\<rparr>"
      "\<forall>a\<in>set (authors d). auId a \<noteq> riAuthor i \<and> auHandle a \<noteq> riHandle i" "\<forall>v\<in>set (devices d). dvId v \<noteq> riDevice i"
  then have "riAuthor i \<notin> auId ` set (authors d)" "riDevice i \<notin> dvId ` set (devices d)" by (auto simp: image_iff)
  with d' assms(2) show ?thesis
    by (auto simp: devices_ok_alt new_author_def registered_device_def new_device_def)
qed

lemma devices_append:
  assumes "devices_ok d" "insert_device v d = Inr (d\<lparr>devices := devices d @ [v]\<rparr>)"
    "devices d' = devices d @ [v]" "authors d' = authors d"
  shows "devices_ok d'"
proof -
  have "dvId v \<notin> dvId ` set (devices d)" using assms(2) by (auto simp: insert_device_Inr image_iff)
  with assms show ?thesis by (auto simp: devices_ok_alt)
qed

text \<open>
  A revocation of one of several active devices of an author.
\<close>

lemma devices_revoke:
  assumes inv: "devices_ok d" and j: "active_device d j a" and many: "1 < active_count d a"
    and devs: "devices d' = devices (revoke now kind actor (\<lambda>v. dvId v = j) d)" and same: "authors d' = authors d"
  shows "devices_ok d'"
proof -
  let ?f = "\<lambda>v. if dvId v = j \<and> dvRevoked v = None then v\<lparr>dvRevoked := Some now, dvRevokedByKind := Some kind, dvRevokedById := actor\<rparr> else v"
  have d': "devices d' = map ?f (devices d)" using devs by (simp add: revoke_def update_rows_def)
  have ids: "map dvId (devices d') = map dvId (devices d)" by (simp add: d')
  have keep: "\<exists>v\<in>set (devices d'). dvAuthor v = b \<and> dvRevoked v = None"
    if "v \<in> set (devices d)" "dvAuthor v = b" "dvRevoked v = None" "dvId v \<noteq> j" for v b
    using that by (auto simp: d' intro!: bexI [of _ v] image_eqI [of _ _ v])
  obtain w where w: "w \<in> set (devices d)" "dvId w = j" "dvAuthor w = a" using j by (auto simp: active_device_def list_ex_iff)
  have "\<exists>v\<in>set (devices d'). dvAuthor v = auId x \<and> dvRevoked v = None" if x: "x \<in> set (authors d)" for x
  proof (cases "auId x = a")
    case True
    have "distinct (map dvId (devices d))" using inv by (simp add: devices_ok_def)
    from another_row [OF this many [unfolded active_count_def count_rows_def], of j] keep True
    show ?thesis by auto
  next
    case False
    obtain v where v: "v \<in> set (devices d)" "dvAuthor v = auId x" "dvRevoked v = None"
      using inv x by (auto simp: devices_ok_alt)
    have "dvId v \<noteq> j"
    proof
      assume "dvId v = j"
      with v(1) w inv have "v = w" by (auto simp: devices_ok_def distinct_map inj_on_def)
      with v(2) w(3) False show False by simp
    qed
    with keep v show ?thesis by blast
  qed
  with inv same ids show ?thesis by (simp add: devices_ok_alt)
qed

lemma devices_recover:
  assumes "CompleteRecovery_tx env i d = Inr (x, d')" "devices_ok d"
  shows "devices_ok d'"
proof (rule recover_effect [OF assms(1)])
  fix v
  let ?d = "d\<lparr>devices := devices d @ [v]\<rparr>"
  let ?P = "\<lambda>v. (dvAuthor v = cvAuthor i \<and> dvId v \<noteq> cvDevice i) \<and> dvRevoked v = None"
  assume v: "dvId v = cvDevice i" "dvAuthor v = cvAuthor i" "dvRevoked v = None" "insert_device v d = Inr ?d"
    and devs: "devices d' = devices d @ [v] \<or> devices d' = devices (revoke (UnixNano (eNow env)) ''recovery'' (Some (cvAuthor i))
       (\<lambda>v. dvAuthor v = cvAuthor i \<and> dvId v \<noteq> cvDevice i) ?d)"
    and "\<exists>vs rs ts ae. d' = d\<lparr>devices := vs, recoveries := rs, tokens := ts, auditEvents := ae\<rparr>"
  then have same: "authors d' = authors d" by auto
  have added: "devices_ok ?d" using assms(2) v(4) by (rule devices_append) simp_all
  show ?thesis
  proof (cases "devices d' = devices d @ [v]")
    case True
    then show ?thesis using added same by (simp add: devices_ok_alt)
  next
    case False
    then have d': "devices d' = devices (revoke (UnixNano (eNow env)) ''recovery'' (Some (cvAuthor i))
       (\<lambda>v. dvAuthor v = cvAuthor i \<and> dvId v \<noteq> cvDevice i) ?d)" using devs by blast
    have ids: "map dvId (devices d') = map dvId (devices ?d)"
      unfolding d' revoke_def by (simp add: update_rows_def)
    have keep: "w \<in> set (devices d')" if "w \<in> set (devices ?d)" "\<not> ?P w" for w
      unfolding d' revoke_def using that by (auto simp: update_rows_def image_iff intro!: bexI [of _ w])
    have "\<exists>w\<in>set (devices d'). dvAuthor w = auId y \<and> dvRevoked w = None" if "y \<in> set (authors d)" for y
    proof (cases "auId y = cvAuthor i")
      case True
      then show ?thesis using keep [of v] v by auto
    next
      case False
      obtain w where "w \<in> set (devices d)" "dvAuthor w = auId y" "dvRevoked w = None"
        using assms(2) \<open>y \<in> set (authors d)\<close> by (auto simp: devices_ok_alt)
      with keep [of w] False show ?thesis by auto
    qed
    with added same ids show ?thesis by (simp add: devices_ok_alt)
  qed
qed

lemma devices_effect:
  assumes "effect env opn d d'" "devices_ok d" "\<And>i k b. opn \<noteq> OpRevoke i k b"
  shows "devices_ok d'"
proof (cases opn)
  case (OpRegister i)
  with assms(1) obtain d1 ae ns where "registration_rows True i ns d = Inr d1" "d' = d1\<lparr>auditEvents := ae\<rparr>"
    by (auto simp: RegisterAuthor_tx_def Let_def sum_bind_Inr dest!: audit_Inr)
  with devices_register [of True i ns d d1] assms(2) show ?thesis by (simp add: devices_ok_alt)
next
  case (OpBootstrap b v i)
  then obtain x where "CompleteBootstrapRegistration_tx env b v i d = Inr (x, d')" using assms(1) by auto
  from bootstrap_effect [OF this] show ?thesis
  proof (elim disjE exE conjE)
    fix d1 as ae
    assume "registration_rows False i (UnixNano (eNow env)) d = Inr d1" "d' = d1\<lparr>authorities := as, auditEvents := ae\<rparr>"
    with devices_register [of False i "UnixNano (eNow env)" d d1] assms(2) show ?thesis by (simp add: devices_ok_alt)
  qed (use assms(2) in \<open>simp add: devices_ok_alt\<close>)
next
  case (OpRename a h t)
  then obtain x where "RenameAuthor_tx env a h t d = Inr (x, d')" using assms(1) by auto
  then show ?thesis
  proof (cases rule: RenameAuthor_effect)
    case (renamed u tb ts now ae)
    then have "map auId (authors d') = map auId (authors d)" "devices d' = devices d" by (simp_all add: update_rows_def)
    then show ?thesis using assms(2) by (simp add: devices_ok_alt all_set_conv_all_nth) (metis length_map nth_map)
  qed (use assms(2) in simp)
next
  case (OpRetire a v t)
  then obtain x where "RetireAuthor_tx env a v t d = Inr (x, d')" using assms(1) by auto
  then show ?thesis
  proof (rule RetireAuthor_effect)
    fix u tb ae
    assume "delete_author a (d\<lparr>tombstones := tombstones d @ [tb], auditEvents := ae\<rparr>) = Inr d'"
    from delete_author_effect(1,3) [OF this] assms(2) show ?thesis
      by (auto simp: devices_ok_alt distinct_delete_rows) metis
  qed
next
  case (OpRevokeAuthorized a i j)
  with assms(1) revoke_authorized_effect [of env a i j d _ d'] show ?thesis
    by (auto intro!: devices_revoke [OF assms(2), of j a] simp: revoke_def)
next
  case (OpRevokeRecovery a v j)
  with assms(1) revoke_recovery_effect [of env a v j d _ d'] show ?thesis
    by (auto intro!: devices_revoke [OF assms(2), of j a] simp: revoke_def)
next
  case (OpEnroll i)
  then obtain x where "CompleteDeviceEnrollment_tx env i d = Inr (x, d')" using assms(1) by auto
  then show ?thesis
  proof (rule enroll_effect)
    fix v ts ae
    assume "insert_device v d = Inr (d\<lparr>devices := devices d @ [v]\<rparr>)" "d' = d\<lparr>devices := devices d @ [v], tokens := ts, auditEvents := ae\<rparr>"
    then show ?thesis by (intro devices_append [OF assms(2)]) simp_all
  qed (use assms(2) in \<open>simp add: devices_ok_alt\<close>)
next
  case (OpRecover i)
  then obtain x where "CompleteRecovery_tx env i d = Inr (x, d')" using assms(1) by auto
  then show ?thesis by (rule devices_recover [OF _ assms(2)])
next
  case (OpGc qs t)
  then obtain x where "GarbageCollect_tx env qs t d = Inr (x, d')" using assms by auto
  then show ?thesis
  proof (rule GarbageCollect_effect)
    fix d1 ts
    assume "gc_run (UnixNano t) qs d = (x, d1)" "d' = d1\<lparr>tombstones := ts\<rparr>" "set ts \<subseteq> set (tombstones d)"
    then show ?thesis using gc_frame [of "UnixNano t" qs d x d1] assms(2) by (auto simp: devices_ok_alt)
  qed
next
  case (OpKvWrite a k h v)
  then have "authors d' = authors d" "devices d' = devices d"
    using assms(1) by (auto simp: kvWrite_tx_def Let_def sum_bind_Inr guard_Inr put_usage_def put_entry_def split: prod.splits)
  with assms(2) show ?thesis by (simp add: devices_ok_alt)
next
  case (OpKvDelete a k)
  then have "authors d' = authors d" "devices d' = devices d"
    using assms(1) by (auto simp: KVDelete_tx_def Let_def split: option.splits)
  with assms(2) show ?thesis by (simp add: devices_ok_alt)
next
  case (OpArtifact i)
  with assms deploy_frame [OF assms(1)] show ?thesis by (simp add: devices_ok_alt)
next
  case (OpDeployment p t)
  with assms deploy_frame [OF assms(1)] show ?thesis by (simp add: devices_ok_alt)
next
  case (OpActivate a i)
  with assms deploy_frame [OF assms(1)] show ?thesis by (simp add: devices_ok_alt)
next
  case (OpDeploy i)
  with assms deploy_frame [OF assms(1)] show ?thesis by (simp add: devices_ok_alt)
qed (use assms in \<open>auto simp: devices_ok_alt\<close>)

end
