(* ===== verification/Repo_Bytes.thy ===== *)
theory Repo_Bytes
  imports Repo_Safety
begin

text \<open>
  Every step keeps the bytes of what is deployed, and the usage rows of the key/value tables exact.
\<close>

section \<open>Deployed bytes\<close>

lemma bytes_artifacts:
  assumes "bytes_ok sha d" "\<And>r p. r \<in> set (artifacts d) \<Longrightarrow> P r \<Longrightarrow> p \<in> set (deployments d) \<Longrightarrow> dpArtifact p \<noteq> arId r"
  shows "bytes_ok sha (delete_artifacts P d)"
  using assms unfolding bytes_ok_def blobs_ok_def deployments_ok_def delete_artifacts_def has_artifact_def
  by (auto simp: distinct_delete_rows list_ex_iff) metis

lemma bytes_blobs:
  assumes "bytes_ok sha d" "\<And>b r. b \<in> set (blobs d) \<Longrightarrow> P b \<Longrightarrow> r \<in> set (artifacts d) \<Longrightarrow> arDigest r \<noteq> blDigest b"
  shows "bytes_ok sha (d\<lparr>blobs := delete_rows P (blobs d)\<rparr>)"
  using assms unfolding bytes_ok_def blobs_ok_def deployments_ok_def has_artifact_def
  by (auto simp: distinct_delete_rows list_ex_iff) metis

lemma bytes_cong:
  assumes "bytes_ok sha d" "blobs d' = blobs d" "artifacts d' = artifacts d" "deployments d' = deployments d" "activeDeployments d' = activeDeployments d"
  shows "bytes_ok sha d'"
  using assms(1) unfolding bytes_ok_def blobs_ok_def deployments_ok_def has_artifact_def assms(2-5) .

lemma bytes_store:
  assumes "store_artifact a i d = Inr d'" "bytes_ok sha d" "arDigest a = digest_of sha (xiWasm i)"
  shows "bytes_ok sha d'"
  using assms(1)
proof (rule store_artifact_effect)
  fix bs ms
  assume d': "d' = d\<lparr>blobs := bs, artifacts := artifacts d @ [a], buildMetadata := ms\<rparr>" and new: "\<forall>x\<in>set (artifacts d). arId x \<noteq> arId a"
    and bs: "bs = blobs d \<and> (\<exists>b\<in>set bs. blDigest b = arDigest a \<and> blSize b = arSize a) \<or>
      bs = blobs d @ [\<lparr>blDigest = arDigest a, blSize = arSize a, blWasm = xiWasm i\<rparr>] \<and> (\<forall>b\<in>set (blobs d). blDigest b \<noteq> arDigest a) \<and>
        int (length (xiWasm i)) = arSize a"
  have "arId a \<notin> arId ` set (artifacts d)" using new by (auto simp: image_iff)
  then have deps: "deployments_ok d'" using assms(2) by (auto simp: d' bytes_ok_def deployments_ok_def has_artifact_def)
  have "(\<forall>b\<in>set (blobs d). blDigest b \<noteq> arDigest a) \<longrightarrow> arDigest a \<notin> blDigest ` set (blobs d)" by auto
  then have "distinct (map blDigest bs)" using bs assms(2) by (auto simp: bytes_ok_def)
  moreover have "blobs_ok sha d'"
    using bs assms(2,3) by (auto simp: d' bytes_ok_def blobs_ok_def)
  ultimately show ?thesis using deps by (simp add: bytes_ok_def d')
qed

lemma bytes_deployment:
  assumes "insert_deployment q d = Inr d'" "bytes_ok sha d"
  shows "bytes_ok sha d'"
proof -
  have "dpId q \<notin> dpId ` set (deployments d)" using assms(1) by (auto simp: insert_deployment_Inr image_iff)
  with assms show ?thesis
    by (auto simp: insert_deployment_Inr bytes_ok_def blobs_ok_def deployments_ok_def has_artifact_def)
qed

lemma bytes_active:
  assumes "set_active a i d = Inr d'" "bytes_ok sha d"
  shows "bytes_ok sha d'"
proof -
  have d': "d' = d\<lparr>activeDeployments := upsert (\<lambda>x. fst x = a) (\<lambda>x. (a, i)) (a, i) (activeDeployments d)\<rparr>"
    and p: "\<exists>p\<in>set (deployments d). dpId p = i \<and> dpApp p = a"
    using set_active_frame [OF assms(1)] by blast+
  have "distinct (map fst (upsert (\<lambda>x. fst x = a) (\<lambda>x. (a, i)) (a, i) (activeDeployments d)))"
    using assms(2) by (intro distinct_upsert) (auto simp: bytes_ok_def deployments_ok_def)
  moreover have "set (upsert (\<lambda>x. fst x = a) (\<lambda>x. (a, i)) (a, i) (activeDeployments d)) \<subseteq> insert (a, i) (set (activeDeployments d))"
    by (auto simp: upsert_def set_update_rows split: if_splits)
  ultimately show ?thesis
    using assms(2) p by (auto simp: d' bytes_ok_def blobs_ok_def deployments_ok_def has_artifact_def)
qed

lemma bytes_drop:
  assumes "drop_replaced old d = Inr d'" "bytes_ok sha d"
  shows "bytes_ok sha d'"
proof (cases "d' = d")
  case False
  then obtain p r d1 where p: "find (\<lambda>p. dpId p = old) (deployments d) = Some p" "find (\<lambda>r. arId r = dpArtifact p) (artifacts d) = Some r"
      "delete_deployment old d = Inr d1"
    using assms(1) by (auto simp: drop_replaced_def Let_def sum_bind_Inr split: if_splits option.splits)
  let ?P = "\<lambda>x. arId x = arId r \<and> \<not> list_ex (\<lambda>p. dpArtifact p = arId r) (deployments d1)"
  have d': "d' = (delete_artifacts ?P d1)\<lparr>blobs := delete_rows (\<lambda>b. blDigest b = arDigest r \<and>
      \<not> list_ex (\<lambda>x. arDigest x = arDigest r) (artifacts (delete_artifacts ?P d1))) (blobs (delete_artifacts ?P d1))\<rparr>"
    using assms(1) False p by (auto simp: drop_replaced_def Let_def split: if_splits)
  have d1: "bytes_ok sha d1"
    using p(3) assms(2)
    by (auto simp: delete_deployment_def guard_Inr bytes_ok_def blobs_ok_def deployments_ok_def has_artifact_def distinct_delete_rows list_ex_iff)
      fastforce
  have "bytes_ok sha (delete_artifacts ?P d1)" using d1 by (rule bytes_artifacts) (auto simp: list_ex_iff)
  then show ?thesis unfolding d' by (rule bytes_blobs) (auto simp: list_ex_iff)
qed (use assms in simp)

lemma bytes_gc: "gc_run c qs d = (ns, d') \<Longrightarrow> bytes_ok sha d \<Longrightarrow> bytes_ok sha d'"
proof (induction qs arbitrary: d ns)
  case (Cons q qs)
  obtain n d1 where g: "gc_delete c q d = (n, d1)" by fastforce
  have "bytes_ok sha d1"
  proof (cases q)
    case GcArtifacts
    with g have "d1 = delete_artifacts (\<lambda>a. arCreated a < c \<and> \<not> list_ex (\<lambda>p. dpArtifact p = arId a) (deployments d)) d"
      by (simp add: gc_delete_def Let_def)
    with Cons.prems(2) show ?thesis by (auto intro!: bytes_artifacts simp: list_ex_iff)
  next
    case GcBlobs
    with g have "d1 = d\<lparr>blobs := delete_rows (\<lambda>b. \<not> list_ex (\<lambda>a. arDigest a = blDigest b) (artifacts d)) (blobs d)\<rparr>"
      by (simp add: gc_delete_def Let_def)
    with Cons.prems(2) show ?thesis by (auto intro!: bytes_blobs simp: list_ex_iff)
  qed (use g Cons.prems(2) in \<open>auto simp: gc_delete_def Let_def intro: bytes_cong\<close>)
  with Cons g show ?case by (auto simp: Let_def split: prod.splits)
qed simp

lemma bytes_effect:
  assumes "effect env opn d d'" "bytes_ok (eSha env) d"
  shows "bytes_ok (eSha env) d'"
proof (cases opn)
  case (OpRegister i)
  with assms(1) obtain d1 ae ns where "registration_rows True i ns d = Inr d1" "d' = d1\<lparr>auditEvents := ae\<rparr>"
    by (auto simp: RegisterAuthor_tx_def Let_def sum_bind_Inr dest!: audit_Inr)
  then show ?thesis by (auto elim!: registration_effect intro: bytes_cong [OF assms(2)])
next
  case (OpBootstrap b v i)
  then obtain x where "CompleteBootstrapRegistration_tx env b v i d = Inr (x, d')" using assms(1) by auto
  from bootstrap_effect [OF this] show ?thesis
    by (auto elim!: registration_effect intro: bytes_cong [OF assms(2)])
next
  case (OpRename a h t)
  then obtain x where "RenameAuthor_tx env a h t d = Inr (x, d')" using assms(1) by auto
  then show ?thesis by (cases rule: RenameAuthor_effect) (auto intro: bytes_cong [OF assms(2)] simp: assms(2))
next
  case (OpRetire a v t)
  then obtain x where "RetireAuthor_tx env a v t d = Inr (x, d')" using assms(1) by auto
  then show ?thesis
  proof (rule RetireAuthor_effect)
    fix u tb ae
    assume "delete_author a (d\<lparr>tombstones := tombstones d @ [tb], auditEvents := ae\<rparr>) = Inr d'"
    from delete_author_effect(4-6) [OF this] assms(2) show ?thesis
      by (auto simp: bytes_ok_def blobs_ok_def deployments_ok_def has_artifact_def distinct_delete_rows) fastforce
  qed
next
  case (OpRevokeAuthorized a i j)
  with assms(1) show ?thesis by (auto simp: revoke_def dest!: revoke_authorized_effect intro: bytes_cong [OF assms(2)])
next
  case (OpRevokeRecovery a v j)
  with assms(1) show ?thesis by (auto simp: revoke_def dest!: revoke_recovery_effect intro: bytes_cong [OF assms(2)])
next
  case (OpEnroll i)
  with assms(1) show ?thesis by (auto elim!: enroll_effect intro: bytes_cong [OF assms(2)])
next
  case (OpRecover i)
  with assms(1) show ?thesis by (auto elim!: recover_effect intro: bytes_cong [OF assms(2)])
next
  case (OpArtifact i)
  then obtain a x where a: "validateArtifact env i = Inr a" "PutArtifact_tx env a i d = Inr (x, d')" using assms(1) by auto
  have dig: "arDigest a = digest_of (eSha env) (xiWasm i)" using a(1) by (auto simp: validateArtifact_def guard_Inr)
  from a(2) show ?thesis
    by (rule put_artifact_effect) (auto intro: bytes_cong [OF bytes_store [OF _ assms(2) dig]])
next
  case (OpDeployment p t)
  with assms show ?thesis by (auto elim!: create_deployment_effect intro: bytes_deployment)
next
  case (OpActivate a i)
  with assms show ?thesis by (auto dest!: activate_effect intro: bytes_active)
next
  case (OpDeploy i)
  then obtain a x where a: "validateArtifact env (diArtifact i) = Inr a" "DeployApplication_tx env a i d = Inr (x, d')" using assms(1) by auto
  have dig: "arDigest a = digest_of (eSha env) (xiWasm (diArtifact i))" using a(1) by (auto simp: validateArtifact_def guard_Inr)
  from a(2) show ?thesis
  proof (rule deploy_effect)
    fix apps1 d1 p d2 d3 d4 ae
    assume tx: "store_artifact a (diArtifact i) (d\<lparr>apps := apps1\<rparr>) = Inr d1" "insert_deployment p d1 = Inr d2"
      "set_active (dpApp p) (dpId p) d2 = Inr d3" "d4 = d3 \<or> (\<exists>old. old \<noteq> dpId p \<and> drop_replaced old d3 = Inr d4)"
      "d' = d4\<lparr>auditEvents := ae\<rparr>"
    have "bytes_ok (eSha env) (d\<lparr>apps := apps1\<rparr>)" by (rule bytes_cong [OF assms(2)]) simp_all
    from bytes_active [OF tx(3) bytes_deployment [OF tx(2) bytes_store [OF tx(1) this dig]]] tx(4)
    have "bytes_ok (eSha env) d4" by (auto intro: bytes_drop)
    then show ?thesis by (rule bytes_cong) (simp_all add: tx(5))
  qed
next
  case (OpGc qs t)
  then obtain x where "GarbageCollect_tx env qs t d = Inr (x, d')" using assms by auto
  then show ?thesis by (rule GarbageCollect_effect) (auto intro: bytes_cong [OF bytes_gc [OF _ assms(2)]])
next
  case (OpKvWrite a k h v)
  then have "blobs d' = blobs d \<and> artifacts d' = artifacts d \<and> deployments d' = deployments d \<and> activeDeployments d' = activeDeployments d"
    using assms(1) by (auto simp: kvWrite_tx_def Let_def sum_bind_Inr guard_Inr put_usage_def put_entry_def split: prod.splits)
  with bytes_cong [OF assms(2)] show ?thesis by blast
next
  case (OpKvDelete a k)
  then have "blobs d' = blobs d \<and> artifacts d' = artifacts d \<and> deployments d' = deployments d \<and> activeDeployments d' = activeDeployments d"
    using assms(1) by (auto simp: KVDelete_tx_def Let_def split: option.splits)
  with bytes_cong [OF assms(2)] show ?thesis by blast
qed (use assms in \<open>auto intro: bytes_cong [OF assms(2)]\<close>)

section \<open>Key/value usage\<close>

lemma usage_cong:
  assumes "usage_ok d" "kvEntries d' = kvEntries d" "kvUsages d' = kvUsages d"
  shows "usage_ok d'"
  using assms by (simp add: usage_ok_def usage_of_def entries_of_def)

lemma usage_gone:
  assumes "usage_ok d" "kvEntries d' = delete_rows (\<lambda>e. gone (keApp e)) (kvEntries d)" "kvUsages d' = delete_rows (\<lambda>u. gone (kuApp u)) (kvUsages d)"
  shows "usage_ok d'"
proof -
  have ents: "entries_of a d' = (if gone a then [] else entries_of a d)" for a
    unfolding entries_of_def assms(2) delete_rows_def filter_filter by (auto simp: filter_empty_conv intro!: arg_cong [of _ _ "map _"] filter_cong)
  have "find (\<lambda>u. kuApp u = a) (filter (\<lambda>u. \<not> gone (kuApp u)) us) = (if gone a then None else find (\<lambda>u. kuApp u = a) us)" for a and us :: "kv_usage list"
    by (induction us) auto
  then have "usage_of a d' = (if gone a then (0, 0) else usage_of a d)" for a
    by (simp add: usage_of_def assms(3) delete_rows_def)
  with ents assms show ?thesis by (auto simp: usage_ok_def distinct_delete_rows)
qed

lemma usage_write:
  assumes "kvWrite_tx env a k h v d = Inr (x, d')" "usage_ok d"
  shows "usage_ok d'"
proof -
  have app: "has_app d a" using assms(1) by (auto simp: kvWrite_tx_def sum_bind_Inr appExists_def split: if_splits)
  have "kvWrite_tx env a k None v d = Inr (x, d')"
    using assms(1) app by (cases h) (auto simp: cas_tx guard_Inr)
  with write_refines [OF assms(2) app, of env k v] show ?thesis by (auto split: prod.splits option.splits)
qed

lemma usage_effect:
  assumes "effect env opn d d'" "usage_ok d"
  shows "usage_ok d'"
proof (cases opn)
  case (OpRegister i)
  with assms(1) obtain d1 ae ns where "registration_rows True i ns d = Inr d1" "d' = d1\<lparr>auditEvents := ae\<rparr>"
    by (auto simp: RegisterAuthor_tx_def Let_def sum_bind_Inr dest!: audit_Inr)
  then show ?thesis by (auto elim!: registration_effect intro: usage_cong [OF assms(2)])
next
  case (OpBootstrap b v i)
  then obtain x where "CompleteBootstrapRegistration_tx env b v i d = Inr (x, d')" using assms(1) by auto
  from bootstrap_effect [OF this] show ?thesis by (auto elim!: registration_effect intro: usage_cong [OF assms(2)])
next
  case (OpRename a h t)
  then obtain x where "RenameAuthor_tx env a h t d = Inr (x, d')" using assms(1) by auto
  then show ?thesis by (cases rule: RenameAuthor_effect) (auto intro: usage_cong [OF assms(2)] simp: assms(2))
next
  case (OpRetire a v t)
  then obtain x where "RetireAuthor_tx env a v t d = Inr (x, d')" using assms(1) by auto
  then show ?thesis
  proof (rule RetireAuthor_effect)
    fix u tb ae
    assume "delete_author a (d\<lparr>tombstones := tombstones d @ [tb], auditEvents := ae\<rparr>) = Inr d'"
    from delete_author_effect(6) [OF this] usage_gone [OF assms(2), of d'] show ?thesis by auto
  qed
next
  case (OpRevokeAuthorized a i j)
  with assms(1) show ?thesis by (auto simp: revoke_def dest!: revoke_authorized_effect intro: usage_cong [OF assms(2)])
next
  case (OpRevokeRecovery a v j)
  with assms(1) show ?thesis by (auto simp: revoke_def dest!: revoke_recovery_effect intro: usage_cong [OF assms(2)])
next
  case (OpEnroll i)
  with assms(1) show ?thesis by (auto elim!: enroll_effect intro: usage_cong [OF assms(2)])
next
  case (OpRecover i)
  with assms(1) show ?thesis by (auto elim!: recover_effect intro: usage_cong [OF assms(2)])
next
  case (OpGc qs t)
  then obtain x where "GarbageCollect_tx env qs t d = Inr (x, d')" using assms by auto
  then show ?thesis by (rule GarbageCollect_effect) (auto dest!: gc_frame intro: usage_cong [OF assms(2)])
next
  case (OpKvWrite a k h v)
  with assms show ?thesis by (auto intro: usage_write)
next
  case (OpKvDelete a k)
  with assms delete_refines [OF assms(2), of a k env] show ?thesis by auto
next
  case (OpArtifact i)
  with deploy_frame [OF assms(1)] show ?thesis by (auto intro: usage_cong [OF assms(2)])
next
  case (OpDeployment p t)
  with deploy_frame [OF assms(1)] show ?thesis by (auto intro: usage_cong [OF assms(2)])
next
  case (OpActivate a i)
  with deploy_frame [OF assms(1)] show ?thesis by (auto intro: usage_cong [OF assms(2)])
next
  case (OpDeploy i)
  with deploy_frame [OF assms(1)] show ?thesis by (auto intro: usage_cong [OF assms(2)])
qed (use assms in \<open>auto intro: usage_cong [OF assms(2)]\<close>)

end
