(* ===== verification/Repo_Props.thy ===== *)
theory Repo_Props
  imports Repo_Bytes
begin

text \<open>
  The properties of the repository: what holds in every database its operations can produce, and
  what single operations guarantee.
\<close>

section \<open>Attempts on an enrollment token\<close>

text \<open>
  The two operations that try a proof on the token \<open>i\<close>, and the proof they present.
\<close>

fun tries :: "string \<Rightarrow> repo_op \<Rightarrow> bool" where
  "tries i (OpVerify j v) = (j = i)"
| "tries i (OpEnroll input) = (eiToken input = i)"
| "tries i _ = False"

fun proof_of :: "repo_op \<Rightarrow> bytes" where
  "proof_of (OpVerify j v) = v"
| "proof_of (OpEnroll input) = eiVerifier input"
| "proof_of _ = []"

text \<open>
  The engine works for an operation; an attempt is a wrong guess on a token that is accepted as
  input, reaches the comparison and is committed.
\<close>

definition works :: "repo_env \<Rightarrow> string \<Rightarrow> bool" where
  "works env operation \<longleftrightarrow> eBegin env \<and> \<not> eStatement env operation \<and> \<not> eEngine env operation \<and> \<not> eCommitFault env operation \<and> eCommit env"

fun wrong_guess :: "enrollment_token \<Rightarrow> repo_env \<times> repo_op \<Rightarrow> bool" where
  "wrong_guess t (env, OpVerify j v) =
    (validateID j \<and> works env ''enrollment-token-verify'' \<and> UnixNano (eNow env) < etExpires t \<and> v \<noteq> etVerifier t)"
| "wrong_guess t (env, OpEnroll i) =
    (list_all validateID [eiToken i, eiDevice i, eiPublicKey i, eiFingerprint i] \<and> verifier_ok (eiVerifier i) \<and> works env ''device-enrollment'' \<and>
     UnixNano (eNow env) < etExpires t \<and> etPurpose t = ''add_device'' \<and> eiVerifier i \<noteq> etVerifier t)"
| "wrong_guess t _ = False"

fun run_all :: "(repo_env \<times> repo_op) list \<Rightarrow> db \<Rightarrow> repo_error option list \<times> db" where
  "run_all [] d = ([], d)"
| "run_all ((env, opn) # rest) d = (let (r, d) = run_op env opn d; (rs, d) = run_all rest d in (r # rs, d))"

text \<open>
  One attempt on a token: nothing happens to it, a failure is counted, or it is consumed by its own proof.
\<close>

definition attempt_result :: "repo_env \<Rightarrow> repo_op \<Rightarrow> repo_error option \<Rightarrow> enrollment_token \<Rightarrow> enrollment_token \<Rightarrow> bool" where
  "attempt_result env opn r s s' \<longleftrightarrow>
     (r \<noteq> None \<and> s' = s \<and> \<not> (wrong_guess s (env, opn) \<and> token_usable env s)) \<or>
     (r \<noteq> None \<and> token_usable env s \<and> s' = s\<lparr>etFailed := etFailed s + 1\<rparr>) \<or>
     (r = None \<and> token_usable env s \<and> proof_of opn = etVerifier s \<and> s' = s\<lparr>etConsumed := Some (UnixNano (eNow env))\<rparr>)"

definition same_secret :: "enrollment_token \<Rightarrow> enrollment_token \<Rightarrow> bool" where
  "same_secret s t \<longleftrightarrow> etVerifier s = etVerifier t \<and> etPurpose s = etPurpose t \<and> etExpires s = etExpires t"

section \<open>A small database\<close>

text \<open>
  The inputs of the instances below: one author with one device, who deploys one app.
\<close>

definition demo_digest :: string where
  "demo_digest = digest_of (\<lambda>b. b) (replicate 32 0)"

definition demo_registration :: registration_input where
  "demo_registration = \<lparr>riAuthor = ''u'', riHandle = ''ann'', riDevice = ''v'', riDeviceName = ''laptop'', riPublicKey = ''k'',
     riFingerprint = ''f'', riSalt = [1], riVerifier = [2], riCreated = 5, riQuota = None\<rparr>"

definition demo_deploy :: deploy_input where
  "demo_deploy = \<lparr>diAuthor = ''u'', diDevice = ''v'', diName = ''app'', diKind = ''tui'', diAccess = ''restricted'', diSource = ''main.go'',
     diPrevious = '''', diArtifact = \<lparr>xiId = ''x'', xiDigest = demo_digest, xiWasm = replicate 32 0, xiAbi = 1, xiCreated = 5, xiMetadata = []\<rparr>\<rparr>"

definition registered_db :: db where
  "registered_db = snd (run_op demo_env (OpRegister demo_registration) empty_db)"

definition deployed_db :: db where
  "deployed_db = snd (run_op demo_env (OpDeploy demo_deploy) registered_db)"

definition demo_app_row :: app where
  "demo_app_row = \<lparr>apId = ''app_1'', apAuthor = ''u'', apName = ''app'', apKind = ''tui'', apAccess = ''restricted'', apSuspended = False,
     apCreated = 5, apUpdated = 5\<rparr>"

definition demo_token :: enrollment_token where
  "demo_token = \<lparr>etId = ''t'', etAuthor = ''u'', etPurpose = ''add_device'', etIssuedByKind = ''device'', etIssuedByDevice = Some ''v'',
     etDeviceName = ''phone'', etSalt = [3], etVerifier = [4], etFailed = 0, etCreated = 1, etExpires = 9, etConsumed = None\<rparr>"

definition demo_session :: session_row where
  "demo_session = \<lparr>ssId = ''t'', ssApp = ''app_1'', ssDeployment = ''dep_2'', ssDigest = demo_digest, ssStarted = 1,
     ssEnded = None, ssLog = '''', ssTruncated = False, ssIdentity = ''''\<rparr>"

section \<open>Reachable databases\<close>

inductive_cases repo_stepE: "repo_step sha opn d d'"

lemma repo_step_effect:
  assumes "repo_step sha opn d d'"
  obtains "d' = d" | env where "eSha env = sha" "effect env opn d d'"
proof -
  from assms obtain env r where "eSha env = sha" "run_op env opn d = (r, d')" by (auto elim: repo_stepE)
  then show thesis using step_effect [of env opn d] that by auto
qed

interpretation handles: invariant_system "any_step sha" handles_ok
  by unfold_locales (auto simp: any_step_def elim!: repo_step_effect intro: handles_effect)

interpretation devices: invariant_system "guarded_step sha" devices_ok
  by unfold_locales (auto simp: guarded_step_def elim!: repo_step_effect intro: devices_effect)

interpretation bytes: invariant_system "any_step sha" "bytes_ok sha"
  by unfold_locales (auto simp: any_step_def elim!: repo_step_effect intro: bytes_effect)

interpretation usage: invariant_system "any_step sha" usage_ok
  by unfold_locales (auto simp: any_step_def elim!: repo_step_effect intro: usage_effect)

lemma empty_inv: "handles_ok empty_db" "devices_ok empty_db" "bytes_ok sha empty_db" "usage_ok empty_db"
  by (simp_all add: empty_db_def handles_ok_def devices_ok_def bytes_ok_def blobs_ok_def deployments_ok_def usage_ok_def
      usage_of_def entries_of_def)

subsection \<open>The small database is reachable\<close>

lemma valid_demo [simp]: "validateID ''u''" "validateID ''v''" "validateID ''ann''" "validateID ''laptop''" "validateID ''k''" "validateID ''f''"
  "validateID ''audit_u''" "validateID ''x''" "validateID ''app''" "validateID ''app_1''" "validateID ''audit_dep_2''" "validateID ''d''" "validateID ''t''"
  by (simp_all add: validateID_printable printable_def)

lemma handle_demo [simp]: "validateHandle env ''ann''"
  by (simp add: validateHandle_def ToLower_def)

lemma demo_digest_format [simp]: "digest_format demo_digest"
  by code_simp

lemmas run_simps = checked_def mutate_def notify_def insert_row_def audit_def event_of_def stamp_def UnixNano_def delete_rows_def Let_def

lemmas register_simps = RegisterAuthor_def registration_ok_def demo_registration_def verifier_ok_def
     RegisterAuthor_tx_def registration_rows_def ensureHandleAvailable_def empty_db_def
     insert_author_def insert_recovery_def insert_device_def new_author_def new_recovery_def new_device_def
     registered_device_def register_quota_def has_author_def demo_env_def actor_kinds_def

lemma registered_db [simp]:
  "authors registered_db = [new_author demo_registration 5]" "devices registered_db = [registered_device demo_registration 5]"
  "sessions registered_db = []" "tokens registered_db = []"
  by (simp_all add: registered_db_def run_simps register_simps outcome_def)

lemmas deploy_simps = DeployApplication_def demo_deploy_def kinds_ok_def validateArtifact_def DeployApplication_tx_def
  active_device_def deploy_app_def insert_app_def reconcile_app_def store_artifact_def store_blob_def insert_blob_def
  insert_artifact_def insert_deployment_def has_app_def has_artifact_def has_device_def set_active_def new_deployment_def
  upsert_def zeroTime_def demo_digest_def [symmetric]

lemma deployed_db [simp]:
  "apps deployed_db = [demo_app_row]" "activeDeployments deployed_db = [(''app_1'', ''dep_2'')]" "suspendedDeployments deployed_db = []"
  "kvEntries deployed_db = []" "kvUsages deployed_db = []" "secrets deployed_db = []" "quotas deployed_db = []"
  "authors deployed_db = [new_author demo_registration 5]" "sessions deployed_db = []" "secretValues deployed_db = []"
  "deployments deployed_db = [\<lparr>dpId = ''dep_2'', dpApp = ''app_1'', dpArtifact = ''x'', dpDevice = ''v'', dpCreated = 5\<rparr>]"
  "artifacts deployed_db = [\<lparr>arId = ''x'', arDigest = demo_digest, arSize = 32, arAbi = 1, arCreated = 5\<rparr>]"
  "blobs deployed_db = [\<lparr>blDigest = demo_digest, blSize = 32, blWasm = replicate 32 0\<rparr>]"
  by (simp_all add: deployed_db_def registered_db_def run_simps register_simps outcome_def deploy_simps demo_app_row_def)

lemma demo_digest_ok [simp]: "VerifyDigestBytes demo_env demo_digest (replicate 32 0)"
  unfolding VerifyDigestBytes_def demo_digest_def by (simp add: demo_env_def)

lemma demo_mutate [simp]:
  "mutate demo_env operation kind fn d = (case fn d of Inl e \<Rightarrow> (Inl (mapRepositoryError e), d) | Inr (x, d') \<Rightarrow> (Inr x, d'))"
  by (auto simp: mutate_def notify_def demo_env_def split: sum.splits)

lemma demo_time [simp]: "UnixNano 5 = 5" "eNow demo_env = 5"
  by (simp_all add: UnixNano_def demo_env_def)

lemma reach_run: "(any_step (eSha env))\<^sup>*\<^sup>* empty_db d \<Longrightarrow> (any_step (eSha env))\<^sup>*\<^sup>* empty_db (snd (run_op env opn d))"
  by (rule rtranclp.rtrancl_into_rtrancl) (auto simp: any_step_def intro!: repo_step.step prod.collapse [symmetric])

lemma registered_reachable: "(any_step (eSha demo_env))\<^sup>*\<^sup>* empty_db registered_db"
  unfolding registered_db_def by (rule reach_run) simp

lemma deployed_reachable: "(any_step (eSha demo_env))\<^sup>*\<^sup>* empty_db deployed_db"
  unfolding deployed_db_def by (rule reach_run [OF registered_reachable])

lemma registered_guarded: "(guarded_step (eSha demo_env))\<^sup>*\<^sup>* empty_db registered_db"
proof (rule r_into_rtranclp)
  have "repo_step (eSha demo_env) (OpRegister demo_registration) empty_db registered_db"
    unfolding registered_db_def by (rule repo_step.step [OF refl prod.collapse [symmetric]])
  then show "guarded_step (eSha demo_env) empty_db registered_db" by (auto simp: guarded_step_def)
qed

subsection \<open>What holds in every reachable database\<close>

text \<open>
  C27: A handle never has two owners. In every database that operations can produce, whatever
  their inputs, clocks and engine failures, active handles are unique and none of
  them is reserved by the tombstone of a renamed or removed author.
\<close>

theorem handles_never_shared:
  assumes "(any_step sha)\<^sup>*\<^sup>* empty_db d"
  shows "distinct (map auHandle (authors d)) \<and> (\<forall>t\<in>set (tombstones d). \<forall>a\<in>set (authors d). tbHandle t \<noteq> auHandle a)"
  using handles.steps_inv [OF assms empty_inv(1)] by (simp add: handles_ok_def)

theorem handles_never_shared_witness:
  "authors registered_db \<noteq> [] \<and> distinct (map auHandle (authors registered_db))"
  using handles_never_shared [OF registered_reachable] by simp

text \<open>
  C28: No sequence of registrations, enrollments, recoveries, revocations and removals leaves an
  author without an active device, unless it contains the operator's unguarded \<^verbatim>\<open>RevokeDevice\<close>.
\<close>

theorem author_keeps_device:
  assumes "(guarded_step sha)\<^sup>*\<^sup>* empty_db d" and "a \<in> set (authors d)"
  shows "\<exists>v\<in>set (devices d). dvAuthor v = auId a \<and> dvRevoked v = None"
  using devices.steps_inv [OF assms(1) empty_inv(2)] assms(2) by (simp add: devices_ok_alt)

theorem author_keeps_device_witness:
  "\<exists>v\<in>set (devices registered_db). dvAuthor v = ''u'' \<and> dvRevoked v = None"
  using author_keeps_device [OF registered_guarded, of "new_author demo_registration 5"]
  by (simp add: new_author_def demo_registration_def)

text \<open>
  C29: What is deployed can be run. In every reachable database the active deployment of an app that
  is not suspended resolves, to bytes of the recorded size whose SHA-256 is the recorded digest:
  neither a replacement nor the garbage collector, in any order of its deletes, removes
  them while they are deployed.
\<close>

theorem deployed_bytes_resolve:
  assumes "(any_step sha)\<^sup>*\<^sup>* empty_db d" and "eSha env = sha" and "validateID author"
    and app: "find (\<lambda>a. apAuthor a = author \<and> apName a = name) (apps d) = Some a"
    and active: "map_of (activeDeployments d) (apId a) = Some i"
    and "\<not> apSuspended a" and "i \<notin> set (suspendedDeployments d)"
  shows "\<exists>r. ResolveRunnable env d author name = Inr r \<and> rnApp r = a \<and> rnDeployment r = i \<and>
    arDigest (rnArtifact r) = digest_of sha (rnWasm r) \<and> arSize (rnArtifact r) = int (length (rnWasm r))"
proof -
  have inv: "bytes_ok sha d" using bytes.steps_inv [OF assms(1) empty_inv(3)] .
  have "(apId a, i) \<in> set (activeDeployments d)" using active by (rule map_of_SomeD)
  then obtain q where q: "q \<in> set (deployments d)" "dpId q = i" "dpApp q = apId a"
    using inv by (auto simp: bytes_ok_def deployments_ok_def)
  then obtain p where p: "find (\<lambda>p. dpId p = i \<and> dpApp p = apId a) (deployments d) = Some p"
    by (cases "find (\<lambda>p. dpId p = i \<and> dpApp p = apId a) (deployments d)") (auto simp: find_none)
  then have "has_artifact d (dpArtifact p)"
    using inv find_set [OF p] by (auto simp: bytes_ok_def deployments_ok_def)
  then obtain r where r: "find (\<lambda>r. arId r = dpArtifact p) (artifacts d) = Some r"
    by (cases "find (\<lambda>r. arId r = dpArtifact p) (artifacts d)") (auto simp: find_none has_artifact_def list_ex_iff)
  then obtain b where b: "b \<in> set (blobs d)" "blDigest b = arDigest r" "blSize b = arSize r"
    using inv find_set [OF r] by (auto simp: bytes_ok_def blobs_ok_def)
  then have "find (\<lambda>x. blDigest x = arDigest r) (blobs d) = Some b"
    using inv by (simp add: find_key bytes_ok_def)
  with assms p r b inv show ?thesis
    by (auto simp: ResolveRunnable_def VerifyDigestBytes_def bytes_ok_def blobs_ok_def)
qed

theorem deployed_bytes_resolve_witness:
  "\<exists>r. ResolveRunnable demo_env deployed_db ''u'' ''app'' = Inr r \<and> arSize (rnArtifact r) = int (length (rnWasm r))"
  using deployed_bytes_resolve [OF deployed_reachable refl, of "''u''" "''app''" demo_app_row "''dep_2''"]
  by (auto simp: demo_app_row_def)

text \<open>
  C30: The usage row of an app is exact in every reachable database: \<^verbatim>\<open>KVUsage\<close> reports the number
  of its entries and the sum of the lengths of their keys and values.
\<close>

theorem usage_is_exact:
  assumes "(any_step sha)\<^sup>*\<^sup>* empty_db d" and "validateID a"
  shows "KVUsage d a = Inr (int (length (filter (\<lambda>e. keApp e = a) (kvEntries d))),
    \<Sum>e\<leftarrow>filter (\<lambda>e. keApp e = a) (kvEntries d). int (length (keKey e)) + int (length (keValue e)))"
  using usage_okD(1) [OF usage.steps_inv [OF assms(1) empty_inv(4)], of a] assms(2)
  by (simp add: KVUsage_def entries_of_def file_bytes_def o_def)

theorem usage_is_exact_witness:
  "KVUsage (snd (run_op demo_env (OpKvWrite ''app_1'' [1] None [2, 3]) deployed_db)) ''app_1'' = Inr (1, 3)"
proof -
  have "kvEntries (snd (run_op demo_env (OpKvWrite ''app_1'' [1] None [2, 3]) deployed_db)) =
      [\<lparr>keApp = ''app_1'', keKey = [1], keValue = [2, 3], keRevision = 1, keUpdated = 5\<rparr>]"
    by (simp add: checked_def outcome_def kvWrite_def validateKVKey_def kvMaxKeyLen_def kvWrite_tx_def appExists_def has_app_def demo_app_row_def
       put_entry_def put_usage_def usage_of_def upsert_def Let_def) (simp add: demo_env_def)
  then show ?thesis
    using usage_is_exact [OF reach_run [OF deployed_reachable], of "''app_1''" "OpKvWrite ''app_1'' [1] None [2, 3]"]
    by (simp del: run_op.simps)
qed

section \<open>Failed operations\<close>

lemma failed_checked:
  assumes "outcome (checked ok (mutate env operation kind fn d) d) = (Some e, d')" "e \<noteq> ErrListener"
  shows "d' = d"
  using assms mutate_error_unchanged [of env operation kind fn d e d']
  by (cases ok) (auto simp: outcome_def checked_def split: prod.splits sum.splits)

lemma failed_plain:
  assumes "outcome (mutate env operation kind fn d) = (Some e, d')" "e \<noteq> ErrListener"
  shows "d' = d"
  using assms mutate_error_unchanged [of env operation kind fn d e d']
  by (auto simp: outcome_def split: prod.splits sum.splits)

lemmas checked_ops = SetServerIdentity_def RegisterAuthor_def RenameAuthor_def RetireAuthor_def RotateRecovery_def SetQuota_def
  RevokeDevice_def RevokeDeviceAuthorized_def RevokeDeviceWithRecovery_def CreateEnrollmentToken_def CompleteRecovery_def
  CreateBootstrapAuthority_def CreateApp_def AddAccessKey_def RemoveAccessKey_def SetCapabilityConfig_def SetCapabilityValue_def
  SetEgressHost_def SetSecret_def SetSecretDelete_def StartSession_def RecordSessionLog_def EndSession_def CreateDeployment_def
  ActivateDeployment_def SetDeploymentSuspended_def kvWrite_def KVDelete_def



section \<open>Enrollment tokens\<close>

lemma verification_outcome:
  assumes "outcome (checked ok (verification_result (mutate env operation '''' fn d)) d) = (r, d')"
  obtains (same) e where "r = Some e" "d' = d" "ok \<Longrightarrow> works env operation \<Longrightarrow> \<exists>e. fn d = Inl e"
  | (ran) x where "ok" "fn d = Inr (x, d')" "r = (case x of None \<Rightarrow> Some repo_error.ErrConflict | Some _ \<Rightarrow> None)"
proof (cases ok)
  case False
  with assms same show thesis by (auto simp: checked_def outcome_def)
next
  case True
  show thesis
  proof (cases rule: mutate_cases [of env operation "''''" fn d])
    case (same e)
    then have "works env operation \<Longrightarrow> \<exists>e. fn d = Inl e"
      by (cases "fn d") (auto simp: works_def mutate_def notify_def)
    with True same assms that(1) show thesis by (auto simp: checked_def outcome_def verification_result_def)
  next
    case (changed x d1)
    with True assms ran [of x] show thesis
      by (cases x) (auto simp: checked_def outcome_def verification_result_def notify_def)
  qed
qed

lemma find_update_token:
  assumes "find (\<lambda>t. etId t = i) (tokens d) = Some s" "\<And>t. etId (f t) = etId t"
  shows "find (\<lambda>t. etId t = i) (tokens (update_token i f d)) = Some (f s)"
  using assms find_set [OF assms(1)] by (simp add: update_token_def find_update)

lemma verify_attempt:
  assumes run: "run_op env (OpVerify i v) d = (r, d')" and s: "find (\<lambda>t. etId t = i) (tokens d) = Some s"
  shows "\<exists>s'. find (\<lambda>t. etId t = i) (tokens d') = Some s' \<and> attempt_result env (OpVerify i v) r s s'"
  using run [unfolded run_op.simps VerifyEnrollmentToken_def]
proof (cases rule: verification_outcome)
  case (same e)
  have "\<not> (wrong_guess s (env, OpVerify i v) \<and> token_usable env s)"
    using same(3) s by (auto simp: VerifyEnrollmentToken_tx_def Let_def bytesEqual_iff)
  with same s show ?thesis by (auto simp: attempt_result_def)
next
  case (ran x)
  show ?thesis
  proof (cases "etVerifier s = v")
    case True
    with ran s have "d' = update_token i (etConsumed_update (\<lambda>_. Some (UnixNano (eNow env)))) d" "r = None" "token_usable env s"
      by (auto simp: VerifyEnrollmentToken_tx_def Let_def guard_Inr bytesEqual_iff)
    with True s find_update_token [OF s] show ?thesis by (simp add: attempt_result_def)
  next
    case False
    with ran s have "d' = update_token i (etFailed_update (\<lambda>_. etFailed s + 1)) d" "r \<noteq> None" "token_usable env s"
      by (auto simp: VerifyEnrollmentToken_tx_def Let_def guard_Inr bytesEqual_iff)
    with find_update_token [OF s] show ?thesis by (simp add: attempt_result_def)
  qed
qed

lemma enroll_attempt:
  assumes run: "run_op env (OpEnroll i) d = (r, d')" and s: "find (\<lambda>t. etId t = eiToken i) (tokens d) = Some s"
  shows "\<exists>s'. find (\<lambda>t. etId t = eiToken i) (tokens d') = Some s' \<and> attempt_result env (OpEnroll i) r s s'"
  using run [unfolded run_op.simps CompleteDeviceEnrollment_def]
proof (cases rule: verification_outcome)
  case (same e)
  have "\<not> (wrong_guess s (env, OpEnroll i) \<and> token_usable env s)"
    using same(3) s by (auto simp: CompleteDeviceEnrollment_tx_def Let_def bytesEqual_iff)
  with same s show ?thesis by (auto simp: attempt_result_def)
next
  case (ran x)
  show ?thesis
  proof (cases "etVerifier s = eiVerifier i")
    case True
    with ran s have "tokens d' = tokens (update_token (eiToken i) (etConsumed_update (\<lambda>_. Some (UnixNano (eNow env)))) d)" "r = None" "token_usable env s"
      by (auto simp: CompleteDeviceEnrollment_tx_def Let_def guard_Inr bytesEqual_iff sum_bind_Inr insert_device_Inr update_token_def dest!: audit_Inr)
    with True find_update_token [OF s] show ?thesis by (simp add: attempt_result_def)
  next
    case False
    with ran s have "d' = update_token (eiToken i) (etFailed_update (\<lambda>_. etFailed s + 1)) d" "r \<noteq> None" "token_usable env s"
      by (auto simp: CompleteDeviceEnrollment_tx_def Let_def guard_Inr bytesEqual_iff)
    with find_update_token [OF s] show ?thesis by (simp add: attempt_result_def)
  qed
qed

lemma attempt_step:
  assumes "tries i opn" "run_op env opn d = (r, d')" "find (\<lambda>t. etId t = i) (tokens d) = Some s"
  shows "\<exists>s'. find (\<lambda>t. etId t = i) (tokens d') = Some s' \<and> attempt_result env opn r s s'"
  using assms verify_attempt enroll_attempt by (cases opn) auto

text \<open>
  A sequence of attempts: as long as the token is not consumed there was no success, and every
  wrong guess was counted up to the limit of five.
\<close>

lemma wrong_guess_cong: "same_secret s t \<Longrightarrow> wrong_guess s x = wrong_guess t x"
  by (cases x; cases "snd x") (auto simp: same_secret_def)

lemma wrong_guess_fresh: "wrong_guess t (env, opn) \<Longrightarrow> UnixNano (eNow env) < etExpires t"
  by (cases opn) auto

lemma attempts_run:
  assumes "\<forall>x\<in>set xs. tries i (snd x)" "run_all xs d = (rs, d')" "find (\<lambda>t. etId t = i) (tokens d) = Some t"
  shows "\<exists>s. find (\<lambda>t. etId t = i) (tokens d') = Some s \<and> same_secret s t \<and>
    (etConsumed s = None \<longrightarrow> etConsumed t = None \<and> None \<notin> set rs \<and> min 5 (etFailed t + length (filter (wrong_guess t) xs)) \<le> etFailed s)"
  using assms
proof (induction xs arbitrary: d rs t)
  case Nil
  then show ?case by (simp add: same_secret_def)
next
  case (Cons x xs)
  obtain env opn where x: "x = (env, opn)" by fastforce
  obtain r d1 where r: "run_op env opn d = (r, d1)" by fastforce
  obtain rs1 where rs1: "run_all xs d1 = (rs1, d')" "rs = r # rs1"
    using Cons.prems(2) r by (auto simp: x split: prod.splits)
  have "tries i opn" using Cons.prems(1) x by simp
  from attempt_step [OF this r Cons.prems(3)] obtain s1 where s1: "find (\<lambda>t. etId t = i) (tokens d1) = Some s1" "attempt_result env opn r t s1"
    by blast
  have sec: "same_secret s1 t" using s1(2) by (auto simp: attempt_result_def same_secret_def)
  have first: "etConsumed s1 = None \<longrightarrow> etConsumed t = None \<and> r \<noteq> None \<and>
      min 5 (etFailed t + (if wrong_guess t x then 1 else 0)) \<le> etFailed s1"
    using s1(2) x by (auto simp: attempt_result_def token_usable_def split: if_splits dest: wrong_guess_fresh)
  obtain s where s: "find (\<lambda>t. etId t = i) (tokens d') = Some s" "same_secret s s1"
      "etConsumed s = None \<longrightarrow> etConsumed s1 = None \<and> None \<notin> set rs1 \<and> min 5 (etFailed s1 + length (filter (wrong_guess s1) xs)) \<le> etFailed s"
    using Cons.IH [OF _ rs1(1) s1(1)] Cons.prems(1) by auto
  have "wrong_guess s1 = wrong_guess t" using wrong_guess_cong [OF sec] by (rule ext)
  with s first sec rs1(2) show ?case by (intro exI [of _ s]) (auto simp: same_secret_def)
qed

lemmas token_simps = VerifyEnrollmentToken_def checked_def VerifyEnrollmentToken_tx_def Let_def outcome_def verification_result_def
  update_token_def update_rows_def demo_token_def token_usable_def bytesEqual_def

text \<open>
  C32: A device enrollment token admits at most one device and at most five wrong guesses. If an attempt on a
  token succeeds after any sequence of attempts on it, under any clocks and engine failures,
  then it presents the token's verifier, none of the attempts before it succeeded, and fewer
  than five of them were wrong guesses that were committed.
\<close>

theorem token_guess_budget:
  assumes "find (\<lambda>t. etId t = i) (tokens d) = Some t"
    and "\<forall>x\<in>set xs. tries i (snd x)" and "run_all xs d = (rs, d1)"
    and "tries i opn" and "run_op env opn d1 = (None, d2)"
  shows "proof_of opn = etVerifier t \<and> None \<notin> set rs \<and> length (filter (wrong_guess t) xs) < 5"
proof -
  from attempts_run [OF assms(2,3,1)]
  obtain s where s: "find (\<lambda>t. etId t = i) (tokens d1) = Some s \<and> same_secret s t \<and>
    (etConsumed s = None \<longrightarrow> etConsumed t = None \<and> None \<notin> set rs \<and> min 5 (etFailed t + length (filter (wrong_guess t) xs)) \<le> etFailed s)"
    by (rule exE)
  then have s: "find (\<lambda>t. etId t = i) (tokens d1) = Some s" "same_secret s t"
      "etConsumed s = None \<longrightarrow> etConsumed t = None \<and> None \<notin> set rs \<and> min 5 (etFailed t + length (filter (wrong_guess t) xs)) \<le> etFailed s"
    by simp_all
  from attempt_step [OF assms(4,5) s(1)] have "token_usable env s" "proof_of opn = etVerifier s"
    by (auto simp: attempt_result_def)
  then have "etConsumed s = None" "etFailed s < 5" by (simp_all add: token_usable_def)
  with s(3) have "None \<notin> set rs" "length (filter (wrong_guess t) xs) < 5" by linarith+
  with \<open>proof_of opn = etVerifier s\<close> s(2) show ?thesis by (simp add: same_secret_def)
qed

theorem token_guess_budget_witness:
  "length (filter (wrong_guess demo_token) [(demo_env, OpVerify ''t'' [9])]) = 1 \<and>
   length (filter (wrong_guess demo_token) [(demo_env, OpVerify ''t'' [9])]) < 5"
proof -
  let ?d = "registered_db\<lparr>tokens := [demo_token]\<rparr>"
  let ?d1 = "registered_db\<lparr>tokens := [demo_token\<lparr>etFailed := 1\<rparr>]\<rparr>"
  have "run_all [(demo_env, OpVerify ''t'' [9])] ?d = ([Some repo_error.ErrConflict], ?d1)"
    by (simp add: token_simps)
  moreover have "run_op demo_env (OpVerify ''t'' [4]) ?d1 = (None, snd (run_op demo_env (OpVerify ''t'' [4]) ?d1))"
    by (simp add: token_simps)
  ultimately show ?thesis
    using token_guess_budget [of "''t''" ?d demo_token "[(demo_env, OpVerify ''t'' [9])]" _ ?d1 "OpVerify ''t'' [4]" demo_env]
    by (simp add: demo_token_def works_def del: run_all.simps run_op.simps) (simp add: demo_env_def)
qed

section \<open>Access to a restricted app\<close>

text \<open>
  C33: A restricted app runs only for whom it is meant. When a leaf session resolves to an app that
  is not public, the caller is its owner, or presented a fingerprint that is registered as an
  access key of this app or belongs to an active device of its owner; and neither the
  author, the app nor its active deployment is suspended.
\<close>

theorem restricted_app_access:
  assumes "ResolveLeafRunnable env d handle name fingerprint caller = Inr r"
  shows "\<exists>u\<in>set (authors d). auHandle u = handle \<and> \<not> auSuspended u \<and> apAuthor (rnApp r) = auId u \<and> apName (rnApp r) = name \<and>
    \<not> apSuspended (rnApp r) \<and> rnDeployment r \<notin> set (suspendedDeployments d) \<and>
    (apAccess (rnApp r) \<noteq> ''public'' \<longrightarrow> caller = auId u \<or>
      (\<exists>k\<in>set (accessKeys d). akApp k = apId (rnApp r) \<and> akFingerprint k = fingerprint) \<or>
      (\<exists>v\<in>set (devices d). dvFingerprint v = fingerprint \<and> dvAuthor v = auId u \<and> dvRevoked v = None))"
proof -
  obtain u where u: "find (\<lambda>a. auHandle a = handle) (authors d) = Some u"
    using assms by (auto simp: ResolveLeafRunnable_def guard_Inr split: option.splits)
  then have res: "ResolveRunnable env d (auId u) name = Inr r" "\<not> auSuspended u"
      "apAccess (rnApp r) = ''public'' \<or> caller = auId u \<or>
       list_ex (\<lambda>k. akApp k = apId (rnApp r) \<and> akFingerprint k = fingerprint) (accessKeys d) \<or>
       list_ex (\<lambda>v. dvFingerprint v = fingerprint \<and> dvAuthor v = apAuthor (rnApp r) \<and> dvRevoked v = None) (devices d)"
    using assms by (auto simp: ResolveLeafRunnable_def guard_Inr sum_bind_Inr split: if_splits)
  then have "apAuthor (rnApp r) = auId u \<and> apName (rnApp r) = name \<and> \<not> apSuspended (rnApp r) \<and> rnDeployment r \<notin> set (suspendedDeployments d)"
    by (auto simp: ResolveRunnable_def guard_Inr split: option.splits dest: find_set)
  with res(2,3) find_set [OF u] show ?thesis by (auto simp: list_ex_iff)
qed

theorem restricted_app_access_witness:
  "\<exists>r. ResolveLeafRunnable demo_env deployed_db ''ann'' ''app'' '''' ''u'' = Inr r \<and> apAccess (rnApp r) \<noteq> ''public'' \<and> \<not> apSuspended (rnApp r)"
  using restricted_app_access [of demo_env deployed_db "''ann''" "''app''" "''''" "''u''"]
  by (auto simp: ResolveLeafRunnable_def ResolveRunnable_def demo_app_row_def new_author_def demo_registration_def)

section \<open>Sessions\<close>

text \<open>
  The end of a session is final. Once \<^verbatim>\<open>EndSession\<close> has succeeded, a replay succeeds with
  the same end time and writes nothing, and the log can no longer be changed.
\<close>

theorem session_end_is_final:
  assumes "distinct (map ssId (sessions d))" and "UnixNano (eNow env) = eNow env"
    and "EndSession env i d = (Inr t, d1)"
  shows "(\<forall>env' t' d2. EndSession env' i d1 = (Inr t', d2) \<longrightarrow> t' = t \<and> d2 = d1) \<and>
    (\<forall>env' log b. fst (RecordSessionLog env' i log b d1) \<noteq> Inr ())"
proof -
  have tx: "EndSession_tx env i d = Inr (t, d1)" using assms(3) by (auto simp: EndSession_def checked_Inr dest: mutate_Inr)
  then obtain s where s: "find (\<lambda>s. ssId s = i) (sessions d) = Some s"
    by (auto simp: EndSession_tx_def split: option.splits)
  have ended: "\<exists>s'. find (\<lambda>s. ssId s = i) (sessions d1) = Some s' \<and> ssEnded s' = Some t"
    using tx s assms(2) find_set [OF s] find_update [of ssId _ i "open_session i" "sessions d"]
    by (cases "ssEnded s") (auto simp: EndSession_tx_def open_session_def)
  have ids: "distinct (map ssId (sessions d1))"
    using tx s assms(1) update_rows_keep [of "open_session i" ssId _ "sessions d"]
    by (cases "ssEnded s") (auto simp: EndSession_tx_def)
  have "\<forall>x\<in>set (sessions d1). \<not> open_session i x"
    using ended ids by (auto simp: open_session_def find_key)
      (metis (mono_tags) find_unique option.distinct(1) option.inject)
  then have "fst (RecordSessionLog env' i log b d1) \<noteq> Inr ()" for env' log b
    by (auto simp: RecordSessionLog_def checked_def mutate_def mapRepositoryError_def)
  moreover have "t' = t \<and> d2 = d1" if "EndSession env' i d1 = (Inr t', d2)" for env' t' d2
    using that ended by (auto simp: EndSession_def checked_Inr EndSession_tx_def dest!: mutate_Inr)
  ultimately show ?thesis by blast
qed

theorem session_end_is_final_witness:
  "fst (RecordSessionLog demo_env ''t'' ''x'' False (snd (EndSession demo_env ''t'' (empty_db\<lparr>sessions := [demo_session]\<rparr>)))) \<noteq> Inr ()"
  using session_end_is_final [of "empty_db\<lparr>sessions := [demo_session]\<rparr>" demo_env "''t''" 5
     "snd (EndSession demo_env ''t'' (empty_db\<lparr>sessions := [demo_session]\<rparr>))"]
  by (simp add: EndSession_def EndSession_tx_def checked_def demo_session_def)

section \<open>Secrets\<close>

lemma is_secret_pair: "is_secret a key = (\<lambda>s. (scApp s, scKey s) = (a, key))"
  by (auto simp: is_secret_def)

lemma secret_value_pair: "(\<lambda>(a', k', _). a' = a \<and> k' = key) = (\<lambda>x. (fst x, fst (snd x)) = (a, key))"
  by auto

lemma Secret_alt:
  "Secret d a key = (case find (\<lambda>s. (scApp s, scKey s) = (a, key)) (secrets d) of
     None \<Rightarrow> Inl ErrNotFound
   | Some s \<Rightarrow> (case find (\<lambda>x. (fst x, fst (snd x)) = (a, key)) (secretValues d) of
       None \<Rightarrow> Inl ErrNotFound | Some x \<Rightarrow> Inr (s, snd (snd x))))"
  unfolding Secret_def is_secret_pair secret_value_pair by (auto split: option.splits)

lemma SetSecret_rows:
  assumes "SetSecret env a key v d = (Inr s, d')"
  obtains f r where "\<And>u. (scApp (f u), scKey (f u)) = (scApp u, scKey u)" "(scApp r, scKey r) = (a, key)"
    "secrets d' = upsert (is_secret a key) f r (secrets d)"
    "secretValues d' = upsert (\<lambda>(a', k', _). a' = a \<and> k' = key) (\<lambda>_. (a, key, v)) (a, key, v) (secretValues d)"
    "s = (case find (is_secret a key) (secrets d) of None \<Rightarrow> r | Some u \<Rightarrow> f u)"
    "case find (is_secret a key) (secrets d) of
       None \<Rightarrow> scVersion s = 1 | Some old \<Rightarrow> scVersion s = scVersion old + 1 \<and> scCreated s = scCreated old"
proof -
  define now where "now = UnixNano (eNow env)"
  define version where "version = (case find (is_secret a key) (secrets d) of None \<Rightarrow> 1 | Some s \<Rightarrow> scVersion s + 1)"
  define created where "created = (case find (is_secret a key) (secrets d) of None \<Rightarrow> now | Some s \<Rightarrow> scCreated s)"
  have pair: "(case find (is_secret a key) (secrets d) of None \<Rightarrow> (1, now) | Some s \<Rightarrow> (scVersion s + 1, scCreated s)) = (version, created)"
    by (simp add: version_def created_def split: option.splits)
  have "SetSecret_tx env a key v d = Inr (s, d')" using assms by (auto simp: SetSecret_def checked_Inr dest: mutate_Inr)
  then have rows: "s = \<lparr>scApp = a, scKey = key, scVersion = version, scCreated = created, scUpdated = now\<rparr>"
      "secrets d' = upsert (is_secret a key) (\<lambda>s. s\<lparr>scVersion := version, scUpdated := now\<rparr>)
         \<lparr>scApp = a, scKey = key, scVersion = version, scCreated = now, scUpdated = now\<rparr> (secrets d)"
      "secretValues d' = upsert (\<lambda>(a', k', _). a' = a \<and> k' = key) (\<lambda>_. (a, key, v)) (a, key, v) (secretValues d)"
    unfolding SetSecret_tx_def Let_def now_def [symmetric] pair by (auto simp: guard_Inr sum_bind_Inr)
  show thesis
    by (rule that [OF _ _ rows(2,3)])
      (auto simp: rows(1) version_def created_def is_secret_def split: option.splits dest!: find_set)
qed

text \<open>
  C35: Secrets round trip and are versioned. After \<^verbatim>\<open>SetSecret\<close> has succeeded, \<^verbatim>\<open>Secret\<close> returns the
  value with the metadata that the call returned, whose version is one more than before and whose
  creation time is unchanged, and every other secret reads as before.
\<close>

theorem secret_round_trip:
  assumes "SetSecret env a key v d = (Inr s, d')"
  shows "Secret d' a key = Inr (s, v) \<and>
    (case find (is_secret a key) (secrets d) of
       None \<Rightarrow> scVersion s = 1 | Some old \<Rightarrow> scVersion s = scVersion old + 1 \<and> scCreated s = scCreated old) \<and>
    (\<forall>b k. (b, k) \<noteq> (a, key) \<longrightarrow> Secret d' b k = Secret d b k)"
  using assms
proof (rule SetSecret_rows)
  fix f r
  assume f: "\<And>u. (scApp (f u), scKey (f u)) = (scApp u, scKey u)" "(scApp r, scKey r) = (a, key)"
    and rows: "secrets d' = upsert (is_secret a key) f r (secrets d)"
      "secretValues d' = upsert (\<lambda>(a', k', _). a' = a \<and> k' = key) (\<lambda>_. (a, key, v)) (a, key, v) (secretValues d)"
    and s: "s = (case find (is_secret a key) (secrets d) of None \<Rightarrow> r | Some u \<Rightarrow> f u)"
    and version: "case find (is_secret a key) (secrets d) of
       None \<Rightarrow> scVersion s = 1 | Some old \<Rightarrow> scVersion s = scVersion old + 1 \<and> scCreated s = scCreated old"
  have meta: "find (\<lambda>s. (scApp s, scKey s) = (b, k)) (secrets d') =
      (if (b, k) = (a, key) then Some s else find (\<lambda>s. (scApp s, scKey s) = (b, k)) (secrets d))" for b k
    unfolding rows s is_secret_pair by (rule find_upsert) (use f in auto)
  have "find (\<lambda>x. (fst x, fst (snd x)) = (b, k)) (secretValues d') =
      (if (b, k) = (a, key) then Some (case find (\<lambda>x. (fst x, fst (snd x)) = (a, key)) (secretValues d) of None \<Rightarrow> (a, key, v) | Some _ \<Rightarrow> (a, key, v))
       else find (\<lambda>x. (fst x, fst (snd x)) = (b, k)) (secretValues d))" for b k
    unfolding rows secret_value_pair by (rule find_upsert) auto
  with meta version show ?thesis by (auto simp: Secret_alt split: option.splits)
qed

theorem secret_round_trip_witness:
  "\<exists>s. Secret (snd (SetSecret demo_env ''app_1'' ''k'' [7] deployed_db)) ''app_1'' ''k'' = Inr (s, [7]) \<and> scVersion s = 1"
proof -
  have "\<exists>s d'. SetSecret demo_env ''app_1'' ''k'' [7] deployed_db = (Inr s, d')"
    by (simp add: SetSecret_def SetSecret_tx_def checked_def appExists_def has_app_def app_limit_def author_limit_def over_limit_def demo_app_row_def
       Let_def)
  then show ?thesis using secret_round_trip [of demo_env "''app_1''" "''k''" "[7]" deployed_db] by auto
qed

end
