(* ===== verification/Pair_Proto.thy ===== *)
theory Pair_Proto
  imports Proc_Proto Go_Text
begin

text \<open>
  The pairing protocol of \<^verbatim>\<open>internal/protocol/pairing/pairing.go\<close>: the transcript that both sides prove, the proofs and the frames
  on the channel. SHA-256, HMAC-SHA-256 and the JSON form of a transcript are parameters.
\<close>

section \<open>Messages\<close>

definition MaxFrameSize :: nat where [const_defs]: "MaxFrameSize = 65536"
definition MaxSecretSize :: nat where [const_defs]: "MaxSecretSize = 4096"

definition FrameServerHello :: byte where [const_defs]: "FrameServerHello = 1"
definition FrameClientHello :: byte where [const_defs]: "FrameClientHello = 2"
definition FrameServerProof :: byte where [const_defs]: "FrameServerProof = 3"
definition FrameClientProof :: byte where [const_defs]: "FrameClientProof = 4"
definition FrameComplete :: byte where [const_defs]: "FrameComplete = 5"
definition FrameProblem :: byte where [const_defs]: "FrameProblem = 6"

definition PurposeNewAuthor :: string where "PurposeNewAuthor = ''new-author''"
definition PurposeAddDevice :: string where "PurposeAddDevice = ''add-device''"
definition PurposeOfflineRecovery :: string where "PurposeOfflineRecovery = ''offline-recovery''"
definition PurposeOperatorRecovery :: string where "PurposeOperatorRecovery = ''operator-recovery''"

lemmas purpose_defs = PurposeNewAuthor_def PurposeAddDevice_def PurposeOfflineRecovery_def PurposeOperatorRecovery_def

record transcript =
  trSessionID :: string
  trServerID :: string
  trHostKeyFingerprint :: string
  trClientNonce :: bytes
  trServerNonce :: bytes
  trPublicKey :: string
  trDeviceFingerprint :: string
  trPurpose :: string
  trIdentifier :: string

record server_hello =
  shServerID :: string
  shHostKeyAlgorithm :: string
  shHostKeyFingerprint :: string
  shProductVersion :: string
  shProtocols :: "string list"

record client_hello =
  chTranscript :: transcript
  chDeviceName :: string
  chRecoverySalt :: bytes
  chRecoveryVerifier :: bytes

record proof_message =
  prSalt :: bytes
  prServerNonce :: bytes
  prMAC :: bytes

record complete =
  cmServerID :: string
  cmAuthorID :: string
  cmAuthorHandle :: string
  cmDeviceID :: string

record problem =
  pmCode :: string
  pmDetail :: string

datatype pair_error = PairInvalid | ProofMismatch | FrameTooLarge | PairIO

section \<open>Proofs\<close>

definition transcript_ok :: "transcript \<Rightarrow> bool" where
  "transcript_ok t \<longleftrightarrow>
    list_all (\<lambda>v. v \<noteq> '''' \<and> length v \<le> 4096)
      [trSessionID t, trServerID t, trHostKeyFingerprint t, trPublicKey t, trDeviceFingerprint t, trIdentifier t] \<and>
    16 \<le> length (trClientNonce t) \<and> length (trClientNonce t) \<le> 64 \<and> 16 \<le> length (trServerNonce t) \<and> length (trServerNonce t) \<le> 64 \<and>
    trPurpose t \<in> set [PurposeNewAuthor, PurposeAddDevice, PurposeOfflineRecovery, PurposeOperatorRecovery]"

record crypto =
  crSha :: "bytes \<Rightarrow> bytes"
  crHmac :: "bytes \<Rightarrow> bytes \<Rightarrow> bytes"
  crJson :: "transcript \<Rightarrow> bytes"

definition ProtocolName :: bytes where
  "ProtocolName = str ''plumtree-pair-v1''"

definition canonical :: "crypto \<Rightarrow> transcript \<Rightarrow> pair_error + bytes" where
  "canonical cr t = (if \<not> transcript_ok t then Inl PairInvalid else Inr (crJson cr t))"

definition DeriveKey :: "crypto \<Rightarrow> bytes \<Rightarrow> pair_error + bytes" where
  "DeriveKey cr secret =
    (if length secret < 16 \<or> length secret > MaxSecretSize then Inl PairInvalid else Inr (crSha cr (ProtocolName @ [0] @ secret)))"

definition DeriveVerifier :: "crypto \<Rightarrow> bytes \<Rightarrow> bytes \<Rightarrow> pair_error + bytes" where
  "DeriveVerifier cr salt secret =
    (if length salt = 0 \<or> length salt > 1024 \<or> length secret < 16 \<or> length secret > MaxSecretSize then Inl PairInvalid
     else Inr (crSha cr (salt @ secret)))"

definition proof_mac :: "crypto \<Rightarrow> bytes \<Rightarrow> transcript \<Rightarrow> string \<Rightarrow> pair_error + bytes" where
  "proof_mac cr secret t label =
    (case DeriveKey cr secret of
       Inl e \<Rightarrow> Inl e
     | Inr key \<Rightarrow> (case canonical cr t of
         Inl e \<Rightarrow> Inl e
       | Inr j \<Rightarrow> Inr (crHmac cr key (ProtocolName @ [0] @ str label @ [0] @ j))))"

definition ServerProof :: "crypto \<Rightarrow> bytes \<Rightarrow> transcript \<Rightarrow> pair_error + bytes" where
  "ServerProof cr secret t = proof_mac cr secret t ''server''"

definition ClientProof :: "crypto \<Rightarrow> bytes \<Rightarrow> transcript \<Rightarrow> pair_error + bytes" where
  "ClientProof cr secret t = proof_mac cr secret t ''client''"

definition VerifyServerProof :: "crypto \<Rightarrow> bytes \<Rightarrow> transcript \<Rightarrow> bytes \<Rightarrow> pair_error option" where
  "VerifyServerProof cr secret t received =
    (case ServerProof cr secret t of Inl e \<Rightarrow> Some e | Inr expected \<Rightarrow> if expected \<noteq> received then Some ProofMismatch else None)"

definition VerifyClientProof :: "crypto \<Rightarrow> bytes \<Rightarrow> transcript \<Rightarrow> bytes \<Rightarrow> pair_error option" where
  "VerifyClientProof cr secret t received =
    (case ClientProof cr secret t of Inl e \<Rightarrow> Some e | Inr expected \<Rightarrow> if expected \<noteq> received then Some ProofMismatch else None)"

lemma VerifyClientProof_None: "VerifyClientProof cr secret t received = None \<longleftrightarrow> ClientProof cr secret t = Inr received"
  by (auto simp: VerifyClientProof_def split: sum.split)

lemma VerifyServerProof_None: "VerifyServerProof cr secret t received = None \<longleftrightarrow> ServerProof cr secret t = Inr received"
  by (auto simp: VerifyServerProof_def split: sum.split)

lemma proofs_defined:
  assumes "transcript_ok t" "16 \<le> length secret" "length secret \<le> MaxSecretSize"
  obtains m where "proof_mac cr secret t label = Inr m"
  using assms by (simp add: proof_mac_def DeriveKey_def canonical_def)

section \<open>Frames\<close>

record pair_frame =
  pfType :: byte
  pfPayload :: bytes

text \<open>Four bytes with the length, the most significant one first.\<close>

definition be32 :: "u32 \<Rightarrow> bytes" where
  "be32 n = rev (put_u32 n)"

definition WriteFrame :: "writer \<Rightarrow> pair_frame \<Rightarrow> pair_error option \<times> writer" where
  "WriteFrame w frame =
    (if length (pfPayload frame) + 1 > MaxFrameSize then (Some FrameTooLarge, w)
     else case writeAll w (be32 (u32_of_len (length (pfPayload frame) + 1))) of
       (Some _, w') \<Rightarrow> (Some PairIO, w')
     | (None, w') \<Rightarrow> (case writeAll w' [pfType frame] of
         (Some _, w'') \<Rightarrow> (Some PairIO, w'')
       | (None, w'') \<Rightarrow> (case writeAll w'' (pfPayload frame) of (e, w3) \<Rightarrow> (map_option (\<lambda>_. PairIO) e, w3))))"

definition ReadFrame :: "bytes \<Rightarrow> (pair_error + pair_frame) \<times> bytes" where
  "ReadFrame s =
    (case readFull 4 s of
       (Inl _, s') \<Rightarrow> (Inl PairIO, s')
     | (Inr header, s') \<Rightarrow>
         let size = unat (le_word (rev header) :: u32) in
         if size < 1 \<or> size > MaxFrameSize then (Inl FrameTooLarge, s')
         else case readFull size s' of
           (Inl _, s'') \<Rightarrow> (Inl PairIO, s'')
         | (Inr payload, s'') \<Rightarrow> (Inr \<lparr>pfType = hd payload, pfPayload = tl payload\<rparr>, s''))"

text \<open>
  Every frame within the limit arrives unchanged whatever pieces the writer takes, and what follows it stays in the stream; no larger
  frame is written or accepted.
\<close>

lemma frame_crosses:
  assumes "progresses w" "length (pfPayload f) < MaxFrameSize"
  obtains w' b where "WriteFrame w f = (None, w')" "wrGot w' = wrGot w @ b" "progresses w'" "\<And>rest. ReadFrame (b @ rest) = (Inr f, rest)"
proof -
  define h where "h = be32 (u32_of_len (length (pfPayload f) + 1))"
  obtain w1 where w1: "writeAll w h = (None, w1)" "wrGot w1 = wrGot w @ h" "progresses w1"
    using writeAll_ok [OF assms(1)] by blast
  obtain w2 where w2: "writeAll w1 [pfType f] = (None, w2)" "wrGot w2 = wrGot w1 @ [pfType f]" "progresses w2"
    using writeAll_ok [OF w1(3)] by blast
  obtain w3 where w3: "writeAll w2 (pfPayload f) = (None, w3)" "wrGot w3 = wrGot w2 @ pfPayload f" "progresses w3"
    using writeAll_ok [OF w2(3)] by blast
  have size: "unat (le_word (rev h) :: u32) = length (pfPayload f) + 1"
  proof -
    have "le_word (rev h) = (of_nat (length (pfPayload f) + 1) :: u32)"
      by (simp add: h_def be32_def put_u32_def le_word_le_bytes take_bit_word_eq_self)
    then show ?thesis using assms(2) by (simp add: unat_of_nat MaxFrameSize_def del: of_nat_Suc of_nat_add)
  qed
  have "WriteFrame w f = (None, w3)" using assms(2) w1 w2 w3 by (simp add: WriteFrame_def h_def)
  moreover have "wrGot w3 = wrGot w @ h @ pfType f # pfPayload f" using w1 w2 w3 by simp
  moreover have "ReadFrame ((h @ pfType f # pfPayload f) @ rest) = (Inr f, rest)" for rest
  proof -
    have "length h = 4" by (simp add: h_def be32_def put_u32_def)
    then show ?thesis using size assms(2) by (simp add: ReadFrame_def readFull_def)
  qed
  ultimately show ?thesis using that w3(3) by blast
qed

lemma large_frame_refused: "length (pfPayload f) \<ge> MaxFrameSize \<Longrightarrow> WriteFrame w f = (Some FrameTooLarge, w)"
  by (simp add: WriteFrame_def)

lemma read_frame_bounded: "ReadFrame s = (Inr f, s') \<Longrightarrow> length (pfPayload f) < MaxFrameSize"
  by (auto simp: ReadFrame_def readFull_def Let_def split: if_splits prod.splits sum.splits)

end
