(* ===== verification/Identity_Service.thy ===== *)
theory Identity_Service
  imports Repo_Safety
begin

text \<open>
  The author service of \<^verbatim>\<open>internal/server/identity/service.go\<close>: the exposure gates, the secrets of authors and devices, and the
  operations of the repository behind them. The random source, the identifiers and base64 are parameters, and so is the clock of the
  service, which is not the one of the repository.
\<close>

section \<open>The service\<close>

datatype identity_error = ErrGateDisabled | ErrSecret | ErrRandom | ErrUnknownGate | ErrRepo repo_error

datatype gate = GateHTTP | GateSSH | GateGateway | OtherGate

record service_config =
  cfHTTP :: bool
  cfSSH :: bool
  cfGateway :: bool
  cfMaxApps :: int
  cfMaxDeployments :: int
  cfMaxSessions :: int

record service =
  svRepo :: repo_env
  svConfig :: service_config
  svNow :: gotime
  svID :: "string \<Rightarrow> string"
  svRandom :: "nat \<Rightarrow> bytes option"
  svBase64 :: "bytes \<Rightarrow> bytes"

definition requireGate :: "service \<Rightarrow> gate \<Rightarrow> identity_error option" where
  "requireGate s g =
    (case g of
       GateHTTP \<Rightarrow> if cfHTTP (svConfig s) then None else Some ErrGateDisabled
     | GateSSH \<Rightarrow> if cfSSH (svConfig s) then None else Some ErrGateDisabled
     | GateGateway \<Rightarrow> if cfGateway (svConfig s) then None else Some ErrGateDisabled
     | OtherGate \<Rightarrow> Some ErrUnknownGate)"

definition validateSecret :: "bytes \<Rightarrow> bool" where
  "validateSecret secret \<longleftrightarrow> \<not> (length secret < 16 \<or> length secret > 4096)"

definition deriveVerifier :: "service \<Rightarrow> bytes \<Rightarrow> bytes \<Rightarrow> bytes" where
  "deriveVerifier s salt secret = eSha (svRepo s) (salt @ secret)"

text \<open>An operation of the repository, seen by a caller of the service.\<close>

definition repo_call :: "(repo_error + 'a) \<times> db \<Rightarrow> (identity_error + 'a) \<times> db" where
  "repo_call r = (case r of (Inl e, d) \<Rightarrow> (Inl (ErrRepo e), d) | (Inr x, d) \<Rightarrow> (Inr x, d))"

definition gated :: "service \<Rightarrow> gate \<Rightarrow> (db \<Rightarrow> (identity_error + 'a) \<times> db) \<Rightarrow> db \<Rightarrow> (identity_error + 'a) \<times> db" where
  "gated s g run d = (case requireGate s g of Some e \<Rightarrow> (Inl e, d) | None \<Rightarrow> run d)"

definition with_salt :: "(repo_error + bytes) \<Rightarrow> (bytes \<Rightarrow> db \<Rightarrow> (identity_error + 'a) \<times> db) \<Rightarrow> db \<Rightarrow> (identity_error + 'a) \<times> db" where
  "with_salt salt run d = (case salt of Inl e \<Rightarrow> (Inl (ErrRepo e), d) | Inr b \<Rightarrow> run b d)"

section \<open>Authors\<close>

record register_input =
  giHandle :: string
  giDeviceName :: string
  giPublicKey :: string
  giFingerprint :: string
  giSecret :: bytes

definition registration_of :: "service \<Rightarrow> register_input \<Rightarrow> bytes \<Rightarrow> registration_input" where
  "registration_of s input salt =
    \<lparr>riAuthor = svID s ''author'', riHandle = giHandle input, riDevice = svID s ''device'', riDeviceName = giDeviceName input,
     riPublicKey = giPublicKey input, riFingerprint = giFingerprint input, riSalt = salt, riVerifier = deriveVerifier s salt (giSecret input),
     riCreated = svNow s,
     riQuota = Some \<lparr>qtAuthor = svID s ''author'', qtApps = cfMaxApps (svConfig s), qtDeployments = cfMaxDeployments (svConfig s), qtSecrets = 0,
       qtSessions = cfMaxSessions (svConfig s)\<rparr>\<rparr>"

definition registerAuthor :: "service \<Rightarrow> register_input \<Rightarrow> db \<Rightarrow> (identity_error + author \<times> device_row) \<times> db" where
  "registerAuthor s input d =
    (if \<not> validateSecret (giSecret input) then (Inl ErrSecret, d)
     else case svRandom s 16 of
       None \<Rightarrow> (Inl ErrRandom, d)
     | Some salt \<Rightarrow> repo_call (RegisterAuthor (svRepo s) (registration_of s input salt) d))"

definition serviceRegister :: "service \<Rightarrow> register_input \<Rightarrow> db \<Rightarrow> (identity_error + author \<times> device_row) \<times> db" where
  "serviceRegister s input d = gated s GateHTTP (registerAuthor s input) d"

definition serviceRotate :: "service \<Rightarrow> string \<Rightarrow> bytes \<Rightarrow> bytes \<Rightarrow> db \<Rightarrow> (identity_error + unit) \<times> db" where
  "serviceRotate s authorID currentSecret nextSecret d =
    (if \<not> validateSecret currentSecret then (Inl ErrSecret, d)
     else if \<not> validateSecret nextSecret then (Inl ErrSecret, d)
     else with_salt (RecoverySalt d authorID) (\<lambda>currentSalt d.
       case svRandom s 16 of
         None \<Rightarrow> (Inl ErrRandom, d)
       | Some salt \<Rightarrow> repo_call (RotateRecovery (svRepo s) authorID (deriveVerifier s currentSalt currentSecret) salt (deriveVerifier s salt nextSecret) d)) d)"

definition serviceRetire :: "service \<Rightarrow> string \<Rightarrow> bytes \<Rightarrow> gotime \<Rightarrow> db \<Rightarrow> (identity_error + unit) \<times> db" where
  "serviceRetire s authorID secret reserveUntil d =
    (if \<not> validateSecret secret then (Inl ErrSecret, d)
     else with_salt (RecoverySalt d authorID) (\<lambda>salt d.
       repo_call (RetireAuthor (svRepo s) authorID (deriveVerifier s salt secret) reserveUntil d)) d)"

definition serviceRetireLocal :: "service \<Rightarrow> string \<Rightarrow> gotime \<Rightarrow> db \<Rightarrow> (identity_error + unit) \<times> db" where
  "serviceRetireLocal s authorID reserveUntil d = repo_call (RetireAuthor (svRepo s) authorID [] reserveUntil d)"

section \<open>Devices\<close>

record enrollment_challenge =
  ecID :: string
  ecAuthor :: string
  ecDeviceName :: string
  ecSecret :: bytes
  ecExpires :: gotime

definition minutes15 :: int where "minutes15 = 15 * 60 * 1000000000"

definition token_of :: "service \<Rightarrow> string \<Rightarrow> string \<Rightarrow> string \<Rightarrow> bytes \<Rightarrow> bytes \<Rightarrow> token_input" where
  "token_of s authorID issuingDeviceID deviceName salt secret =
    \<lparr>tiId = svID s ''enroll'', tiAuthor = authorID, tiPurpose = ''add_device'', tiIssuedByKind = ''device'', tiIssuedByDevice = issuingDeviceID,
     tiDeviceName = deviceName, tiSalt = salt, tiVerifier = deriveVerifier s salt secret, tiExpires = svNow s + minutes15\<rparr>"

definition beginDeviceAddition :: "service \<Rightarrow> string \<Rightarrow> string \<Rightarrow> string \<Rightarrow> db \<Rightarrow> (identity_error + enrollment_challenge) \<times> db" where
  "beginDeviceAddition s authorID issuingDeviceID deviceName d =
    (case svRandom s 32 of
       None \<Rightarrow> (Inl ErrRandom, d)
     | Some rawSecret \<Rightarrow>
         let secret = svBase64 s rawSecret in
         case svRandom s 16 of
           None \<Rightarrow> (Inl ErrRandom, d)
         | Some salt \<Rightarrow> (case repo_call (CreateEnrollmentToken (svRepo s) (token_of s authorID issuingDeviceID deviceName salt secret) d) of
             (Inl e, d') \<Rightarrow> (Inl e, d')
           | (Inr token, d') \<Rightarrow>
               (Inr \<lparr>ecID = etId token, ecAuthor = etAuthor token, ecDeviceName = etDeviceName token, ecSecret = secret, ecExpires = svNow s + minutes15\<rparr>, d')))"

definition BeginDeviceAddition :: "service \<Rightarrow> string \<Rightarrow> string \<Rightarrow> string \<Rightarrow> db \<Rightarrow> (identity_error + enrollment_challenge) \<times> db" where
  "BeginDeviceAddition s authorID issuingDeviceID deviceName d = gated s GateSSH (beginDeviceAddition s authorID issuingDeviceID deviceName) d"

definition enrollment_of :: "service \<Rightarrow> string \<Rightarrow> bytes \<Rightarrow> bytes \<Rightarrow> string \<Rightarrow> string \<Rightarrow> enrollment_input" where
  "enrollment_of s tokenID salt secret publicKey fingerprint =
    \<lparr>eiToken = tokenID, eiDevice = svID s ''device'', eiPublicKey = publicKey, eiFingerprint = fingerprint, eiVerifier = deriveVerifier s salt secret\<rparr>"

definition CompleteDeviceAddition :: "service \<Rightarrow> string \<Rightarrow> bytes \<Rightarrow> string \<Rightarrow> string \<Rightarrow> db \<Rightarrow> (identity_error + device_row) \<times> db" where
  "CompleteDeviceAddition s tokenID secret publicKey fingerprint d = gated s GateSSH (\<lambda>d.
     if \<not> validateSecret secret then (Inl ErrSecret, d)
     else with_salt (EnrollmentSalt d tokenID) (\<lambda>salt d.
       repo_call (CompleteDeviceEnrollment (svRepo s) (enrollment_of s tokenID salt secret publicKey fingerprint) d)) d) d"

definition serviceRevoke :: "service \<Rightarrow> string \<Rightarrow> string \<Rightarrow> string \<Rightarrow> db \<Rightarrow> (identity_error + unit) \<times> db" where
  "serviceRevoke s authorID actor target d = gated s GateSSH (\<lambda>d. repo_call (RevokeDeviceAuthorized (svRepo s) authorID actor target d)) d"

definition RevokeDeviceByRecovery :: "service \<Rightarrow> string \<Rightarrow> bytes \<Rightarrow> string \<Rightarrow> db \<Rightarrow> (identity_error + unit) \<times> db" where
  "RevokeDeviceByRecovery s authorID secret target d =
    (if \<not> validateSecret secret then (Inl ErrSecret, d)
     else with_salt (RecoverySalt d authorID) (\<lambda>salt d.
       repo_call (RevokeDeviceWithRecovery (svRepo s) authorID (deriveVerifier s salt secret) target d)) d)"

section \<open>Apps\<close>

definition serviceCreateApp :: "service \<Rightarrow> string \<Rightarrow> string \<Rightarrow> string \<Rightarrow> string \<Rightarrow> string \<Rightarrow> string \<Rightarrow> db \<Rightarrow> (identity_error + app) \<times> db" where
  "serviceCreateApp s authorID actor appID name kind access d = gated s GateGateway (\<lambda>d.
     repo_call (CreateApp (svRepo s) \<lparr>inId = appID, inAuthor = authorID, inName = name, inKind = kind, inAccess = access, inDevice = actor, inCreated = svNow s\<rparr> d)) d"

definition serviceAddAccessKey :: "service \<Rightarrow> access_key \<Rightarrow> gotime \<Rightarrow> db \<Rightarrow> (identity_error + access_key) \<times> db" where
  "serviceAddAccessKey s key created d = gated s GateGateway (\<lambda>d. repo_call (AddAccessKey (svRepo s) key created d)) d"

definition serviceListAccessKeys :: "service \<Rightarrow> string \<Rightarrow> string \<Rightarrow> db \<Rightarrow> (identity_error + access_key list) \<times> db" where
  "serviceListAccessKeys s authorID appID d = gated s GateGateway (\<lambda>d. repo_call (ListAccessKeys d authorID appID, d)) d"

definition serviceRemoveAccessKey :: "service \<Rightarrow> string \<Rightarrow> string \<Rightarrow> string \<Rightarrow> string \<Rightarrow> db \<Rightarrow> (identity_error + unit) \<times> db" where
  "serviceRemoveAccessKey s authorID appID keyID actor d = gated s GateGateway (\<lambda>d. repo_call (RemoveAccessKey (svRepo s) authorID appID keyID actor d)) d"

text \<open>A deployment is created and then activated, in two transactions.\<close>

definition serviceDeploy :: "service \<Rightarrow> deployment \<Rightarrow> gotime \<Rightarrow> db \<Rightarrow> (identity_error + deployment) \<times> db" where
  "serviceDeploy s input created d = gated s GateGateway (\<lambda>d.
     case repo_call (CreateDeployment (svRepo s) input created d) of
       (Inl e, d') \<Rightarrow> (Inl e, d')
     | (Inr deployment, d') \<Rightarrow> (case repo_call (ActivateDeployment (svRepo s) (dpApp input) (dpId deployment) d') of
         (Inl e, d'') \<Rightarrow> (Inl e, d'')
       | (Inr _, d'') \<Rightarrow> (Inr deployment, d''))) d"

section \<open>Closed gates\<close>

lemma gate_closed: "requireGate s g = Some e \<Longrightarrow> gated s g run d = (Inl e, d)"
  by (simp add: gated_def)

lemma gate_closed_iff: "requireGate s g = Some e \<longleftrightarrow>
    e = (if g = OtherGate then ErrUnknownGate else ErrGateDisabled) \<and>
    (case g of GateHTTP \<Rightarrow> \<not> cfHTTP (svConfig s) | GateSSH \<Rightarrow> \<not> cfSSH (svConfig s) | GateGateway \<Rightarrow> \<not> cfGateway (svConfig s) | OtherGate \<Rightarrow> True)"
  by (cases g) (auto simp: requireGate_def)

text \<open>With a closed gate no operation behind it touches the database.\<close>

lemma closed_gates_change_nothing:
  "\<not> cfHTTP (svConfig s) \<Longrightarrow> serviceRegister s i d = (Inl ErrGateDisabled, d)"
  "\<not> cfSSH (svConfig s) \<Longrightarrow> BeginDeviceAddition s a v n d = (Inl ErrGateDisabled, d)"
  "\<not> cfSSH (svConfig s) \<Longrightarrow> CompleteDeviceAddition s t b k f d = (Inl ErrGateDisabled, d)"
  "\<not> cfSSH (svConfig s) \<Longrightarrow> serviceRevoke s a v w d = (Inl ErrGateDisabled, d)"
  "\<not> cfGateway (svConfig s) \<Longrightarrow> serviceCreateApp s a v p n x y d = (Inl ErrGateDisabled, d)"
  "\<not> cfGateway (svConfig s) \<Longrightarrow> serviceAddAccessKey s key c d = (Inl ErrGateDisabled, d)"
  "\<not> cfGateway (svConfig s) \<Longrightarrow> serviceRemoveAccessKey s a p k v d = (Inl ErrGateDisabled, d)"
  "\<not> cfGateway (svConfig s) \<Longrightarrow> serviceDeploy s dep c d = (Inl ErrGateDisabled, d)"
  by (simp_all add: serviceRegister_def BeginDeviceAddition_def CompleteDeviceAddition_def serviceRevoke_def serviceCreateApp_def
      serviceAddAccessKey_def serviceRemoveAccessKey_def serviceDeploy_def gate_closed gate_closed_iff)

section \<open>The recovery secret\<close>

definition knows_recovery :: "service \<Rightarrow> string \<Rightarrow> bytes \<Rightarrow> db \<Rightarrow> bool" where
  "knows_recovery s author secret d \<longleftrightarrow> 16 \<le> length secret \<and> length secret \<le> 4096 \<and>
    (\<exists>r. find (\<lambda>r. rcAuthor r = author) (recoveries d) = Some r \<and> eSha (svRepo s) (rcSalt r @ secret) = rcVerifier r)"

lemma repo_call_Inr: "repo_call r = (Inr x, d) \<longleftrightarrow> r = (Inr x, d)"
  by (auto simp: repo_call_def split: prod.splits sum.splits)

lemma with_salt_Inr: "with_salt salt run d = (Inr x, d') \<longleftrightarrow> (\<exists>b. salt = Inr b \<and> run b d = (Inr x, d'))"
  by (auto simp: with_salt_def split: sum.splits)

lemma RecoverySalt_Inr: "RecoverySalt d a = Inr b \<Longrightarrow> \<exists>r. find (\<lambda>r. rcAuthor r = a) (recoveries d) = Some r \<and> b = rcSalt r"
  by (auto simp: RecoverySalt_def split: if_splits option.splits)

text \<open>
  Rotating the recovery, retiring an author and revoking a device without a device succeed only with the recovery secret of the author.
  An empty verifier would be the operator's retirement, but a digest is never empty.
\<close>

lemma recovery_secret_required:
  "serviceRotate s a secret next' d = (Inr (), d') \<Longrightarrow> knows_recovery s a secret d"
  "(\<And>b. eSha (svRepo s) b \<noteq> []) \<Longrightarrow> serviceRetire s a secret until d = (Inr (), d') \<Longrightarrow> knows_recovery s a secret d"
  "RevokeDeviceByRecovery s a secret v d = (Inr (), d') \<Longrightarrow> knows_recovery s a secret d"
proof -
  assume "serviceRotate s a secret next' d = (Inr (), d')"
  then show "knows_recovery s a secret d"
    by (auto simp: serviceRotate_def with_salt_Inr repo_call_Inr RotateRecovery_def checked_Inr RotateRecovery_tx_def bytesEqual_iff deriveVerifier_def
        knows_recovery_def validateSecret_def repo_simps split: if_splits option.splits dest!: mutate_Inr RecoverySalt_Inr)
next
  assume n: "eSha (svRepo s) b \<noteq> []" for b
  assume "serviceRetire s a secret until d = (Inr (), d')"
  with n show "knows_recovery s a secret d"
    by (auto simp: serviceRetire_def with_salt_Inr repo_call_Inr RetireAuthor_def checked_Inr RetireAuthor_tx_def bytesEqual_iff deriveVerifier_def
        knows_recovery_def validateSecret_def repo_simps Let_def split: if_splits option.splits dest!: mutate_Inr RecoverySalt_Inr)
next
  assume "RevokeDeviceByRecovery s a secret v d = (Inr (), d')"
  then show "knows_recovery s a secret d"
    by (auto simp: RevokeDeviceByRecovery_def with_salt_Inr repo_call_Inr RevokeDeviceWithRecovery_def checked_Inr RevokeDeviceWithRecovery_tx_def bytesEqual_iff
        deriveVerifier_def knows_recovery_def validateSecret_def repo_simps Let_def split: if_splits option.splits dest!: mutate_Inr RecoverySalt_Inr)
qed

end
