(* ===== verification/Pair_Exchange.thy ===== *)
theory Pair_Exchange
  imports Pair_Proto Identity_Service
begin

text \<open>
  Pairing end to end: the server side of \<^verbatim>\<open>internal/server/pairing/handler.go\<close> and the client side of
  \<^verbatim>\<open>internal/cli/paired/pairing.go\<close>. A frame is what \<^theory_text>\<open>Pair_Proto\<close> brings over the channel. The JSON forms of the messages, the random
  source and the failures of the channel are parameters. Between two steps of a handler other sessions may change the database.
\<close>

section \<open>The server\<close>

text \<open>The encoders and decoders of the messages, the same on both sides.\<close>

record codec =
  cdServerHello :: "server_hello \<Rightarrow> bytes"
  cdProof :: "proof_message \<Rightarrow> bytes"
  cdComplete :: "complete \<Rightarrow> bytes"
  cdProblem :: "problem \<Rightarrow> bytes"
  cdClientHello :: "client_hello \<Rightarrow> bytes"
  cdReadHello :: "bytes \<Rightarrow> client_hello option"
  cdReadProof :: "bytes \<Rightarrow> proof_message option"
  cdReadComplete :: "bytes \<Rightarrow> complete option"

record handler =
  haServerID :: string
  haHostKeyAlgorithm :: string
  haHostKeyFingerprint :: string
  haProductVersion :: string
  haSessionID :: string
  haPublicKey :: string
  haFingerprint :: string

text \<open>
  What a handler takes from outside: the codec, the cryptography, the repository at the two moments it is used, the random nonce and
  identifiers, whether the \<open>n\<close>-th write to the channel succeeds, and the text of the first mismatch that a random iteration
  over the fields of a transcript meets.
\<close>

record pairing_env =
  pvCodec :: codec
  pvCrypto :: crypto
  pvRepo :: repo_env
  pvRepo2 :: repo_env
  pvNonce :: "bytes option"
  pvDeviceID :: "string option"
  pvAuthorID :: "string option"
  pvWrite :: "nat \<Rightarrow> bool"
  pvMismatch :: "transcript \<Rightarrow> string"

definition bound_to :: "handler \<Rightarrow> transcript \<Rightarrow> bool" where
  "bound_to h t \<longleftrightarrow> trSessionID t = haSessionID h \<and> trServerID t = haServerID h \<and> trHostKeyFingerprint t = haHostKeyFingerprint h \<and>
    trPublicKey t = haPublicKey h \<and> trDeviceFingerprint t = haFingerprint h"

definition validateTranscript :: "handler \<Rightarrow> transcript \<Rightarrow> bool" where
  "validateTranscript h t \<longleftrightarrow> transcript_ok t \<and> bound_to h t \<and> trServerNonce t = replicate (length (trServerNonce t)) 0"

text \<open>The credential that a hello asks for, with the handle and the device name of the completion.\<close>

definition credential :: "repo_env \<Rightarrow> client_hello \<Rightarrow> db \<Rightarrow> repo_error + pairing_credential \<times> string \<times> string" where
  "credential env hello d =
    (let t = chTranscript hello in
     if trPurpose t = PurposeNewAuthor then
       (case BootstrapAuthorityCredential env d (trIdentifier t) of
          Inl e \<Rightarrow> Inl e
        | Inr b \<Rightarrow>
            if chRecoverySalt hello = [] \<or> chRecoveryVerifier hello = [] then Inl ErrInvalid
            else Inr (\<lparr>pcAuthor = '''', pcHandle = '''', pcDeviceName = '''', pcSalt = baSalt b, pcVerifier = baVerifier b, pcGeneration = 0\<rparr>, baHandle b, baDeviceName b))
     else if trPurpose t = PurposeAddDevice then
       (case EnrollmentCredential env d (trIdentifier t) of Inl e \<Rightarrow> Inl e | Inr c \<Rightarrow> Inr (c, '''', pcDeviceName c))
     else if trPurpose t = PurposeOfflineRecovery then
       (if TrimSpace (chDeviceName hello) = '''' \<or> chRecoverySalt hello = [] \<or> chRecoveryVerifier hello = [] then Inl ErrInvalid
        else case RecoveryCredential env d (trIdentifier t) of Inl e \<Rightarrow> Inl e | Inr c \<Rightarrow> Inr (c, pcHandle c, chDeviceName hello))
     else Inl ErrInvalid)"

datatype complete_error = RandomFailed | RepoFailed repo_error

definition complete_pairing ::
  "pairing_env \<Rightarrow> handler \<Rightarrow> client_hello \<Rightarrow> pairing_credential \<Rightarrow> string \<Rightarrow> string \<Rightarrow> db \<Rightarrow> (complete_error + complete) \<times> db" where
  "complete_pairing pv h hello cred handle deviceName d =
    (let t = chTranscript hello; env = pvRepo2 pv in
     case pvDeviceID pv of
       None \<Rightarrow> (Inl RandomFailed, d)
     | Some deviceID \<Rightarrow>
       if trPurpose t = PurposeNewAuthor then
         (case pvAuthorID pv of
            None \<Rightarrow> (Inl RandomFailed, d)
          | Some authorID \<Rightarrow>
              (case CompleteBootstrapRegistration env (trIdentifier t) (pcVerifier cred)
                 \<lparr>riAuthor = authorID, riHandle = handle, riDevice = deviceID, riDeviceName = deviceName, riPublicKey = trPublicKey t,
                  riFingerprint = trDeviceFingerprint t, riSalt = chRecoverySalt hello, riVerifier = chRecoveryVerifier hello,
                  riCreated = zeroTime, riQuota = None\<rparr> d of
                 (Inl e, d') \<Rightarrow> (Inl (RepoFailed e), d')
               | (Inr (author, device), d') \<Rightarrow>
                   (Inr \<lparr>cmServerID = haServerID h, cmAuthorID = auId author, cmAuthorHandle = auHandle author, cmDeviceID = dvId device\<rparr>, d')))
       else if trPurpose t = PurposeAddDevice then
         (case CompleteDeviceEnrollment env
            \<lparr>eiToken = trIdentifier t, eiDevice = deviceID, eiPublicKey = trPublicKey t, eiFingerprint = trDeviceFingerprint t, eiVerifier = pcVerifier cred\<rparr> d of
            (Inl e, d') \<Rightarrow> (Inl (RepoFailed e), d')
          | (Inr device, d') \<Rightarrow> (case getAuthor d' (dvAuthor device) of
              Inl e \<Rightarrow> (Inl (RepoFailed e), d')
            | Inr author \<Rightarrow>
                (Inr \<lparr>cmServerID = haServerID h, cmAuthorID = auId author, cmAuthorHandle = auHandle author, cmDeviceID = dvId device\<rparr>, d')))
       else if trPurpose t = PurposeOfflineRecovery then
         (case CompleteRecovery env
            \<lparr>cvAuthor = pcAuthor cred, cvDevice = deviceID, cvDeviceName = deviceName, cvPublicKey = trPublicKey t, cvFingerprint = trDeviceFingerprint t,
             cvCurrent = pcVerifier cred, cvNextSalt = chRecoverySalt hello, cvNextVerifier = chRecoveryVerifier hello, cvRevokeOld = True\<rparr> d of
            (Inl e, d') \<Rightarrow> (Inl (RepoFailed e), d')
          | (Inr device, d') \<Rightarrow>
              (Inr \<lparr>cmServerID = haServerID h, cmAuthorID = pcAuthor cred, cmAuthorHandle = handle, cmDeviceID = dvId device\<rparr>, d'))
       else (Inl (RepoFailed ErrInvalid), d))"

definition problemCode :: "repo_error option \<Rightarrow> string" where
  "problemCode e =
    (case e of
       Some repo_error.ErrNotFound \<Rightarrow> ''pairing_not_found''
     | Some repo_error.ErrConflict \<Rightarrow> ''pairing_conflict''
     | Some ErrSuspended \<Rightarrow> ''pairing_suspended''
     | _ \<Rightarrow> ''pairing_rejected'')"

definition complete_code :: "complete_error \<Rightarrow> string" where
  "complete_code e = problemCode (case e of RandomFailed \<Rightarrow> None | RepoFailed r \<Rightarrow> Some r)"

text \<open>
  One write of a handler after the frames \<open>sent\<close>: a frame above the limit is not sent. The result says whether the write succeeded.
\<close>

definition send :: "pairing_env \<Rightarrow> pair_frame list \<Rightarrow> byte \<Rightarrow> bytes \<Rightarrow> bool \<times> pair_frame list" where
  "send pv sent typ payload =
    (if length payload + 1 > MaxFrameSize then (False, sent)
     else if \<not> pvWrite pv (length sent) then (False, sent)
     else (True, sent @ [\<lparr>pfType = typ, pfPayload = payload\<rparr>]))"

definition problem :: "pairing_env \<Rightarrow> pair_frame list \<Rightarrow> string \<Rightarrow> string \<Rightarrow> db \<Rightarrow> bool \<times> pair_frame list \<times> db" where
  "problem pv sent code detail d =
    (case send pv sent FrameProblem (cdProblem (pvCodec pv) \<lparr>pmCode = code, pmDetail = detail\<rparr>) of (ok, sent') \<Rightarrow> (ok, sent', d))"

text \<open>
  The handler in two parts. \<open>client\<close> is the other side: the frame it sends after the frames it got, or nothing when reading fails.
  \<open>meanwhile\<close> is what other sessions do to the database between the challenge and the completion. The result has whether the handler
  ended without an error, the frames it sent and the database.
\<close>

definition serve_proof ::
  "pairing_env \<Rightarrow> handler \<Rightarrow> (pair_frame list \<Rightarrow> pair_frame option) \<Rightarrow> client_hello \<Rightarrow> pairing_credential \<Rightarrow> string \<Rightarrow> string \<Rightarrow> bytes \<Rightarrow>
   pair_frame list \<Rightarrow> db \<Rightarrow> bool \<times> pair_frame list \<times> db" where
  "serve_proof pv h client hello cred handle deviceName nonce sent d =
    (let cd = pvCodec pv; transcript = (chTranscript hello)\<lparr>trServerNonce := nonce\<rparr> in
     case ServerProof (pvCrypto pv) (pcVerifier cred) transcript of
       Inl _ \<Rightarrow> problem pv sent ''invalid_request'' ''pairing transcript is invalid'' d
     | Inr mac \<Rightarrow>
         (case send pv sent FrameServerProof (cdProof cd \<lparr>prSalt = pcSalt cred, prServerNonce = nonce, prMAC = mac\<rparr>) of
            (False, sent) \<Rightarrow> (False, sent, d)
          | (True, sent) \<Rightarrow> (case client sent of
              None \<Rightarrow> (False, sent, d)
            | Some frame \<Rightarrow>
                if pfType frame \<noteq> FrameClientProof then problem pv sent ''invalid_frame'' ''expected client proof'' d
                else case cdReadProof cd (pfPayload frame) of
                  None \<Rightarrow> problem pv sent ''proof_mismatch'' ''pairing proof was rejected'' d
                | Some reply \<Rightarrow>
                    if VerifyClientProof (pvCrypto pv) (pcVerifier cred) transcript (prMAC reply) \<noteq> None
                    then problem pv sent ''proof_mismatch'' ''pairing proof was rejected'' d
                    else (case complete_pairing pv h hello cred handle deviceName d of
                        (Inl e, d') \<Rightarrow> problem pv sent (complete_code e) ''pairing could not be completed'' d'
                      | (Inr cm, d') \<Rightarrow> (case send pv sent FrameComplete (cdComplete cd cm) of (ok, sent) \<Rightarrow> (ok, sent, d'))))))"

definition hello_of :: "handler \<Rightarrow> server_hello" where
  "hello_of h = \<lparr>shServerID = haServerID h, shHostKeyAlgorithm = haHostKeyAlgorithm h, shHostKeyFingerprint = haHostKeyFingerprint h,
     shProductVersion = haProductVersion h, shProtocols = [''plumtree-pair-v1'', ''plumtree-control-v1'']\<rparr>"

definition Serve :: "pairing_env \<Rightarrow> handler \<Rightarrow> (pair_frame list \<Rightarrow> pair_frame option) \<Rightarrow> (db \<Rightarrow> db) \<Rightarrow> db \<Rightarrow> bool \<times> pair_frame list \<times> db" where
  "Serve pv h client meanwhile d =
    (if haServerID h = '''' \<or> haSessionID h = '''' \<or> haPublicKey h = '''' \<or> haFingerprint h = '''' then (False, [], meanwhile d)
     else case send pv [] FrameServerHello (cdServerHello (pvCodec pv) (hello_of h)) of
       (False, sent) \<Rightarrow> (False, sent, meanwhile d)
     | (True, sent) \<Rightarrow> (case client sent of
         None \<Rightarrow> (False, sent, meanwhile d)
       | Some frame \<Rightarrow>
         if pfType frame \<noteq> FrameClientHello then problem pv sent ''invalid_frame'' ''expected client hello'' (meanwhile d)
         else case cdReadHello (pvCodec pv) (pfPayload frame) of
           None \<Rightarrow> problem pv sent ''invalid_request'' ''client hello is invalid'' (meanwhile d)
         | Some hello \<Rightarrow>
           if \<not> validateTranscript h (chTranscript hello) then
             problem pv sent ''transcript_mismatch'' (''pairing transcript does not match this SSH session: '' @ pvMismatch pv (chTranscript hello)) (meanwhile d)
           else case credential (pvRepo pv) hello d of
             Inl e \<Rightarrow> problem pv sent (problemCode (Some e)) ''pairing authority is not available'' (meanwhile d)
           | Inr (cred, handle, deviceName) \<Rightarrow> (case pvNonce pv of
               None \<Rightarrow> (False, sent, meanwhile d)
             | Some nonce \<Rightarrow> serve_proof pv h client hello cred handle deviceName nonce sent (meanwhile d))))"

section \<open>The client\<close>

record exchange_options =
  xoDeviceName :: string
  xoRecoverySecret :: bytes

text \<open>
  The steps of the exchange between its readings: the hello, the proof that answers the proof of the server, and the result.
  \<open>salt\<close> is the fresh recovery salt.
\<close>

datatype exchange_error = ErrPairing | ErrPairingFrame

definition exchange_hello :: "codec \<Rightarrow> crypto \<Rightarrow> bytes option \<Rightarrow> exchange_options \<Rightarrow> transcript \<Rightarrow> exchange_error + client_hello" where
  "exchange_hello cd cr salt opts t =
    (if \<not> transcript_ok t then Inl ErrPairing
     else if trPurpose t \<in> {PurposeNewAuthor, PurposeOfflineRecovery, PurposeOperatorRecovery} then
       (if length (xoRecoverySecret opts) < 16 then Inl ErrPairing
        else case salt of
          None \<Rightarrow> Inl ErrPairing
        | Some b \<Rightarrow> (case DeriveVerifier cr b (xoRecoverySecret opts) of
            Inl _ \<Rightarrow> Inl ErrPairing
          | Inr v \<Rightarrow> Inr \<lparr>chTranscript = t, chDeviceName = xoDeviceName opts, chRecoverySalt = b, chRecoveryVerifier = v\<rparr>))
     else Inr \<lparr>chTranscript = t, chDeviceName = xoDeviceName opts, chRecoverySalt = [], chRecoveryVerifier = []\<rparr>)"

definition exchange_proof :: "codec \<Rightarrow> crypto \<Rightarrow> bytes \<Rightarrow> transcript \<Rightarrow> pair_frame \<Rightarrow> exchange_error + bytes" where
  "exchange_proof cd cr secret t frame =
    (if pfType frame = FrameProblem then Inl ErrPairing
     else if pfType frame \<noteq> FrameServerProof then Inl ErrPairingFrame
     else case cdReadProof cd (pfPayload frame) of
       None \<Rightarrow> Inl ErrPairingFrame
     | Some p \<Rightarrow>
         if length (prServerNonce p) < 16 \<or> length (prServerNonce p) > 64 then Inl ErrPairingFrame
         else let t = t\<lparr>trServerNonce := prServerNonce p\<rparr> in
           if \<not> transcript_ok t then Inl ErrPairing
           else case DeriveVerifier cr (prSalt p) secret of
             Inl _ \<Rightarrow> Inl ErrPairing
           | Inr verifier \<Rightarrow>
               if VerifyServerProof cr verifier t (prMAC p) \<noteq> None then Inl ErrPairing
               else case ClientProof cr verifier t of Inl _ \<Rightarrow> Inl ErrPairing | Inr mac \<Rightarrow> Inr mac)"

definition exchange_result :: "codec \<Rightarrow> pair_frame \<Rightarrow> exchange_error + complete" where
  "exchange_result cd frame =
    (if pfType frame = FrameProblem then Inl ErrPairing
     else if pfType frame \<noteq> FrameComplete then Inl ErrPairingFrame
     else case cdReadComplete cd (pfPayload frame) of
       None \<Rightarrow> Inl ErrPairingFrame
     | Some r \<Rightarrow> if cmServerID r = '''' \<or> cmDeviceID r = '''' then Inl ErrPairing else Inr r)"

text \<open>
  The whole exchange against a server: \<open>server\<close> gives the frame that is read after the frames the client sent, \<open>wr\<close> says whether
  a write succeeds. The result has the frames that were sent.
\<close>

definition ExchangePairing ::
  "codec \<Rightarrow> crypto \<Rightarrow> bytes option \<Rightarrow> (nat \<Rightarrow> bool) \<Rightarrow> transcript \<Rightarrow> bytes \<Rightarrow> exchange_options \<Rightarrow> (pair_frame list \<Rightarrow> pair_frame option) \<Rightarrow>
   (exchange_error + complete) \<times> pair_frame list" where
  "ExchangePairing cd cr salt wr t secret opts server =
    (case exchange_hello cd cr salt opts t of
       Inl e \<Rightarrow> (Inl e, [])
     | Inr hello \<Rightarrow>
         let f1 = \<lparr>pfType = FrameClientHello, pfPayload = cdClientHello cd hello\<rparr> in
         if length (pfPayload f1) + 1 > MaxFrameSize \<or> \<not> wr 0 then (Inl ErrPairing, [])
         else case server [f1] of
           None \<Rightarrow> (Inl ErrPairing, [f1])
         | Some frame \<Rightarrow> (case exchange_proof cd cr secret t frame of
             Inl e \<Rightarrow> (Inl e, [f1])
           | Inr mac \<Rightarrow>
               let f2 = \<lparr>pfType = FrameClientProof, pfPayload = cdProof cd \<lparr>prSalt = [], prServerNonce = [], prMAC = mac\<rparr>\<rparr> in
               if length (pfPayload f2) + 1 > MaxFrameSize \<or> \<not> wr 1 then (Inl ErrPairing, [f1])
               else case server [f1, f2] of
                 None \<Rightarrow> (Inl ErrPairing, [f1, f2])
               | Some frame \<Rightarrow> (exchange_result cd frame, [f1, f2])))"

section \<open>What a completion adds\<close>

definition adds_only :: "string \<Rightarrow> string \<Rightarrow> db \<Rightarrow> db \<Rightarrow> bool" where
  "adds_only key fp d d' \<longleftrightarrow> (\<forall>v \<in> set (devices d'). dvId v \<notin> dvId ` set (devices d) \<longrightarrow> dvPublicKey v = key \<and> dvFingerprint v = fp)"

lemma adds_only_refl [simp]: "adds_only key fp d d"
  by (simp add: adds_only_def)

lemma adds_only_same: "devices d' = devices d \<Longrightarrow> adds_only key fp d d'"
  by (simp add: adds_only_def)

lemma adds_only_append: "devices d' = devices d @ [v] \<Longrightarrow> dvPublicKey v = key \<Longrightarrow> dvFingerprint v = fp \<Longrightarrow> adds_only key fp d d'"
  by (auto simp: adds_only_def)

lemma audit_devices: "audit env e d = Inr d' \<Longrightarrow> devices d' = devices d"
  by (auto dest: audit_Inr)

lemma enroll_adds: "adds_only (eiPublicKey i) (eiFingerprint i) d (snd (CompleteDeviceEnrollment env i d))"
  unfolding CompleteDeviceEnrollment_def
proof (rule checked_inv, simp, simp only: snd_verification, rule mutate_inv, simp)
  fix x d'
  assume "CompleteDeviceEnrollment_tx env i d = Inr (x, d')"
  then show "adds_only (eiPublicKey i) (eiFingerprint i) d d'"
    by (auto simp: CompleteDeviceEnrollment_tx_def Let_def repo_simps update_token_def new_device_def split: option.splits if_splits
        dest!: audit_devices intro: adds_only_append adds_only_same)
qed

lemma recover_adds: "adds_only (cvPublicKey i) (cvFingerprint i) d (snd (CompleteRecovery env i d))"
  unfolding CompleteRecovery_def
proof (rule checked_inv, simp, rule mutate_inv, simp)
  fix x d'
  assume t: "CompleteRecovery_tx env i d = Inr (x, d')"
  let ?v = "new_device (cvDevice i) (cvAuthor i) (cvDeviceName i) (cvPublicKey i) (cvFingerprint i) (UnixNano (eNow env))"
  have "devices d' = devices d @ [?v] \<or>
      devices d' = update_rows (\<lambda>v. (dvAuthor v = cvAuthor i \<and> dvId v \<noteq> cvDevice i) \<and> dvRevoked v = None)
        (\<lambda>v. v\<lparr>dvRevoked := Some (UnixNano (eNow env)), dvRevokedByKind := Some ''recovery'', dvRevokedById := Some (cvAuthor i)\<rparr>) (devices d @ [?v])"
    using t by (auto simp: CompleteRecovery_tx_def Let_def repo_simps rotate_def revoke_def split: option.splits if_splits dest!: audit_devices)
  then show "adds_only (cvPublicKey i) (cvFingerprint i) d d'"
    by (auto simp: adds_only_def new_device_def update_rows_def split: if_splits)
qed

lemma bootstrap_adds: "adds_only (riPublicKey i) (riFingerprint i) d (snd (CompleteBootstrapRegistration env b v i d))"
  unfolding CompleteBootstrapRegistration_def
proof (rule checked_inv, simp, simp only: snd_verification, rule mutate_inv, simp)
  fix x d'
  assume t: "CompleteBootstrapRegistration_tx env b v i d = Inr (x, d')"
  have "devices d' = devices d @ [registered_device i (UnixNano (eNow env))]" if "registration_rows False i (UnixNano (eNow env)) d = Inr d1"
    "audit env e (update_authority b f d1) = Inr d'" for d1 e f
    using that(2) by (auto simp: update_authority_def dest!: audit_devices intro: registration_effect [OF that(1)])
  with t show "adds_only (riPublicKey i) (riFingerprint i) d d'"
    by (auto simp: CompleteBootstrapRegistration_tx_def Let_def repo_simps update_authority_def registered_device_def new_device_def
        split: option.splits if_splits intro: adds_only_append adds_only_same)
qed

lemma complete_adds:
  "adds_only (trPublicKey (chTranscript hello)) (trDeviceFingerprint (chTranscript hello)) d (snd (complete_pairing pv h hello cred handle name d))"
proof (cases "pvDeviceID pv")
  case None
  then show ?thesis by (simp add: complete_pairing_def Let_def)
next
  case (Some i)
  let ?t = "chTranscript hello"
  consider (author) "trPurpose ?t = PurposeNewAuthor" | (device) "trPurpose ?t = PurposeAddDevice" | (recovery) "trPurpose ?t = PurposeOfflineRecovery"
    | (other) "trPurpose ?t \<noteq> PurposeNewAuthor" "trPurpose ?t \<noteq> PurposeAddDevice" "trPurpose ?t \<noteq> PurposeOfflineRecovery" by blast
  then show ?thesis
  proof cases
    case author
    show ?thesis
    proof (cases "pvAuthorID pv")
      case None
      with author Some show ?thesis by (simp add: complete_pairing_def Let_def)
    next
      case (Some a)
      show ?thesis
        using bootstrap_adds [of "\<lparr>riAuthor = a, riHandle = handle, riDevice = i, riDeviceName = name, riPublicKey = trPublicKey ?t,
                  riFingerprint = trDeviceFingerprint ?t, riSalt = chRecoverySalt hello, riVerifier = chRecoveryVerifier hello,
                  riCreated = zeroTime, riQuota = None\<rparr>" d "pvRepo2 pv" "trIdentifier ?t" "pcVerifier cred"]
          author Some \<open>pvDeviceID pv = _\<close> by (auto simp: complete_pairing_def Let_def split: prod.split sum.split)
    qed
  next
    case device
    then show ?thesis
      using enroll_adds [of "\<lparr>eiToken = trIdentifier ?t, eiDevice = i, eiPublicKey = trPublicKey ?t, eiFingerprint = trDeviceFingerprint ?t, eiVerifier = pcVerifier cred\<rparr>"
          d "pvRepo2 pv"] Some
      by (auto simp: complete_pairing_def Let_def purpose_defs split: prod.split sum.split)
  next
    case recovery
    then show ?thesis
      using recover_adds [of "\<lparr>cvAuthor = pcAuthor cred, cvDevice = i, cvDeviceName = name, cvPublicKey = trPublicKey ?t, cvFingerprint = trDeviceFingerprint ?t,
             cvCurrent = pcVerifier cred, cvNextSalt = chRecoverySalt hello, cvNextVerifier = chRecoveryVerifier hello, cvRevokeOld = True\<rparr>" d "pvRepo2 pv"] Some
      by (auto simp: complete_pairing_def Let_def purpose_defs split: prod.split sum.split)
  next
    case other
    with Some show ?thesis by (simp add: complete_pairing_def Let_def)
  qed
qed

section \<open>A pairing needs the phrase\<close>

lemma snd_problem [simp]: "snd (snd (problem pv sent code detail d)) = d"
  by (simp add: problem_def split: prod.split)

text \<open>What a client must have sent before a handler completes a pairing.\<close>

definition proved :: "pairing_env \<Rightarrow> handler \<Rightarrow> client_hello \<Rightarrow> pairing_credential \<Rightarrow> bytes \<Rightarrow> bytes \<Rightarrow> bool" where
  "proved pv h hello cred nonce mac \<longleftrightarrow>
    transcript_ok (chTranscript hello) \<and> bound_to h (chTranscript hello) \<and>
    ClientProof (pvCrypto pv) (pcVerifier cred) ((chTranscript hello)\<lparr>trServerNonce := nonce\<rparr>) = Inr mac"

lemma serve_proof_changes:
  assumes "snd (snd (serve_proof pv h client hello cred handle name nonce sent d)) \<noteq> d"
  obtains sent' frame reply where "client sent' = Some frame" "pfType frame = FrameClientProof" "cdReadProof (pvCodec pv) (pfPayload frame) = Some reply"
    "ClientProof (pvCrypto pv) (pcVerifier cred) ((chTranscript hello)\<lparr>trServerNonce := nonce\<rparr>) = Inr (prMAC reply)"
    "snd (snd (serve_proof pv h client hello cred handle name nonce sent d)) = snd (complete_pairing pv h hello cred handle name d)"
  using assms
  by (auto simp: serve_proof_def Let_def VerifyClientProof_None split: sum.splits prod.splits option.splits if_splits bool.splits)

text \<open>
  C34: No pairing without the phrase. Whatever a client sends and whatever other sessions do meanwhile, a pairing handler changes the
  database only after the client sent a hello whose transcript names this SSH session, this server and its host key and the key this
  connection was authenticated with, and then a proof that is the MAC of that transcript with the nonce the server drew for this
  connection, under the key of the credential that the repository held for the requested purpose and identifier. Every device that is
  added then carries the key of this connection.
\<close>

theorem pairing_needs_proof:
  assumes "snd (snd (Serve pv h client meanwhile d)) \<noteq> meanwhile d"
  shows "\<exists>sent1 f1 hello cred handle name nonce sent2 f2 reply.
    client sent1 = Some f1 \<and> pfType f1 = FrameClientHello \<and> cdReadHello (pvCodec pv) (pfPayload f1) = Some hello \<and>
    credential (pvRepo pv) hello d = Inr (cred, handle, name) \<and> pvNonce pv = Some nonce \<and>
    client sent2 = Some f2 \<and> pfType f2 = FrameClientProof \<and> cdReadProof (pvCodec pv) (pfPayload f2) = Some reply \<and>
    proved pv h hello cred nonce (prMAC reply) \<and>
    adds_only (haPublicKey h) (haFingerprint h) (meanwhile d) (snd (snd (Serve pv h client meanwhile d)))"
proof -
  obtain sent1 f1 hello cred handle name nonce where 1:
    "client sent1 = Some f1" "pfType f1 = FrameClientHello" "cdReadHello (pvCodec pv) (pfPayload f1) = Some hello"
    "validateTranscript h (chTranscript hello)" "credential (pvRepo pv) hello d = Inr (cred, handle, name)" "pvNonce pv = Some nonce"
    "snd (snd (Serve pv h client meanwhile d)) = snd (snd (serve_proof pv h client hello cred handle name nonce sent1 (meanwhile d)))"
    using assms by (auto simp: Serve_def split: sum.splits prod.splits option.splits if_splits bool.splits)
  obtain sent2 f2 reply where 2: "client sent2 = Some f2" "pfType f2 = FrameClientProof" "cdReadProof (pvCodec pv) (pfPayload f2) = Some reply"
    "ClientProof (pvCrypto pv) (pcVerifier cred) ((chTranscript hello)\<lparr>trServerNonce := nonce\<rparr>) = Inr (prMAC reply)"
    "snd (snd (Serve pv h client meanwhile d)) = snd (complete_pairing pv h hello cred handle name (meanwhile d))"
    using serve_proof_changes assms 1(7) by metis
  have b: "proved pv h hello cred nonce (prMAC reply)" "trPublicKey (chTranscript hello) = haPublicKey h" "trDeviceFingerprint (chTranscript hello) = haFingerprint h"
    using 1(4) 2(4) by (simp_all add: proved_def validateTranscript_def bound_to_def)
  show ?thesis using 1 2 b complete_adds [of hello "meanwhile d" pv h cred handle name] by (intro exI conjI) simp_all
qed

section \<open>Two honest sides\<close>

text \<open>The client as the handler sees it, and the frames that the handler sends when everything is right.\<close>

definition client_frames :: "codec \<Rightarrow> crypto \<Rightarrow> bytes option \<Rightarrow> transcript \<Rightarrow> bytes \<Rightarrow> exchange_options \<Rightarrow> pair_frame list \<Rightarrow> pair_frame option" where
  "client_frames cd cr salt t secret opts got =
    (if length got = 1 then
       (case exchange_hello cd cr salt opts t of Inl _ \<Rightarrow> None | Inr hello \<Rightarrow> Some \<lparr>pfType = FrameClientHello, pfPayload = cdClientHello cd hello\<rparr>)
     else if length got = 2 then
       (case exchange_proof cd cr secret t (got ! 1) of
          Inl _ \<Rightarrow> None
        | Inr mac \<Rightarrow> Some \<lparr>pfType = FrameClientProof, pfPayload = cdProof cd \<lparr>prSalt = [], prServerNonce = [], prMAC = mac\<rparr>\<rparr>)
     else None)"

text \<open>What the codec has to do for a pairing: bring its messages through, in frames within the limit.\<close>

definition carries :: "codec \<Rightarrow> server_hello \<Rightarrow> client_hello \<Rightarrow> proof_message list \<Rightarrow> complete \<Rightarrow> bool" where
  "carries cd sh ch ps cm \<longleftrightarrow>
    length (cdServerHello cd sh) < MaxFrameSize \<and>
    cdReadHello cd (cdClientHello cd ch) = Some ch \<and> length (cdClientHello cd ch) < MaxFrameSize \<and>
    list_all (\<lambda>p. cdReadProof cd (cdProof cd p) = Some p \<and> length (cdProof cd p) < MaxFrameSize) ps \<and>
    cdReadComplete cd (cdComplete cd cm) = Some cm \<and> length (cdComplete cd cm) < MaxFrameSize"

lemma send_ok: "length b < MaxFrameSize \<Longrightarrow> pvWrite pv (length sent) \<Longrightarrow> send pv sent typ b = (True, sent @ [\<lparr>pfType = typ, pfPayload = b\<rparr>])"
  by (simp add: send_def)

lemma honest_pairing:
  assumes pv: "pvCodec pv = cd" "pvCrypto pv = cr" "\<forall>n. pvWrite pv n" "pvNonce pv = Some nonce" "length nonce = 32"
    and h: "validateTranscript h t"
    and hello: "exchange_hello cd cr salt opts t = Inr ch"
    and cred: "credential (pvRepo pv) ch d = Inr (cred, handle, name)" "DeriveVerifier cr (pcSalt cred) secret = Inr (pcVerifier cred)"
    and macs: "ServerProof cr (pcVerifier cred) (t\<lparr>trServerNonce := nonce\<rparr>) = Inr smac" "ClientProof cr (pcVerifier cred) (t\<lparr>trServerNonce := nonce\<rparr>) = Inr cmac"
    and fin: "complete_pairing pv h ch cred handle name (meanwhile d) = (Inr cm, d')" "cmServerID cm \<noteq> ''''" "cmDeviceID cm \<noteq> ''''"
    and cd: "carries cd (hello_of h) ch [\<lparr>prSalt = pcSalt cred, prServerNonce = nonce, prMAC = smac\<rparr>, \<lparr>prSalt = [], prServerNonce = [], prMAC = cmac\<rparr>] cm"
  defines "fs \<equiv> \<lparr>pfType = FrameServerHello, pfPayload = cdServerHello cd (hello_of h)\<rparr>"
    and "fp \<equiv> \<lparr>pfType = FrameServerProof, pfPayload = cdProof cd \<lparr>prSalt = pcSalt cred, prServerNonce = nonce, prMAC = smac\<rparr>\<rparr>"
    and "fc \<equiv> \<lparr>pfType = FrameComplete, pfPayload = cdComplete cd cm\<rparr>"
  shows "Serve pv h (client_frames cd cr salt t secret opts) meanwhile d = (True, [fs, fp, fc], d')"
    and "fst (ExchangePairing cd cr salt (\<lambda>_. True) t secret opts (\<lambda>sent. Some ([fs, fp, fc] ! length sent))) = Inr cm"
proof -
  let ?t = "t\<lparr>trServerNonce := nonce\<rparr>"
  have ct: "chTranscript ch = t" using hello by (auto simp: exchange_hello_def split: if_splits option.splits sum.splits)
  have ids: "haServerID h \<noteq> ''''" "haSessionID h \<noteq> ''''" "haPublicKey h \<noteq> ''''" "haFingerprint h \<noteq> ''''"
    using h by (auto simp: validateTranscript_def transcript_ok_def bound_to_def)
  have ok: "transcript_ok ?t" using h pv(5) by (auto simp: validateTranscript_def transcript_ok_def)
  have proof1: "exchange_proof cd cr secret t fp = Inr cmac"
    using cd macs cred(2) ok pv(5) by (simp add: exchange_proof_def fp_def carries_def const_defs VerifyServerProof_def)
  have f1: "client_frames cd cr salt t secret opts [fs] = Some \<lparr>pfType = FrameClientHello, pfPayload = cdClientHello cd ch\<rparr>"
    using hello by (simp add: client_frames_def)
  have f2: "client_frames cd cr salt t secret opts [fs, fp] = Some \<lparr>pfType = FrameClientProof, pfPayload = cdProof cd \<lparr>prSalt = [], prServerNonce = [], prMAC = cmac\<rparr>\<rparr>"
    using proof1 by (simp add: client_frames_def)
  have s: "send pv [] FrameServerHello (cdServerHello cd (hello_of h)) = (True, [fs])"
    "send pv [fs] FrameServerProof (cdProof cd \<lparr>prSalt = pcSalt cred, prServerNonce = nonce, prMAC = smac\<rparr>) = (True, [fs, fp])"
    "send pv [fs, fp] FrameComplete (cdComplete cd cm) = (True, [fs, fp, fc])"
    using cd pv(3) by (simp_all add: send_ok carries_def fs_def fp_def fc_def)
  have "serve_proof pv h (client_frames cd cr salt t secret opts) ch cred handle name nonce [fs] (meanwhile d) = (True, [fs, fp, fc], d')"
    using macs s(2, 3) f2 fin(1) cd pv(1, 2) by (simp add: serve_proof_def Let_def ct VerifyClientProof_None carries_def)
  then show "Serve pv h (client_frames cd cr salt t secret opts) meanwhile d = (True, [fs, fp, fc], d')"
    using ids s(1) f1 h cred(1) pv(1, 4) cd by (simp add: Serve_def ct carries_def)
  show "fst (ExchangePairing cd cr salt (\<lambda>_. True) t secret opts (\<lambda>sent. Some ([fs, fp, fc] ! length sent))) = Inr cm"
    using hello proof1 cd fin(2, 3) by (simp add: ExchangePairing_def Let_def carries_def exchange_result_def fc_def const_defs)
qed

section \<open>A pairing of a second device\<close>

definition pair_crypto :: crypto where
  "pair_crypto = \<lparr>crSha = (\<lambda>_. replicate 32 7), crHmac = (\<lambda>_ m. m), crJson = (\<lambda>_. [])\<rparr>"

definition pair_db :: db where
  "pair_db = empty_db\<lparr>authors := [\<lparr>auId = ''u'', auHandle = ''ann'', auSuspended = False, auCreated = 1, auUpdated = 1\<rparr>],
     devices := [new_device ''v'' ''u'' ''laptop'' ''k'' ''f'' 1],
     tokens := [\<lparr>etId = ''t'', etAuthor = ''u'', etPurpose = ''add_device'', etIssuedByKind = ''device'', etIssuedByDevice = Some ''v'',
       etDeviceName = ''phone'', etSalt = [3], etVerifier = replicate 32 7, etFailed = 0, etCreated = 1, etExpires = 9, etConsumed = None\<rparr>]\<rparr>"

definition pair_handler :: handler where
  "pair_handler = \<lparr>haServerID = ''s'', haHostKeyAlgorithm = ''a'', haHostKeyFingerprint = ''hk'', haProductVersion = ''1'', haSessionID = ''id'',
     haPublicKey = ''k2'', haFingerprint = ''f2''\<rparr>"

definition pair_transcript :: transcript where
  "pair_transcript = \<lparr>trSessionID = ''id'', trServerID = ''s'', trHostKeyFingerprint = ''hk'', trClientNonce = replicate 32 1, trServerNonce = replicate 32 0,
     trPublicKey = ''k2'', trDeviceFingerprint = ''f2'', trPurpose = PurposeAddDevice, trIdentifier = ''t''\<rparr>"

definition pair_hello :: client_hello where
  "pair_hello = \<lparr>chTranscript = pair_transcript, chDeviceName = '''', chRecoverySalt = [], chRecoveryVerifier = []\<rparr>"

definition pair_mac :: "string \<Rightarrow> bytes" where
  "pair_mac label = ProtocolName @ [0] @ str label @ [0]"

definition pair_challenge :: proof_message where
  "pair_challenge = \<lparr>prSalt = [3], prServerNonce = replicate 32 2, prMAC = pair_mac ''server''\<rparr>"

definition pair_answer :: proof_message where
  "pair_answer = \<lparr>prSalt = [], prServerNonce = [], prMAC = pair_mac ''client''\<rparr>"

definition pair_result :: complete where
  "pair_result = \<lparr>cmServerID = ''s'', cmAuthorID = ''u'', cmAuthorHandle = ''ann'', cmDeviceID = ''w''\<rparr>"

definition pair_codec :: codec where
  "pair_codec = \<lparr>cdServerHello = (\<lambda>_. []), cdProof = (\<lambda>p. if prSalt p = [] then [1] else [2]), cdComplete = (\<lambda>_. []), cdProblem = (\<lambda>_. []),
     cdClientHello = (\<lambda>_. []), cdReadHello = (\<lambda>_. Some pair_hello), cdReadProof = (\<lambda>b. Some (if b = [1] then pair_answer else pair_challenge)),
     cdReadComplete = (\<lambda>_. Some pair_result)\<rparr>"

definition pair_env :: pairing_env where
  "pair_env = \<lparr>pvCodec = pair_codec, pvCrypto = pair_crypto, pvRepo = demo_env, pvRepo2 = demo_env, pvNonce = Some (replicate 32 2),
     pvDeviceID = Some ''w'', pvAuthorID = None, pvWrite = (\<lambda>_. True), pvMismatch = (\<lambda>_. '''')\<rparr>"

definition paired_db :: db where
  "paired_db = snd (complete_pairing pair_env pair_handler pair_hello
     \<lparr>pcAuthor = ''u'', pcHandle = '''', pcDeviceName = ''phone'', pcSalt = [3], pcVerifier = replicate 32 7, pcGeneration = 0\<rparr> '''' ''phone'' pair_db)"

lemma pair_ids: "validateID ''t''" "validateID ''w''" "validateID ''k2''" "validateID ''f2''" "validateID ''audit_w''" "validateID ''u''"
  by (simp_all add: validateID_printable printable_def)

lemma pair_credential:
  "credential demo_env pair_hello pair_db =
    Inr (\<lparr>pcAuthor = ''u'', pcHandle = '''', pcDeviceName = ''phone'', pcSalt = [3], pcVerifier = replicate 32 7, pcGeneration = 0\<rparr>, '''', ''phone'')"
  by (simp add: credential_def pair_hello_def pair_transcript_def purpose_defs EnrollmentCredential_def pair_ids pair_db_def token_usable_def demo_env_def UnixNano_def)

lemmas pair_defs = complete_pairing_def pair_env_def pair_hello_def pair_transcript_def purpose_defs CompleteDeviceEnrollment_def checked_def pair_ids
  verifier_ok_def verification_result_def mutate_def demo_env_def CompleteDeviceEnrollment_tx_def pair_db_def token_usable_def UnixNano_def
  Let_def insert_device_def insert_row_def has_author_def new_device_def audit_def event_of_def actor_kinds_def update_token_def update_rows_def
  empty_db_def notify_def getAuthor_def pair_result_def pair_handler_def bytesEqual_iff

lemma pair_complete:
  "complete_pairing pair_env pair_handler pair_hello
     \<lparr>pcAuthor = ''u'', pcHandle = '''', pcDeviceName = ''phone'', pcSalt = [3], pcVerifier = replicate 32 7, pcGeneration = 0\<rparr> '''' ''phone'' pair_db =
   (Inr pair_result, paired_db)"
  unfolding paired_db_def
  by (simp add: pair_defs)

lemma paired_devices: "paired_db \<noteq> pair_db"
proof -
  have "devices paired_db \<noteq> devices pair_db" unfolding paired_db_def by (simp add: pair_defs)
  then show ?thesis by auto
qed

lemma pair_proofs:
  assumes "transcript_ok t"
  shows "ServerProof pair_crypto (replicate 32 7) t = Inr (pair_mac ''server'')" "ClientProof pair_crypto (replicate 32 7) t = Inr (pair_mac ''client'')"
  using assms by (simp_all add: ServerProof_def ClientProof_def proof_mac_def DeriveKey_def canonical_def pair_crypto_def pair_mac_def const_defs)

lemma pair_transcripts: "validateTranscript pair_handler pair_transcript" "transcript_ok (pair_transcript\<lparr>trServerNonce := replicate 32 2\<rparr>)"
  by (simp_all add: validateTranscript_def transcript_ok_def bound_to_def pair_handler_def pair_transcript_def purpose_defs)


abbreviation pair_options :: exchange_options where
  "pair_options \<equiv> \<lparr>xoDeviceName = '''', xoRecoverySecret = []\<rparr>"

abbreviation pair_client :: "pair_frame list \<Rightarrow> pair_frame option" where
  "pair_client \<equiv> client_frames pair_codec pair_crypto None pair_transcript (replicate 16 9) pair_options"

abbreviation pair_cred :: pairing_credential where
  "pair_cred \<equiv> \<lparr>pcAuthor = ''u'', pcHandle = '''', pcDeviceName = ''phone'', pcSalt = [3], pcVerifier = replicate 32 7, pcGeneration = 0\<rparr>"

lemma pair_exchange_hello: "exchange_hello pair_codec pair_crypto None pair_options pair_transcript = Inr pair_hello"
  using pair_transcripts(1) by (simp add: exchange_hello_def validateTranscript_def pair_hello_def) (simp add: pair_transcript_def purpose_defs)

lemma pair_carries: "carries pair_codec (hello_of pair_handler) pair_hello [pair_challenge, pair_answer] pair_result"
  by (simp add: carries_def pair_codec_def pair_challenge_def pair_answer_def const_defs)

lemma pair_verifier: "DeriveVerifier pair_crypto [3] (replicate 16 9) = Inr (replicate 32 7)"
  by (simp add: DeriveVerifier_def pair_crypto_def const_defs)

lemma pair_env_fields: "pvCodec pair_env = pair_codec" "pvCrypto pair_env = pair_crypto" "pvRepo pair_env = demo_env" "pvNonce pair_env = Some (replicate 32 2)"
  "\<forall>n. pvWrite pair_env n"
  by (simp_all add: pair_env_def)

lemmas pair_facts = pair_transcripts(1) pair_exchange_hello pair_credential pair_verifier pair_proofs [OF pair_transcripts(2)] pair_complete
  pair_carries [unfolded pair_challenge_def pair_answer_def] pair_env_fields


lemma pair_changes: "snd (snd (Serve pair_env pair_handler pair_client id pair_db)) = paired_db"
  using honest_pairing(1) [of pair_env pair_codec pair_crypto "replicate 32 2" pair_handler pair_transcript None pair_options pair_hello pair_db pair_cred "''''" "''phone''"
      "replicate 16 9" "pair_mac ''server''" "pair_mac ''client''" id pair_result paired_db] pair_facts
  by simp (simp add: pair_result_def)

theorem pairing_needs_proof_witness:
  "snd (snd (Serve pair_env pair_handler pair_client id pair_db)) \<noteq> id pair_db \<and>
   (\<exists>sent1 f1 hello cred handle name nonce sent2 f2 reply.
    pair_client sent1 = Some f1 \<and> pfType f1 = FrameClientHello \<and> cdReadHello (pvCodec pair_env) (pfPayload f1) = Some hello \<and>
    credential (pvRepo pair_env) hello pair_db = Inr (cred, handle, name) \<and> pvNonce pair_env = Some nonce \<and>
    pair_client sent2 = Some f2 \<and> pfType f2 = FrameClientProof \<and> cdReadProof (pvCodec pair_env) (pfPayload f2) = Some reply \<and>
    proved pair_env pair_handler hello cred nonce (prMAC reply) \<and>
    adds_only (haPublicKey pair_handler) (haFingerprint pair_handler) (id pair_db) (snd (snd (Serve pair_env pair_handler pair_client id pair_db))))"
proof -
  have "snd (snd (Serve pair_env pair_handler pair_client id pair_db)) \<noteq> id pair_db" using pair_changes paired_devices by simp
  with pairing_needs_proof [OF this] show ?thesis by blast
qed

end
