(* ===== verification/State_Model.thy ===== *)
theory State_Model
  imports Go_Text
begin

text \<open>
  Restoring a state bundle (\<^verbatim>\<open>internal/state/state.go\<close>): the bundle is verified, copied next
  to the live database, and a journal then moves the three components into place, which
  \<^verbatim>\<open>Recover\<close> finishes after an interruption.
\<close>

section \<open>The file system\<close>

text \<open>
  A path is the list of its components. A file system is a list of entries, of which the first with
  a path counts; permissions are kept because bundles must be private.
\<close>

type_synonym path = "string list"

datatype node = Reg nat bytes | Dir nat | Sym

type_synonym files = "(path \<times> node) list"

abbreviation at :: "files \<Rightarrow> path \<Rightarrow> node option" where
  "at l p \<equiv> map_of l p"

definition inside :: "path \<Rightarrow> path \<Rightarrow> bool" where
  "inside p q \<longleftrightarrow> take (length p) q = p"

text \<open>
  Every system call takes the next fault: it works, it fails without an effect, or the machine stops
  there, a write after some of its bytes. When the list is used up calls work.
\<close>

datatype fault = Fine | Fail | Halt nat

record sys =
  syFiles :: files
  syFaults :: "fault list"

datatype state_error = ErrInvalid | ErrUnsafePath | ErrCorrupt | ErrInsufficient | ErrJournalExists | ErrOS

datatype 'a outcome = Ret 'a | Err state_error | Halted

type_synonym 'a io = "sys \<Rightarrow> 'a outcome \<times> sys"

definition io_ret :: "'a \<Rightarrow> 'a io" where
  "io_ret x s = (Ret x, s)"

definition io_err :: "state_error \<Rightarrow> 'a io" where
  "io_err e s = (Err e, s)"

definition io_bind :: "'a io \<Rightarrow> ('a \<Rightarrow> 'b io) \<Rightarrow> 'b io" where
  "io_bind m f s = (case m s of (Ret x, s') \<Rightarrow> f x s' | (Err e, s') \<Rightarrow> (Err e, s') | (Halted, s') \<Rightarrow> (Halted, s'))"

definition io_ignore :: "'a io \<Rightarrow> unit io" where
  "io_ignore m s = (case m s of (Ret x, s') \<Rightarrow> (Ret (), s') | (Err e, s') \<Rightarrow> (Ret (), s') | (Halted, s') \<Rightarrow> (Halted, s'))"

definition next_fault :: "sys \<Rightarrow> fault \<times> sys" where
  "next_fault s = (case syFaults s of [] \<Rightarrow> (Fine, s) | f # fs \<Rightarrow> (f, s\<lparr>syFaults := fs\<rparr>))"

text \<open>
  A system call with an effect \<open>f\<close> on the files and a partial effect when the machine stops.
\<close>

definition syscall :: "(files \<Rightarrow> ('a \<times> files) option) \<Rightarrow> (nat \<Rightarrow> files \<Rightarrow> files) \<Rightarrow> 'a io" where
  "syscall f partial s = (case next_fault s of
     (Fine, s') \<Rightarrow> (case f (syFiles s') of None \<Rightarrow> (Err ErrOS, s') | Some (x, l) \<Rightarrow> (Ret x, s'\<lparr>syFiles := l\<rparr>))
   | (Fail, s') \<Rightarrow> (Err ErrOS, s')
   | (Halt n, s') \<Rightarrow> (Halted, s'\<lparr>syFiles := partial n (syFiles s')\<rparr>))"

abbreviation atomic :: "(files \<Rightarrow> ('a \<times> files) option) \<Rightarrow> 'a io" where
  "atomic f \<equiv> syscall f (\<lambda>_ l. l)"

definition Lstat :: "path \<Rightarrow> node option io" where
  "Lstat p = atomic (\<lambda>l. Some (at l p, l))"

definition is_dir :: "node option \<Rightarrow> bool" where
  "is_dir n = (case n of Some (Dir _) \<Rightarrow> True | _ \<Rightarrow> False)"

definition is_reg :: "node option \<Rightarrow> bool" where
  "is_reg n = (case n of Some (Reg _ _) \<Rightarrow> True | _ \<Rightarrow> False)"

definition move :: "path \<Rightarrow> path \<Rightarrow> files \<Rightarrow> files" where
  "move a b l = map (\<lambda>(p, n). (if inside a p then b @ drop (length a) p else p, n)) (filter (\<lambda>(p, n). \<not> inside b p) l)"

text \<open>
  \<^verbatim>\<open>os.Rename\<close> on Unix refuses a new name that is a directory, and a directory cannot replace a file.
\<close>

definition Rename :: "path \<Rightarrow> path \<Rightarrow> unit io" where
  "Rename a b = atomic (\<lambda>l.
     if at l a = None \<or> is_dir (at l b) \<or> is_dir (at l a) \<and> at l b \<noteq> None then None
     else Some ((), move a b l))"

definition Remove :: "path \<Rightarrow> unit io" where
  "Remove p = atomic (\<lambda>l.
     if at l p = None \<or> is_dir (at l p) \<and> list_ex (\<lambda>(q, _). inside p q \<and> q \<noteq> p) l then None
     else Some ((), filter (\<lambda>(q, _). q \<noteq> p) l))"

text \<open>
  \<^verbatim>\<open>os.RemoveAll\<close> takes one entry after the other, so a stop may leave the rest.
\<close>

definition clear_paths :: "path list \<Rightarrow> files \<Rightarrow> files" where
  "clear_paths ks l = filter (\<lambda>(q, _). q \<notin> set ks) l"

definition RemoveAll :: "path \<Rightarrow> unit io" where
  "RemoveAll p = (let below = \<lambda>l. filter (inside p) (map fst l) in
     syscall (\<lambda>l. Some ((), clear_paths (below l) l)) (\<lambda>n l. clear_paths (take n (below l)) l))"

definition ReadFile :: "path \<Rightarrow> bytes option io" where
  "ReadFile p = atomic (\<lambda>l. case at l p of
     None \<Rightarrow> Some (None, l)
   | Some (Reg _ b) \<Rightarrow> Some (Some b, l)
   | _ \<Rightarrow> None)"

text \<open>
  \<^verbatim>\<open>O_CREATE|O_EXCL\<close>, the write of a whole buffer to the new file, \<^verbatim>\<open>Sync\<close> and \<^verbatim>\<open>Close\<close>.
\<close>

definition OpenExcl :: "path \<Rightarrow> nat \<Rightarrow> unit io" where
  "OpenExcl p mode = atomic (\<lambda>l.
     if at l p \<noteq> None \<or> \<not> is_dir (at l (butlast p)) then None else Some ((), (p, Reg mode []) # l))"

definition put_bytes :: "path \<Rightarrow> bytes \<Rightarrow> files \<Rightarrow> files" where
  "put_bytes p b l = (case at l p of Some (Reg mode _) \<Rightarrow> (p, Reg mode b) # l | _ \<Rightarrow> l)"

definition WriteBytes :: "path \<Rightarrow> bytes \<Rightarrow> unit io" where
  "WriteBytes p b = syscall (\<lambda>l. Some ((), put_bytes p b l)) (\<lambda>n l. put_bytes p (take n b) l)"

definition Flush :: "unit io" where
  "Flush = atomic (\<lambda>l. Some ((), l))"

definition Mkdir :: "path \<Rightarrow> nat \<Rightarrow> unit io" where
  "Mkdir p mode = atomic (\<lambda>l.
     if at l p \<noteq> None \<or> \<not> is_dir (at l (butlast p)) then None else Some ((), (p, Dir mode) # l))"

text \<open>
  \<^verbatim>\<open>os.MkdirAll\<close>: from the root down, every missing directory is made.
\<close>

fun MkdirAll_from :: "path \<Rightarrow> string list \<Rightarrow> unit io" where
  "MkdirAll_from p [] = io_ret ()"
| "MkdirAll_from p (c # cs) = io_bind (Lstat (p @ [c])) (\<lambda>n.
     if is_dir n then MkdirAll_from (p @ [c]) cs
     else io_bind (Mkdir (p @ [c]) 448) (\<lambda>_. MkdirAll_from (p @ [c]) cs))"

definition MkdirAll :: "path \<Rightarrow> unit io" where
  "MkdirAll p = MkdirAll_from [] p"

section \<open>Bundles\<close>

record paths =
  ptDatabase :: path
  ptKVRoot :: path
  ptSSHIdentity :: path

record file_entry =
  fePath :: string
  feSize :: int
  feSHA256 :: string

record manifest =
  mfVersion :: int
  mfCreated :: int
  mfDatabase :: file_entry
  mfDatabaseKeyID :: string
  mfKV :: "file_entry list"
  mfSSH :: file_entry
  mfSSHFingerprint :: string
  mfSSHKeyType :: string

record journal_op =
  joName :: string
  joTarget :: path
  joStaged :: path
  joBackup :: path
  joDone :: bool

record journal =
  jlVersion :: int
  jlCreated :: int
  jlOperations :: "journal_op list"

text \<open>
  What comes from outside: SHA-256, the SSH key parser, whether the database engine opens and
  verifies a file with a key, the JSON forms of a manifest and of a journal, the clock, the name
  that \<^verbatim>\<open>MkdirTemp\<close> makes up, and the phases at which \<^verbatim>\<open>Options.Interrupt\<close> fails.
\<close>

record world =
  wSha :: "bytes \<Rightarrow> bytes"
  wIdentity :: "bytes \<Rightarrow> (string \<times> string) option"
  wVerifyDb :: "bytes \<Rightarrow> bytes \<Rightarrow> bool"
  wManifest :: "bytes \<Rightarrow> manifest option"
  wEncode :: "journal \<Rightarrow> bytes"
  wDecode :: "bytes \<Rightarrow> journal option"
  wNow :: int
  wTemp :: string
  wInterrupt :: "string \<Rightarrow> bool"

definition formatVersion :: int where
  "formatVersion = 1"

text \<open>
  \<^verbatim>\<open>filepath.Clean\<close> gives \<^verbatim>\<open>.\<close> for the empty list of components.
\<close>

definition blank_path :: "path \<Rightarrow> bool" where
  "blank_path p \<longleftrightarrow> p = [] \<or> length p = 1 \<and> TrimSpace (hd p) = ''''"

definition validatePaths :: "paths \<Rightarrow> bool" where
  "validatePaths ps \<longleftrightarrow> \<not> list_ex blank_path [ptDatabase ps, ptKVRoot ps, ptSSHIdentity ps]"

definition io_check :: "bool \<Rightarrow> state_error \<Rightarrow> unit io" where
  "io_check ok e = (if ok then io_ret () else io_err e)"

definition validateBundlePath :: "path \<Rightarrow> unit io" where
  "validateBundlePath p = io_bind (io_check (\<not> blank_path p) ErrInvalid) (\<lambda>_ s. case Lstat p s of
     (Ret (Some Sym), s') \<Rightarrow> (Err ErrUnsafePath, s')
   | (Halted, s') \<Rightarrow> (Halted, s')
   | (_, s') \<Rightarrow> (Ret (), s'))"

text \<open>
  \<^verbatim>\<open>privateRegular\<close> without \<^verbatim>\<open>allowMissing\<close> and \<^verbatim>\<open>privateDir\<close>: permissions other than the owner's are
  the lower six bits.
\<close>

definition privateRegular :: "path \<Rightarrow> nat io" where
  "privateRegular p = io_bind (Lstat p) (\<lambda>n. case n of
     None \<Rightarrow> io_err ErrOS
   | Some Sym \<Rightarrow> io_err ErrUnsafePath
   | Some (Dir _) \<Rightarrow> io_err ErrInvalid
   | Some (Reg mode b) \<Rightarrow> if mode mod 64 \<noteq> 0 then io_err ErrUnsafePath else io_ret (length b))"

definition privateDir :: "path \<Rightarrow> unit io" where
  "privateDir p = io_bind (Lstat p) (\<lambda>n. case n of
     None \<Rightarrow> io_err ErrOS
   | Some (Dir mode) \<Rightarrow> if mode mod 64 \<noteq> 0 then io_err ErrUnsafePath else io_ret ()
   | Some _ \<Rightarrow> io_err ErrUnsafePath)"

definition read_existing :: "path \<Rightarrow> bytes io" where
  "read_existing p = io_bind (ReadFile p) (\<lambda>r. case r of None \<Rightarrow> io_err ErrOS | Some b \<Rightarrow> io_ret b)"

definition hashFile :: "world \<Rightarrow> path \<Rightarrow> string io" where
  "hashFile w p = io_bind (read_existing p) (\<lambda>b. io_ret (EncodeToString (wSha w b)))"

text \<open>
  A new file with its contents: created exclusively, written, synced and closed.
\<close>

definition write_new :: "path \<Rightarrow> nat \<Rightarrow> bytes \<Rightarrow> unit io" where
  "write_new p mode b = io_bind (OpenExcl p mode) (\<lambda>_. io_bind (WriteBytes p b) (\<lambda>_. io_bind Flush (\<lambda>_. Flush)))"

definition copyFile :: "path \<Rightarrow> path \<Rightarrow> unit io" where
  "copyFile src dst = io_bind (read_existing src) (\<lambda>b. io_bind (MkdirAll (butlast dst)) (\<lambda>_. write_new dst 384 b))"

definition writeJSON :: "('a \<Rightarrow> bytes) \<Rightarrow> path \<Rightarrow> 'a \<Rightarrow> unit io" where
  "writeJSON enc p v = write_new p 384 (enc v)"

definition readManifest :: "world \<Rightarrow> path \<Rightarrow> manifest io" where
  "readManifest w bundle =
    io_bind (privateRegular (bundle @ [''manifest.json''])) (\<lambda>n.
    io_bind (io_check (n \<le> 2 ^ 20) ErrCorrupt) (\<lambda>_.
    io_bind (read_existing (bundle @ [''manifest.json''])) (\<lambda>b. case wManifest w b of
      None \<Rightarrow> io_err ErrCorrupt
    | Some m \<Rightarrow> io_bind (io_check (mfVersion m = formatVersion \<and> length (mfKV m) \<le> 100000) ErrCorrupt) (\<lambda>_. io_ret m))))"

text \<open>
  The components of a relative path that is not empty and that \<^verbatim>\<open>filepath.Clean\<close> leaves as it is and
  that does not start with \<^verbatim>\<open>..\<close>: it is \<^verbatim>\<open>.\<close>, or no component is empty, \<^verbatim>\<open>.\<close> or \<^verbatim>\<open>..\<close>. An absolute path
  has an empty first component.
\<close>

fun split_slash :: "string \<Rightarrow> string list" where
  "split_slash [] = [[]]"
| "split_slash (c # s) = (if c = CHR ''/'' then [] # split_slash s
     else case split_slash s of [] \<Rightarrow> [[c]] | w # ws \<Rightarrow> (c # w) # ws)"

definition entry_path :: "string \<Rightarrow> path option" where
  "entry_path s = (if s = ''.'' then Some []
     else if list_ex (\<lambda>c. c \<in> {'''', ''.'', ''..''}) (split_slash s) then None
     else Some (split_slash s))"

text \<open>
  \<^verbatim>\<open>verifyEntry\<close>: every error of \<^verbatim>\<open>privateRegular\<close> is reported as a corrupt bundle.
\<close>

definition verifyEntry :: "world \<Rightarrow> path \<Rightarrow> file_entry \<Rightarrow> unit io" where
  "verifyEntry w root e = (case entry_path (fePath e) of
     None \<Rightarrow> io_err ErrCorrupt
   | Some rel \<Rightarrow> (\<lambda>s. case privateRegular (root @ rel) s of
       (Err _, s') \<Rightarrow> (Err ErrCorrupt, s')
     | (Halted, s') \<Rightarrow> (Halted, s')
     | (Ret n, s') \<Rightarrow>
         io_bind (io_check (int n = feSize e) ErrCorrupt) (\<lambda>_.
         io_bind (hashFile w (root @ rel)) (\<lambda>h. io_check (h = feSHA256 e) ErrCorrupt)) s'))"

fun verify_all :: "world \<Rightarrow> path \<Rightarrow> file_entry list \<Rightarrow> unit io" where
  "verify_all w root [] = io_ret ()"
| "verify_all w root (e # es) = io_bind (verifyEntry w root e) (\<lambda>_. verify_all w root es)"

definition join_entry :: "path \<Rightarrow> file_entry \<Rightarrow> path" where
  "join_entry root e = root @ (case entry_path (fePath e) of None \<Rightarrow> [] | Some rel \<Rightarrow> rel)"

definition identityInfo :: "world \<Rightarrow> path \<Rightarrow> (string \<times> string) io" where
  "identityInfo w p = io_bind (read_existing p) (\<lambda>b. case wIdentity w b of None \<Rightarrow> io_err ErrCorrupt | Some r \<Rightarrow> io_ret r)"

definition keyID :: "world \<Rightarrow> bytes \<Rightarrow> string" where
  "keyID w key = (if key = [] then ''plaintext'' else ''sha256:'' @ EncodeToString (wSha w key))"

definition verifyBundle :: "world \<Rightarrow> path \<Rightarrow> manifest \<Rightarrow> bytes \<Rightarrow> unit io" where
  "verifyBundle w bundle m key =
    io_bind (verifyEntry w bundle (mfDatabase m)) (\<lambda>_.
    io_bind (verifyEntry w bundle (mfSSH m)) (\<lambda>_.
    io_bind (verify_all w bundle (mfKV m)) (\<lambda>_.
    io_bind (identityInfo w (join_entry bundle (mfSSH m))) (\<lambda>_.
    io_bind (read_existing (join_entry bundle (mfDatabase m))) (\<lambda>b. io_check (wVerifyDb w b key) ErrOS)))))"

definition interrupt :: "world \<Rightarrow> string \<Rightarrow> unit io" where
  "interrupt w phase = io_check (\<not> wInterrupt w phase) ErrOS"

section \<open>The journal\<close>

definition writeJournal :: "world \<Rightarrow> path \<Rightarrow> journal \<Rightarrow> unit io" where
  "writeJournal w p j = (let tmp = butlast p @ [last p @ ''.tmp''] in
     io_bind (io_ignore (Remove tmp)) (\<lambda>_. io_bind (writeJSON (wEncode w) tmp j) (\<lambda>_. Rename tmp p)))"

text \<open>
  One component. On Windows the target would be removed before the last step; this is the other case.
\<close>

definition replaceOperation :: "journal_op \<Rightarrow> unit io" where
  "replaceOperation oper =
    io_bind (Lstat (joStaged oper)) (\<lambda>staged.
    io_bind (Lstat (joTarget oper)) (\<lambda>target.
      if target = Some Sym then io_err ErrUnsafePath
      else if staged = None then (if target \<noteq> None then io_ret () else io_err ErrCorrupt)
      else io_bind
        (if target \<noteq> None then io_bind (Lstat (joBackup oper)) (\<lambda>backup.
           if backup = None then Rename (joTarget oper) (joBackup oper) else io_ret ()) else io_ret ())
        (\<lambda>_. Rename (joStaged oper) (joTarget oper))))"

fun apply_from :: "world \<Rightarrow> path \<Rightarrow> journal \<Rightarrow> journal_op list \<Rightarrow> journal_op list \<Rightarrow> unit io" where
  "apply_from w p j before [] = Remove p"
| "apply_from w p j before (oper # rest) =
    (if joDone oper then apply_from w p j (before @ [oper]) rest
     else io_bind (replaceOperation oper) (\<lambda>_.
       let oper' = oper\<lparr>joDone := True\<rparr> in
       io_bind (writeJournal w p (j\<lparr>jlOperations := before @ oper' # rest\<rparr>)) (\<lambda>_.
       apply_from w p j (before @ [oper']) rest)))"

definition applyJournal :: "world \<Rightarrow> path \<Rightarrow> journal \<Rightarrow> unit io" where
  "applyJournal w p j = apply_from w p j [] (jlOperations j)"

definition journal_path :: "paths \<Rightarrow> path" where
  "journal_path ps = butlast (ptDatabase ps) @ [''.plumtree-restore-journal.json'']"

definition Recover :: "world \<Rightarrow> paths \<Rightarrow> unit io" where
  "Recover w ps =
    io_bind (io_check (validatePaths ps) ErrInvalid) (\<lambda>_.
    io_bind (ReadFile (journal_path ps)) (\<lambda>r. case r of
      None \<Rightarrow> io_ret ()
    | Some b \<Rightarrow> (case wDecode w b of
        None \<Rightarrow> io_err ErrCorrupt
      | Some j \<Rightarrow> if jlVersion j \<noteq> formatVersion then io_err ErrCorrupt else applyJournal w (journal_path ps) j)))"

section \<open>Restoring\<close>

definition previous :: "path \<Rightarrow> path" where
  "previous p = butlast p @ [last p @ ''.restore-previous'']"

definition restore_ops :: "paths \<Rightarrow> path \<Rightarrow> journal_op list" where
  "restore_ops ps stage =
    [\<lparr>joName = ''database'', joTarget = ptDatabase ps, joStaged = stage @ [''database.db''], joBackup = previous (ptDatabase ps), joDone = False\<rparr>,
     \<lparr>joName = ''kv'', joTarget = ptKVRoot ps, joStaged = stage @ [''kv''], joBackup = previous (ptKVRoot ps), joDone = False\<rparr>,
     \<lparr>joName = ''ssh-identity'', joTarget = ptSSHIdentity ps, joStaged = stage @ [''ssh-identity''], joBackup = previous (ptSSHIdentity ps), joDone = False\<rparr>]"

definition kv_rel :: "file_entry \<Rightarrow> path" where
  "kv_rel e = (case entry_path (fePath e) of
     Some cs \<Rightarrow> if 2 \<le> length cs \<and> hd cs = ''kv'' then tl cs else cs | None \<Rightarrow> [])"

fun copy_kv :: "path \<Rightarrow> path \<Rightarrow> file_entry list \<Rightarrow> unit io" where
  "copy_kv bundle stage [] = io_ret ()"
| "copy_kv bundle stage (e # es) =
    io_bind (copyFile (join_entry bundle e) (stage @ [''kv''] @ kv_rel e)) (\<lambda>_. copy_kv bundle stage es)"

definition stage_bundle :: "path \<Rightarrow> path \<Rightarrow> manifest \<Rightarrow> unit io" where
  "stage_bundle bundle stage m =
    io_bind (copyFile (join_entry bundle (mfDatabase m)) (stage @ [''database.db''])) (\<lambda>_.
    io_bind (copyFile (join_entry bundle (mfSSH m)) (stage @ [''ssh-identity''])) (\<lambda>_.
    io_bind (copy_kv bundle stage (mfKV m)) (\<lambda>_. MkdirAll (stage @ [''kv'']))))"

definition check_bundle :: "world \<Rightarrow> path \<Rightarrow> paths \<Rightarrow> bytes \<Rightarrow> manifest io" where
  "check_bundle w bundle ps key =
    io_bind (validateBundlePath bundle) (\<lambda>_.
    io_bind (privateDir bundle) (\<lambda>_.
    io_bind (io_check (validatePaths ps) ErrInvalid) (\<lambda>_.
    io_bind (Lstat (bundle @ [''manifest.json''])) (\<lambda>n.
    io_bind (io_check (n \<noteq> None) ErrOS) (\<lambda>_.
    io_bind (readManifest w bundle) (\<lambda>m.
    io_bind (verifyBundle w bundle m key) (\<lambda>_.
    io_bind (io_check (mfDatabaseKeyID m = keyID w key) ErrCorrupt) (\<lambda>_.
    io_bind (identityInfo w (join_entry bundle (mfSSH m))) (\<lambda>(fp, typ).
    io_bind (io_check (fp = mfSSHFingerprint m \<and> typ = mfSSHKeyType m) ErrCorrupt) (\<lambda>_. io_ret m))))))))))"

text \<open>
  The stage directory is removed after success only, in a deferred call whose error is dropped;
  after an error it is kept for \<^verbatim>\<open>Recover\<close>.
\<close>

definition Restore :: "world \<Rightarrow> path \<Rightarrow> paths \<Rightarrow> bytes \<Rightarrow> unit io" where
  "Restore w bundle ps key =
    io_bind (check_bundle w bundle ps key) (\<lambda>m.
    io_bind (Lstat (journal_path ps)) (\<lambda>n.
    io_bind (io_check (n = None) ErrJournalExists) (\<lambda>_.
    let stage = butlast (ptDatabase ps) @ [''.plumtree-restore-'' @ wTemp w];
        j = \<lparr>jlVersion = formatVersion, jlCreated = wNow w, jlOperations = restore_ops ps stage\<rparr> in
    io_bind (Mkdir stage 448) (\<lambda>_.
    io_bind (stage_bundle bundle stage m) (\<lambda>_.
    io_bind (writeJSON (wEncode w) (journal_path ps) j) (\<lambda>_.
    io_bind (interrupt w ''restore-journal-written'') (\<lambda>_.
    io_bind (applyJournal w (journal_path ps) j) (\<lambda>_. io_ignore (RemoveAll stage)))))))))"

definition publishDirectory :: "path \<Rightarrow> path \<Rightarrow> unit io" where
  "publishDirectory stage destination =
    io_bind (validateBundlePath destination) (\<lambda>_.
    io_bind (Lstat destination) (\<lambda>n.
      if n = None then Rename stage destination
      else let prev = butlast destination @ [last destination @ ''.previous''] in
        io_bind (\<lambda>s. case Lstat prev s of
            (Ret (Some _), s') \<Rightarrow> (Err ErrInvalid, s')
          | (Halted, s') \<Rightarrow> (Halted, s')
          | (_, s') \<Rightarrow> (Ret (), s')) (\<lambda>_.
        io_bind (Rename destination prev) (\<lambda>_ s.
          case Rename stage destination s of
            (Err e, s') \<Rightarrow> io_bind (io_ignore (Rename prev destination)) (\<lambda>_. io_err e) s'
          | r \<Rightarrow> r))))"

end
