(* ===== verification/State_Journal.thy ===== *)
theory State_Journal
  imports State_Model
begin

text \<open>
  How the journal of a restore is applied: a small logic for runs under faults (\<open>hoare\<close> for every
  run, \<open>runs\<close> for a run without faults), the three states of a component, and the invariant of
  \<^verbatim>\<open>applyJournal\<close>.
\<close>

section \<open>Paths and moves\<close>

definition indep :: "path \<Rightarrow> path \<Rightarrow> bool" where
  "indep p q \<longleftrightarrow> \<not> inside p q \<and> \<not> inside q p"

definition sub :: "files \<Rightarrow> path \<Rightarrow> path \<Rightarrow> node option" where
  "sub l p = (\<lambda>r. at l (p @ r))"

lemma inside_append [simp]: "inside p (p @ r)"
  by (simp add: inside_def)

lemma inside_iff: "inside p q \<longleftrightarrow> (\<exists>r. q = p @ r)"
  by (auto simp: inside_def) (metis append_take_drop_id)

lemma indep_sym: "indep p q \<longleftrightarrow> indep q p"
  by (auto simp: indep_def)

lemma inside_both: "inside a q \<Longrightarrow> inside b q \<Longrightarrow> inside a b \<or> inside b a"
  by (auto simp: inside_iff append_eq_append_conv2)

lemma indep_inside: "indep a b \<Longrightarrow> inside a q \<Longrightarrow> \<not> inside b q"
  using inside_both by (auto simp: indep_def)

lemma sub_Nil [simp]: "sub l p [] = at l p"
  by (simp add: sub_def)

lemma at_move:
  assumes "indep a b"
  shows "at (move a b l) p = (if inside b p then at l (a @ drop (length b) p) else if inside a p then None else at l p)"
proof (induction l)
  case Nil
  then show ?case by (simp add: move_def)
next
  case (Cons x l)
  obtain q n where x: "x = (q, n)" by fastforce
  have key: "b @ drop (length a) q = p \<longleftrightarrow> inside b p \<and> q = a @ drop (length b) p" if "inside a q"
    using that by (auto simp: inside_iff)
  consider "inside b q" | "inside a q" "\<not> inside b q" | "\<not> inside a q" "\<not> inside b q" by blast
  then show ?case
  proof cases
    case 1
    then have "a @ r \<noteq> q" for r using indep_inside [OF assms, of "a @ r"] by auto
    with 1 Cons x show ?thesis by (auto simp: move_def)
  next
    case 2
    with Cons x key indep_inside [OF assms, of q] show ?thesis by (auto simp: move_def)
  next
    case 3
    then have "a @ r \<noteq> q" for r by auto
    with 3 Cons x show ?thesis by (auto simp: move_def)
  qed
qed

lemma sub_move:
  assumes "indep a b"
  shows "sub (move a b l) b = sub l a" "sub (move a b l) a = (\<lambda>_. None)"
    and "indep c a \<Longrightarrow> indep c b \<Longrightarrow> sub (move a b l) c = sub l c"
  using assms indep_inside [of c a] indep_inside [of c b] indep_inside [of a b]
  by (auto simp: sub_def at_move fun_eq_iff inside_iff)

section \<open>Reasoning about runs\<close>

definition hoare :: "(files \<Rightarrow> bool) \<Rightarrow> 'a io \<Rightarrow> ('a \<Rightarrow> files \<Rightarrow> bool) \<Rightarrow> (files \<Rightarrow> bool) \<Rightarrow> bool" where
  "hoare P m Q R \<longleftrightarrow> (\<forall>s. P (syFiles s) \<longrightarrow> (case m s of
     (Ret x, s') \<Rightarrow> Q x (syFiles s') | (_, s') \<Rightarrow> R (syFiles s')))"

definition runs :: "(files \<Rightarrow> bool) \<Rightarrow> 'a io \<Rightarrow> ('a \<Rightarrow> files \<Rightarrow> bool) \<Rightarrow> bool" where
  "runs P m Q \<longleftrightarrow> (\<forall>s. P (syFiles s) \<and> syFaults s = [] \<longrightarrow>
     (\<exists>x s'. m s = (Ret x, s') \<and> syFaults s' = [] \<and> Q x (syFiles s')))"

lemma hoare_ret: "(\<And>l. P l \<Longrightarrow> Q x l) \<Longrightarrow> hoare P (io_ret x) Q R"
  by (simp add: hoare_def io_ret_def)

lemma hoare_err: "(\<And>l. P l \<Longrightarrow> R l) \<Longrightarrow> hoare P (io_err e) Q R"
  by (simp add: hoare_def io_err_def)

lemma hoare_bind:
  assumes "hoare P m Q R" "\<And>x. hoare (Q x) (f x) Q' R"
  shows "hoare P (io_bind m f) Q' R"
  using assms unfolding hoare_def io_bind_def
  by (fastforce split: prod.splits outcome.splits)

lemma io_bind_assoc: "io_bind (io_bind m f) g = io_bind m (\<lambda>x. io_bind (f x) g)"
  by (auto simp: io_bind_def fun_eq_iff split: prod.splits outcome.splits)

lemma hoare_weaken:
  "hoare P m Q R \<Longrightarrow> (\<And>l. P' l \<Longrightarrow> P l) \<Longrightarrow> (\<And>x l. Q x l \<Longrightarrow> Q' x l) \<Longrightarrow> (\<And>l. R l \<Longrightarrow> R' l) \<Longrightarrow> hoare P' m Q' R'"
  unfolding hoare_def by (fastforce split: prod.splits outcome.splits)

lemma hoare_ignore: "hoare P m (\<lambda>_. Q) Q \<Longrightarrow> (\<And>l. Q l \<Longrightarrow> R l) \<Longrightarrow> hoare P (io_ignore m) (\<lambda>_. Q) R"
  unfolding hoare_def io_ignore_def by (fastforce split: prod.splits outcome.splits)

lemma hoare_check: "(\<And>l. P l \<Longrightarrow> R l) \<Longrightarrow> hoare P (io_check ok e) (\<lambda>_ l. ok \<and> P l) R"
  by (auto simp: io_check_def hoare_def io_ret_def io_err_def)

lemma hoare_syscall:
  assumes "\<And>l. P l \<Longrightarrow> R l" "\<And>l n. P l \<Longrightarrow> R (partial n l)" "\<And>l x l'. P l \<Longrightarrow> f l = Some (x, l') \<Longrightarrow> Q x l'"
  shows "hoare P (syscall f partial) Q R"
  using assms by (auto simp: hoare_def syscall_def next_fault_def split: list.splits fault.splits option.splits)

lemma runs_ret: "(\<And>l. P l \<Longrightarrow> Q x l) \<Longrightarrow> runs P (io_ret x) Q"
  by (simp add: runs_def io_ret_def)

lemma runs_bind:
  assumes "runs P m Q" "\<And>x. runs (Q x) (f x) Q'"
  shows "runs P (io_bind m f) Q'"
  unfolding runs_def
proof (intro allI impI, elim conjE)
  fix s :: sys assume "P (syFiles s)" "syFaults s = []"
  with assms(1) obtain x s1 where "m s = (Ret x, s1)" "syFaults s1 = []" "Q x (syFiles s1)" unfolding runs_def by blast
  with assms(2) [of x] show "\<exists>x s'. io_bind m f s = (Ret x, s') \<and> syFaults s' = [] \<and> Q' x (syFiles s')"
    unfolding runs_def io_bind_def by simp
qed

lemma runs_weaken: "runs P m Q \<Longrightarrow> (\<And>l. P' l \<Longrightarrow> P l) \<Longrightarrow> (\<And>x l. Q x l \<Longrightarrow> Q' x l) \<Longrightarrow> runs P' m Q'"
  unfolding runs_def by blast

lemma runs_absurd: "(\<And>l. \<not> P l) \<Longrightarrow> runs P m Q"
  by (simp add: runs_def)

lemma runs_check: "(\<And>l. P l \<Longrightarrow> ok) \<Longrightarrow> runs P (io_check ok e) (\<lambda>_. P)"
  by (auto simp: io_check_def runs_def io_ret_def)

lemma runs_syscall:
  assumes "\<And>l. P l \<Longrightarrow> \<exists>x l'. f l = Some (x, l') \<and> Q x l'"
  shows "runs P (syscall f partial) Q"
  using assms by (fastforce simp: runs_def syscall_def next_fault_def)

section \<open>One component\<close>

text \<open>
  The three states of a component: still in place, moved away, and replaced. \<open>N\<close> and \<open>O\<close> give
  the new and the old contents of the targets.
\<close>

type_synonym contents = "path \<Rightarrow> path \<Rightarrow> node option"

definition op_moved :: "contents \<Rightarrow> contents \<Rightarrow> journal_op \<Rightarrow> files \<Rightarrow> bool" where
  "op_moved N O' oper l \<longleftrightarrow> at l (joStaged oper) = None \<and> sub l (joTarget oper) = N (joTarget oper) \<and>
     (O' (joTarget oper) [] \<noteq> None \<longrightarrow> sub l (joBackup oper) = O' (joTarget oper))"

definition op_state :: "contents \<Rightarrow> contents \<Rightarrow> journal_op \<Rightarrow> files \<Rightarrow> bool" where
  "op_state N O' oper l \<longleftrightarrow> op_moved N O' oper l \<or>
     sub l (joStaged oper) = N (joTarget oper) \<and> sub l (joTarget oper) = O' (joTarget oper) \<and> at l (joBackup oper) = None \<or>
     sub l (joStaged oper) = N (joTarget oper) \<and> at l (joTarget oper) = None \<and> sub l (joBackup oper) = O' (joTarget oper) \<and>
       O' (joTarget oper) [] \<noteq> None"

definition op_apart :: "journal_op \<Rightarrow> bool" where
  "op_apart oper \<longleftrightarrow> indep (joStaged oper) (joTarget oper) \<and> indep (joStaged oper) (joBackup oper) \<and> indep (joTarget oper) (joBackup oper)"

definition sound_contents :: "contents \<Rightarrow> contents \<Rightarrow> journal_op \<Rightarrow> bool" where
  "sound_contents N O' oper \<longleftrightarrow> N (joTarget oper) [] \<notin> {None, Some Sym} \<and> O' (joTarget oper) [] \<noteq> Some Sym"

definition stable_moves :: "(files \<Rightarrow> bool) \<Rightarrow> journal_op \<Rightarrow> bool" where
  "stable_moves F oper \<longleftrightarrow> (\<forall>l. F l \<longrightarrow> F (move (joTarget oper) (joBackup oper) l) \<and> F (move (joStaged oper) (joTarget oper) l))"

lemma Lstat_hoare: "(\<And>l. P l \<Longrightarrow> R l) \<Longrightarrow> hoare P (Lstat p) (\<lambda>n l. at l p = n \<and> P l) R"
  unfolding Lstat_def by (rule hoare_syscall) auto

lemma Lstat_runs: "runs P (Lstat p) (\<lambda>n l. at l p = n \<and> P l)"
  unfolding Lstat_def by (rule runs_syscall) auto

lemma sub_at: "sub l p = f \<Longrightarrow> at l p = f []"
  using sub_Nil [of l p] by simp

lemma move_away:
  assumes "op_apart oper" "sub l (joStaged oper) = N (joTarget oper)" "sub l (joTarget oper) = O' (joTarget oper)"
    "O' (joTarget oper) [] \<noteq> None"
  shows "sub (move (joTarget oper) (joBackup oper) l) (joStaged oper) = N (joTarget oper) \<and>
    at (move (joTarget oper) (joBackup oper) l) (joTarget oper) = None \<and>
    sub (move (joTarget oper) (joBackup oper) l) (joBackup oper) = O' (joTarget oper)"
  using assms sub_move(1,2) [of "joTarget oper" "joBackup oper" l] sub_move(3) [of "joTarget oper" "joBackup oper" "joStaged oper" l]
  by (auto simp: op_apart_def dest: sub_at)

lemma move_in:
  assumes "op_apart oper" "sub l (joStaged oper) = N (joTarget oper)"
    "O' (joTarget oper) [] \<noteq> None \<Longrightarrow> sub l (joBackup oper) = O' (joTarget oper)"
  shows "op_moved N O' oper (move (joStaged oper) (joTarget oper) l)"
  using assms sub_move(1,2) [of "joStaged oper" "joTarget oper" l] sub_move(3) [of "joStaged oper" "joTarget oper" "joBackup oper" l]
  by (auto simp: op_apart_def op_moved_def indep_sym dest: sub_at)

text \<open>
  The files before the second rename: the staged contents are there and the target is free.
\<close>

definition op_ready :: "contents \<Rightarrow> contents \<Rightarrow> journal_op \<Rightarrow> files \<Rightarrow> bool" where
  "op_ready N O' oper l \<longleftrightarrow> sub l (joStaged oper) = N (joTarget oper) \<and> at l (joTarget oper) = None \<and>
     (O' (joTarget oper) [] \<noteq> None \<longrightarrow> sub l (joBackup oper) = O' (joTarget oper)) \<and> op_state N O' oper l"

lemma rename_in:
  assumes "op_apart oper" "sound_contents N O' oper" "stable_moves F oper"
  shows "hoare (\<lambda>l. op_ready N O' oper l \<and> F l) (Rename (joStaged oper) (joTarget oper)) (\<lambda>_ l. op_moved N O' oper l \<and> F l)
      (\<lambda>l. op_state N O' oper l \<and> F l)"
    and "runs (\<lambda>l. op_ready N O' oper l \<and> F l) (Rename (joStaged oper) (joTarget oper)) (\<lambda>_ l. op_moved N O' oper l \<and> F l)"
proof -
  have step: "op_moved N O' oper (move (joStaged oper) (joTarget oper) l) \<and> F (move (joStaged oper) (joTarget oper) l)"
    if "op_ready N O' oper l \<and> F l" for l
    using that move_in [OF assms(1)] assms(3) by (auto simp: op_ready_def stable_moves_def)
  show "hoare (\<lambda>l. op_ready N O' oper l \<and> F l) (Rename (joStaged oper) (joTarget oper)) (\<lambda>_ l. op_moved N O' oper l \<and> F l)
      (\<lambda>l. op_state N O' oper l \<and> F l)"
    unfolding Rename_def by (rule hoare_syscall) (use step in \<open>auto simp: op_ready_def split: if_splits\<close>)
  show "runs (\<lambda>l. op_ready N O' oper l \<and> F l) (Rename (joStaged oper) (joTarget oper)) (\<lambda>_ l. op_moved N O' oper l \<and> F l)"
    unfolding Rename_def
  proof (rule runs_syscall)
    fix l assume l: "op_ready N O' oper l \<and> F l"
    then have "at l (joStaged oper) \<noteq> None" "at l (joTarget oper) = None"
      using assms(2) by (auto simp: op_ready_def sound_contents_def dest: sub_at)
    with step [OF l] show "\<exists>x l'. (if at l (joStaged oper) = None \<or> is_dir (at l (joTarget oper)) \<or> is_dir (at l (joStaged oper)) \<and> at l (joTarget oper) \<noteq> None
         then None else Some ((), move (joStaged oper) (joTarget oper) l)) = Some (x, l') \<and> op_moved N O' oper l' \<and> F l'"
      by (simp add: is_dir_def)
  qed
qed

text \<open>
  The step before: a target that exists is moved away, unless there is a backup already.
\<close>

definition clear_target :: "journal_op \<Rightarrow> node option \<Rightarrow> unit io" where
  "clear_target oper target = (if target \<noteq> None then io_bind (Lstat (joBackup oper)) (\<lambda>backup.
     if backup = None then Rename (joTarget oper) (joBackup oper) else io_ret ()) else io_ret ())"

lemma clear_target:
  assumes "op_apart oper" "sound_contents N O' oper" "stable_moves F oper"
  defines "P \<equiv> \<lambda>t l. at l (joTarget oper) = t \<and> at l (joStaged oper) \<noteq> None \<and> op_state N O' oper l \<and> F l"
  shows "hoare (P t) (clear_target oper t) (\<lambda>_ l. op_ready N O' oper l \<and> F l) (\<lambda>l. op_state N O' oper l \<and> F l)"
    and "runs (P t) (clear_target oper t) (\<lambda>_ l. op_ready N O' oper l \<and> F l)"
proof -
  have absent: "op_ready N O' oper l \<and> F l" if "P None l" for l
    using that by (auto simp: P_def op_ready_def op_state_def op_moved_def dest: sub_at)
  have old: "at l (joBackup oper) = None \<and> sub l (joStaged oper) = N (joTarget oper) \<and> sub l (joTarget oper) = O' (joTarget oper) \<and>
      O' (joTarget oper) [] \<noteq> None" if "P (Some n) l" for n l
    using that by (auto simp: P_def op_state_def op_moved_def dest: sub_at)
  have away: "op_ready N O' oper (move (joTarget oper) (joBackup oper) l) \<and> F (move (joTarget oper) (joBackup oper) l)"
    if "P (Some n) l" for n l
    using old [OF that] that move_away [OF assms(1), of l N O'] assms(3)
    by (auto simp: P_def op_ready_def op_state_def stable_moves_def)
  let ?mid = "\<lambda>n b l. at l (joBackup oper) = b \<and> P (Some n) l"
  have rename: "hoare (?mid n None) (Rename (joTarget oper) (joBackup oper)) (\<lambda>_ l. op_ready N O' oper l \<and> F l) (\<lambda>l. op_state N O' oper l \<and> F l)"
    for n unfolding Rename_def by (rule hoare_syscall) (use away in \<open>auto simp: P_def split: if_splits\<close>)
  have rename_runs: "runs (?mid n None) (Rename (joTarget oper) (joBackup oper)) (\<lambda>_ l. op_ready N O' oper l \<and> F l)" for n
    unfolding Rename_def by (rule runs_syscall) (use away old in \<open>auto simp: is_dir_def P_def\<close>)
  show "hoare (P t) (clear_target oper t) (\<lambda>_ l. op_ready N O' oper l \<and> F l) (\<lambda>l. op_state N O' oper l \<and> F l)"
  proof (cases t)
    case None
    with absent show ?thesis by (auto simp: clear_target_def intro!: hoare_ret)
  next
    case (Some n)
    have "hoare (?mid n b) (if b = None then Rename (joTarget oper) (joBackup oper) else io_ret ())
        (\<lambda>_ l. op_ready N O' oper l \<and> F l) (\<lambda>l. op_state N O' oper l \<and> F l)" for b
      using rename [of n] old by (cases b) (auto intro!: hoare_ret)
    with Some show ?thesis
      unfolding clear_target_def by (auto intro!: hoare_bind [OF Lstat_hoare] simp: P_def)
  qed
  show "runs (P t) (clear_target oper t) (\<lambda>_ l. op_ready N O' oper l \<and> F l)"
  proof (cases t)
    case None
    with absent show ?thesis by (auto simp: clear_target_def intro!: runs_ret)
  next
    case (Some n)
    have "runs (?mid n b) (if b = None then Rename (joTarget oper) (joBackup oper) else io_ret ()) (\<lambda>_ l. op_ready N O' oper l \<and> F l)" for b
      using rename_runs [of n] old by (cases b) (auto intro!: runs_ret)
    with Some show ?thesis
      unfolding clear_target_def by (auto intro!: runs_bind [OF Lstat_runs])
  qed
qed

lemma replaceOperation_split:
  "replaceOperation oper = io_bind (Lstat (joStaged oper)) (\<lambda>staged. io_bind (Lstat (joTarget oper)) (\<lambda>target.
     if target = Some Sym then io_err ErrUnsafePath
     else if staged = None then (if target \<noteq> None then io_ret () else io_err ErrCorrupt)
     else io_bind (clear_target oper target) (\<lambda>_. Rename (joStaged oper) (joTarget oper))))"
  unfolding replaceOperation_def clear_target_def ..

lemma replaceOperation:
  assumes "op_apart oper" "sound_contents N O' oper" "stable_moves F oper"
  shows "hoare (\<lambda>l. op_state N O' oper l \<and> F l) (replaceOperation oper) (\<lambda>_ l. op_moved N O' oper l \<and> F l) (\<lambda>l. op_state N O' oper l \<and> F l)"
    and "runs (\<lambda>l. op_state N O' oper l \<and> F l) (replaceOperation oper) (\<lambda>_ l. op_moved N O' oper l \<and> F l)"
proof -
  let ?I = "\<lambda>l. op_state N O' oper l \<and> F l" and ?Q = "\<lambda>_ l. op_moved N O' oper l \<and> F l"
  let ?P = "\<lambda>s t l. at l (joTarget oper) = t \<and> at l (joStaged oper) = s \<and> ?I l"
  let ?m = "\<lambda>s t. if t = Some Sym then io_err ErrUnsafePath
     else if s = None then (if t \<noteq> None then io_ret () else io_err ErrCorrupt)
     else io_bind (clear_target oper t) (\<lambda>_. Rename (joStaged oper) (joTarget oper))"
  have moved: "op_moved N O' oper l \<and> F l \<and> at l (joTarget oper) \<noteq> None" if "?P None t l" for t l
    using that assms(2) by (auto simp: op_state_def sound_contents_def op_moved_def dest: sub_at)
  have nosym: "t \<noteq> Some Sym" if "?P s t l" for s t l
    using that assms(2) by (auto simp: op_state_def sound_contents_def op_moved_def dest: sub_at)
  have "hoare (?P s t) (?m s t) ?Q ?I" for s t
  proof (cases s)
    case None
    with moved show ?thesis by (auto intro!: hoare_ret hoare_err)
  next
    case (Some n)
    have "hoare (?P s t) (io_bind (clear_target oper t) (\<lambda>_. Rename (joStaged oper) (joTarget oper))) ?Q ?I"
      by (rule hoare_bind [OF hoare_weaken [OF clear_target(1) [OF assms]] rename_in(1) [OF assms]]) (use Some in auto)
    with Some show ?thesis by (auto intro!: hoare_err)
  qed
  then show "hoare ?I (replaceOperation oper) ?Q ?I"
    unfolding replaceOperation_split by (intro hoare_bind [OF Lstat_hoare]) (auto intro: hoare_weaken)
  have "runs (?P s t) (?m s t) ?Q" for s t
  proof (cases s)
    case None
    show ?thesis
    proof (cases "t = Some Sym \<or> t = None")
      case True
      with None have "\<not> ?P s t l" for l using moved [of l t] nosym [of l t s] by auto
      then show ?thesis by (rule runs_absurd)
    next
      case False
      with None moved show ?thesis by (auto intro!: runs_ret)
    qed
  next
    case (Some n)
    have "runs (?P s t) (io_bind (clear_target oper t) (\<lambda>_. Rename (joStaged oper) (joTarget oper))) ?Q"
      by (rule runs_bind [OF runs_weaken [OF clear_target(2) [OF assms]] rename_in(2) [OF assms]]) (use Some in auto)
    moreover have "runs (?P s t) m ?Q" if "t = Some Sym" for m :: "unit io"
      using nosym [of _ t s] that by (intro runs_absurd) auto
    ultimately show ?thesis using Some by auto
  qed
  then show "runs ?I (replaceOperation oper) ?Q"
    unfolding replaceOperation_split by (intro runs_bind [OF Lstat_runs]) (auto intro: runs_weaken)
qed

section \<open>Writing the journal\<close>

lemma write_new:
  assumes "\<And>l c. I l \<Longrightarrow> I ((p, Reg mode c) # l)"
  shows "hoare I (write_new p mode b) (\<lambda>_ l. I l \<and> at l p = Some (Reg mode b)) I"
proof -
  let ?J = "\<lambda>c l. I l \<and> at l p = Some (Reg mode c)"
  have "hoare I (OpenExcl p mode) (\<lambda>_. ?J []) I"
    unfolding OpenExcl_def by (rule hoare_syscall) (auto split: if_splits intro: assms)
  moreover have "hoare (?J []) (WriteBytes p b) (\<lambda>_. ?J b) I"
    unfolding WriteBytes_def by (rule hoare_syscall) (auto simp: put_bytes_def intro: assms)
  moreover have "hoare (?J b) Flush (\<lambda>_. ?J b) I"
    unfolding Flush_def by (rule hoare_syscall) auto
  ultimately show ?thesis
    unfolding write_new_def by (intro hoare_bind)
qed

lemma write_new_runs:
  assumes "\<And>l c. I l \<Longrightarrow> I ((p, Reg mode c) # l)" "\<And>l. I l \<Longrightarrow> is_dir (at l (butlast p))"
  shows "runs (\<lambda>l. I l \<and> at l p = None) (write_new p mode b) (\<lambda>_ l. I l \<and> at l p = Some (Reg mode b))"
proof -
  let ?J = "\<lambda>c l. I l \<and> at l p = Some (Reg mode c)"
  have "runs (\<lambda>l. I l \<and> at l p = None) (OpenExcl p mode) (\<lambda>_. ?J [])"
    unfolding OpenExcl_def by (rule runs_syscall) (auto intro: assms)
  moreover have "runs (?J []) (WriteBytes p b) (\<lambda>_. ?J b)"
    unfolding WriteBytes_def by (rule runs_syscall) (auto simp: put_bytes_def intro: assms)
  moreover have "runs (?J b) Flush (\<lambda>_. ?J b)"
    unfolding Flush_def by (rule runs_syscall) auto
  ultimately show ?thesis
    unfolding write_new_def by (intro runs_bind)
qed

definition tmp_of :: "path \<Rightarrow> path" where
  "tmp_of jp = butlast jp @ [last jp @ ''.tmp'']"

text \<open>
  The surroundings of the journal \<open>jp\<close>: its directory exists and the temporary name is no directory.
\<close>

definition journal_env :: "path \<Rightarrow> files \<Rightarrow> bool" where
  "journal_env jp l \<longleftrightarrow> is_dir (at l (butlast jp)) \<and> \<not> is_dir (at l (tmp_of jp))"

definition journal_is :: "path \<Rightarrow> bytes \<Rightarrow> files \<Rightarrow> bool" where
  "journal_is jp b l \<longleftrightarrow> (\<exists>mode. at l jp = Some (Reg mode b))"

definition unaware :: "path list \<Rightarrow> (files \<Rightarrow> bool) \<Rightarrow> bool" where
  "unaware ps G \<longleftrightarrow> (\<forall>l l'. (\<forall>q. (\<forall>p\<in>set ps. \<not> inside p q) \<longrightarrow> at l' q = at l q) \<longrightarrow> G l \<longrightarrow> G l')"

lemma unawareD:
  "unaware ps G \<Longrightarrow> G l \<Longrightarrow> (\<And>q. (\<And>p. p \<in> set ps \<Longrightarrow> \<not> inside p q) \<Longrightarrow> at l' q = at l q) \<Longrightarrow> G l'"
  unfolding unaware_def by blast

lemma inside_refl [simp]: "inside p p"
  by (simp add: inside_def)

lemma journal_names:
  assumes "jp \<noteq> []"
  shows "indep (tmp_of jp) jp" "tmp_of jp \<noteq> jp" "butlast jp \<noteq> tmp_of jp" "butlast jp \<noteq> jp" "butlast (tmp_of jp) = butlast jp"
    "\<not> inside jp (butlast jp)" "\<not> inside (tmp_of jp) (butlast jp)" "\<not> inside jp (tmp_of jp)"
proof -
  obtain d n where jp: "jp = d @ [n]" using assms by (metis append_butlast_last_id)
  show "indep (tmp_of jp) jp" "tmp_of jp \<noteq> jp" "butlast jp \<noteq> tmp_of jp" "butlast jp \<noteq> jp" "butlast (tmp_of jp) = butlast jp"
    "\<not> inside jp (butlast jp)" "\<not> inside (tmp_of jp) (butlast jp)" "\<not> inside jp (tmp_of jp)"
    by (simp_all add: jp tmp_of_def indep_def inside_def)
qed

lemma at_filter_neq: "at (filter (\<lambda>(q, _). q \<noteq> p) l) q = (if q = p then None else at l q)"
  by (induction l) auto

lemma writeJournal:
  assumes "jp \<noteq> []" "unaware [jp, tmp_of jp] G"
  defines "I \<equiv> \<lambda>b l. journal_env jp l \<and> G l \<and> journal_is jp b l"
  shows "hoare (I b0) (writeJournal w jp j) (\<lambda>_. I (wEncode w j)) (I b0)"
    and "runs (I b0) (writeJournal w jp j) (\<lambda>_. I (wEncode w j))"
proof -
  note names = journal_names [OF assms(1)]
  let ?t = "tmp_of jp" and ?b = "wEncode w j"
  have G: "G l'" if "G l" "\<And>q. \<not> inside jp q \<Longrightarrow> \<not> inside ?t q \<Longrightarrow> at l' q = at l q" for l l'
    using unawareD [OF assms(2) that(1)] that(2) by simp
  have touch: "I b ((?t, Reg 384 c) # l)" if "I b l" for b l c
  proof -
    have "G l" using that by (simp add: I_def)
    then have "G ((?t, Reg 384 c) # l)" by (rule G) (metis inside_refl map_of_Cons_code(2))
    with that names show ?thesis by (auto simp: I_def journal_env_def journal_is_def is_dir_def)
  qed
  have del: "I b (filter (\<lambda>(q, _). q \<noteq> ?t) l)" if "I b l" for b l
  proof -
    have "G l" using that by (simp add: I_def)
    then have "G (filter (\<lambda>(q, _). q \<noteq> ?t) l)" by (rule G) (metis inside_refl at_filter_neq)
    with that names show ?thesis by (auto simp: I_def journal_env_def journal_is_def at_filter_neq is_dir_def)
  qed
  have ren: "I ?b (move ?t jp l)" if "I b0 l" "at l ?t = Some (Reg 384 ?b)" for l
  proof -
    have "at (move ?t jp l) q = at l q" if "\<not> inside jp q" "\<not> inside ?t q" for q
      using that names(1) by (simp add: at_move)
    moreover have "G l" using that by (simp add: I_def)
    ultimately have "G (move ?t jp l)" using G by blast
    with that names show ?thesis
      by (auto simp: I_def journal_env_def journal_is_def at_move is_dir_def)
  qed
  have h1: "hoare (I b0) (io_ignore (Remove ?t)) (\<lambda>_. I b0) (I b0)"
    unfolding Remove_def by (rule hoare_ignore, rule hoare_syscall) (auto split: if_splits intro: del)
  have h2: "hoare (I b0) (writeJSON (wEncode w) ?t j) (\<lambda>_ l. I b0 l \<and> at l ?t = Some (Reg 384 ?b)) (I b0)"
    unfolding writeJSON_def by (rule write_new) (rule touch)
  have h3: "hoare (\<lambda>l. I b0 l \<and> at l ?t = Some (Reg 384 ?b)) (Rename ?t jp) (\<lambda>_. I ?b) (I b0)"
    unfolding Rename_def by (rule hoare_syscall) (auto split: if_splits intro: ren)
  show "hoare (I b0) (writeJournal w jp j) (\<lambda>_. I ?b) (I b0)"
    unfolding writeJournal_def Let_def tmp_of_def [symmetric] by (rule hoare_bind [OF h1 hoare_bind [OF h2 h3]])
  have r1: "runs (I b0) (io_ignore (Remove ?t)) (\<lambda>_ l. I b0 l \<and> at l ?t = None)"
  proof -
    have "\<exists>s'. io_ignore (Remove ?t) s = (Ret (), s') \<and> syFaults s' = [] \<and> I b0 (syFiles s') \<and> at (syFiles s') ?t = None"
      if "I b0 (syFiles s)" "syFaults s = []" for s
    proof (cases "at (syFiles s) ?t = None")
      case False
      moreover have "\<not> is_dir (at (syFiles s) ?t)" using that(1) by (simp add: I_def journal_env_def)
      ultimately show ?thesis
        using that del by (auto simp: io_ignore_def Remove_def syscall_def next_fault_def at_filter_neq)
    qed (use that in \<open>auto simp: io_ignore_def Remove_def syscall_def next_fault_def\<close>)
    then show ?thesis by (auto simp: runs_def)
  qed
  have r2: "runs (\<lambda>l. I b0 l \<and> at l ?t = None) (writeJSON (wEncode w) ?t j) (\<lambda>_ l. I b0 l \<and> at l ?t = Some (Reg 384 ?b))"
    unfolding writeJSON_def by (rule write_new_runs) (use touch names(5) in \<open>auto simp: I_def journal_env_def\<close>)
  have r3: "runs (\<lambda>l. I b0 l \<and> at l ?t = Some (Reg 384 ?b)) (Rename ?t jp) (\<lambda>_. I ?b)"
    unfolding Rename_def by (rule runs_syscall) (use ren in \<open>auto simp: I_def journal_is_def is_dir_def\<close>)
  show "runs (I b0) (writeJournal w jp j) (\<lambda>_. I ?b)"
    unfolding writeJournal_def Let_def tmp_of_def [symmetric] by (rule runs_bind [OF r1 runs_bind [OF r2 r3]])
qed

section \<open>Applying the journal\<close>

definition slots :: "journal_op \<Rightarrow> path list" where
  "slots oper = [joStaged oper, joTarget oper, joBackup oper]"

text \<open>
  All names that a restore uses are unrelated.
\<close>

definition all_apart :: "path \<Rightarrow> journal_op list \<Rightarrow> bool" where
  "all_apart jp ops \<longleftrightarrow> sorted_wrt indep (concat (map slots ops) @ [jp, tmp_of jp])"

definition plain :: "journal_op list \<Rightarrow> journal_op list" where
  "plain ops = map (joDone_update (\<lambda>_. False)) ops"

definition journal_ops :: "world \<Rightarrow> path \<Rightarrow> journal \<Rightarrow> journal_op list \<Rightarrow> files \<Rightarrow> bool" where
  "journal_ops w jp j ops l \<longleftrightarrow> (\<exists>b. journal_is jp b l \<and> wDecode w b = Some (j\<lparr>jlOperations := ops\<rparr>))"

definition in_progress :: "world \<Rightarrow> path \<Rightarrow> journal \<Rightarrow> contents \<Rightarrow> contents \<Rightarrow> journal_op list \<Rightarrow> journal_op list \<Rightarrow> files \<Rightarrow> bool" where
  "in_progress w jp j N O' before rest l \<longleftrightarrow> journal_env jp l \<and> journal_ops w jp j (before @ rest) l \<and>
     (\<forall>oper\<in>set before. op_moved N O' oper l) \<and> (\<forall>oper\<in>set rest. op_state N O' oper l \<and> (joDone oper \<longrightarrow> op_moved N O' oper l))"

definition finished :: "path \<Rightarrow> contents \<Rightarrow> contents \<Rightarrow> journal_op list \<Rightarrow> files \<Rightarrow> bool" where
  "finished jp N O' ops l \<longleftrightarrow> at l jp = None \<and> (\<forall>oper\<in>set ops. op_moved N O' oper l)"

lemma op_moved_frame:
  assumes "\<And>p. p \<in> set (slots oper) \<Longrightarrow> sub l' p = sub l p"
  shows "op_moved N O' oper l' = op_moved N O' oper l" "op_state N O' oper l' = op_state N O' oper l"
  using assms [of "joStaged oper"] assms [of "joTarget oper"] assms [of "joBackup oper"]
    sub_Nil [of l "joStaged oper"] sub_Nil [of l' "joStaged oper"] sub_Nil [of l "joTarget oper"] sub_Nil [of l' "joTarget oper"]
    sub_Nil [of l "joBackup oper"] sub_Nil [of l' "joBackup oper"]
  by (simp_all add: op_moved_def op_state_def slots_def)

lemma at_frame_move:
  assumes "a \<in> set (slots oper)" "b \<in> set (slots oper)" "op_apart oper" "a \<noteq> b" "\<And>q. q \<in> set (slots oper) \<Longrightarrow> \<not> inside q p"
  shows "at (move a b l) p = at l p"
proof -
  have "indep a b" using assms(1-4) by (auto simp: slots_def op_apart_def indep_sym)
  with assms show ?thesis by (auto simp: at_move)
qed

lemma stable_movesI:
  assumes "op_apart oper" "\<And>l l'. F l \<Longrightarrow> (\<And>p. (\<And>q. q \<in> set (slots oper) \<Longrightarrow> \<not> inside q p) \<Longrightarrow> at l' p = at l p) \<Longrightarrow> F l'"
  shows "stable_moves F oper"
proof -
  have ne: "joTarget oper \<noteq> joBackup oper" "joStaged oper \<noteq> joTarget oper"
    using assms(1) by (auto simp: op_apart_def indep_def)
  show ?thesis unfolding stable_moves_def
    using assms(2) at_frame_move [of "joTarget oper" oper "joBackup oper"] at_frame_move [of "joStaged oper" oper "joTarget oper"] ne assms(1)
    by (simp add: slots_def)
qed

lemma sub_frame:
  assumes "\<And>p. (\<And>q. q \<in> Q \<Longrightarrow> \<not> inside q p) \<Longrightarrow> at l' p = at l p" "\<And>q. q \<in> Q \<Longrightarrow> indep q p"
  shows "sub l' p = sub l p"
  using assms indep_inside [of p _ "p @ _"] by (auto simp: sub_def fun_eq_iff indep_sym)

lemma all_apartD:
  assumes "all_apart jp (before @ oper # rest)"
  shows "op_apart oper"
    and "\<And>o' p q. o' \<in> set before \<union> set rest \<Longrightarrow> p \<in> set (slots o') \<Longrightarrow> q \<in> set (slots oper) \<Longrightarrow> indep q p"
    and "\<And>q. q \<in> set (slots oper) \<Longrightarrow> indep q jp \<and> indep q (tmp_of jp)"
  using assms by (auto simp: all_apart_def sorted_wrt_append slots_def op_apart_def indep_sym)

lemma all_apart_journal: "all_apart jp ops \<Longrightarrow> oper \<in> set ops \<Longrightarrow> q \<in> set (slots oper) \<Longrightarrow> indep jp q \<and> indep (tmp_of jp) q"
  using indep_sym [of q jp] indep_sym [of q "tmp_of jp"] by (auto simp: all_apart_def sorted_wrt_append)

lemma hoare_ex:
  assumes "\<And>b. hoare (P b) m Q R"
  shows "hoare (\<lambda>l. \<exists>b. P b l) m Q R"
  unfolding hoare_def
proof (intro allI impI, elim exE)
  fix s :: sys and b assume "P b (syFiles s)"
  with assms [of b] show "case m s of (Ret x, s') \<Rightarrow> Q x (syFiles s') | (_, s') \<Rightarrow> R (syFiles s')" unfolding hoare_def by simp
qed

lemma runs_ex: "(\<And>b. runs (P b) m Q) \<Longrightarrow> runs (\<lambda>l. \<exists>b. P b l) m Q"
  unfolding runs_def by blast

lemma op_done_simps [simp]:
  "op_moved N O' (oper\<lparr>joDone := d\<rparr>) = op_moved N O' oper" "op_state N O' (oper\<lparr>joDone := d\<rparr>) = op_state N O' oper"
  "slots (oper\<lparr>joDone := d\<rparr>) = slots oper" "sound_contents N O' (oper\<lparr>joDone := d\<rparr>) = sound_contents N O' oper"
  by (auto simp: op_moved_def op_state_def slots_def sound_contents_def fun_eq_iff)

lemma plain_done: "plain (before @ oper\<lparr>joDone := d\<rparr> # rest) = plain (before @ oper # rest)"
  by (simp add: plain_def)

definition resumable :: "world \<Rightarrow> path \<Rightarrow> journal \<Rightarrow> contents \<Rightarrow> contents \<Rightarrow> journal_op list \<Rightarrow> files \<Rightarrow> bool" where
  "resumable w jp j N O' ops l \<longleftrightarrow> (\<exists>ops'. plain ops' = plain ops \<and> in_progress w jp j N O' [] ops' l)"

lemma in_progress_resumable: "in_progress w jp j N O' before rest l \<Longrightarrow> resumable w jp j N O' (before @ rest) l"
  unfolding resumable_def in_progress_def by (rule exI [of _ "before @ rest"]) (auto simp: op_state_def)

text \<open>
  The rest of the state while one component is replaced, and while the journal is written.
\<close>

definition others :: "contents \<Rightarrow> contents \<Rightarrow> journal_op list \<Rightarrow> journal_op list \<Rightarrow> files \<Rightarrow> bool" where
  "others N O' before rest l \<longleftrightarrow> (\<forall>oper\<in>set before. op_moved N O' oper l) \<and>
     (\<forall>oper\<in>set rest. op_state N O' oper l \<and> (joDone oper \<longrightarrow> op_moved N O' oper l))"

lemma others_frame:
  assumes "others N O' before rest l" "\<And>o' p. o' \<in> set before \<union> set rest \<Longrightarrow> p \<in> set (slots o') \<Longrightarrow> sub l' p = sub l p"
  shows "others N O' before rest l'"
proof -
  have "op_moved N O' o' l' = op_moved N O' o' l" "op_state N O' o' l' = op_state N O' o' l" if "o' \<in> set before \<union> set rest" for o'
    using op_moved_frame [of o' l' l N O'] assms(2) [OF that] by auto
  with assms(1) show ?thesis unfolding others_def by auto
qed

lemma others_stable:
  assumes "all_apart jp (before @ oper # rest)" "jp \<noteq> []"
  shows "stable_moves (\<lambda>l. journal_env jp l \<and> journal_is jp b l \<and> others N O' before rest l) oper"
proof (rule stable_movesI)
  note apart = all_apartD [OF assms(1)]
  show "op_apart oper" by (rule apart(1))
  fix l l'
  assume l: "journal_env jp l \<and> journal_is jp b l \<and> others N O' before rest l"
    and frame: "\<And>p. (\<And>q. q \<in> set (slots oper) \<Longrightarrow> \<not> inside q p) \<Longrightarrow> at l' p = at l p"
  have out: "\<not> inside q (butlast jp)" "\<not> inside q jp" "\<not> inside q (tmp_of jp)" if "q \<in> set (slots oper)" for q
    using apart(3) [OF that] assms(2) by (auto simp: indep_def inside_iff) (metis append.assoc append_butlast_last_id)
  have "others N O' before rest l'"
  proof (rule others_frame)
    show "others N O' before rest l" using l by simp
    fix o' p assume "o' \<in> set before \<union> set rest" "p \<in> set (slots o')"
    then show "sub l' p = sub l p" using apart(2) frame by (intro sub_frame [of "set (slots oper)"]) blast+
  qed
  moreover have "at l' (butlast jp) = at l (butlast jp)" "at l' jp = at l jp" "at l' (tmp_of jp) = at l (tmp_of jp)"
    using out frame by auto
  ultimately show "journal_env jp l' \<and> journal_is jp b l' \<and> others N O' before rest l'"
    using l by (simp add: journal_env_def journal_is_def)
qed

lemma others_unaware:
  assumes "all_apart jp (before @ rest)"
  shows "unaware [jp, tmp_of jp] (others N O' before rest)"
  unfolding unaware_def
proof (intro allI impI)
  fix l l' assume frame: "\<forall>q. (\<forall>p\<in>set [jp, tmp_of jp]. \<not> inside p q) \<longrightarrow> at l' q = at l q" and "others N O' before rest l"
  show "others N O' before rest l'"
  proof (rule others_frame)
    show "others N O' before rest l" by fact
    fix o' p assume o': "o' \<in> set before \<union> set rest" "p \<in> set (slots o')"
    then have "indep q p" if "q \<in> set [jp, tmp_of jp]" for q
      using all_apart_journal [OF assms, of o' p] that by auto
    then show "sub l' p = sub l p" using frame by (intro sub_frame [of "set [jp, tmp_of jp]"]) blast+
  qed
qed

definition decodes :: "world \<Rightarrow> journal \<Rightarrow> journal_op list \<Rightarrow> bool" where
  "decodes w j ops \<longleftrightarrow> (\<forall>ops'. plain ops' = plain ops \<longrightarrow> wDecode w (wEncode w (j\<lparr>jlOperations := ops'\<rparr>)) = Some (j\<lparr>jlOperations := ops'\<rparr>))"

lemma in_progress_others:
  "in_progress w jp j N O' before rest l \<longleftrightarrow>
     (\<exists>b. wDecode w b = Some (j\<lparr>jlOperations := before @ rest\<rparr>) \<and> journal_env jp l \<and> journal_is jp b l \<and> others N O' before rest l)"
  by (auto simp: in_progress_def journal_ops_def others_def)

lemma last_step:
  assumes "jp \<noteq> []" "all_apart jp before"
  shows "hoare (in_progress w jp j N O' before []) (Remove jp) (\<lambda>_. finished jp N O' before) (resumable w jp j N O' before)"
    and "runs (in_progress w jp j N O' before []) (Remove jp) (\<lambda>_. finished jp N O' before)"
proof -
  have fin: "finished jp N O' before (filter (\<lambda>(q, _). q \<noteq> jp) l)" if "in_progress w jp j N O' before [] l" for l
  proof -
    have "others N O' before [] (filter (\<lambda>(q, _). q \<noteq> jp) l)"
    proof (rule unawareD [OF others_unaware])
      show "all_apart jp (before @ [])" using assms(2) by simp
      show "others N O' before [] l" using that by (auto simp: in_progress_others)
    qed (metis at_filter_neq inside_refl list.set_intros(1))
    then show ?thesis by (simp add: finished_def others_def at_filter_neq)
  qed
  have res: "resumable w jp j N O' before l" if "in_progress w jp j N O' before [] l" for l
    using in_progress_resumable [OF that] by simp
  show "hoare (in_progress w jp j N O' before []) (Remove jp) (\<lambda>_. finished jp N O' before) (resumable w jp j N O' before)"
    unfolding Remove_def by (rule hoare_syscall) (use fin res in \<open>auto split: if_splits\<close>)
  show "runs (in_progress w jp j N O' before []) (Remove jp) (\<lambda>_. finished jp N O' before)"
    unfolding Remove_def by (rule runs_syscall) (use fin in \<open>auto simp: in_progress_others journal_is_def is_dir_def\<close>)
qed

lemma one_step:
  assumes "jp \<noteq> []" "all_apart jp (before @ oper # rest)" "sound_contents N O' oper" "decodes w j (before @ oper # rest)"
    and "\<not> joDone oper"
  defines "m \<equiv> io_bind (replaceOperation oper) (\<lambda>_. writeJournal w jp (j\<lparr>jlOperations := before @ oper\<lparr>joDone := True\<rparr> # rest\<rparr>))"
  shows "hoare (in_progress w jp j N O' before (oper # rest)) m (\<lambda>_. in_progress w jp j N O' (before @ [oper\<lparr>joDone := True\<rparr>]) rest)
      (resumable w jp j N O' (before @ oper # rest))"
    and "runs (in_progress w jp j N O' before (oper # rest)) m (\<lambda>_. in_progress w jp j N O' (before @ [oper\<lparr>joDone := True\<rparr>]) rest)"
proof -
  let ?j = "j\<lparr>jlOperations := before @ oper\<lparr>joDone := True\<rparr> # rest\<rparr>"
  let ?ok = "\<lambda>b. wDecode w b = Some (j\<lparr>jlOperations := before @ oper # rest\<rparr>)"
  let ?F = "\<lambda>b l. journal_env jp l \<and> journal_is jp b l \<and> others N O' before rest l"
  let ?G = "others N O' (before @ [oper]) rest"
  let ?I = "\<lambda>b l. journal_env jp l \<and> ?G l \<and> journal_is jp b l"
  have apart: "all_apart jp ((before @ [oper]) @ rest)" using assms(2) by simp
  note rep = replaceOperation [OF all_apartD(1) [OF assms(2)] assms(3) others_stable [OF assms(2,1)]]
  note wr = writeJournal [OF assms(1) others_unaware [OF apart], of N O' _ w ?j]
  have pre: "(in_progress w jp j N O' before (oper # rest) l) = (\<exists>b. ?ok b \<and> op_state N O' oper l \<and> ?F b l)" for l
    using assms(5) by (auto simp: in_progress_others others_def)
  have mid: "op_moved N O' oper l \<and> ?F b l \<Longrightarrow> ?I b l" for b l by (auto simp: others_def)
  have fail: "resumable w jp j N O' (before @ oper # rest) l" if "?ok b" "op_state N O' oper l" "?F b l" for b l
    using that by (intro in_progress_resumable) (auto simp: pre)
  have post: "in_progress w jp j N O' (before @ [oper\<lparr>joDone := True\<rparr>]) rest l" if "?I (wEncode w ?j) l" for l
    using that assms(4) plain_done [of before _ oper rest]
    by (auto simp: in_progress_others decodes_def others_def)
  have moved_fail: "resumable w jp j N O' (before @ oper # rest) l" if "?ok b" "?I b l" for b l
    using that by (intro fail [OF that(1)]) (auto simp: others_def op_state_def)
  have "hoare (\<lambda>l. \<exists>b. ?ok b \<and> op_state N O' oper l \<and> ?F b l) m (\<lambda>_. in_progress w jp j N O' (before @ [oper\<lparr>joDone := True\<rparr>]) rest)
      (resumable w jp j N O' (before @ oper # rest))"
  proof (rule hoare_ex)
    fix b
    show "hoare (\<lambda>l. ?ok b \<and> op_state N O' oper l \<and> ?F b l) m (\<lambda>_. in_progress w jp j N O' (before @ [oper\<lparr>joDone := True\<rparr>]) rest)
        (resumable w jp j N O' (before @ oper # rest))"
    proof (cases "?ok b")
      case True
      show ?thesis unfolding m_def
      proof (rule hoare_bind)
        show "hoare (\<lambda>l. ?ok b \<and> op_state N O' oper l \<and> ?F b l) (replaceOperation oper) (\<lambda>_. ?I b) (resumable w jp j N O' (before @ oper # rest))"
          by (rule hoare_weaken [OF rep(1) [of b]]) (use True mid fail [OF True] in auto)
        show "hoare (?I b) (writeJournal w jp ?j) (\<lambda>_. in_progress w jp j N O' (before @ [oper\<lparr>joDone := True\<rparr>]) rest)
            (resumable w jp j N O' (before @ oper # rest))"
          by (rule hoare_weaken [OF wr(1) [of b]]) (use post moved_fail [OF True] in auto)
      qed
    qed (simp add: hoare_def)
  qed
  then show "hoare (in_progress w jp j N O' before (oper # rest)) m (\<lambda>_. in_progress w jp j N O' (before @ [oper\<lparr>joDone := True\<rparr>]) rest)
      (resumable w jp j N O' (before @ oper # rest))" by (rule hoare_weaken) (auto simp: pre)
  have "runs (\<lambda>l. \<exists>b. op_state N O' oper l \<and> ?F b l) m (\<lambda>_. in_progress w jp j N O' (before @ [oper\<lparr>joDone := True\<rparr>]) rest)"
  proof (rule runs_ex)
    fix b
    show "runs (\<lambda>l. op_state N O' oper l \<and> ?F b l) m (\<lambda>_. in_progress w jp j N O' (before @ [oper\<lparr>joDone := True\<rparr>]) rest)"
      unfolding m_def
      by (rule runs_bind [OF runs_weaken [OF rep(2) [of b]] runs_weaken [OF wr(2) [of b]]]) (use mid post in auto)
  qed
  then show "runs (in_progress w jp j N O' before (oper # rest)) m (\<lambda>_. in_progress w jp j N O' (before @ [oper\<lparr>joDone := True\<rparr>]) rest)"
    by (rule runs_weaken) (auto simp: pre)
qed

lemma apply_from:
  assumes "jp \<noteq> []"
  shows "all_apart jp (before @ rest) \<Longrightarrow> (\<forall>oper\<in>set rest. sound_contents N O' oper) \<Longrightarrow> decodes w j (before @ rest) \<Longrightarrow>
    hoare (in_progress w jp j N O' before rest) (apply_from w jp j before rest)
      (\<lambda>_ l. \<exists>ops. plain ops = plain (before @ rest) \<and> finished jp N O' ops l) (resumable w jp j N O' (before @ rest)) \<and>
    runs (in_progress w jp j N O' before rest) (apply_from w jp j before rest)
      (\<lambda>_ l. \<exists>ops. plain ops = plain (before @ rest) \<and> finished jp N O' ops l)"
proof (induction rest arbitrary: before)
  case Nil
  then have "all_apart jp before" by simp
  note last = last_step [OF assms this, of w j N O']
  show ?case
    by (intro conjI, simp_all) (rule hoare_weaken [OF last(1)] runs_weaken [OF last(2)]; auto)+
next
  case (Cons oper rest)
  let ?Q = "\<lambda>_ l. \<exists>ops. plain ops = plain (before @ oper # rest) \<and> finished jp N O' ops l"
  let ?R = "resumable w jp j N O' (before @ oper # rest)"
  show ?case
  proof (cases "joDone oper")
    case True
    have step: "in_progress w jp j N O' before (oper # rest) l \<Longrightarrow> in_progress w jp j N O' (before @ [oper]) rest l" for l
      using True by (auto simp: in_progress_def)
    have "hoare (in_progress w jp j N O' (before @ [oper]) rest) (apply_from w jp j (before @ [oper]) rest) ?Q ?R \<and>
        runs (in_progress w jp j N O' (before @ [oper]) rest) (apply_from w jp j (before @ [oper]) rest) ?Q"
      using Cons.IH [of "before @ [oper]"] Cons.prems by simp
    with True step show ?thesis by (auto intro: hoare_weaken runs_weaken)
  next
    case False
    let ?o = "oper\<lparr>joDone := True\<rparr>"
    have same: "plain (before @ ?o # rest) = plain (before @ oper # rest)" by (rule plain_done)
    have "all_apart jp (before @ ?o # rest)" "decodes w j (before @ ?o # rest)"
      using Cons.prems(1,3) same by (simp_all add: all_apart_def decodes_def)
    moreover have "resumable w jp j N O' (before @ ?o # rest) = ?R"
      by (simp add: resumable_def fun_eq_iff same)
    ultimately have ih: "hoare (in_progress w jp j N O' (before @ [?o]) rest) (apply_from w jp j (before @ [?o]) rest) ?Q ?R \<and>
        runs (in_progress w jp j N O' (before @ [?o]) rest) (apply_from w jp j (before @ [?o]) rest) ?Q"
      using Cons.IH [of "before @ [?o]"] Cons.prems(2) same by simp
    have unfold: "apply_from w jp j before (oper # rest) =
        io_bind (io_bind (replaceOperation oper) (\<lambda>_. writeJournal w jp (j\<lparr>jlOperations := before @ ?o # rest\<rparr>)))
          (\<lambda>_. apply_from w jp j (before @ [?o]) rest)"
      using False by (simp add: Let_def io_bind_assoc)
    have sound: "sound_contents N O' oper" using Cons.prems(2) by simp
    note step = one_step [OF assms Cons.prems(1) sound Cons.prems(3) False]
    show ?thesis unfolding unfold
      by (intro conjI hoare_bind [OF step(1)] runs_bind [OF step(2)]) (use ih in auto)
  qed
qed

section \<open>Recovery\<close>

text \<open>
  The state between a written journal and the end: \<^verbatim>\<open>Recover\<close> keeps it under all faults and reaches
  the end without faults.
\<close>

definition restoring :: "world \<Rightarrow> path \<Rightarrow> journal \<Rightarrow> contents \<Rightarrow> contents \<Rightarrow> files \<Rightarrow> bool" where
  "restoring w jp j N O' l \<longleftrightarrow> resumable w jp j N O' (jlOperations j) l \<or> finished jp N O' (jlOperations j) l"

definition journal_sound :: "world \<Rightarrow> path \<Rightarrow> journal \<Rightarrow> contents \<Rightarrow> contents \<Rightarrow> bool" where
  "journal_sound w jp j N O' \<longleftrightarrow> jlVersion j = formatVersion \<and> all_apart jp (jlOperations j) \<and>
     (\<forall>oper\<in>set (jlOperations j). sound_contents N O' oper) \<and> decodes w j (jlOperations j)"

lemma plain_parts:
  assumes "plain ops = plain ops'"
  shows "all_apart jp ops = all_apart jp ops'" "(\<forall>oper\<in>set ops. op_moved N O' oper l) = (\<forall>oper\<in>set ops'. op_moved N O' oper l)"
    "(\<forall>oper\<in>set ops. sound_contents N O' oper) = (\<forall>oper\<in>set ops'. sound_contents N O' oper)"
proof -
  have slots: "map slots ops = map slots (plain ops)" for ops by (induction ops) (auto simp: plain_def)
  have ex: "(\<forall>oper\<in>set ops. P oper) = (\<forall>oper\<in>set (plain ops). P oper)" if "\<And>oper d. P (oper\<lparr>joDone := d\<rparr>) = P oper" for P ops
    using that by (auto simp: plain_def)
  show "all_apart jp ops = all_apart jp ops'" using slots [of ops] slots [of ops'] assms by (simp add: all_apart_def)
  show "(\<forall>oper\<in>set ops. op_moved N O' oper l) = (\<forall>oper\<in>set ops'. op_moved N O' oper l)"
    using ex [of "\<lambda>oper. op_moved N O' oper l" ops] ex [of "\<lambda>oper. op_moved N O' oper l" ops'] assms by simp
  show "(\<forall>oper\<in>set ops. sound_contents N O' oper) = (\<forall>oper\<in>set ops'. sound_contents N O' oper)"
    using ex [of "sound_contents N O'" ops] ex [of "sound_contents N O'" ops'] assms by simp
qed

lemma finished_plain: "plain ops = plain ops' \<Longrightarrow> finished jp N O' ops l \<Longrightarrow> finished jp N O' ops' l"
  using plain_parts(2) [of ops ops' N O' l] unfolding finished_def by blast

lemma applyJournal:
  assumes "jp \<noteq> []" "journal_sound w jp j N O'" "plain ops = plain (jlOperations j)"
  shows "hoare (in_progress w jp j N O' [] ops) (applyJournal w jp (j\<lparr>jlOperations := ops\<rparr>)) (\<lambda>_. finished jp N O' (jlOperations j)) (restoring w jp j N O')"
    and "runs (in_progress w jp j N O' [] ops) (applyJournal w jp (j\<lparr>jlOperations := ops\<rparr>)) (\<lambda>_. finished jp N O' (jlOperations j))"
proof -
  have same: "apply_from w jp (j\<lparr>jlOperations := ops\<rparr>) before rest = apply_from w jp j before rest" for before rest
    by (induction rest arbitrary: before) (simp_all add: Let_def)
  have eq: "applyJournal w jp (j\<lparr>jlOperations := ops\<rparr>) = apply_from w jp j [] ops"
    by (simp add: applyJournal_def same)
  have "all_apart jp ([] @ ops)" "\<forall>oper\<in>set ops. sound_contents N O' oper" "decodes w j ([] @ ops)"
    using assms(2,3) plain_parts [OF assms(3)] by (auto simp: journal_sound_def decodes_def)
  note run = apply_from [OF assms(1) this]
  have fin: "\<exists>ops'. plain ops' = plain ([] @ ops) \<and> finished jp N O' ops' l \<Longrightarrow> finished jp N O' (jlOperations j) l" for l
  proof (elim exE conjE)
    fix l ops' assume "plain ops' = plain ([] @ ops)" "finished jp N O' ops' l"
    with assms(3) show "finished jp N O' (jlOperations j) l" using finished_plain [of ops' "jlOperations j"] by simp
  qed
  show "hoare (in_progress w jp j N O' [] ops) (applyJournal w jp (j\<lparr>jlOperations := ops\<rparr>)) (\<lambda>_. finished jp N O' (jlOperations j)) (restoring w jp j N O')"
    unfolding eq
    by (rule hoare_weaken [OF conjunct1 [OF run]]) (use fin assms(3) in \<open>auto simp: restoring_def resumable_def\<close>)
  show "runs (in_progress w jp j N O' [] ops) (applyJournal w jp (j\<lparr>jlOperations := ops\<rparr>)) (\<lambda>_. finished jp N O' (jlOperations j))"
    unfolding eq
    by (rule runs_weaken [OF conjunct2 [OF run]]) (use fin in auto)
qed

end
