(* ===== verification/State_Props.thy ===== *)
theory State_Props
  imports State_Journal
begin

text \<open>
  A restore is all or nothing: what holds of the live state after \<^verbatim>\<open>Restore\<close> and any number of
  interrupted \<^verbatim>\<open>Recover\<close> runs.
\<close>

section \<open>Recovery\<close>

lemma ReadFile_hoare:
  "hoare P (ReadFile p) (\<lambda>r l. P l \<and> r = (case at l p of Some (Reg _ b) \<Rightarrow> Some b | _ \<Rightarrow> None) \<and> (at l p = None \<or> is_reg (at l p))) P"
  unfolding ReadFile_def by (rule hoare_syscall) (auto simp: is_reg_def split: option.splits node.splits)

lemma ReadFile_runs:
  assumes "\<And>l. P l \<Longrightarrow> at l p = None \<or> is_reg (at l p)"
  shows "runs P (ReadFile p) (\<lambda>r l. P l \<and> r = (case at l p of Some (Reg _ b) \<Rightarrow> Some b | _ \<Rightarrow> None))"
  unfolding ReadFile_def
  by (rule runs_syscall) (use assms in \<open>fastforce simp: is_reg_def split: option.splits node.splits\<close>)

lemma journal_path_nonempty [simp]: "journal_path ps \<noteq> []"
  by (simp add: journal_path_def)

definition recover_read :: "world \<Rightarrow> path \<Rightarrow> bytes option \<Rightarrow> unit io" where
  "recover_read w jp r = (case r of
      None \<Rightarrow> io_ret ()
    | Some b \<Rightarrow> (case wDecode w b of
        None \<Rightarrow> io_err ErrCorrupt
      | Some j \<Rightarrow> if jlVersion j \<noteq> formatVersion then io_err ErrCorrupt else applyJournal w jp j))"

lemma Recover_split:
  "Recover w ps = io_bind (io_check (validatePaths ps) ErrInvalid) (\<lambda>_. io_bind (ReadFile (journal_path ps)) (recover_read w (journal_path ps)))"
  unfolding Recover_def recover_read_def ..

lemma recover_read:
  assumes "jp \<noteq> []" "journal_sound w jp j N O'"
  defines "P \<equiv> \<lambda>r l. restoring w jp j N O' l \<and> r = (case at l jp of Some (Reg _ b) \<Rightarrow> Some b | _ \<Rightarrow> None)"
  shows "hoare (P r) (recover_read w jp r) (\<lambda>_. finished jp N O' (jlOperations j)) (restoring w jp j N O')"
    and "runs (P r) (recover_read w jp r) (\<lambda>_. finished jp N O' (jlOperations j))"
proof -
  have fin: "finished jp N O' (jlOperations j) l" if "P None l" for l
    using that by (auto simp: P_def restoring_def resumable_def in_progress_def journal_ops_def journal_is_def)
  let ?C = "\<lambda>b ops l. plain ops = plain (jlOperations j) \<and> in_progress w jp j N O' [] ops l \<and> wDecode w b = Some (j\<lparr>jlOperations := ops\<rparr>)"
  have some: "\<exists>ops. ?C b ops l" if "P (Some b) l" for b l
    using that by (auto simp: P_def restoring_def finished_def resumable_def in_progress_def journal_ops_def journal_is_def)
  have version: "jlVersion (j\<lparr>jlOperations := ops\<rparr>) = formatVersion" for ops
    using assms(2) by (simp add: journal_sound_def)
  have h: "hoare (?C b ops) (recover_read w jp (Some b)) (\<lambda>_. finished jp N O' (jlOperations j)) (restoring w jp j N O')"
    and rn: "runs (?C b ops) (recover_read w jp (Some b)) (\<lambda>_. finished jp N O' (jlOperations j))" for b ops
  proof -
    have "hoare (?C b ops) (recover_read w jp (Some b)) (\<lambda>_. finished jp N O' (jlOperations j)) (restoring w jp j N O') \<and>
        runs (?C b ops) (recover_read w jp (Some b)) (\<lambda>_. finished jp N O' (jlOperations j))"
    proof (cases "plain ops = plain (jlOperations j) \<and> wDecode w b = Some (j\<lparr>jlOperations := ops\<rparr>)")
      case True
      note app = applyJournal [OF assms(1,2) conjunct1 [OF True]]
      have "recover_read w jp (Some b) = applyJournal w jp (j\<lparr>jlOperations := ops\<rparr>)"
        using True version by (simp add: recover_read_def)
      then show ?thesis using hoare_weaken [OF app(1), of "?C b ops"] runs_weaken [OF app(2), of "?C b ops"] by auto
    qed (auto simp: hoare_def runs_def)
    then show "hoare (?C b ops) (recover_read w jp (Some b)) (\<lambda>_. finished jp N O' (jlOperations j)) (restoring w jp j N O')"
      "runs (?C b ops) (recover_read w jp (Some b)) (\<lambda>_. finished jp N O' (jlOperations j))" by auto
  qed
  show "hoare (P r) (recover_read w jp r) (\<lambda>_. finished jp N O' (jlOperations j)) (restoring w jp j N O')"
  proof (cases r)
    case None
    with fin show ?thesis by (auto simp: recover_read_def intro!: hoare_ret)
  next
    case (Some b)
    show ?thesis unfolding Some by (rule hoare_weaken [OF hoare_ex [of "?C b"], OF h]) (use some in auto)
  qed
  show "runs (P r) (recover_read w jp r) (\<lambda>_. finished jp N O' (jlOperations j))"
  proof (cases r)
    case None
    with fin show ?thesis by (auto simp: recover_read_def intro!: runs_ret)
  next
    case (Some b)
    show ?thesis unfolding Some by (rule runs_weaken [OF runs_ex [of "?C b"], OF rn]) (use some in auto)
  qed
qed

lemma restoring_journal: "restoring w jp j N O' l \<Longrightarrow> at l jp = None \<or> is_reg (at l jp)"
  by (auto simp: restoring_def resumable_def in_progress_def journal_ops_def journal_is_def finished_def is_reg_def)

lemma Recover:
  assumes "journal_sound w (journal_path ps) j N O'"
  shows "hoare (restoring w (journal_path ps) j N O') (Recover w ps) (\<lambda>_. finished (journal_path ps) N O' (jlOperations j))
      (restoring w (journal_path ps) j N O')"
    and "validatePaths ps \<Longrightarrow> runs (restoring w (journal_path ps) j N O') (Recover w ps) (\<lambda>_. finished (journal_path ps) N O' (jlOperations j))"
proof -
  note rd = recover_read [OF journal_path_nonempty assms]
  show "hoare (restoring w (journal_path ps) j N O') (Recover w ps) (\<lambda>_. finished (journal_path ps) N O' (jlOperations j))
      (restoring w (journal_path ps) j N O')"
    unfolding Recover_split
    by (rule hoare_bind [OF hoare_check], assumption, rule hoare_bind [OF hoare_weaken [OF ReadFile_hoare] rd(1)]) auto
  show "runs (restoring w (journal_path ps) j N O') (Recover w ps) (\<lambda>_. finished (journal_path ps) N O' (jlOperations j))"
    if "validatePaths ps"
    unfolding Recover_split
    by (rule runs_bind [OF runs_check], use that in simp, rule runs_bind [OF ReadFile_runs rd(2)], rule restoring_journal)
qed

section \<open>Reading\<close>

text \<open>
  A step that only reads leaves the files alone, whatever happens.
\<close>

definition reads :: "'a io \<Rightarrow> (files \<Rightarrow> 'a \<Rightarrow> bool) \<Rightarrow> bool" where
  "reads m Q \<longleftrightarrow> (\<forall>l. hoare (\<lambda>l'. l' = l) m (\<lambda>x l'. l' = l \<and> Q l x) (\<lambda>l'. l' = l))"

lemma reads_iff:
  "reads m Q \<longleftrightarrow> (\<forall>s r s'. m s = (r, s') \<longrightarrow> syFiles s' = syFiles s \<and> (\<forall>x. r = Ret x \<longrightarrow> Q (syFiles s) x))"
proof -
  have "(case m s of (Ret x, s') \<Rightarrow> syFiles s' = syFiles s \<and> Q (syFiles s) x | (_, s') \<Rightarrow> syFiles s' = syFiles s) \<longleftrightarrow>
      (\<forall>r s'. m s = (r, s') \<longrightarrow> syFiles s' = syFiles s \<and> (\<forall>x. r = Ret x \<longrightarrow> Q (syFiles s) x))" for s
    by (cases "m s"; cases "fst (m s)") auto
  then show ?thesis by (simp add: reads_def hoare_def)
qed

lemma readsD: "reads m Q \<Longrightarrow> m s = (r, s') \<Longrightarrow> syFiles s' = syFiles s \<and> (\<forall>x. r = Ret x \<longrightarrow> Q (syFiles s) x)"
  by (simp add: reads_iff)

lemma reads_bind:
  assumes "reads m Q" "\<And>x. reads (f x) (Q' x)"
  shows "reads (io_bind m f) (\<lambda>l y. \<exists>x. Q l x \<and> Q' x l y)"
  unfolding reads_iff
proof (intro allI impI)
  fix s s' :: sys and r assume run: "io_bind m f s = (r, s')"
  obtain r1 s1 where m: "m s = (r1, s1)" by fastforce
  show "syFiles s' = syFiles s \<and> (\<forall>y. r = Ret y \<longrightarrow> (\<exists>x. Q (syFiles s) x \<and> Q' x (syFiles s) y))"
  proof (cases r1)
    case (Ret x)
    with run m have "f x s1 = (r, s')" by (simp add: io_bind_def)
    with readsD [OF assms(1) m] readsD [OF assms(2) [of x], of s1 r s'] Ret show ?thesis by auto
  qed (use run m readsD [OF assms(1) m] in \<open>auto simp: io_bind_def\<close>)
qed

lemma reads_weaken: "reads m Q \<Longrightarrow> (\<And>l x. Q l x \<Longrightarrow> Q' l x) \<Longrightarrow> reads m Q'"
  by (simp add: reads_iff)

lemma reads_simps:
  "reads (io_ret x) (\<lambda>l y. y = x)" "reads (io_err e) (\<lambda>_ _. False)" "reads (io_check ok e) (\<lambda>_ _. ok)"
  "reads (Lstat p) (\<lambda>l n. n = at l p)"
  by (auto simp: reads_iff io_check_def io_ret_def io_err_def Lstat_def syscall_def next_fault_def split: list.splits fault.splits)

lemma reads_existing: "reads (read_existing p) (\<lambda>l b. \<exists>mode. at l p = Some (Reg mode b))"
  unfolding read_existing_def
proof (rule reads_weaken, rule reads_bind)
  show "reads (ReadFile p) (\<lambda>l r. r = (case at l p of Some (Reg _ b) \<Rightarrow> Some b | _ \<Rightarrow> None))"
    unfolding reads_def by (intro allI hoare_weaken [OF ReadFile_hoare]) auto
  show "reads (case r of None \<Rightarrow> io_err ErrOS | Some b \<Rightarrow> io_ret b) (\<lambda>l b. r = Some b)" for r
    by (cases r) (auto intro: reads_weaken [OF reads_simps(1)] reads_weaken [OF reads_simps(2)])
qed (auto split: option.splits node.splits)

lemma reads_private: "reads (privateRegular p) (\<lambda>l n. True)" "reads (privateDir p) (\<lambda>_ _. True)"
  unfolding privateRegular_def privateDir_def
  by (rule reads_weaken, rule reads_bind, rule reads_simps(4), rule reads_weaken [of _ "\<lambda>_ _. True"];
      auto split: option.splits node.splits intro: reads_weaken [OF reads_simps(1)] reads_weaken [OF reads_simps(2)])+

text \<open>
  What a verified entry is: a file of the bundle with the recorded SHA-256.
\<close>

definition verified :: "world \<Rightarrow> path \<Rightarrow> file_entry \<Rightarrow> files \<Rightarrow> bool" where
  "verified w root e l \<longleftrightarrow> (\<exists>mode b. at l (join_entry root e) = Some (Reg mode b) \<and> EncodeToString (wSha w b) = feSHA256 e)"

lemma reads_verifyEntry: "reads (verifyEntry w root e) (\<lambda>l _. verified w root e l)"
proof (cases "entry_path (fePath e)")
  case None
  then show ?thesis by (auto simp: verifyEntry_def intro: reads_weaken [OF reads_simps(2)])
next
  case (Some rel)
  let ?m = "\<lambda>n. io_bind (io_check (int n = feSize e) ErrCorrupt) (\<lambda>_. io_bind (hashFile w (root @ rel)) (\<lambda>h. io_check (h = feSHA256 e) ErrCorrupt))"
  have m: "reads (?m n) (\<lambda>l _. verified w root e l)" for n
    unfolding hashFile_def
    by (rule reads_weaken, rule reads_bind, rule reads_simps, rule reads_bind, rule reads_bind, rule reads_existing, rule reads_simps, rule reads_simps)
      (use Some in \<open>auto simp: verified_def join_entry_def\<close>)
  show ?thesis unfolding reads_iff
  proof (intro allI impI)
    fix s s' :: sys and r assume run: "verifyEntry w root e s = (r, s')"
    obtain r1 s1 where priv: "privateRegular (root @ rel) s = (r1, s1)" by fastforce
    have "syFiles s1 = syFiles s" using readsD [OF reads_private(1) priv] by simp
    with run priv Some readsD [OF m, of _ s1 r s'] show "syFiles s' = syFiles s \<and> (\<forall>x. r = Ret x \<longrightarrow> verified w root e (syFiles s))"
      by (cases r1) (auto simp: verifyEntry_def)
  qed
qed

lemma reads_verify_all: "reads (verify_all w root es) (\<lambda>l _. \<forall>e\<in>set es. verified w root e l)"
proof (induction es)
  case (Cons e es)
  show ?case by (simp, rule reads_weaken, rule reads_bind, rule reads_verifyEntry, rule Cons.IH) simp
qed (auto intro: reads_weaken [OF reads_simps(1)])

definition verified_bundle :: "world \<Rightarrow> path \<Rightarrow> manifest \<Rightarrow> files \<Rightarrow> bool" where
  "verified_bundle w bundle m l \<longleftrightarrow> verified w bundle (mfDatabase m) l \<and> verified w bundle (mfSSH m) l \<and> (\<forall>e\<in>set (mfKV m). verified w bundle e l)"

lemma reads_identity: "reads (identityInfo w p) (\<lambda>_ _. True)"
  unfolding identityInfo_def
  by (rule reads_weaken, rule reads_bind, rule reads_existing, rule reads_weaken [of _ "\<lambda>_ _. True"])
    (auto split: option.splits intro: reads_weaken [OF reads_simps(1)] reads_weaken [OF reads_simps(2)])

lemma reads_verifyBundle: "reads (verifyBundle w bundle m key) (\<lambda>l _. verified_bundle w bundle m l)"
  unfolding verifyBundle_def
  by (rule reads_weaken, rule reads_bind, rule reads_verifyEntry, rule reads_bind, rule reads_verifyEntry, rule reads_bind, rule reads_verify_all,
      rule reads_bind, rule reads_identity, rule reads_bind, rule reads_existing, rule reads_simps) (auto simp: verified_bundle_def)

lemma reads_manifest: "reads (readManifest w bundle) (\<lambda>_ _. True)"
  unfolding readManifest_def
  by (rule reads_weaken, rule reads_bind, rule reads_private, rule reads_bind, rule reads_simps, rule reads_bind, rule reads_existing,
      rule reads_weaken [of _ "\<lambda>_ _. True"])
    (auto split: option.splits intro: reads_weaken [OF reads_simps(2)] reads_weaken [OF reads_bind [OF reads_simps(3) reads_simps(1)]])

lemma reads_check_bundle: "reads (check_bundle w bundle ps key) (\<lambda>l m. validatePaths ps \<and> verified_bundle w bundle m l)"
proof -
  have path: "reads (validateBundlePath bundle) (\<lambda>_ _. True)"
    unfolding reads_iff
  proof (intro allI impI)
    fix s s' :: sys and r assume run: "validateBundlePath bundle s = (r, s')"
    obtain r1 s1 where st: "Lstat bundle s = (r1, s1)" by fastforce
    from run st readsD [OF reads_simps(4) st] show "syFiles s' = syFiles s \<and> (\<forall>x. r = Ret x \<longrightarrow> True)"
      by (cases "blank_path bundle") (auto simp: validateBundlePath_def io_bind_def io_check_def io_ret_def io_err_def split: outcome.splits option.splits node.splits)
  qed
  have last: "reads (case r of (fp, typ) \<Rightarrow> io_bind (io_check (fp = mfSSHFingerprint m \<and> typ = mfSSHKeyType m) ErrCorrupt) (\<lambda>_. io_ret m)) (\<lambda>_ y. y = m)" for r m
    by (cases r) (auto intro: reads_weaken [OF reads_bind [OF reads_simps(3) reads_simps(1)]])
  show ?thesis unfolding check_bundle_def
    by (rule reads_weaken, rule reads_bind, rule path, rule reads_bind, rule reads_private, rule reads_bind, rule reads_simps, rule reads_bind,
        rule reads_simps, rule reads_bind, rule reads_simps, rule reads_bind, rule reads_manifest, rule reads_bind, rule reads_verifyBundle,
        rule reads_bind, rule reads_simps, rule reads_bind, rule reads_identity, rule last) auto
qed

section \<open>Staging\<close>

text \<open>
  Staging only adds entries, near the stage directory; it replaces and removes nothing.
\<close>

definition adds :: "(path \<Rightarrow> bool) \<Rightarrow> files \<Rightarrow> files \<Rightarrow> bool" where
  "adds P l l' \<longleftrightarrow> (\<forall>q. at l' q = at l q \<or> (P q \<and> at l q = None))"

lemma adds_refl [simp]: "adds P l l"
  by (simp add: adds_def)

lemma adds_trans: "adds P l1 l2 \<Longrightarrow> adds P l2 l3 \<Longrightarrow> adds P l1 l3"
  unfolding adds_def by metis

lemma adds_keeps: "adds P l l' \<Longrightarrow> at l q = Some n \<Longrightarrow> at l' q = Some n"
  unfolding adds_def by (metis option.distinct(1))

lemma adds_out: "adds P l l' \<Longrightarrow> \<not> P q \<Longrightarrow> at l' q = at l q"
  unfolding adds_def by metis

definition grows :: "(path \<Rightarrow> bool) \<Rightarrow> 'a io \<Rightarrow> ('a \<Rightarrow> files \<Rightarrow> files \<Rightarrow> bool) \<Rightarrow> bool" where
  "grows P m Q \<longleftrightarrow> (\<forall>s r s'. m s = (r, s') \<longrightarrow> adds P (syFiles s) (syFiles s') \<and> (\<forall>x. r = Ret x \<longrightarrow> Q x (syFiles s) (syFiles s')))"

lemma growsD: "grows P m Q \<Longrightarrow> m s = (r, s') \<Longrightarrow> adds P (syFiles s) (syFiles s') \<and> (\<forall>x. r = Ret x \<longrightarrow> Q x (syFiles s) (syFiles s'))"
  by (simp add: grows_def)

lemma grows_bind:
  assumes "grows P m Q" "\<And>x. grows P (f x) (Q' x)"
  shows "grows P (io_bind m f) (\<lambda>y l1 l3. \<exists>x l2. adds P l1 l2 \<and> adds P l2 l3 \<and> Q x l1 l2 \<and> Q' x y l2 l3)"
  unfolding grows_def
proof (intro allI impI)
  fix s s' :: sys and r assume run: "io_bind m f s = (r, s')"
  obtain r1 s1 where m: "m s = (r1, s1)" by fastforce
  show "adds P (syFiles s) (syFiles s') \<and>
    (\<forall>y. r = Ret y \<longrightarrow> (\<exists>x l2. adds P (syFiles s) l2 \<and> adds P l2 (syFiles s') \<and> Q x (syFiles s) l2 \<and> Q' x y l2 (syFiles s')))"
  proof (cases r1)
    case (Ret x)
    with run m have "f x s1 = (r, s')" by (simp add: io_bind_def)
    with growsD [OF assms(1) m] growsD [OF assms(2) [of x], of s1 r s'] Ret show ?thesis by (auto intro: adds_trans)
  qed (use run m growsD [OF assms(1) m] in \<open>auto simp: io_bind_def\<close>)
qed

lemma grows_weaken: "grows P m Q \<Longrightarrow> (\<And>x l l'. adds P l l' \<Longrightarrow> Q x l l' \<Longrightarrow> Q' x l l') \<Longrightarrow> grows P m Q'"
  unfolding grows_def by blast

lemma grows_reads: "reads m Q \<Longrightarrow> grows P m (\<lambda>x l l'. l' = l \<and> Q l x)"
  by (auto simp: grows_def reads_iff)

lemma grows_Mkdir: "P p \<Longrightarrow> grows P (Mkdir p mode) (\<lambda>_ l l'. is_dir (at l (butlast p)) \<and> at l' p = Some (Dir mode))"
  by (auto simp: grows_def Mkdir_def syscall_def next_fault_def adds_def split: list.splits fault.splits if_splits)

lemma grows_write_new:
  assumes "P p"
  shows "grows P (write_new p mode b) (\<lambda>_ l l'. at l' p = Some (Reg mode b))"
  unfolding grows_def
proof (intro allI impI)
  fix s s' :: sys and r assume run: "write_new p mode b s = (r, s')"
  let ?R = "adds P (syFiles s)"
  let ?J = "\<lambda>c l. ?R l \<and> at (syFiles s) p = None \<and> at l p = Some (Reg mode c)"
  have "hoare (\<lambda>l. l = syFiles s) (OpenExcl p mode) (\<lambda>_. ?J []) ?R"
    unfolding OpenExcl_def by (rule hoare_syscall) (use assms in \<open>auto simp: adds_def split: if_splits\<close>)
  moreover have put: "?J c (put_bytes p c l)" if "?J c' l" for c c' l
    using that assms by (auto simp: adds_def put_bytes_def)
  have "hoare (?J []) (WriteBytes p b) (\<lambda>_. ?J b) ?R"
    unfolding WriteBytes_def by (rule hoare_syscall) (use put in auto)
  moreover have "hoare (?J b) Flush (\<lambda>_. ?J b) ?R"
    unfolding Flush_def by (rule hoare_syscall) auto
  ultimately have "hoare (\<lambda>l. l = syFiles s) (write_new p mode b) (\<lambda>_. ?J b) ?R"
    unfolding write_new_def by (intro hoare_bind)
  with run show "?R (syFiles s') \<and> (\<forall>x. r = Ret x \<longrightarrow> at (syFiles s') p = Some (Reg mode b))"
    unfolding hoare_def by (cases r) auto
qed

lemma grows_MkdirAll_from:
  assumes "\<And>k. 0 < k \<Longrightarrow> k \<le> length cs \<Longrightarrow> P (p @ take k cs)"
  shows "grows P (MkdirAll_from p cs) (\<lambda>_ l l'. cs \<noteq> [] \<longrightarrow> is_dir (at l' (p @ cs)))"
  using assms
proof (induction cs arbitrary: p)
  case Nil
  then show ?case by (auto simp: grows_def io_ret_def)
next
  case (Cons c cs)
  have here: "P (p @ [c])" using Cons.prems [of 1] by simp
  have "P ((p @ [c]) @ take k cs)" if "0 < k" "k \<le> length cs" for k using Cons.prems [of "Suc k"] that by simp
  note ih = Cons.IH [OF this]
  have dir: "adds P l l' \<Longrightarrow> is_dir (at l q) \<Longrightarrow> is_dir (at l' q)" for l l' q
    using adds_keeps [of P l l' q] by (auto simp: is_dir_def split: option.splits)
  show ?case unfolding MkdirAll_from.simps
  proof (rule grows_weaken, rule grows_bind, rule grows_reads, rule reads_simps(4))
    fix n
    show "grows P (if is_dir n then MkdirAll_from (p @ [c]) cs else io_bind (Mkdir (p @ [c]) 448) (\<lambda>_. MkdirAll_from (p @ [c]) cs))
        (\<lambda>_ l l'. is_dir n \<and> is_dir (at l (p @ [c])) \<or> \<not> is_dir n \<or> cs \<noteq> []  \<longrightarrow> is_dir (at l' (p @ c # cs)))"
    proof (cases "is_dir n")
      case True
      have "grows P (MkdirAll_from (p @ [c]) cs) (\<lambda>_ l l'. is_dir (at l (p @ [c])) \<or> cs \<noteq> [] \<longrightarrow> is_dir (at l' (p @ c # cs)))"
        by (rule grows_weaken [OF ih], cases "cs = []") (use dir in auto)
      with True show ?thesis by auto
    next
      case False
      have "grows P (io_bind (Mkdir (p @ [c]) 448) (\<lambda>_. MkdirAll_from (p @ [c]) cs)) (\<lambda>_ l l'. is_dir (at l' (p @ c # cs)))"
        by (rule grows_weaken, rule grows_bind, rule grows_Mkdir, rule here, rule ih) (use dir in \<open>auto simp: is_dir_def dest: adds_keeps\<close>)
      with False show ?thesis by (auto intro: grows_weaken)
    qed
  qed auto
qed

definition near :: "path \<Rightarrow> path \<Rightarrow> bool" where
  "near p q \<longleftrightarrow> \<not> indep p q"

lemma near_take: "near stage (take k (stage @ r))"
  by (auto simp: near_def indep_def inside_def min_def take_append split: if_splits)

lemma near_append [simp]: "near stage (stage @ r)" "near stage stage"
  by (auto simp: near_def indep_def)

lemma grows_MkdirAll: "grows (near stage) (MkdirAll (stage @ r)) (\<lambda>_ l l'. stage @ r \<noteq> [] \<longrightarrow> is_dir (at l' (stage @ r)))"
  unfolding MkdirAll_def by (rule grows_weaken [OF grows_MkdirAll_from]) (use near_take in auto)

lemma grows_copyFile:
  assumes "r \<noteq> []"
  shows "grows (near stage) (copyFile src (stage @ r)) (\<lambda>_ l l'. \<exists>mode b. at l src = Some (Reg mode b) \<and> at l' (stage @ r) = Some (Reg 384 b))"
proof -
  have "butlast (stage @ r) = stage @ butlast r" using assms by (simp add: butlast_append)
  then have mk: "grows (near stage) (MkdirAll (butlast (stage @ r))) (\<lambda>_ _ _. True)" by (simp add: grows_weaken [OF grows_MkdirAll])
  show ?thesis unfolding copyFile_def
    by (rule grows_weaken, rule grows_bind, rule grows_reads, rule reads_existing, rule grows_bind, rule mk, rule grows_write_new)
      (auto simp: adds_def)
qed

definition copied :: "path \<Rightarrow> path \<Rightarrow> files \<Rightarrow> files \<Rightarrow> bool" where
  "copied src dst l l' \<longleftrightarrow> (\<exists>mode b. at l src = Some (Reg mode b) \<and> at l' dst = Some (Reg 384 b))"

lemma copied_later: "copied src dst l1 l2 \<Longrightarrow> adds P l2 l3 \<Longrightarrow> copied src dst l1 l3"
  by (auto simp: copied_def dest: adds_keeps)

lemma copied_earlier: "copied src dst l2 l3 \<Longrightarrow> adds P l1 l2 \<Longrightarrow> \<not> P src \<Longrightarrow> copied src dst l1 l3"
  by (auto simp: copied_def dest: adds_out)

lemma not_near: "indep bundle stage \<Longrightarrow> \<not> near stage (join_entry bundle e)"
  unfolding join_entry_def near_def using inside_both [of stage _ "bundle"]
  by (auto simp: indep_def inside_iff append_eq_append_conv2)

lemma grows_copy_kv:
  assumes "indep bundle stage"
  shows "grows (near stage) (copy_kv bundle stage es) (\<lambda>_ l l'. \<forall>e\<in>set es. copied (join_entry bundle e) (stage @ [''kv''] @ kv_rel e) l l')"
proof (induction es)
  case Nil
  then show ?case by (auto simp: grows_def io_ret_def)
next
  case (Cons e es)
  have one: "grows (near stage) (copyFile (join_entry bundle e) (stage @ [''kv''] @ kv_rel e)) (\<lambda>_. copied (join_entry bundle e) (stage @ [''kv''] @ kv_rel e))"
    unfolding copied_def by (rule grows_copyFile) simp
  show ?case unfolding copy_kv.simps
    by (rule grows_weaken, rule grows_bind, rule one, rule Cons.IH)
      (use not_near [OF assms] in \<open>auto intro: copied_later copied_earlier simp del: append_assoc append_Cons\<close>)
qed

definition staged :: "path \<Rightarrow> path \<Rightarrow> manifest \<Rightarrow> files \<Rightarrow> files \<Rightarrow> bool" where
  "staged bundle stage m l l' \<longleftrightarrow> copied (join_entry bundle (mfDatabase m)) (stage @ [''database.db'']) l l' \<and>
     copied (join_entry bundle (mfSSH m)) (stage @ [''ssh-identity'']) l l' \<and>
     (\<forall>e\<in>set (mfKV m). copied (join_entry bundle e) (stage @ [''kv''] @ kv_rel e) l l') \<and> is_dir (at l' (stage @ [''kv'']))"

lemma grows_stage:
  assumes "indep bundle stage"
  shows "grows (near stage) (stage_bundle bundle stage m) (\<lambda>_. staged bundle stage m)"
proof -
  have one: "grows (near stage) (copyFile (join_entry bundle e) (stage @ [c])) (\<lambda>_. copied (join_entry bundle e) (stage @ [c]))" for e c
    unfolding copied_def by (rule grows_copyFile) simp
  have kv: "grows (near stage) (MkdirAll (stage @ [''kv''])) (\<lambda>_ l l'. is_dir (at l' (stage @ [''kv''])))"
    by (rule grows_weaken [OF grows_MkdirAll]) simp
  note out = not_near [OF assms]
  show ?thesis unfolding stage_bundle_def
  proof (rule grows_weaken, rule grows_bind, rule one, rule grows_bind, rule one, rule grows_bind, rule grows_copy_kv [OF assms], rule kv, elim exE conjE)
    fix l1 l2 l3 l4 l5
    assume a: "adds (near stage) l1 l3" "adds (near stage) l3 l2" "adds (near stage) l3 l4" "adds (near stage) l4 l2" "adds (near stage) l4 l5" "adds (near stage) l5 l2"
      and db: "copied (join_entry bundle (mfDatabase m)) (stage @ [''database.db'']) l1 l3"
      and ssh: "copied (join_entry bundle (mfSSH m)) (stage @ [''ssh-identity'']) l3 l4"
      and es: "\<forall>e\<in>set (mfKV m). copied (join_entry bundle e) (stage @ [''kv''] @ kv_rel e) l4 l5"
      and dir: "is_dir (at l2 (stage @ [''kv'']))"
    have "copied (join_entry bundle (mfDatabase m)) (stage @ [''database.db'']) l1 l2" using copied_later [OF db a(2)] .
    moreover have "copied (join_entry bundle (mfSSH m)) (stage @ [''ssh-identity'']) l1 l2"
      using copied_earlier [OF copied_later [OF ssh a(4)] a(1) out] .
    moreover have "copied (join_entry bundle e) (stage @ [''kv''] @ kv_rel e) l1 l2" if "e \<in> set (mfKV m)" for e
      using copied_earlier [OF copied_later [OF bspec [OF es that] a(6)] adds_trans [OF a(1,3)] out] .
    ultimately show "staged bundle stage m l1 l2" using dir unfolding staged_def by blast
  qed
qed

section \<open>Restoring\<close>

definition stage_path :: "world \<Rightarrow> paths \<Rightarrow> path" where
  "stage_path w ps = butlast (ptDatabase ps) @ [''.plumtree-restore-'' @ wTemp w]"

definition restore_journal :: "world \<Rightarrow> paths \<Rightarrow> journal" where
  "restore_journal w ps = \<lparr>jlVersion = formatVersion, jlCreated = wNow w, jlOperations = restore_ops ps (stage_path w ps)\<rparr>"

definition names_apart :: "world \<Rightarrow> path \<Rightarrow> paths \<Rightarrow> bool" where
  "names_apart w bundle ps \<longleftrightarrow> sorted_wrt indep
     [ptDatabase ps, ptKVRoot ps, ptSSHIdentity ps, previous (ptDatabase ps), previous (ptKVRoot ps), previous (ptSSHIdentity ps),
      stage_path w ps, journal_path ps, tmp_of (journal_path ps), bundle]"

text \<open>
  Before the restore: no journal, no temporary journal that is a directory, no backups of an earlier
  restore, and no component is a symbolic link.
\<close>

definition fresh :: "paths \<Rightarrow> files \<Rightarrow> bool" where
  "fresh ps l \<longleftrightarrow> at l (journal_path ps) = None \<and> \<not> is_dir (at l (tmp_of (journal_path ps))) \<and>
     list_all (\<lambda>p. at l (previous p) = None \<and> at l p \<noteq> Some Sym) [ptDatabase ps, ptKVRoot ps, ptSSHIdentity ps]"

text \<open>
  The JSON form of the journal: it is read back as it was written, with any marks, and a torn
  one is rejected or complete but for the final line break.
\<close>

definition journal_json :: "world \<Rightarrow> paths \<Rightarrow> bool" where
  "journal_json w ps \<longleftrightarrow> decodes w (restore_journal w ps) (jlOperations (restore_journal w ps)) \<and>
     (\<forall>n. wDecode w (take n (wEncode w (restore_journal w ps))) \<in> {None, Some (restore_journal w ps)})"

lemma indep_append: "indep p q \<Longrightarrow> indep (p @ r) q"
  using inside_both [of p "p @ r" q] by (auto simp: indep_def inside_iff append_eq_append_conv2)

lemma not_near_inside: "indep p stage \<Longrightarrow> inside p q \<Longrightarrow> \<not> near stage q"
  using indep_append [of p stage] indep_sym [of stage] by (auto simp: near_def inside_iff)

lemma indep_siblings: "c \<noteq> d \<Longrightarrow> indep (p @ [c]) (p @ [d])"
  by (auto simp: indep_def inside_def)

lemma restore_apart:
  assumes "names_apart w bundle ps"
  shows "all_apart (journal_path ps) (restore_ops ps (stage_path w ps))"
proof -
  let ?s = "stage_path w ps"
  have s: "indep ?s p" if "p \<in> set [ptDatabase ps, ptKVRoot ps, ptSSHIdentity ps, previous (ptDatabase ps), previous (ptKVRoot ps), previous (ptSSHIdentity ps),
      journal_path ps, tmp_of (journal_path ps)]" for p
    using assms that indep_sym [of p ?s] by (auto simp: names_apart_def)
  have "indep (?s @ [c]) p \<and> indep p (?s @ [c])" if "p \<in> set [ptDatabase ps, ptKVRoot ps, ptSSHIdentity ps, previous (ptDatabase ps), previous (ptKVRoot ps), previous (ptSSHIdentity ps),
      journal_path ps, tmp_of (journal_path ps)]" for p c
    using indep_append [OF s [OF that], of "[c]"] indep_sym by blast
  moreover have "indep (?s @ [''database.db'']) (?s @ [''kv''])" "indep (?s @ [''database.db'']) (?s @ [''ssh-identity''])" "indep (?s @ [''kv'']) (?s @ [''ssh-identity''])"
    by (rule indep_siblings, simp)+
  moreover have "sorted_wrt indep [ptDatabase ps, ptKVRoot ps, ptSSHIdentity ps, previous (ptDatabase ps), previous (ptKVRoot ps), previous (ptSSHIdentity ps), journal_path ps, tmp_of (journal_path ps)]"
    using assms by (simp add: names_apart_def)
  ultimately show ?thesis
    unfolding all_apart_def restore_ops_def slots_def by (simp add: indep_sym)
qed

abbreviation components :: "paths \<Rightarrow> path list" where
  "components ps \<equiv> [ptDatabase ps, ptKVRoot ps, ptSSHIdentity ps]"

definition new_contents :: "world \<Rightarrow> paths \<Rightarrow> files \<Rightarrow> contents" where
  "new_contents w ps l p = (if p = ptDatabase ps then sub l (stage_path w ps @ [''database.db''])
     else if p = ptKVRoot ps then sub l (stage_path w ps @ [''kv'']) else sub l (stage_path w ps @ [''ssh-identity'']))"

definition untouched :: "world \<Rightarrow> paths \<Rightarrow> files \<Rightarrow> files \<Rightarrow> bool" where
  "untouched w ps l0 l \<longleftrightarrow> (\<forall>p\<in>set (components ps). sub l p = sub l0 p) \<and>
     (at l (journal_path ps) = None \<or> (\<exists>mode b. at l (journal_path ps) = Some (Reg mode b) \<and> wDecode w b = None))"

text \<open>
  The bundle's manifest is verified and \<open>l2\<close> is the result of staging it.
\<close>

definition good_stage :: "world \<Rightarrow> path \<Rightarrow> paths \<Rightarrow> files \<Rightarrow> manifest \<Rightarrow> files \<Rightarrow> bool" where
  "good_stage w bundle ps l0 m l2 \<longleftrightarrow> validatePaths ps \<and> verified_bundle w bundle m l0 \<and> staged bundle (stage_path w ps) m l0 l2 \<and>
     journal_sound w (journal_path ps) (restore_journal w ps) (new_contents w ps l2) (sub l0)"

definition committed :: "world \<Rightarrow> path \<Rightarrow> paths \<Rightarrow> files \<Rightarrow> files \<Rightarrow> bool" where
  "committed w bundle ps l0 l \<longleftrightarrow> (\<exists>m l2. good_stage w bundle ps l0 m l2 \<and>
     restoring w (journal_path ps) (restore_journal w ps) (new_contents w ps l2) (sub l0) l)"

definition complete :: "world \<Rightarrow> path \<Rightarrow> paths \<Rightarrow> files \<Rightarrow> files \<Rightarrow> bool" where
  "complete w bundle ps l0 l \<longleftrightarrow> (\<exists>m l2. good_stage w bundle ps l0 m l2 \<and>
     finished (journal_path ps) (new_contents w ps l2) (sub l0) (jlOperations (restore_journal w ps)) l)"

lemma sub_cong: "(\<And>q. inside p q \<Longrightarrow> at l' q = at l q) \<Longrightarrow> sub l' p = sub l p"
  by (auto simp: sub_def)

lemma staged_sound:
  assumes "names_apart w bundle ps" "fresh ps l0" "journal_json w ps" "staged bundle (stage_path w ps) m l0 l2"
  shows "journal_sound w (journal_path ps) (restore_journal w ps) (new_contents w ps l2) (sub l0)"
proof -
  have ne: "ptDatabase ps \<noteq> ptKVRoot ps" "ptDatabase ps \<noteq> ptSSHIdentity ps" "ptKVRoot ps \<noteq> ptSSHIdentity ps"
    using assms(1) by (auto simp: names_apart_def indep_def)
  have "sound_contents (new_contents w ps l2) (sub l0) oper" if "oper \<in> set (restore_ops ps (stage_path w ps))" for oper
    using that assms(2,4) ne
    by (auto simp: sound_contents_def restore_ops_def new_contents_def staged_def copied_def fresh_def is_dir_def split: option.splits node.splits)
  with assms(1,3) restore_apart [OF assms(1)] show ?thesis
    by (simp add: journal_sound_def restore_journal_def journal_json_def)
qed

lemma op_stateI:
  "sub l (joStaged oper) = N (joTarget oper) \<Longrightarrow> sub l (joTarget oper) = O' (joTarget oper) \<Longrightarrow> at l (joBackup oper) = None \<Longrightarrow> op_state N O' oper l"
  by (simp add: op_state_def)

lemma journal_written:
  assumes "names_apart w bundle ps" "fresh ps l0" "adds (near (stage_path w ps)) l0 l2" "is_dir (at l2 (butlast (journal_path ps)))"
    and l: "at l (journal_path ps) = Some (Reg mode b)" "\<And>q. q \<noteq> journal_path ps \<Longrightarrow> at l q = at l2 q"
    and dec: "wDecode w b = Some (restore_journal w ps)"
  shows "in_progress w (journal_path ps) (restore_journal w ps) (new_contents w ps l2) (sub l0) [] (restore_ops ps (stage_path w ps)) l"
proof -
  let ?s = "stage_path w ps" and ?jp = "journal_path ps"
  have ne: "ptDatabase ps \<noteq> ptKVRoot ps" "ptDatabase ps \<noteq> ptSSHIdentity ps" "ptKVRoot ps \<noteq> ptSSHIdentity ps"
    using assms(1) by (auto simp: names_apart_def indep_def)
  have same: "sub l p = sub l2 p" if "indep p ?jp" for p
    using that l(2) by (intro sub_cong) (metis indep_def)
  have frame: "sub l p = sub l0 p" if "indep p ?jp" "indep p ?s" for p
  proof -
    have "sub l2 p = sub l0 p" using not_near_inside [OF that(2)] adds_out [OF assms(3)] by (intro sub_cong) auto
    with same [OF that(1)] show ?thesis by simp
  qed
  have away: "indep p ?jp \<and> indep p ?s" if "p \<in> set (components ps) \<union> previous ` set (components ps)" for p
    using that assms(1) by (auto simp: names_apart_def)
  have stg: "indep (?s @ [c]) ?jp" for c using assms(1) by (auto simp: names_apart_def intro: indep_append)
  have tmp: "indep (tmp_of ?jp) ?jp \<and> indep (tmp_of ?jp) ?s" using assms(1) indep_sym by (auto simp: names_apart_def)
  have comp: "sub l p = sub l0 p" "at l (previous p) = None" if "p \<in> set (components ps)" for p
  proof -
    show "sub l p = sub l0 p" using frame away [of p] that by blast
    have "sub l (previous p) = sub l0 (previous p)" using frame away [of "previous p"] that by blast
    then have "at l (previous p) = at l0 (previous p)" by (metis sub_Nil)
    with that assms(2) show "at l (previous p) = None" by (auto simp: fresh_def)
  qed
  have new: "sub l (?s @ [c]) = sub l2 (?s @ [c])" for c by (rule same [OF stg])
  have "op_state (new_contents w ps l2) (sub l0) oper l \<and> \<not> joDone oper" if "oper \<in> set (restore_ops ps ?s)" for oper
    using that ne by (auto simp: restore_ops_def new_contents_def new comp intro!: op_stateI)
  moreover have "at l (tmp_of ?jp) = at l0 (tmp_of ?jp)" using frame [of "tmp_of ?jp"] tmp by (metis sub_Nil)
  moreover have "at l (butlast ?jp) = at l2 (butlast ?jp)" using l(2) journal_names(4) [of ?jp] by simp
  moreover have "restore_journal w ps\<lparr>jlOperations := restore_ops ps ?s\<rparr> = restore_journal w ps" by (simp add: restore_journal_def)
  ultimately show ?thesis
    using assms(2,4) l(1) dec by (simp add: in_progress_def journal_env_def journal_ops_def journal_is_def fresh_def)
qed

lemma untouched_adds:
  assumes "names_apart w bundle ps" "fresh ps l0" "adds (near (stage_path w ps)) l0 l"
  shows "untouched w ps l0 l"
proof -
  have "at l q = at l0 q" if "indep p (stage_path w ps)" "inside p q" for p q
    using adds_out [OF assms(3)] not_near_inside [OF that] by auto
  moreover have "indep p (stage_path w ps)" if "p \<in> set (journal_path ps # components ps)" for p
    using that assms(1) indep_sym by (auto simp: names_apart_def)
  moreover have "at l0 (journal_path ps) = None" using assms(2) by (simp add: fresh_def)
  moreover have "at l (journal_path ps) = at l0 (journal_path ps)" using calculation(1,2) [of "journal_path ps"] by simp
  ultimately show ?thesis unfolding untouched_def
    by (intro conjI ballI sub_cong disjI1) auto
qed

lemma at_clear: "at (clear_paths ks l) q = (if q \<in> set ks then None else at l q)"
  by (induction l) (auto simp: clear_paths_def)

lemma sub_clear: "\<forall>k\<in>set ks. inside s k \<Longrightarrow> indep p s \<Longrightarrow> sub (clear_paths ks l) p = sub l p"
  using indep_inside [of p s] by (intro sub_cong) (auto simp: at_clear)

lemma complete_clear:
  assumes "names_apart w bundle ps" "complete w bundle ps l0 l" "\<forall>k\<in>set ks. inside (stage_path w ps) k"
  shows "complete w bundle ps l0 (clear_paths ks l)"
proof -
  have away: "indep p (stage_path w ps)" if "p \<in> set (components ps) \<union> previous ` set (components ps)" for p
    using that assms(1) by (auto simp: names_apart_def)
  have "op_moved N O' oper (clear_paths ks l)" if "op_moved N O' oper l" "oper \<in> set (restore_ops ps (stage_path w ps))" for N O' oper
    using that away sub_clear [OF assms(3)] by (auto simp: op_moved_def restore_ops_def at_clear)
  with assms(2) show ?thesis
    unfolding complete_def finished_def restore_journal_def at_clear by auto blast+
qed

lemma RemoveAll_complete:
  assumes "names_apart w bundle ps"
  shows "hoare (complete w bundle ps l0) (RemoveAll (stage_path w ps)) (\<lambda>_. complete w bundle ps l0) (complete w bundle ps l0)"
  unfolding RemoveAll_def Let_def
  by (rule hoare_syscall) (auto intro!: complete_clear [OF assms] dest: in_set_takeD)

lemma write_commit:
  assumes "names_apart w bundle ps" "fresh ps l0" "journal_json w ps" "adds (near (stage_path w ps)) l0 l2"
    and stage: "validatePaths ps" "verified_bundle w bundle m l0" "staged bundle (stage_path w ps) m l0 l2" "is_dir (at l2 (butlast (journal_path ps)))"
  defines "j \<equiv> restore_journal w ps"
  shows "hoare (\<lambda>l. l = l2) (io_bind (writeJSON (wEncode w) (journal_path ps) j) (\<lambda>_. io_bind (interrupt w ph) (\<lambda>_.
      io_bind (applyJournal w (journal_path ps) j) (\<lambda>_. io_ignore (RemoveAll (stage_path w ps))))))
    (\<lambda>_. complete w bundle ps l0) (\<lambda>l. untouched w ps l0 l \<or> committed w bundle ps l0 l)"
proof -
  let ?jp = "journal_path ps" and ?N = "new_contents w ps l2"
  let ?R = "\<lambda>l. untouched w ps l0 l \<or> committed w bundle ps l0 l"
  let ?J = "\<lambda>b l. at l ?jp = Some (Reg 384 b) \<and> (\<forall>q. q \<noteq> ?jp \<longrightarrow> at l q = at l2 q)"
  have sound: "journal_sound w ?jp j ?N (sub l0)" unfolding j_def by (rule staged_sound [OF assms(1-3) stage(3)])
  have good: "good_stage w bundle ps l0 m l2" using stage sound by (simp add: good_stage_def j_def)
  have progress: "in_progress w ?jp j ?N (sub l0) [] (jlOperations j) l" if "?J b l" "wDecode w b = Some j" for b l
    using journal_written [OF assms(1,2,4) stage(4), of l 384 b] that by (auto simp: j_def restore_journal_def)
  have comm: "committed w bundle ps l0 l" if "in_progress w ?jp j ?N (sub l0) [] (jlOperations j) l" for l
    using good in_progress_resumable [OF that] by (auto simp: committed_def restoring_def j_def)
  have torn: "?R l" if "?J (take n (wEncode w j)) l" for n l
  proof (cases "wDecode w (take n (wEncode w j))")
    case None
    have "indep p ?jp" if "p \<in> set (components ps)" for p using that assms(1) by (auto simp: names_apart_def)
    then have "sub l p = sub l2 p" if "p \<in> set (components ps)" for p
      using that \<open>?J (take n (wEncode w j)) l\<close> by (intro sub_cong) (metis indep_def)
    with untouched_adds [OF assms(1,2,4)] have "sub l p = sub l0 p" if "p \<in> set (components ps)" for p
      using that by (simp only: untouched_def)
    with None that show ?thesis by (auto simp: untouched_def)
  next
    case (Some j')
    moreover have "wDecode w (take n (wEncode w j)) \<in> {None, Some j}" using assms(3) unfolding journal_json_def j_def by blast
    ultimately have "wDecode w (take n (wEncode w j)) = Some j" by simp
    with progress [OF that] comm show ?thesis by blast
  qed
  have put: "?J c (put_bytes ?jp c l)" if "?J c' l" for c c' l using that by (auto simp: put_bytes_def)
  have "hoare (\<lambda>l. l = l2) (OpenExcl ?jp 384) (\<lambda>_. ?J []) ?R"
    unfolding OpenExcl_def by (rule hoare_syscall) (use untouched_adds [OF assms(1,2,4)] in \<open>auto split: if_splits\<close>)
  moreover have "hoare (?J []) (WriteBytes ?jp (wEncode w j)) (\<lambda>_. ?J (wEncode w j)) ?R"
    unfolding WriteBytes_def by (rule hoare_syscall) (use put torn torn [of _ 0] in auto)
  moreover have "hoare (?J (wEncode w j)) Flush (\<lambda>_. ?J (wEncode w j)) ?R"
    unfolding Flush_def by (rule hoare_syscall) (use torn [of _ "length (wEncode w j)"] in auto)
  ultimately have wr: "hoare (\<lambda>l. l = l2) (writeJSON (wEncode w) ?jp j) (\<lambda>_. ?J (wEncode w j)) ?R"
    unfolding writeJSON_def write_new_def by (intro hoare_bind)
  have "wDecode w (wEncode w j) = Some j"
    using assms(3) unfolding journal_json_def decodes_def j_def [symmetric] by (metis journal.surjective journal.update_convs(3))
  then have ip: "in_progress w ?jp j ?N (sub l0) [] (jlOperations j) l" if "?J (wEncode w j) l" for l
    using progress that by blast
  have "applyJournal w ?jp (j\<lparr>jlOperations := jlOperations j\<rparr>) = applyJournal w ?jp j" by simp
  with applyJournal(1) [OF journal_path_nonempty sound refl]
  have "hoare (in_progress w ?jp j ?N (sub l0) [] (jlOperations j)) (applyJournal w ?jp j) (\<lambda>_. finished ?jp ?N (sub l0) (jlOperations j)) (restoring w ?jp j ?N (sub l0))"
    by simp
  then have ap: "hoare (in_progress w ?jp j ?N (sub l0) [] (jlOperations j)) (applyJournal w ?jp j) (\<lambda>_. complete w bundle ps l0) ?R"
  proof (rule hoare_weaken)
    show "finished ?jp ?N (sub l0) (jlOperations j) l \<Longrightarrow> complete w bundle ps l0 l" for l
      unfolding complete_def j_def using good by blast
    show "restoring w ?jp j ?N (sub l0) l \<Longrightarrow> ?R l" for l
      unfolding committed_def j_def using good by blast
  qed
  have "hoare (?J (wEncode w j)) (interrupt w ph) (\<lambda>_. in_progress w ?jp j ?N (sub l0) [] (jlOperations j)) ?R"
    unfolding interrupt_def by (rule hoare_weaken [OF hoare_check [of "?J (wEncode w j)" ?R]]) (use ip comm in blast)+
  moreover have "hoare (complete w bundle ps l0) (io_ignore (RemoveAll (stage_path w ps))) (\<lambda>_. complete w bundle ps l0) ?R"
    by (rule hoare_ignore [OF RemoveAll_complete [OF assms(1)]])
      (auto simp: complete_def committed_def restoring_def)
  ultimately show ?thesis using wr ap by (intro hoare_bind)
qed

lemma grows_hoare: "grows P m Q \<Longrightarrow> hoare (\<lambda>l. l = l1) m (\<lambda>x l. adds P l1 l \<and> Q x l1 l) (adds P l1)"
  unfolding hoare_def
proof (intro allI impI)
  fix s :: sys assume "grows P m Q" "syFiles s = l1"
  then show "case m s of (Ret x, s') \<Rightarrow> adds P l1 (syFiles s') \<and> Q x l1 (syFiles s') | (_, s') \<Rightarrow> adds P l1 (syFiles s')"
    using growsD [of P m Q s] by (cases "m s"; cases "fst (m s)") auto
qed

lemma hoareD: "hoare P m Q R \<Longrightarrow> P (syFiles s) \<Longrightarrow> m s = (r, s') \<Longrightarrow> (case r of Ret x \<Rightarrow> Q x (syFiles s') | _ \<Rightarrow> R (syFiles s'))"
  by (auto simp: hoare_def split: outcome.splits)

lemma hoare_exact: "(\<And>l. P l \<Longrightarrow> hoare (\<lambda>l'. l' = l) m Q R) \<Longrightarrow> hoare P m Q R"
  by (auto simp: hoare_def)

lemma Restore_split:
  "Restore w bundle ps key =
    io_bind (check_bundle w bundle ps key) (\<lambda>m.
    io_bind (Lstat (journal_path ps)) (\<lambda>n.
    io_bind (io_check (n = None) ErrJournalExists) (\<lambda>_.
    io_bind (io_bind (Mkdir (stage_path w ps) 448) (\<lambda>_. stage_bundle bundle (stage_path w ps) m)) (\<lambda>_.
    io_bind (writeJSON (wEncode w) (journal_path ps) (restore_journal w ps)) (\<lambda>_.
    io_bind (interrupt w ''restore-journal-written'') (\<lambda>_.
    io_bind (applyJournal w (journal_path ps) (restore_journal w ps)) (\<lambda>_. io_ignore (RemoveAll (stage_path w ps)))))))))"
  unfolding Restore_def stage_path_def restore_journal_def Let_def by (simp only: io_bind_assoc)

lemma Restore:
  assumes "names_apart w bundle ps" "fresh ps l0" "journal_json w ps"
  shows "hoare (\<lambda>l. l = l0) (Restore w bundle ps key) (\<lambda>_. complete w bundle ps l0)
    (\<lambda>l. untouched w ps l0 l \<or> committed w bundle ps l0 l)"
proof -
  let ?R = "\<lambda>l. untouched w ps l0 l \<or> committed w bundle ps l0 l" and ?s = "stage_path w ps"
  have stop: "?R l" if "adds (near ?s) l0 l" for l using untouched_adds [OF assms(1,2) that] ..
  have same: "?R l0" using stop by simp
  have out: "indep bundle ?s" using assms(1) indep_sym by (auto simp: names_apart_def)
  let ?P = "\<lambda>m l. l = l0 \<and> validatePaths ps \<and> verified_bundle w bundle m l0"
  let ?S = "\<lambda>m l. validatePaths ps \<and> verified_bundle w bundle m l0 \<and> adds (near ?s) l0 l \<and> staged bundle ?s m l0 l \<and> is_dir (at l (butlast (journal_path ps)))"
  have parent: "butlast ?s = butlast (journal_path ps)" by (simp add: stage_path_def journal_path_def)
  have check: "hoare (\<lambda>l. l = l0) (check_bundle w bundle ps key) ?P ?R"
    by (rule hoare_weaken [OF spec [OF reads_check_bundle [unfolded reads_def], of l0]]) (use same in auto)
  have look: "hoare (?P m) (Lstat (journal_path ps)) (\<lambda>_. ?P m) ?R" for m
    by (rule hoare_weaken [OF Lstat_hoare [of "?P m" ?R]]) (use same in auto)
  have free: "hoare (?P m) (io_check ok e) (\<lambda>_. ?P m) ?R" for m ok e
    by (rule hoare_weaken [OF hoare_check [of "?P m" ?R]]) (use same in auto)
  have g: "grows (near ?s) (io_bind (Mkdir ?s 448) (\<lambda>_. stage_bundle bundle ?s m))
      (\<lambda>_ l l'. \<exists>l1. adds (near ?s) l l1 \<and> adds (near ?s) l1 l' \<and> is_dir (at l (butlast ?s)) \<and> staged bundle ?s m l1 l')" for m
    by (rule grows_weaken [OF grows_bind [OF grows_Mkdir grows_stage [OF out]]]) auto
  have st: "staged bundle ?s m l0 l'" if "staged bundle ?s m l1 l'" "adds (near ?s) l0 l1" for m l1 l'
    using that not_near [OF out] unfolding staged_def by (auto intro: copied_earlier)
  have dr: "is_dir (at l' q)" if "adds (near ?s) l0 l'" "is_dir (at l0 q)" for l' q
    using that adds_keeps [OF that(1), of q] by (auto simp: is_dir_def split: option.splits)
  have base: "hoare (\<lambda>l. l = l0) (io_bind (Mkdir ?s 448) (\<lambda>_. stage_bundle bundle ?s m))
      (\<lambda>_ l. adds (near ?s) l0 l \<and> staged bundle ?s m l0 l \<and> is_dir (at l (butlast (journal_path ps)))) (adds (near ?s) l0)" for m
    by (rule hoare_weaken [OF grows_hoare [OF g [of m]]]) (use st dr parent in auto)
  have stg: "hoare (?P m) (io_bind (Mkdir ?s 448) (\<lambda>_. stage_bundle bundle ?s m)) (\<lambda>_. ?S m) ?R" for m
  proof (cases "validatePaths ps \<and> verified_bundle w bundle m l0")
    case True
    show ?thesis by (rule hoare_weaken [OF base [of m]]) (use True stop in auto)
  qed (auto simp: hoare_def)
  have commit: "hoare (?S m) (io_bind (writeJSON (wEncode w) (journal_path ps) (restore_journal w ps)) (\<lambda>_.
    io_bind (interrupt w ph) (\<lambda>_. io_bind (applyJournal w (journal_path ps) (restore_journal w ps)) (\<lambda>_. io_ignore (RemoveAll ?s)))))
      (\<lambda>_. complete w bundle ps l0) ?R" for m ph
    by (rule hoare_exact, elim conjE, rule write_commit [OF assms])
  show ?thesis unfolding Restore_split
    by (rule hoare_bind [OF check hoare_bind [OF look hoare_bind [OF free hoare_bind [OF stg commit]]]])
qed

section \<open>All or nothing\<close>

text \<open>
  Any number of recoveries, each with faults of its own.
\<close>

fun recover_runs :: "world \<Rightarrow> paths \<Rightarrow> fault list list \<Rightarrow> files \<Rightarrow> files" where
  "recover_runs w ps [] l = l"
| "recover_runs w ps (fs # fss) l = recover_runs w ps fss (syFiles (snd (Recover w ps \<lparr>syFiles = l, syFaults = fs\<rparr>)))"

definition restored_file :: "world \<Rightarrow> path \<Rightarrow> files \<Rightarrow> file_entry \<Rightarrow> path \<Rightarrow> files \<Rightarrow> bool" where
  "restored_file w bundle l0 e target l \<longleftrightarrow> (\<exists>mode b. at l0 (join_entry bundle e) = Some (Reg mode b) \<and>
     EncodeToString (wSha w b) = feSHA256 e \<and> at l target = Some (Reg 384 b))"

definition restored :: "world \<Rightarrow> path \<Rightarrow> paths \<Rightarrow> manifest \<Rightarrow> files \<Rightarrow> files \<Rightarrow> bool" where
  "restored w bundle ps m l0 l \<longleftrightarrow> restored_file w bundle l0 (mfDatabase m) (ptDatabase ps) l \<and>
     restored_file w bundle l0 (mfSSH m) (ptSSHIdentity ps) l \<and>
     (\<forall>e\<in>set (mfKV m). restored_file w bundle l0 e (ptKVRoot ps @ kv_rel e) l) \<and>
     (\<forall>p\<in>set (components ps). at l0 p \<noteq> None \<longrightarrow> sub l (previous p) = sub l0 p)"

lemma restored_fileI:
  "verified w bundle e l0 \<Longrightarrow> copied (join_entry bundle e) dst l0 l2 \<Longrightarrow> at l target = at l2 dst \<Longrightarrow> restored_file w bundle l0 e target l"
  by (auto simp: verified_def copied_def restored_file_def)

lemma complete_restored:
  assumes "names_apart w bundle ps" "complete w bundle ps l0 l"
  shows "\<exists>m. restored w bundle ps m l0 l"
proof -
  obtain m l2 where good: "good_stage w bundle ps l0 m l2"
    and fin: "finished (journal_path ps) (new_contents w ps l2) (sub l0) (jlOperations (restore_journal w ps)) l"
    using assms(2) by (auto simp: complete_def)
  have ne: "ptDatabase ps \<noteq> ptKVRoot ps" "ptDatabase ps \<noteq> ptSSHIdentity ps" "ptKVRoot ps \<noteq> ptSSHIdentity ps"
    using assms(1) by (auto simp: names_apart_def indep_def)
  let ?s = "stage_path w ps"
  have sub: "sub l (ptDatabase ps) = sub l2 (?s @ [''database.db''])" "sub l (ptKVRoot ps) = sub l2 (?s @ [''kv''])"
      "sub l (ptSSHIdentity ps) = sub l2 (?s @ [''ssh-identity''])"
      "\<forall>p\<in>set (components ps). at l0 p \<noteq> None \<longrightarrow> sub l (previous p) = sub l0 p"
    using fin ne by (simp_all add: finished_def op_moved_def restore_journal_def restore_ops_def new_contents_def)
  have "at l (ptDatabase ps) = at l2 (?s @ [''database.db''])" using sub(1) by (metis sub_Nil)
  moreover have "at l (ptSSHIdentity ps) = at l2 (?s @ [''ssh-identity''])" using sub(3) by (metis sub_Nil)
  moreover have "at l (ptKVRoot ps @ r) = at l2 (?s @ [''kv''] @ r)" for r
    using fun_cong [OF sub(2), of r] by (simp add: sub_def)
  ultimately have "restored w bundle ps m l0 l" using good sub(4)
    unfolding restored_def good_stage_def verified_bundle_def staged_def by (blast intro: restored_fileI)
  then show ?thesis ..
qed

lemma untouched_Recover:
  assumes "untouched w ps l0 (syFiles s)" "Recover w ps s = (r, s')"
  shows "syFiles s' = syFiles s"
proof -
  obtain r1 s1 where rd: "ReadFile (journal_path ps) s = (r1, s1)" by fastforce
  have "syFiles s1 = syFiles s \<and> (\<forall>b. r1 = Ret (Some b) \<longrightarrow> wDecode w b = None)"
    using hoareD [OF ReadFile_hoare [of "\<lambda>l. l = syFiles s" "journal_path ps"] _ rd] assms(1)
    by (cases r1) (auto simp: untouched_def)
  with assms(2) rd show ?thesis
    by (cases "validatePaths ps"; cases r1)
      (auto simp: Recover_split io_bind_def io_check_def io_ret_def io_err_def recover_read_def split: option.splits)
qed

lemma committed_Recover:
  assumes "committed w bundle ps l0 (syFiles s)" "Recover w ps s = (r, s')"
  shows "committed w bundle ps l0 (syFiles s')" "syFaults s = [] \<Longrightarrow> r = Ret () \<and> complete w bundle ps l0 (syFiles s')"
proof -
  let ?N = "new_contents w ps" and ?j = "restore_journal w ps" and ?jp = "journal_path ps"
  obtain m l2 where good: "good_stage w bundle ps l0 m l2" and res: "restoring w ?jp ?j (?N l2) (sub l0) (syFiles s)"
    using assms(1) by (auto simp: committed_def)
  then have sound: "journal_sound w ?jp ?j (?N l2) (sub l0)" and ok: "validatePaths ps" by (simp_all add: good_stage_def)
  have "restoring w ?jp ?j (?N l2) (sub l0) (syFiles s')"
    using hoareD [OF Recover(1) [OF sound] res assms(2)] by (cases r) (auto simp: restoring_def)
  with good show "committed w bundle ps l0 (syFiles s')" by (auto simp: committed_def)
  show "r = Ret () \<and> complete w bundle ps l0 (syFiles s')" if "syFaults s = []"
    using Recover(2) [OF sound ok] res assms(2) that good by (fastforce simp: runs_def complete_def)
qed

lemma recover_runs:
  "untouched w ps l0 l \<Longrightarrow> recover_runs w ps fss l = l"
  "committed w bundle ps l0 l \<Longrightarrow> committed w bundle ps l0 (recover_runs w ps fss l)"
proof (induction fss arbitrary: l)
  case (Cons fs fss)
  {
    case 1
    obtain r s' where rec: "Recover w ps \<lparr>syFiles = l, syFaults = fs\<rparr> = (r, s')" by fastforce
    with 1 have "syFiles s' = l" using untouched_Recover [OF _ rec, of l0] by simp
    with 1 rec Cons.IH(1) [of l] show ?case by simp
  next
    case 2
    obtain r s' where rec: "Recover w ps \<lparr>syFiles = l, syFaults = fs\<rparr> = (r, s')" by fastforce
    with 2 have "committed w bundle ps l0 (syFiles s')" using committed_Recover(1) [OF _ rec, of "bundle" l0] by simp
    with rec Cons.IH(2) show ?case by simp
  }
qed simp_all

section \<open>A restore that is interrupted\<close>

definition demo_paths :: paths where
  "demo_paths = \<lparr>ptDatabase = [''d'', ''db''], ptKVRoot = [''d'', ''kv''], ptSSHIdentity = [''d'', ''ssh'']\<rparr>"

definition demo_entry :: "string \<Rightarrow> bytes \<Rightarrow> file_entry" where
  "demo_entry p b = \<lparr>fePath = p, feSize = int (length b), feSHA256 = EncodeToString b\<rparr>"

definition demo_manifest :: manifest where
  "demo_manifest = \<lparr>mfVersion = 1, mfCreated = 0, mfDatabase = demo_entry ''database.db'' [1], mfDatabaseKeyID = ''plaintext'',
     mfKV = [demo_entry ''kv/a'' [2]], mfSSH = demo_entry ''ssh-identity'' [3], mfSSHFingerprint = ''f'', mfSSHKeyType = ''t''\<rparr>"

definition demo_journal :: journal where
  "demo_journal = \<lparr>jlVersion = 1, jlCreated = 0, jlOperations = restore_ops demo_paths [''d'', ''.plumtree-restore-x'']\<rparr>"

definition demo_decode :: "bytes \<Rightarrow> journal option" where
  "demo_decode b = (case b of
     [x, y, z] \<Rightarrow> Some (demo_journal\<lparr>jlOperations := map2 (\<lambda>oper d. oper\<lparr>joDone := d \<noteq> 0\<rparr>) (jlOperations demo_journal) b\<rparr>)
   | _ \<Rightarrow> None)"

definition demo_world :: world where
  "demo_world = \<lparr>wSha = (\<lambda>b. b), wIdentity = (\<lambda>_. Some (''f'', ''t'')), wVerifyDb = (\<lambda>_ _. True), wManifest = (\<lambda>_. Some demo_manifest),
     wEncode = (\<lambda>j. map (\<lambda>oper. if joDone oper then 1 else 0) (jlOperations j)), wDecode = demo_decode, wNow = 0, wTemp = ''x'',
     wInterrupt = (\<lambda>_. True)\<rparr>"

definition demo_files :: files where
  "demo_files = [([''d''], Dir 448), ([''d'', ''db''], Reg 384 [9]), ([''d'', ''kv''], Dir 448), ([''d'', ''kv'', ''o''], Reg 384 [8]), ([''d'', ''ssh''], Reg 384 [7]),
     ([''b''], Dir 448), ([''b'', ''manifest.json''], Reg 384 []), ([''b'', ''database.db''], Reg 384 [1]), ([''b'', ''ssh-identity''], Reg 384 [3]),
     ([''b'', ''kv'', ''a''], Reg 384 [2])]"


lemmas call_simps = io_bind_def io_ret_def io_err_def io_check_def io_ignore_def syscall_def next_fault_def Lstat_def Rename_def Remove_def ReadFile_def OpenExcl_def
  WriteBytes_def Flush_def Mkdir_def put_bytes_def is_dir_def is_reg_def

lemmas demo_defs = demo_world_def demo_paths_def demo_files_def demo_manifest_def demo_entry_def

lemma demo_components:
  "entry_path ''database.db'' = Some [''database.db'']" "entry_path ''ssh-identity'' = Some [''ssh-identity'']" "entry_path ''kv/a'' = Some [''kv'', ''a'']"
  by code_simp+

lemma demo_valid: "validatePaths demo_paths" "\<not> blank_path [''b'']"
  by code_simp+


lemma demo_check:
  "check_bundle demo_world [''b''] demo_paths [] \<lparr>syFiles = demo_files, syFaults = []\<rparr> = (Ret demo_manifest, \<lparr>syFiles = demo_files, syFaults = []\<rparr>)"
  using demo_valid
  by (simp add: check_bundle_def validateBundlePath_def privateDir_def readManifest_def privateRegular_def read_existing_def verifyBundle_def verifyEntry_def hashFile_def
     identityInfo_def join_entry_def keyID_def formatVersion_def call_simps demo_defs demo_components)

lemma demo_restore:
  "\<exists>l. Restore demo_world [''b''] demo_paths [] \<lparr>syFiles = demo_files, syFaults = []\<rparr> = (Err ErrOS, \<lparr>syFiles = l, syFaults = []\<rparr>) \<and>
     at l (journal_path demo_paths) = Some (Reg 384 [0, 0, 0])"
  unfolding Restore_def Let_def
  by (simp add: io_bind_def [of "check_bundle _ _ _ _"] demo_check)
    (simp add: stage_bundle_def copyFile_def read_existing_def MkdirAll_def write_new_def writeJSON_def interrupt_def kv_rel_def join_entry_def journal_path_def
      restore_ops_def call_simps demo_defs demo_components)

lemma same_marks:
  assumes "plain ops = plain (restore_ops demo_paths [''d'', ''.plumtree-restore-x''])"
  shows "\<exists>x y z. ops = map2 (\<lambda>oper d. oper\<lparr>joDone := d\<rparr>) (restore_ops demo_paths [''d'', ''.plumtree-restore-x'']) [x, y, z]"
proof -
  have eq: "map (joDone_update (\<lambda>_. False)) ops = restore_ops demo_paths [''d'', ''.plumtree-restore-x'']"
    using assms by (simp add: plain_def restore_ops_def)
  have "map2 (\<lambda>oper d. oper\<lparr>joDone := d\<rparr>) (map (joDone_update (\<lambda>_. False)) os) (map joDone os) = os" for os :: "journal_op list"
    by (induction os) auto
  then have "ops = map2 (\<lambda>oper d. oper\<lparr>joDone := d\<rparr>) (restore_ops demo_paths [''d'', ''.plumtree-restore-x'']) (map joDone ops)"
    unfolding eq [symmetric] by (rule sym)
  moreover have "length ops = 3" using arg_cong [OF eq, of length] by (simp add: restore_ops_def)
  then obtain a b c where "ops = [a, b, c]" by (auto simp: length_Suc_conv numeral_3_eq_3)
  ultimately show ?thesis by auto
qed

lemma demo_json: "journal_json demo_world demo_paths"
proof -
  let ?ops = "restore_ops demo_paths [''d'', ''.plumtree-restore-x'']"
  have j: "restore_journal demo_world demo_paths = demo_journal"
    by (simp add: restore_journal_def demo_journal_def stage_path_def formatVersion_def demo_world_def demo_paths_def)
  have ops: "jlOperations demo_journal = ?ops" by (simp add: demo_journal_def)
  have "decodes demo_world demo_journal ?ops"
    unfolding decodes_def
  proof (intro allI impI)
    fix ops' assume "plain ops' = plain ?ops"
    from same_marks [OF this] obtain x y z where o': "ops' = map2 (\<lambda>oper d. oper\<lparr>joDone := d\<rparr>) ?ops [x, y, z]" by blast
    show "wDecode demo_world (wEncode demo_world (demo_journal\<lparr>jlOperations := ops'\<rparr>)) = Some (demo_journal\<lparr>jlOperations := ops'\<rparr>)"
      unfolding o' by (simp add: demo_world_def demo_decode_def ops restore_ops_def)
  qed
  moreover have "wDecode demo_world (take n (wEncode demo_world demo_journal)) \<in> {None, Some demo_journal}" for n
  proof -
    have "n = 0 \<or> n = 1 \<or> n = 2 \<or> 3 \<le> n" by arith
    then show ?thesis by (auto simp: demo_world_def demo_decode_def demo_journal_def restore_ops_def numeral_3_eq_3 numeral_2_eq_2)
  qed
  ultimately show ?thesis by (simp add: journal_json_def j ops)
qed

lemma demo_apart: "names_apart demo_world [''b''] demo_paths" by code_simp

lemma demo_fresh: "fresh demo_paths demo_files" by code_simp





definition stuck_files :: files where
  "stuck_files = [([''d''], Dir 448), (journal_path demo_paths, Reg 384 [1, 0, 0]), ([''d'', ''kv''], Dir 448), ([''d'', ''kv'', ''o''], Reg 384 [8]),
     ([''d'', ''kv.restore-previous''], Dir 448), ([''d'', ''.plumtree-restore-x'', ''kv''], Dir 448)]"

section \<open>Backups of an earlier restore\<close>

lemma replace_stuck:
  assumes "is_dir (at l (joTarget oper))" "is_dir (at l (joStaged oper))" "at l (joBackup oper) \<noteq> None"
  shows "hoare (\<lambda>l'. l' = l) (replaceOperation oper) (\<lambda>_ _. False) (\<lambda>l'. l' = l)"
proof -
  have ne: "at l (joStaged oper) \<noteq> None" "at l (joTarget oper) \<notin> {None, Some Sym}"
    using assms(1,2) by (auto simp: is_dir_def split: option.splits node.splits)
  let ?L = "\<lambda>l'. l' = l"
  let ?bk = "\<lambda>n. if n = None then Rename (joTarget oper) (joBackup oper) else io_ret ()"
  have bk: "hoare ?L (io_bind (Lstat (joBackup oper)) ?bk) (\<lambda>_. ?L) ?L"
  proof (rule hoare_bind [OF Lstat_hoare])
    show "hoare (\<lambda>l'. at l' (joBackup oper) = n \<and> l' = l) (?bk n) (\<lambda>_. ?L) ?L" for n
      using assms(3) by (cases n) (auto simp: hoare_def io_ret_def)
  qed
  have rn: "hoare ?L (Rename (joStaged oper) (joTarget oper)) (\<lambda>_ _. False) ?L"
    unfolding Rename_def by (rule hoare_syscall) (use assms(1) in auto)
  let ?k = "\<lambda>staged target. if target = Some Sym then io_err ErrUnsafePath
      else if staged = None then (if target \<noteq> None then io_ret () else io_err ErrCorrupt)
      else io_bind (if target \<noteq> None then io_bind (Lstat (joBackup oper)) ?bk else io_ret ())
        (\<lambda>_. Rename (joStaged oper) (joTarget oper))"
  have "hoare (\<lambda>l'. at l' (joTarget oper) = t \<and> at l' (joStaged oper) = st \<and> l' = l) (?k st t) (\<lambda>_ _. False) ?L" for st t
  proof (cases "at l (joTarget oper) = t \<and> at l (joStaged oper) = st")
    case True
    with ne have "?k st t = io_bind (io_bind (Lstat (joBackup oper)) ?bk) (\<lambda>_. Rename (joStaged oper) (joTarget oper))" by auto
    with hoare_bind [OF bk rn] show ?thesis by (auto intro: hoare_weaken)
  qed (auto simp: hoare_def)
  then show ?thesis unfolding replaceOperation_def
    by (intro hoare_bind [OF Lstat_hoare hoare_bind [OF Lstat_hoare]]) auto
qed

text \<open>
  C38: A restore over a directory that still has the backup of an earlier one cannot be finished. When a
  journal has come to an operation whose target and staged contents are directories and whose backup
  exists, then \<^verbatim>\<open>Recover\<close> reports an error and changes no file, in every run, because the target is not moved
  away and a rename cannot replace a directory. The key/value root is such a target, and no
  operation removes the backup that a restore leaves.
\<close>

theorem recover_stuck_on_backup:
  assumes "at l (journal_path ps) = Some (Reg mode b)" and "wDecode w b = Some j" and "jlVersion j = formatVersion"
    and "jlOperations j = before @ oper # rest" and "\<forall>o'\<in>set before. joDone o'" and "\<not> joDone oper"
    and "is_dir (at l (joTarget oper))" and "is_dir (at l (joStaged oper))" and "at l (joBackup oper) \<noteq> None"
    and "Recover w ps \<lparr>syFiles = l, syFaults = fs\<rparr> = (r, s')"
  shows "r \<noteq> Ret () \<and> syFiles s' = l"
proof -
  note rep = replace_stuck [OF assms(7-9)]
  have skip: "apply_from w p j pre (before @ oper # rest) = apply_from w p j (pre @ before) (oper # rest)" for p pre
    using assms(5) by (induction before arbitrary: pre) auto
  let ?jp = "journal_path ps"
  have ap: "hoare (\<lambda>l'. l' = l) (applyJournal w ?jp j) (\<lambda>_ _. False) (\<lambda>l'. l' = l)"
    unfolding applyJournal_def assms(4) skip using assms(6) by (auto intro: hoare_bind [OF rep] simp: hoare_def [of "\<lambda>_. False"])
  let ?P = "\<lambda>r l'. l' = l \<and> r = Some b"
  have rd: "hoare (\<lambda>l'. l' = l) (ReadFile ?jp) ?P (\<lambda>l'. l' = l)"
    by (rule hoare_weaken [OF ReadFile_hoare]) (use assms(1) in auto)
  have "hoare (?P r) (recover_read w ?jp r) (\<lambda>_ _. False) (\<lambda>l'. l' = l)" for r
    using ap assms(2,3) by (cases "r = Some b") (auto simp: recover_read_def hoare_def [of "\<lambda>_. False"])
  then have "hoare (\<lambda>l'. l' = l) (Recover w ps) (\<lambda>_ _. False) (\<lambda>l'. l' = l)"
    unfolding Recover_split
    by (intro hoare_bind [OF hoare_weaken [OF hoare_check [of "\<lambda>l'. l' = l" "\<lambda>l'. l' = l"]] hoare_bind [OF rd]]) auto
  from hoareD [OF this _ assms(10)] show ?thesis by (cases r) auto
qed

theorem recover_stuck_on_backup_witness:
  "fst (Recover demo_world demo_paths \<lparr>syFiles = stuck_files, syFaults = []\<rparr>) \<noteq> Ret () \<and>
    syFiles (snd (Recover demo_world demo_paths \<lparr>syFiles = stuck_files, syFaults = []\<rparr>)) = stuck_files"
proof -
  let ?ops = "restore_ops demo_paths [''d'', ''.plumtree-restore-x'']"
  have dec: "wDecode demo_world [1, 0, 0] = Some (demo_journal\<lparr>jlOperations := [(?ops ! 0)\<lparr>joDone := True\<rparr>] @ ?ops ! 1 # [?ops ! 2]\<rparr>)"
    by (simp add: demo_world_def demo_decode_def demo_journal_def restore_ops_def)
  have kv: "at stuck_files (journal_path demo_paths) = Some (Reg 384 [1, 0, 0])" "is_dir (at stuck_files (joTarget (?ops ! 1)))"
      "is_dir (at stuck_files (joStaged (?ops ! 1)))" "at stuck_files (joBackup (?ops ! 1)) \<noteq> None"
    by code_simp+
  obtain r s' where rec: "Recover demo_world demo_paths \<lparr>syFiles = stuck_files, syFaults = []\<rparr> = (r, s')" by fastforce
  have "r \<noteq> Ret () \<and> syFiles s' = stuck_files"
    by (rule recover_stuck_on_backup [OF kv(1) dec _ _ _ _ kv(2-4) rec, where before = "[(?ops ! 0)\<lparr>joDone := True\<rparr>]" and rest = "[?ops ! 2]"])
      (simp_all add: demo_journal_def formatVersion_def restore_ops_def)
  with rec show ?thesis by simp
qed

end
