(* ===== verification/Cli_Lex.thy ===== *)
theory Cli_Lex
  imports Go_Text
begin

text \<open>
  Splitting an SSH exec command into arguments: \<^verbatim>\<open>Lex\<close> of \<^verbatim>\<open>sdk/cli/cli.go\<close> and \<^verbatim>\<open>ParseExecCommand\<close> of
  \<^verbatim>\<open>internal/protocol/exec/exec.go\<close>. Strings are byte strings.
\<close>

section \<open>The lexer\<close>

definition MaxArgs :: nat where [const_defs]: "MaxArgs = 64"
definition MaxArgument :: nat where [const_defs]: "MaxArgument = 256"
definition MaxInput :: nat where [const_defs]: "MaxInput = 2 ^ 20"
definition maxCommand :: nat where [const_defs]: "maxCommand = 64 * 1024"

datatype lex_error = ErrLexer string | ErrCommandSize

definition lex_control :: "char \<Rightarrow> bool" where
  "lex_control ch \<longleftrightarrow> (let n = of_char ch :: nat in n = 0 \<or> n = 0x7f \<or> n < 0x20 \<and> n \<noteq> 32 \<and> n \<noteq> 9)"

definition lex_space :: "char \<Rightarrow> bool" where
  "lex_space ch \<longleftrightarrow> ch = CHR '' '' \<or> ch = CHR 0x09"

definition quote1 :: char where "quote1 = CHR 0x27"
definition quote2 :: char where "quote2 = CHR 0x22"
definition backslash :: char where "backslash = CHR 0x5C"

definition lex_operator :: "char \<Rightarrow> bool" where
  "lex_operator ch \<longleftrightarrow> ch \<in> {CHR ''|'', CHR '';'', CHR ''&'', CHR ''>'', CHR ''<'', CHR 0x60}"

definition appendLexWord :: "string list \<Rightarrow> string \<Rightarrow> lex_error + string list" where
  "appendLexWord words word =
    (if length word > MaxArgument then Inl (ErrLexer ''argument is too large'')
     else if length words \<ge> MaxArgs then Inl (ErrLexer ''too many arguments'')
     else Inr (words @ [word]))"

text \<open>
  The loop of \<^verbatim>\<open>Lex\<close>. The quote is \<^const>\<open>None\<close> where the code has the byte 0.
\<close>

fun lex_loop :: "string \<Rightarrow> string list \<Rightarrow> string \<Rightarrow> bool \<Rightarrow> char option \<Rightarrow> lex_error + string list" where
  "lex_loop [] words word inWord quote =
    (if quote \<noteq> None then Inl (ErrLexer ''unterminated quote'')
     else if inWord then appendLexWord words word
     else Inr words)"
| "lex_loop (ch # rest) words word inWord quote =
    (if lex_control ch then Inl (ErrLexer ''control byte'')
     else case quote of
       None \<Rightarrow>
         if ch = quote1 \<or> ch = quote2 then lex_loop rest words word True (Some ch)
         else if ch = backslash then
           (case rest of
              [] \<Rightarrow> Inl (ErrLexer ''trailing escape'')
            | c # rest' \<Rightarrow> lex_loop rest' words (word @ [c]) True None)
         else if lex_space ch then
           (if inWord then
              (case appendLexWord words word of
                 Inl e \<Rightarrow> Inl e
               | Inr words' \<Rightarrow> lex_loop rest words' [] False None)
            else lex_loop rest words word inWord None)
         else if lex_operator ch then Inl (ErrLexer ''shell operator'')
         else lex_loop rest words (word @ [ch]) True None
     | Some q \<Rightarrow>
         if ch = q then lex_loop rest words word inWord None
         else if q = quote2 \<and> ch = backslash then
           (case rest of
              [] \<Rightarrow> Inl (ErrLexer ''trailing escape'')
            | c # rest' \<Rightarrow> lex_loop rest' words (word @ [c]) inWord quote)
         else lex_loop rest words (word @ [ch]) inWord quote)"

definition Lex :: "string \<Rightarrow> lex_error + string list" where
  "Lex command = (if length command > MaxInput then Inl (ErrLexer ''command is too large'') else lex_loop command [] [] False None)"

definition ParseExecCommand :: "string \<Rightarrow> lex_error + string list" where
  "ParseExecCommand command =
    (if length command = 0 then Inr []
     else if length command > maxCommand then Inl ErrCommandSize
     else case Lex command of Inl e \<Rightarrow> Inl e | Inr args \<Rightarrow> Inr args)"

section \<open>Every argument list has a command\<close>

text \<open>
  A word in double quotes in which every quote, backslash and control byte is escaped.
\<close>

definition escape :: "char \<Rightarrow> string" where
  "escape c = (if c = quote2 \<or> c = backslash \<or> lex_control c then [backslash, c] else [c])"

definition quote_word :: "string \<Rightarrow> string" where
  "quote_word w = quote2 # concat (map escape w) @ [quote2]"

definition quote_command :: "string list \<Rightarrow> string" where
  "quote_command ws = concat (map (\<lambda>w. quote_word w @ '' '') ws)"

lemma special_bytes [simp]:
  "\<not> lex_control quote1" "\<not> lex_control quote2" "\<not> lex_control backslash" "\<not> lex_control (CHR '' '')"
  "quote2 \<noteq> backslash" "quote2 \<noteq> quote1" "quote1 \<noteq> backslash" "backslash \<noteq> quote2" "quote1 \<noteq> quote2" "backslash \<noteq> quote1" "CHR '' '' \<noteq> quote1" "CHR '' '' \<noteq> quote2" "CHR '' '' \<noteq> backslash" "lex_space (CHR '' '')"
  by (simp_all add: lex_control_def quote1_def quote2_def backslash_def lex_space_def)

lemma lex_quoted:
  "lex_loop (concat (map escape w) @ quote2 # rest) words word True (Some quote2) = lex_loop rest words (word @ w) True None"
proof (induction w arbitrary: word)
  case (Cons c w)
  then show ?case by (auto simp: escape_def)
qed simp

lemma appendLexWord_Inr:
  "appendLexWord words word = Inr words' \<longleftrightarrow> length word \<le> MaxArgument \<and> length words < MaxArgs \<and> words' = words @ [word]"
  by (auto simp: appendLexWord_def)

lemma lex_quote_command:
  "length words + length ws \<le> MaxArgs \<Longrightarrow> \<forall>w\<in>set ws. length w \<le> MaxArgument \<Longrightarrow>
    lex_loop (quote_command ws) words [] False None = Inr (words @ ws)"
proof (induction ws arbitrary: words)
  case (Cons w ws)
  have "lex_loop (quote_command (w # ws)) words [] False None = lex_loop (CHR '' '' # quote_command ws) words w True None"
    by (simp add: quote_command_def quote_word_def lex_quoted)
  also have "\<dots> = lex_loop (quote_command ws) (words @ [w]) [] False None"
    using Cons.prems by (simp add: appendLexWord_def)
  finally show ?case using Cons by simp
qed (simp add: quote_command_def)

lemma lex_loop_bounds:
  "lex_loop s words word inWord q = Inr args \<Longrightarrow> length words \<le> MaxArgs \<Longrightarrow> \<forall>w\<in>set words. length w \<le> MaxArgument \<Longrightarrow>
    length args \<le> MaxArgs \<and> (\<forall>a\<in>set args. length a \<le> MaxArgument)"
proof (induction s words word inWord q rule: lex_loop.induct)
  case (1 words word inWord quote)
  then show ?case by (auto simp: appendLexWord_Inr split: if_splits)
next
  case (2 ch rest words word inWord quote)
  note ih = 2(1-8) and run = 2(9) and ok = 2(10-)
  have ctl: "\<not> lex_control ch" using run by auto
  show ?case
  proof (cases quote)
    case None
    consider (q) "ch = quote1 \<or> ch = quote2" | (esc) "ch = backslash" | (sp) "lex_space ch" "ch \<noteq> quote1" "ch \<noteq> quote2" "ch \<noteq> backslash"
      | (other) "\<not> lex_space ch" "ch \<noteq> quote1" "ch \<noteq> quote2" "ch \<noteq> backslash" by blast
    then show ?thesis
    proof cases
      case q
      with run ih(1) [OF ctl None q] ctl None ok show ?thesis by simp
    next
      case esc
      with run ctl None obtain c rest' where r: "rest = c # rest'" by (cases rest) auto
      with run ih(2) [OF ctl None _ esc r] esc ctl None ok show ?thesis by simp
    next
      case sp
      show ?thesis
      proof (cases inWord)
        case True
        with run sp ctl None obtain words' where w: "appendLexWord words word = Inr words'" by (cases "appendLexWord words word") auto
        with run ih(3) [OF ctl None _ _ sp(1) True w] sp True ctl None ok show ?thesis by (simp add: appendLexWord_Inr)
      next
        case False
        with run ih(4) [OF ctl None _ _ sp(1) False] sp ctl None ok show ?thesis by simp
      qed
    next
      case other
      with run ctl None have "\<not> lex_operator ch" by auto
      with run ih(5) [OF ctl None _ _ other(1)] other ctl None ok show ?thesis by simp
    qed
  next
    case (Some q)
    show ?thesis
    proof (cases "ch \<noteq> q \<and> q = quote2 \<and> ch = backslash")
      case True
      with run ctl Some obtain c rest' where r: "rest = c # rest'" by (cases rest) auto
      with run ih(7) True ctl Some ok show ?thesis by simp
    next
      case False
      with run ih(6,8) ctl Some ok show ?thesis by (cases "ch = q") (auto split: if_splits)
    qed
  qed
qed

lemma length_quote_command: "\<forall>w\<in>set ws. length w \<le> n \<Longrightarrow> length (quote_command ws) \<le> length ws * (2 * n + 3)"
proof (induction ws)
  case (Cons w ws)
  have "length (concat (map escape w)) \<le> 2 * length w" by (induction w) (auto simp: escape_def)
  with Cons show ?case by (auto simp: quote_command_def quote_word_def algebra_simps)
qed (simp add: quote_command_def)


text \<open>
  A backslash lets a control byte through, which the lexer refuses everywhere else.
\<close>

lemma lex_escaped_control:
  "ParseExecCommand [backslash, c] = Inr [[c]]"
  "lex_control c \<Longrightarrow> ParseExecCommand [c] = Inl (ErrLexer ''control byte'')"
  by (simp_all add: ParseExecCommand_def Lex_def appendLexWord_def const_defs)

end
