(* ===== verification/Cli_Model.thy ===== *)
theory Cli_Model
  imports Cli_Lex Go_Utf8
begin

text \<open>
  Commands of the SDK (\<^verbatim>\<open>sdk/cli/cli.go\<close>): the command tree with its flags and arguments, the checks on it,
  and the parser that turns an argument list into the values a handler sees.
\<close>

section \<open>Errors\<close>

definition MaxCommandName :: nat where [const_defs]: "MaxCommandName = 32"
definition MaxSummary :: nat where [const_defs]: "MaxSummary = 256"
definition MaxDepth :: nat where [const_defs]: "MaxDepth = 8"
definition MaxCommands :: nat where [const_defs]: "MaxCommands = 128"
definition MaxFlags :: nat where [const_defs]: "MaxFlags = 32"
definition MaxOutput :: nat where [const_defs]: "MaxOutput = 64 * 1024"
definition MaxDescription :: nat where [const_defs]: "MaxDescription = 1024"

text \<open>
  The error values that \<^verbatim>\<open>errors.Is\<close> is asked about, with the two of package \<^verbatim>\<open>context\<close>; and an error, by its
  text and by what \<^verbatim>\<open>errors.Is\<close> and \<^verbatim>\<open>errors.As\<close> find in it: a failure, or a pointer to one, which may be nil.
\<close>

datatype sentinel = EUsage | EUnknown | EMissing | EInvalid | ELimit | EUnavailable | EInternal | ELexer | ECanceled
  | CtxCanceled | CtxDeadline

fun sentinel_text :: "sentinel \<Rightarrow> string" where
  "sentinel_text EUsage = ''cli: usage error''"
| "sentinel_text EUnknown = ''cli: unknown command or flag''"
| "sentinel_text EMissing = ''cli: missing value''"
| "sentinel_text EInvalid = ''cli: invalid value''"
| "sentinel_text ELimit = ''cli: invocation limit exceeded''"
| "sentinel_text EUnavailable = ''cli: runtime unavailable''"
| "sentinel_text EInternal = ''cli: internal error''"
| "sentinel_text ELexer = ''cli: invalid command string''"
| "sentinel_text ECanceled = ''cli: invocation canceled''"
| "sentinel_text CtxCanceled = ''context canceled''"
| "sentinel_text CtxDeadline = ''context deadline exceeded''"

record failure =
  faCode :: string
  faMessage :: string
  faExit :: int
  faUsage :: bool

record go_error =
  geText :: string
  geIs :: "sentinel list"
  geFailure :: "failure option"
  gePointer :: "failure option option"

definition plain_error :: "string \<Rightarrow> go_error" where
  "plain_error text = \<lparr>geText = text, geIs = [], geFailure = None, gePointer = None\<rparr>"

definition sentinel_error :: "sentinel \<Rightarrow> go_error" where
  "sentinel_error e = \<lparr>geText = sentinel_text e, geIs = [e], geFailure = None, gePointer = None\<rparr>"

text \<open>\<^verbatim>\<open>fmt.Errorf("%w: ...", e)\<close>\<close>

definition wrapped_error :: "sentinel \<Rightarrow> string \<Rightarrow> go_error" where
  "wrapped_error e text = \<lparr>geText = sentinel_text e @ '': '' @ text, geIs = [e], geFailure = None, gePointer = None\<rparr>"

section \<open>Values\<close>

text \<open>
  What the parser takes from outside: whether the context is done when a token is read, \<^verbatim>\<open>time.ParseDuration\<close>
  (fractions go through floating point), which gives the text of its error or nanoseconds, and the quoting
  \<^verbatim>\<open>strconv.Quote\<close> of names in messages.
\<close>

record cli_env =
  ceCanceled :: "nat \<Rightarrow> bool"
  ceDuration :: "string \<Rightarrow> string + int"
  ceQuote :: "string \<Rightarrow> string"

text \<open>A kind is a byte; those after \<^verbatim>\<open>StringsValue\<close> name nothing.\<close>

datatype value_kind = StringValue | BoolValue | IntValue | DurationValue | StringsValue | OtherKind

datatype cli_value = VString string | VBool bool | VInt int | VDuration int | VStrings "string list"

definition ParseBool :: "string \<Rightarrow> bool option" where
  "ParseBool s =
    (if s \<in> {''1'', ''t'', ''T'', ''TRUE'', ''true'', ''True''} then Some True
     else if s \<in> {''0'', ''f'', ''F'', ''FALSE'', ''false'', ''False''} then Some False
     else None)"

text \<open>
  \<^verbatim>\<open>strconv.Atoi\<close>: a digit string that exceeds 64 bits is out of range at the digit where it does, whatever follows.
\<close>

definition char_in :: "char \<Rightarrow> char \<Rightarrow> char \<Rightarrow> bool" where
  "char_in a b c \<longleftrightarrow> of_char a \<le> (of_char c :: nat) \<and> of_char c \<le> (of_char b :: nat)"

fun digits_value :: "nat \<Rightarrow> string \<Rightarrow> string + nat" where
  "digits_value n [] = Inr n"
| "digits_value n (c # cs) =
    (if \<not> char_in (CHR ''0'') (CHR ''9'') c then Inl ''invalid syntax''
     else let n' = n * 10 + (of_char c - 48) in
       if n' \<ge> 2 ^ 64 then Inl ''value out of range'' else digits_value n' cs)"

definition Atoi :: "string \<Rightarrow> string + int" where
  "Atoi s =
    (let neg = (take 1 s = ''-''); ds = (if take 1 s = ''-'' \<or> take 1 s = ''+'' then tl s else s) in
     if ds = [] then Inl ''invalid syntax''
     else case digits_value 0 ds of
       Inl e \<Rightarrow> Inl e
     | Inr n \<Rightarrow>
         if \<not> neg \<and> n \<ge> 2 ^ 63 \<or> neg \<and> n > 2 ^ 63 then Inl ''value out of range''
         else Inr (if neg then - int n else int n))"

definition num_error :: "cli_env \<Rightarrow> string \<Rightarrow> string \<Rightarrow> string \<Rightarrow> go_error" where
  "num_error env f s why = plain_error (''strconv.'' @ f @ '': parsing '' @ ceQuote env s @ '': '' @ why)"

definition parseValue :: "cli_env \<Rightarrow> value_kind \<Rightarrow> string \<Rightarrow> bool \<Rightarrow> go_error + cli_value" where
  "parseValue env kind raw emptyBool =
    (case kind of
       StringValue \<Rightarrow> if length raw > MaxArgument then Inl (sentinel_error ELimit) else Inr (VString raw)
     | BoolValue \<Rightarrow>
         if emptyBool then Inr (VBool False)
         else (case ParseBool raw of None \<Rightarrow> Inl (num_error env ''ParseBool'' raw ''invalid syntax'') | Some b \<Rightarrow> Inr (VBool b))
     | IntValue \<Rightarrow> (case Atoi raw of Inl why \<Rightarrow> Inl (num_error env ''Atoi'' raw why) | Inr n \<Rightarrow> Inr (VInt n))
     | DurationValue \<Rightarrow> (case ceDuration env raw of Inl text \<Rightarrow> Inl (plain_error text) | Inr d \<Rightarrow> Inr (VDuration d))
     | _ \<Rightarrow> Inl (sentinel_error EInvalid))"

section \<open>Command trees\<close>

record args_rule =
  ruMin :: int
  ruMax :: int

definition NoArgs :: args_rule where "NoArgs = \<lparr>ruMin = 0, ruMax = 0\<rparr>"
definition AnyArgs :: args_rule where "AnyArgs = \<lparr>ruMin = 0, ruMax = int MaxArgs\<rparr>"
definition ExactArgs :: "int \<Rightarrow> args_rule" where "ExactArgs n = \<lparr>ruMin = n, ruMax = n\<rparr>"
definition AtLeastArgs :: "int \<Rightarrow> args_rule" where "AtLeastArgs n = \<lparr>ruMin = n, ruMax = int MaxArgs\<rparr>"
definition AtMostArgs :: "int \<Rightarrow> args_rule" where "AtMostArgs n = \<lparr>ruMin = 0, ruMax = n\<rparr>"
definition RangeArgs :: "int \<Rightarrow> int \<Rightarrow> args_rule" where "RangeArgs minimum maximum = \<lparr>ruMin = minimum, ruMax = maximum\<rparr>"

record flag =
  flName :: string
  flShort :: int
  flHelp :: string
  flKind :: value_kind
  flDefault :: string
  flRequired :: bool
  flRepeated :: bool
  flValidate :: "(string \<Rightarrow> go_error option) option"

record argument =
  agName :: string
  agHelp :: string
  agKind :: value_kind

datatype 'h command = Command
  (coName: string) (coSummary: string) (coArgs: args_rule) (coArguments: "argument list") (coFlags: "flag list")
  (coSubcommands: "'h command list") (coHandle: "'h option")

text \<open>
  The constructors of flags, arguments and commands; the methods return changed copies.
\<close>

definition new_flag :: "string \<Rightarrow> string \<Rightarrow> value_kind \<Rightarrow> flag" where
  "new_flag name help kind =
    \<lparr>flName = name, flShort = 0, flHelp = help, flKind = kind, flDefault = '''', flRequired = False, flRepeated = False, flValidate = None\<rparr>"

definition StringFlag :: "string \<Rightarrow> string \<Rightarrow> flag" where "StringFlag name help = new_flag name help StringValue"
definition BoolFlag :: "string \<Rightarrow> string \<Rightarrow> flag" where "BoolFlag name help = new_flag name help BoolValue"
definition IntFlag :: "string \<Rightarrow> string \<Rightarrow> flag" where "IntFlag name help = new_flag name help IntValue"
definition DurationFlag :: "string \<Rightarrow> string \<Rightarrow> flag" where "DurationFlag name help = new_flag name help DurationValue"
definition StringsFlag :: "string \<Rightarrow> string \<Rightarrow> flag" where "StringsFlag name help = (new_flag name help StringsValue)\<lparr>flRepeated := True\<rparr>"

definition WithShort :: "flag \<Rightarrow> int \<Rightarrow> flag" where "WithShort f short = f\<lparr>flShort := short\<rparr>"
definition RequiredValue :: "flag \<Rightarrow> flag" where "RequiredValue f = f\<lparr>flRequired := True\<rparr>"
definition RepeatedValue :: "flag \<Rightarrow> flag" where "RepeatedValue f = f\<lparr>flRepeated := True\<rparr>"
definition WithValidator :: "flag \<Rightarrow> (string \<Rightarrow> go_error option) \<Rightarrow> flag" where "WithValidator f validator = f\<lparr>flValidate := Some validator\<rparr>"

definition StringArg :: "string \<Rightarrow> string \<Rightarrow> argument" where "StringArg name help = \<lparr>agName = name, agHelp = help, agKind = StringValue\<rparr>"
definition BoolArg :: "string \<Rightarrow> string \<Rightarrow> argument" where "BoolArg name help = \<lparr>agName = name, agHelp = help, agKind = BoolValue\<rparr>"
definition IntArg :: "string \<Rightarrow> string \<Rightarrow> argument" where "IntArg name help = \<lparr>agName = name, agHelp = help, agKind = IntValue\<rparr>"
definition DurationArg :: "string \<Rightarrow> string \<Rightarrow> argument" where "DurationArg name help = \<lparr>agName = name, agHelp = help, agKind = DurationValue\<rparr>"
definition StringsArg :: "string \<Rightarrow> string \<Rightarrow> argument" where "StringsArg name help = \<lparr>agName = name, agHelp = help, agKind = StringsValue\<rparr>"

definition Root :: "string \<Rightarrow> 'h command list \<Rightarrow> 'h command" where
  "Root summary children = Command '''' summary NoArgs [] [] children None"

definition New :: "string \<Rightarrow> string \<Rightarrow> 'h command" where
  "New name summary = Command name summary NoArgs [] [] [] None"

fun WithArgs :: "'h command \<Rightarrow> args_rule \<Rightarrow> 'h command" where
  "WithArgs (Command n s r as fs subs h) rule = Command n s rule as fs subs h"

fun WithArgument :: "'h command \<Rightarrow> argument \<Rightarrow> 'h command" where
  "WithArgument (Command n s r as fs subs h) a = Command n s r (as @ [a]) fs subs h"

fun WithFlag :: "'h command \<Rightarrow> flag \<Rightarrow> 'h command" where
  "WithFlag (Command n s r as fs subs h) f = Command n s r as (fs @ [f]) subs h"

fun WithCommand :: "'h command \<Rightarrow> 'h command \<Rightarrow> 'h command" where
  "WithCommand (Command n s r as fs subs h) child = Command n s r as fs (subs @ [child]) h"

fun WithHandler :: "'h command \<Rightarrow> 'h \<Rightarrow> 'h command" where
  "WithHandler (Command n s r as fs subs h) handler = Command n s r as fs subs (Some handler)"

lemmas builder_defs = new_flag_def StringFlag_def BoolFlag_def IntFlag_def DurationFlag_def StringsFlag_def WithShort_def RequiredValue_def RepeatedValue_def
  WithValidator_def StringArg_def BoolArg_def IntArg_def DurationArg_def StringsArg_def Root_def New_def

fun in_pattern :: "string \<Rightarrow> bool" where
  "in_pattern [] = False"
| "in_pattern (c # cs) \<longleftrightarrow> char_in (CHR ''a'') (CHR ''z'') c \<and> length cs \<le> 31 \<and>
     list_all (\<lambda>c. char_in (CHR ''a'') (CHR ''z'') c \<or> char_in (CHR ''0'') (CHR ''9'') c \<or> c = CHR ''_'' \<or> c = CHR ''-'') cs"

text \<open>
  A control character in a text: all of them are single bytes in UTF-8, and no other character contains such a byte.
\<close>

definition has_control :: "string \<Rightarrow> bool" where
  "has_control s \<longleftrightarrow> list_ex (\<lambda>c. of_char c < (0x20 :: nat) \<or> of_char c = (0x7f :: nat)) s"

fun validate_flags :: "cli_env \<Rightarrow> flag list \<Rightarrow> string list \<Rightarrow> int list \<Rightarrow> go_error option" where
  "validate_flags env [] seenFlags seenShort = None"
| "validate_flags env (f # fs) seenFlags seenShort =
    (if \<not> in_pattern (flName f) \<or> flName f \<in> set seenFlags then Some (wrapped_error EUsage (''duplicate or reserved flag '' @ ceQuote env (flName f)))
     else if flKind f = OtherKind then Some (wrapped_error EUsage (''invalid value kind for flag '' @ ceQuote env (flName f)))
     else if length (flHelp f) > MaxDescription \<or> has_control (flHelp f) then Some (wrapped_error EUsage (''invalid help for flag '' @ ceQuote env (flName f)))
     else if flShort f \<noteq> 0 \<and> (flShort f = 45 \<or> flShort f = 104 \<or> flShort f = 106 \<or> \<not> ValidRune (flShort f) \<or> flShort f \<in> set seenShort)
       then Some (wrapped_error EUsage (''invalid short flag for '' @ ceQuote env (flName f)))
     else validate_flags env fs (flName f # seenFlags) (if flShort f \<noteq> 0 then flShort f # seenShort else seenShort))"

fun validate_arguments :: "cli_env \<Rightarrow> argument list \<Rightarrow> string list \<Rightarrow> go_error option" where
  "validate_arguments env [] seenArgs = None"
| "validate_arguments env (a # as) seenArgs =
    (if \<not> in_pattern (agName a) \<or> agName a \<in> set seenArgs then Some (wrapped_error EUsage (''duplicate argument '' @ ceQuote env (agName a)))
     else if agKind a = OtherKind then Some (wrapped_error EUsage (''invalid value kind for argument '' @ ceQuote env (agName a)))
     else validate_arguments env as (agName a # seenArgs))"

text \<open>
  The checks of one command before its children, then the children in order. The counter of commands goes through.
\<close>

definition validate_self :: "cli_env \<Rightarrow> 'h command \<Rightarrow> go_error option" where
  "validate_self env c =
    (if coName c \<noteq> '''' \<and> (\<not> in_pattern (coName c) \<or> length (coName c) > MaxCommandName)
       then Some (wrapped_error EUsage (''invalid command name '' @ ceQuote env (coName c)))
     else if has_control (coSummary c) \<or> length (coSummary c) > MaxSummary
       then Some (wrapped_error EUsage (''invalid summary for '' @ ceQuote env (coName c)))
     else if ruMin (coArgs c) < 0 \<or> ruMax (coArgs c) < 0 \<or> ruMin (coArgs c) > ruMax (coArgs c) \<or> ruMax (coArgs c) > int MaxArgs
       then Some (wrapped_error EUsage (''invalid argument rule for '' @ ceQuote env (coName c)))
     else if length (coFlags c) > MaxFlags \<or> length (coArguments c) > MaxArgs
       then Some (wrapped_error ELimit (''command '' @ ceQuote env (coName c) @ '' has too many descriptors''))
     else case validate_flags env (coFlags c) [''help'', ''json''] [] of
       Some e \<Rightarrow> Some e
     | None \<Rightarrow>
         if int (length (coArguments c)) > ruMax (coArgs c)
         then Some (wrapped_error EUsage (''command '' @ ceQuote env (coName c) @ '' declares '' @ Itoa (int (length (coArguments c))) @
           '' arguments but accepts at most '' @ Itoa (ruMax (coArgs c))))
         else validate_arguments env (coArguments c) [])"

fun validateCommand :: "cli_env \<Rightarrow> 'h command \<Rightarrow> nat \<Rightarrow> nat \<Rightarrow> go_error + nat"
  and validate_children :: "cli_env \<Rightarrow> 'h command list \<Rightarrow> string list \<Rightarrow> nat \<Rightarrow> nat \<Rightarrow> go_error + nat" where
  "validateCommand env (Command name summary rule arguments flags subs handle) depth count =
    (if depth > MaxDepth then Inl (wrapped_error ELimit (''command tree exceeds depth '' @ Itoa (int MaxDepth)))
     else if Suc count > MaxCommands then Inl (wrapped_error ELimit (''command tree exceeds '' @ Itoa (int MaxCommands) @ '' commands''))
     else case validate_self env (Command name summary rule arguments flags subs handle) of
       Some e \<Rightarrow> Inl e
     | None \<Rightarrow> (case validate_children env subs [] depth (Suc count) of
         Inl e \<Rightarrow> Inl e
       | Inr count' \<Rightarrow>
           if name \<noteq> '''' \<and> subs = [] \<and> handle = None then Inl (wrapped_error EUsage (''command '' @ ceQuote env name @ '' has no handler''))
           else Inr count'))"
| "validate_children env [] seen depth count = Inr count"
| "validate_children env (c # cs) seen depth count =
    (if coName c = '''' \<or> coName c \<in> set seen then Inl (wrapped_error EUsage ''duplicate or empty subcommand'')
     else case validateCommand env c (Suc depth) count of
       Inl e \<Rightarrow> Inl e
     | Inr count' \<Rightarrow> validate_children env cs (coName c # seen) depth count')"

definition Validate :: "cli_env \<Rightarrow> 'h command \<Rightarrow> go_error option" where
  "Validate env c = (case validateCommand env c 0 0 of Inl e \<Rightarrow> Some e | Inr _ \<Rightarrow> None)"

end
