(* ===== verification/Cli_Suggest.thy ===== *)
theory Cli_Suggest
  imports Cli_Model
begin

text \<open>
  The suggestion for a mistyped name in \<^verbatim>\<open>sdk/cli/cli.go\<close>: the distance of two strings by dynamic programming and
  the search for the closest candidate.
\<close>

section \<open>The search\<close>

text \<open>
  \<^verbatim>\<open>range\<close> over a string: the characters with the offsets of their first bytes.
\<close>

function runes_at :: "nat \<Rightarrow> bytes \<Rightarrow> (nat \<times> nat) list" where
  "runes_at off dat = (if dat = [] then [] else case DecodeRune dat of (r, sz) \<Rightarrow> (off, r) # runes_at (off + sz) (drop sz dat))"
  by pat_completeness auto
termination
  by (relation "measure (\<lambda>(off, dat). length dat)") (auto dest!: sym [of "(_, _)"] dest: DecodeRune_size)

declare runes_at.simps [simp del]

definition distance_cell :: "nat list \<Rightarrow> nat \<Rightarrow> nat list \<Rightarrow> nat \<times> nat \<Rightarrow> nat list" where
  "distance_cell previous left current = (\<lambda>(j, right).
     let cost = (if left \<noteq> right then 1 else 0) in
     current[j + 1 := min (min (previous ! (j + 1) + 1) (current ! j + 1)) (previous ! j + cost)])"

definition distance_row :: "string \<Rightarrow> nat list \<Rightarrow> nat \<times> nat \<Rightarrow> nat list" where
  "distance_row b previous = (\<lambda>(i, left).
     foldl (distance_cell previous left) ((replicate (length b + 1) 0)[0 := i + 1]) (runes_at 0 (str b)))"

definition editDistance :: "string \<Rightarrow> string \<Rightarrow> nat" where
  "editDistance a b = foldl (distance_row b) [0..<length b + 1] (runes_at 0 (str a)) ! length b"

definition trim_dashes :: "string \<Rightarrow> string" where
  "trim_dashes s = dropWhile (\<lambda>c. c = CHR ''-'') s"

fun suggestion_loop :: "string \<Rightarrow> string list \<Rightarrow> string \<Rightarrow> nat \<Rightarrow> string" where
  "suggestion_loop name [] best dist = best"
| "suggestion_loop name (candidate # candidates) best dist =
    (let current = editDistance name (trim_dashes candidate) in
     if current < dist then suggestion_loop name candidates candidate current
     else if current = dist then suggestion_loop name candidates '''' dist
     else suggestion_loop name candidates best dist)"

definition suggestion :: "string \<Rightarrow> string list \<Rightarrow> string option" where
  "suggestion name candidates = (let best = suggestion_loop name candidates '''' 3 in if best \<noteq> '''' then Some best else None)"

definition unknownFailure :: "string \<Rightarrow> string \<Rightarrow> string list \<Rightarrow> bool \<Rightarrow> failure" where
  "unknownFailure kind name candidates usage =
    (let message = ''unknown '' @ kind @ '': '' @ name;
         message = (case suggestion name candidates of None \<Rightarrow> message | Some s \<Rightarrow> message @ ''; did you mean '' @ s @ ''?'')
     in \<lparr>faCode = ''unknown_'' @ kind, faMessage = message, faExit = 2, faUsage = usage\<rparr>)"

section \<open>The distance of two strings\<close>

text \<open>
  The reference: the number of insertions, deletions and replacements, by recursion over both lists. It is the
  least cost of an alignment.
\<close>

fun lev :: "'a list \<Rightarrow> 'a list \<Rightarrow> nat" where
  "lev [] ys = length ys"
| "lev xs [] = length xs"
| "lev (x # xs) (y # ys) = min (min (lev xs (y # ys) + 1) (lev (x # xs) ys + 1)) (lev xs ys + (if x \<noteq> y then 1 else 0))"

inductive aligned :: "nat \<Rightarrow> 'a list \<Rightarrow> 'a list \<Rightarrow> bool" where
  empty: "aligned 0 [] []"
| delete: "aligned n xs ys \<Longrightarrow> aligned (n + 1) (x # xs) ys"
| insert: "aligned n xs ys \<Longrightarrow> aligned (n + 1) xs (y # ys)"
| match: "aligned n xs ys \<Longrightarrow> aligned (n + (if x \<noteq> y then 1 else 0)) (x # xs) (y # ys)"

lemma lev_Nil2 [simp]: "lev xs [] = length xs"
  by (cases xs) auto

lemma aligned_lists: "aligned (length xs) xs []" "aligned (length ys) [] ys"
proof -
  show "aligned (length xs) xs []" by (induction xs) (use aligned.delete in \<open>fastforce intro: aligned.intros\<close>)+
  show "aligned (length ys) [] ys" by (induction ys) (use aligned.insert in \<open>fastforce intro: aligned.intros\<close>)+
qed

lemma lev_aligned: "aligned (lev xs ys) xs ys"
proof (induction xs ys rule: lev.induct)
  case (3 x xs y ys)
  let ?c = "lev xs ys + (if x \<noteq> y then 1 else 0)"
  have "lev (x # xs) (y # ys) \<in> {lev xs (y # ys) + 1, lev (x # xs) ys + 1, ?c}" by (simp add: min_def)
  with aligned.delete [OF 3(1), of x] aligned.insert [OF 3(2), of y] aligned.match [OF 3(3), of x y] show ?case by (auto simp del: lev.simps)
next
  case (2 v va)
  show ?case using aligned_lists(1) [of "v # va"] by simp
qed (simp add: aligned_lists)

lemma lev_least: "aligned n xs ys \<Longrightarrow> lev xs ys \<le> n"
proof (induction rule: aligned.induct)
  case (delete n xs ys x)
  then show ?case by (cases ys) auto
next
  case (insert n xs ys y)
  then show ?case by (cases xs) auto
qed auto

lemma aligned_append: "aligned m us vs \<Longrightarrow> aligned n xs ys \<Longrightarrow> aligned (m + n) (us @ xs) (vs @ ys)"
proof (induction rule: aligned.induct)
  case (match k us vs x y)
  from aligned.match [OF match(2) [OF match(3)], of x y] show ?case by (simp add: algebra_simps)
qed (use aligned.delete aligned.insert in \<open>fastforce simp: algebra_simps\<close>)+

lemma aligned_single: "aligned 1 [x] []" "aligned 1 [] [y]" "aligned (if x \<noteq> y then 1 else 0) [x] [y]"
  using aligned.delete [OF aligned.empty] aligned.insert [OF aligned.empty] aligned.match [OF aligned.empty, of x y] by auto

lemma aligned_rev: "aligned n xs ys \<Longrightarrow> aligned n (rev xs) (rev ys)"
proof (induction rule: aligned.induct)
  case (delete n xs ys x)
  from aligned_append [OF delete(2) aligned_single(1)] show ?case by simp
next
  case (insert n xs ys y)
  from aligned_append [OF insert(2) aligned_single(2)] show ?case by simp
next
  case (match n xs ys x y)
  from aligned_append [OF match(2) aligned_single(3)] show ?case by simp
qed (simp add: aligned.empty)

lemma lev_rev: "lev (rev xs) (rev ys) = lev xs ys"
proof -
  have "lev (rev us) (rev vs) \<le> lev us vs" for us vs :: "'a list"
    using lev_least aligned_rev [OF lev_aligned] by blast
  from this [of xs ys] this [of "rev xs" "rev ys"] show ?thesis by simp
qed

lemma lev_snoc: "lev (xs @ [x]) (ys @ [y]) = min (min (lev xs (ys @ [y]) + 1) (lev (xs @ [x]) ys + 1)) (lev xs ys + (if x \<noteq> y then 1 else 0))"
  using lev_rev [of "xs @ [x]" "ys @ [y]"] lev_rev [of xs "ys @ [y]"] lev_rev [of "xs @ [x]" ys] lev_rev [of xs ys] by simp

section \<open>The table\<close>

text \<open>For ASCII strings the offsets are the positions.\<close>

definition ascii :: "string \<Rightarrow> bool" where
  "ascii s \<longleftrightarrow> list_all (\<lambda>c. of_char c < (128 :: nat)) s"

lemma runes_at_ascii: "ascii s \<Longrightarrow> runes_at n (str s) = enumerate n (map of_char s)"
proof (induction s arbitrary: n)
  case (Cons c s)
  then have "unat (of_nat (of_char c) :: byte) = of_char c" by (simp add: ascii_def unat_of_nat)
  with Cons show ?case by (simp add: ascii_def str_def runes_at.simps [of n] DecodeRune_def)
qed (simp add: str_def runes_at.simps)

text \<open>
  The rows: after \<open>i\<close> characters of \<open>a\<close> and, within a row, \<open>j\<close> characters of \<open>b\<close>.
\<close>

definition table_row :: "'a list \<Rightarrow> 'a list \<Rightarrow> nat list" where
  "table_row xs b = map (\<lambda>k. lev xs (take k b)) [0..<length b + 1]"

definition partial_row :: "'a list \<Rightarrow> 'a list \<Rightarrow> nat \<Rightarrow> nat list" where
  "partial_row xs b j = map (\<lambda>k. if k \<le> j then lev xs (take k b) else 0) [0..<length b + 1]"

lemma partial_row_all: "partial_row xs b (length b) = table_row xs b"
  by (simp add: partial_row_def table_row_def)

lemma distance_cell_step:
  assumes "j < length b"
  shows "distance_cell (table_row xs b) x (partial_row (xs @ [x]) b j) (j, b ! j) = partial_row (xs @ [x]) b (j + 1)"
proof (rule nth_equalityI)
  show "length (distance_cell (table_row xs b) x (partial_row (xs @ [x]) b j) (j, b ! j)) = length (partial_row (xs @ [x]) b (j + 1))"
    by (simp add: distance_cell_def partial_row_def)
next
  fix k assume "k < length (distance_cell (table_row xs b) x (partial_row (xs @ [x]) b j) (j, b ! j))"
  then have k: "k < length b + 1" by (simp add: distance_cell_def partial_row_def)
  have nth: "partial_row (xs @ [x]) b i ! m = (if m \<le> i then lev (xs @ [x]) (take m b) else 0)" "table_row xs b ! m = lev xs (take m b)"
    if "m < length b + 1" for m i
    using that unfolding partial_row_def table_row_def by (simp_all del: upt_Suc)
  have len: "j + 1 < length (partial_row (xs @ [x]) b j)" using assms by (simp add: partial_row_def)
  have "lev (xs @ [x]) (take (j + 1) b) = min (min (lev xs (take (j + 1) b) + 1) (lev (xs @ [x]) (take j b) + 1)) (lev xs (take j b) + (if x \<noteq> b ! j then 1 else 0))"
    using lev_snoc [of xs x "take j b" "b ! j"] assms by (simp add: take_Suc_conv_app_nth)
  with k assms len nth show "distance_cell (table_row xs b) x (partial_row (xs @ [x]) b j) (j, b ! j) ! k = partial_row (xs @ [x]) b (j + 1) ! k"
    by (cases "k = j + 1") (auto simp: distance_cell_def Let_def)
qed

lemma distance_cells:
  assumes "j \<le> length b"
  shows "foldl (distance_cell (table_row xs b) x) (partial_row (xs @ [x]) b 0) (enumerate 0 (take j b)) = partial_row (xs @ [x]) b j"
  using assms
proof (induction j)
  case (Suc j)
  then have "enumerate 0 (take (Suc j) b) = enumerate 0 (take j b) @ [(j, b ! j)]"
    by (simp add: take_Suc_conv_app_nth enumerate_append_eq)
  with Suc distance_cell_step [of j b xs x] show ?case by simp
qed simp

lemma distance_row_ascii:
  assumes "ascii b" "i = length xs"
  shows "distance_row b (table_row xs (map of_char b)) (i, x) = table_row (xs @ [x]) (map of_char b)"
proof -
  have "(replicate (length b + 1) 0)[0 := i + 1] = partial_row (xs @ [x]) (map of_char b) 0"
    by (rule nth_equalityI) (auto simp: partial_row_def assms(2) nth_Cons split: nat.splits simp del: upt_Suc)
  then show ?thesis using assms distance_cells [of "length b" "map of_char b" xs x]
    by (simp add: distance_row_def runes_at_ascii partial_row_all [symmetric])
qed

lemma distance_rows:
  assumes "ascii b"
  shows "foldl (distance_row b) (table_row xs (map of_char b)) (enumerate (length xs) ys) = table_row (xs @ ys) (map of_char b)"
proof (induction ys arbitrary: xs)
  case (Cons y ys)
  from Cons [of "xs @ [y]"] show ?case by (simp add: distance_row_ascii [OF assms refl])
qed simp

lemma lev_map: "inj f \<Longrightarrow> lev (map f xs) (map f ys) = lev xs ys"
  by (induction xs ys rule: lev.induct) (auto simp: inj_eq)

lemma editDistance_lev:
  assumes "ascii a" "ascii b"
  shows "editDistance a b = lev a b"
proof -
  have "[0..<length b + 1] = table_row [] (map of_char b :: nat list)"
    by (rule nth_equalityI) (auto simp: table_row_def simp del: upt_Suc)
  then have "editDistance a b = table_row (map of_char a :: nat list) (map of_char b) ! length b"
    using distance_rows [OF assms(2), of "[]" "map of_char a"] assms(1) by (simp add: editDistance_def runes_at_ascii)
  also have "\<dots> = lev (map of_char a :: nat list) (map of_char b)" by (simp add: table_row_def del: upt_Suc)
  finally show ?thesis by (simp add: lev_map inj_def)
qed

section \<open>The closest candidate\<close>

lemma suggestion_loop:
  fixes name defines "d \<equiv> \<lambda>s. editDistance name (trim_dashes s)"
  assumes "c \<noteq> ''''"
  shows "suggestion_loop name cs best dist = c \<longleftrightarrow>
    (\<exists>i<length cs. cs ! i = c \<and> d c < dist \<and> (\<forall>j<length cs. j \<noteq> i \<longrightarrow> d c < d (cs ! j))) \<or>
    best = c \<and> (\<forall>j<length cs. dist < d (cs ! j))"
proof (induction cs arbitrary: best dist)
  case (Cons x cs)
  define R where "R \<longleftrightarrow> (\<exists>i<length cs. cs ! i = c \<and> (\<forall>j<length cs. j \<noteq> i \<longrightarrow> d c < d (cs ! j)))"
  define far where "far = (\<lambda>b. \<forall>j<length cs. b < d (cs ! j))"
  have ih: "suggestion_loop name cs best dist = c \<longleftrightarrow> d c < dist \<and> R \<or> best = c \<and> far dist" for best dist
    unfolding Cons R_def far_def by blast
  have dx: "editDistance name (trim_dashes x) = d x" by (simp add: d_def)
  have all: "(\<forall>j<length (x # cs). P j) \<longleftrightarrow> P 0 \<and> (\<forall>j<length cs. P (Suc j))" for P
    by (auto simp: less_Suc_eq_0_disj)
  have ex: "(\<exists>i<length (x # cs). P i) \<longleftrightarrow> P 0 \<or> (\<exists>i<length cs. P (Suc i))" for P
    by (auto simp: less_Suc_eq_0_disj)
  have "(\<forall>j<length (x # cs). j \<noteq> 0 \<longrightarrow> d c < d ((x # cs) ! j)) \<longleftrightarrow> far (d c)"
    unfolding all far_def by simp
  moreover have "(\<exists>i<length cs. (x # cs) ! Suc i = c \<and> d c < dist \<and> (\<forall>j<length (x # cs). j \<noteq> Suc i \<longrightarrow> d c < d ((x # cs) ! j))) \<longleftrightarrow>
      d c < dist \<and> d c < d x \<and> R"
    unfolding all R_def by auto
  ultimately have "(\<exists>i<length (x # cs). (x # cs) ! i = c \<and> d c < dist \<and> (\<forall>j<length (x # cs). j \<noteq> i \<longrightarrow> d c < d ((x # cs) ! j))) \<longleftrightarrow>
      x = c \<and> d c < dist \<and> far (d c) \<or> d c < dist \<and> d c < d x \<and> R"
    unfolding ex by (simp only: nth_Cons_0)
  moreover have "(\<forall>j<length (x # cs). dist < d ((x # cs) ! j)) \<longleftrightarrow> dist < d x \<and> far dist"
    unfolding all far_def by simp
  moreover have "suggestion_loop name (x # cs) best dist = c \<longleftrightarrow>
      (if d x < dist then d c < d x \<and> R \<or> x = c \<and> far (d x) else if d x = dist then d c < dist \<and> R
       else d c < dist \<and> R \<or> best = c \<and> far dist)"
    using assms(2) by (simp add: Let_def dx ih)
  ultimately show ?case by auto
qed (use assms(2) in auto)

text \<open>
  C18: A mistyped command or flag gets exactly the suggestion it should. For ASCII names the suggestion is the candidate
  that is closer to the name than every other candidate, by the number of insertions, deletions and
  replacements, and at most two of them away; when two candidates are closest there is none.
\<close>

theorem suggestion_is_unique_closest:
  assumes "ascii name" and "list_all ascii candidates"
  shows "suggestion name candidates = Some c \<longleftrightarrow> c \<noteq> '''' \<and>
    (\<exists>i<length candidates. candidates ! i = c \<and> lev name (trim_dashes c) \<le> 2 \<and>
       (\<forall>j<length candidates. j \<noteq> i \<longrightarrow> lev name (trim_dashes c) < lev name (trim_dashes (candidates ! j))))"
proof -
  have trim: "ascii (trim_dashes s)" if "ascii s" for s
    using that set_dropWhileD by (fastforce simp: ascii_def trim_dashes_def list_all_iff)
  have d: "editDistance name (trim_dashes (candidates ! i)) = lev name (trim_dashes (candidates ! i))" if "i < length candidates" for i
    using that assms trim by (auto simp: list_all_length intro!: editDistance_lev)
  show ?thesis
  proof (cases "c = ''''")
    case True
    then show ?thesis by (auto simp: suggestion_def Let_def)
  next
    case False
    then have "suggestion name candidates = Some c \<longleftrightarrow> suggestion_loop name candidates '''' 3 = c"
      by (auto simp: suggestion_def Let_def)
    also have "\<dots> \<longleftrightarrow> (\<exists>i<length candidates. candidates ! i = c \<and> editDistance name (trim_dashes c) < 3 \<and>
        (\<forall>j<length candidates. j \<noteq> i \<longrightarrow> editDistance name (trim_dashes c) < editDistance name (trim_dashes (candidates ! j))))"
      using suggestion_loop [OF False, of name candidates "''''" 3] False by auto
    also have "\<dots> \<longleftrightarrow> (\<exists>i<length candidates. candidates ! i = c \<and> lev name (trim_dashes c) \<le> 2 \<and>
        (\<forall>j<length candidates. j \<noteq> i \<longrightarrow> lev name (trim_dashes c) < lev name (trim_dashes (candidates ! j))))"
      by (rule ex_cong1) (use d in auto)
    finally show ?thesis using False by simp
  qed
qed

theorem suggestion_is_unique_closest_witness:
  "suggestion ''deplyo'' [''delete'', ''deploy'', ''list''] = Some ''deploy''"
proof -
  have d: "lev ''deplyo'' ''deploy'' = 2" "lev ''deplyo'' ''delete'' = 4" "lev ''deplyo'' ''list'' = 6" by code_simp+
  have t: "trim_dashes s = s" if "s \<noteq> []" "hd s \<noteq> CHR ''-''" for s using that by (cases s) (auto simp: trim_dashes_def)
  have "\<exists>i<length [''delete'', ''deploy'', ''list'']. [''delete'', ''deploy'', ''list''] ! i = ''deploy'' \<and> lev ''deplyo'' (trim_dashes ''deploy'') \<le> 2 \<and>
      (\<forall>j<length [''delete'', ''deploy'', ''list'']. j \<noteq> i \<longrightarrow>
        lev ''deplyo'' (trim_dashes ''deploy'') < lev ''deplyo'' (trim_dashes ([''delete'', ''deploy'', ''list''] ! j)))"
    by (rule exI [of _ 1]) (auto simp: d t less_Suc_eq)
  with suggestion_is_unique_closest [of "''deplyo''" "[''delete'', ''deploy'', ''list'']" "''deploy''"]
  show ?thesis by (simp add: ascii_def)
qed

text \<open>
  Beyond ASCII the cells between the offsets keep the value 0, so that any single character has distance 0
  from a short flag of two bytes.
\<close>

lemma editDistance_not_ascii: "editDistance ''x'' [CHR 0xC3, CHR 0xA9] = 0"
  by code_simp

end
