(* ===== verification/Cli_Parse.thy ===== *)
theory Cli_Parse
  imports Cli_Suggest
begin

text \<open>
  The parser of \<^verbatim>\<open>sdk/cli/cli.go\<close>: flags, subcommands and positional arguments of one invocation, and the typed
  accessors of the handler's context.
\<close>

section \<open>Lookups and failures\<close>

definition findFlag :: "flag list \<Rightarrow> string \<Rightarrow> flag option" where
  "findFlag flags name = find (\<lambda>f. flName f = name) flags"

definition findShortFlag :: "flag list \<Rightarrow> int \<Rightarrow> flag option" where
  "findShortFlag flags short = find (\<lambda>f. flShort f = short) flags"

definition findCommand :: "'h command list \<Rightarrow> string \<Rightarrow> 'h command option" where
  "findCommand commands name = find (\<lambda>c. coName c = name) commands"

text \<open>
  The UTF-8 bytes of a character, as the conversion \<^verbatim>\<open>string(r)\<close> makes them; what is no character gives U+FFFD.
\<close>

definition rune_string :: "int \<Rightarrow> string" where
  "rune_string r =
    (let n = nat (if ValidRune r then r else 0xFFFD) in map char_of
     (if n < 0x80 then [n]
      else if n < 0x800 then [0xC0 + n div 64, 0x80 + n mod 64]
      else if n < 0x10000 then [0xE0 + n div 4096, 0x80 + n div 64 mod 64, 0x80 + n mod 64]
      else [0xF0 + n div 262144, 0x80 + n div 4096 mod 64, 0x80 + n div 64 mod 64, 0x80 + n mod 64]))"

definition flagNames :: "flag list \<Rightarrow> string list" where
  "flagNames flags = map (\<lambda>f. ''--'' @ flName f) flags"

definition shortNames :: "flag list \<Rightarrow> string list" where
  "shortNames flags = map (\<lambda>f. ''-'' @ rune_string (flShort f)) (filter (\<lambda>f. flShort f \<noteq> 0) flags)"

definition commandNames :: "'h command list \<Rightarrow> string list" where
  "commandNames commands = map coName commands"

definition ruleText :: "args_rule \<Rightarrow> string" where
  "ruleText rule =
    (if ruMin rule = ruMax rule then Itoa (ruMin rule)
     else if ruMax rule = int MaxArgs then ''at least '' @ Itoa (ruMin rule)
     else Itoa (ruMin rule) @ ''..'' @ Itoa (ruMax rule))"

definition usage_failure :: "string \<Rightarrow> string \<Rightarrow> failure" where
  "usage_failure code message = \<lparr>faCode = code, faMessage = message, faExit = 2, faUsage = True\<rparr>"

definition flagFailure :: "flag \<Rightarrow> go_error \<Rightarrow> failure" where
  "flagFailure flag err =
    usage_failure (if EMissing \<in> set (geIs err) then ''missing_value'' else ''invalid_value'') (''--'' @ flName flag @ '': '' @ geText err)"

definition validateArgs :: "'h command \<Rightarrow> string list \<Rightarrow> failure option" where
  "validateArgs command args =
    (let rule = coArgs command in
     if ruMax rule = 0 \<and> ruMin rule = 0 \<and> args = [] then None
     else if int (length args) < ruMin rule \<or> ruMax rule \<ge> 0 \<and> int (length args) > ruMax rule
     then Some (usage_failure ''invalid_arguments'' (''want '' @ ruleText rule @ '' arguments, got '' @ Itoa (int (length args))))
     else None)"

section \<open>Flags\<close>

type_synonym flag_values = "string \<rightharpoonup> cli_value"

definition splitLongFlag :: "string \<Rightarrow> string \<times> string \<times> bool" where
  "splitLongFlag raw =
    (if CHR ''='' \<in> set raw then (takeWhile (\<lambda>c. c \<noteq> CHR ''='') raw, tl (dropWhile (\<lambda>c. c \<noteq> CHR ''='') raw), True)
     else (raw, '''', False))"

definition consumeFlag :: "cli_env \<Rightarrow> flag \<Rightarrow> string \<Rightarrow> bool \<Rightarrow> string list \<Rightarrow> go_error + nat" where
  "consumeFlag env flag value hasValue rest =
    (if flKind flag = BoolValue then
       if hasValue then (case parseValue env (flKind flag) value False of Inl e \<Rightarrow> Inl e | Inr _ \<Rightarrow> Inr 0)
       else Inr 0
     else if \<not> hasValue then if length rest = 0 then Inl (sentinel_error EMissing) else Inr 1
     else Inr 0)"

definition setFlag :: "cli_env \<Rightarrow> flag_values \<Rightarrow> flag \<Rightarrow> string \<Rightarrow> bool \<Rightarrow> go_error + flag_values" where
  "setFlag env vals flag value hasValue =
    (if \<not> hasValue \<and> flKind flag \<noteq> BoolValue then Inl (sentinel_error EMissing)
     else
       let value = (if \<not> hasValue then ''true'' else value) in
       case (case flValidate flag of None \<Rightarrow> None | Some validator \<Rightarrow> validator value) of
         Some err \<Rightarrow> Inl err
       | None \<Rightarrow>
           if flRepeated flag then
             (case parseValue env StringValue value False of
                Inl err \<Rightarrow> Inl err
              | Inr parsed \<Rightarrow>
                  let current = (case vals (flName flag) of Some (VStrings l) \<Rightarrow> l | _ \<Rightarrow> []);
                      text = (case parsed of VString s \<Rightarrow> s | _ \<Rightarrow> [])
                  in Inr (vals(flName flag \<mapsto> VStrings (current @ [text]))))
           else
             (case parseValue env (flKind flag) value False of
                Inl err \<Rightarrow> Inl err
              | Inr parsed \<Rightarrow> Inr (vals(flName flag \<mapsto> parsed))))"

text \<open>
  The values, the number of further tokens used, and the failure. The loop goes over the bytes of the token.
\<close>

fun parseShortFlags :: "cli_env \<Rightarrow> flag list \<Rightarrow> string \<Rightarrow> string list \<Rightarrow> flag_values \<Rightarrow> flag_values \<times> nat \<times> failure option" where
  "parseShortFlags env flags [] rest vals = (vals, 0, None)"
| "parseShortFlags env flags (c # raw) rest vals =
    (case findShortFlag flags (of_char c) of
       None \<Rightarrow> (vals, 0, Some (unknownFailure ''flag'' (''-'' @ rune_string (of_char c)) (shortNames flags) True))
     | Some flag \<Rightarrow>
         if flKind flag = BoolValue then parseShortFlags env flags raw rest (vals(flName flag \<mapsto> VBool True))
         else if raw = [] \<and> length rest = 0 then
           (vals, 0, Some (usage_failure ''missing_value'' (''flag -'' @ rune_string (flShort flag) @ '' requires a value'')))
         else
           let (value, consumed) = (if raw = [] then (hd rest, 1) else (raw, 0)) in
           (case setFlag env vals flag value True of
              Inl err \<Rightarrow> (vals, consumed, Some (flagFailure flag err))
            | Inr vals' \<Rightarrow> (vals', consumed, None)))"

section \<open>Parsing\<close>

record 'h invocation =
  ivCommand :: "'h command"
  ivValues :: flag_values
  ivArgs :: flag_values
  ivPositionals :: "string list"
  ivPath :: string
  ivJson :: bool
  ivHelp :: bool

fun join :: "string \<Rightarrow> string list \<Rightarrow> string" where
  "join sep [] = ''''"
| "join sep [s] = s"
| "join sep (s # ss) = s @ sep @ join sep ss"

text \<open>
  What the loop keeps besides the result: the path, the positional arguments and whether flags are over. A
  token panics, fails, or continues the loop after some further tokens. The variable \<^verbatim>\<open>command\<close> of the loop is always
  the command of the result.
\<close>

record 'h parsing =
  paResult :: "'h invocation"
  paPath :: "string list"
  paPositionals :: "string list"
  paStop :: bool

datatype 'h token_result = TokenPanic | TokenFails failure | TokenRead nat "'h parsing"

definition parse_long :: "cli_env \<Rightarrow> string \<Rightarrow> string list \<Rightarrow> 'h parsing \<Rightarrow> 'h token_result" where
  "parse_long env token rest p =
    (let flags = coFlags (ivCommand (paResult p)); (name, value, hasValue) = splitLongFlag (drop 2 token) in
     case findFlag flags name of
       None \<Rightarrow> TokenFails (unknownFailure ''flag'' name (flagNames flags) True)
     | Some flag \<Rightarrow>
       (case consumeFlag env flag value hasValue rest of
          Inl err \<Rightarrow> TokenFails (flagFailure flag err)
        | Inr consumed \<Rightarrow>
            let next_value = \<not> hasValue \<and> flKind flag \<noteq> BoolValue in
            if next_value \<and> rest = [] then TokenPanic
            else
              (case setFlag env (ivValues (paResult p)) flag (if next_value then hd rest else value) (hasValue \<or> next_value) of
                 Inl err \<Rightarrow> TokenFails (flagFailure flag err)
               | Inr vals \<Rightarrow> TokenRead consumed (p\<lparr>paResult := (paResult p)\<lparr>ivValues := vals\<rparr>\<rparr>))))"

definition parse_word :: "string \<Rightarrow> 'h parsing \<Rightarrow> 'h token_result" where
  "parse_word token p =
    (let command = ivCommand (paResult p) in
     case (if \<not> paStop p \<and> paPositionals p = [] then findCommand (coSubcommands command) token else None) of
       Some child \<Rightarrow>
         let path = paPath p @ [coName child] in
         TokenRead 0 (p\<lparr>paResult := (paResult p)\<lparr>ivCommand := child, ivPath := join '' '' path\<rparr>, paPath := path\<rparr>)
     | None \<Rightarrow>
         if \<not> paStop p \<and> coSubcommands command \<noteq> [] \<and> ruMax (coArgs command) = 0
         then TokenFails (unknownFailure ''command'' token (commandNames (coSubcommands command)) True)
         else if length (paPositionals p) + 1 > MaxArgs then TokenFails (usage_failure ''argument_limit'' ''too many arguments'')
         else TokenRead 0 (p\<lparr>paPositionals := paPositionals p @ [token]\<rparr>))"

definition parse_token :: "cli_env \<Rightarrow> nat \<Rightarrow> string \<Rightarrow> string list \<Rightarrow> 'h parsing \<Rightarrow> 'h token_result" where
  "parse_token env i token rest p =
    (let flags_on = \<not> paStop p in
     if ceCanceled env i then TokenFails \<lparr>faCode = ''canceled'', faMessage = sentinel_text ECanceled, faExit = 1, faUsage = False\<rparr>
     else if length token > MaxArgument then TokenFails (usage_failure ''argument_limit'' ''argument exceeds the maximum length'')
     else if flags_on \<and> token = ''--'' then TokenRead 0 (p\<lparr>paStop := True\<rparr>)
     else if flags_on \<and> token = ''--help'' then TokenRead 0 (p\<lparr>paResult := (paResult p)\<lparr>ivHelp := True\<rparr>\<rparr>)
     else if flags_on \<and> token = ''--json'' then TokenRead 0 (p\<lparr>paResult := (paResult p)\<lparr>ivJson := True\<rparr>\<rparr>)
     else if flags_on \<and> take 2 token = ''--'' then parse_long env token rest p
     else if flags_on \<and> take 1 token = ''-'' \<and> token \<noteq> ''-'' then
       (case parseShortFlags env (coFlags (ivCommand (paResult p))) (drop 1 token) rest (ivValues (paResult p)) of
          (vals, consumed, Some f) \<Rightarrow> TokenFails f
        | (vals, consumed, None) \<Rightarrow> TokenRead consumed (p\<lparr>paResult := (paResult p)\<lparr>ivValues := vals\<rparr>\<rparr>))
     else parse_word token p)"

function parse_loop :: "cli_env \<Rightarrow> nat \<Rightarrow> string list \<Rightarrow> 'h parsing \<Rightarrow> ('h parsing \<times> failure option) option" where
  "parse_loop env i [] p = Some (p, None)"
| "parse_loop env i (token # rest) p =
    (case parse_token env i token rest p of
       TokenPanic \<Rightarrow> None
     | TokenFails f \<Rightarrow> Some (p, Some f)
     | TokenRead consumed p' \<Rightarrow> parse_loop env (i + 1 + consumed) (drop consumed rest) p')"
  by pat_completeness auto
termination by (relation "measure (\<lambda>(env, i, raw, p). length raw)") auto

text \<open>
  The typed arguments: a \<^verbatim>\<open>StringsValue\<close> takes all that are left and ends the loop.
\<close>

fun bind_arguments :: "cli_env \<Rightarrow> argument list \<Rightarrow> string list \<Rightarrow> flag_values \<Rightarrow> flag_values \<times> failure option" where
  "bind_arguments env [] positionals args = (args, None)"
| "bind_arguments env (a # as) [] args = bind_arguments env as [] args"
| "bind_arguments env (a # as) (v # vs) args =
    (if agKind a = StringsValue then (args(agName a \<mapsto> VStrings (v # vs)), None)
     else case parseValue env (agKind a) v False of
       Inl err \<Rightarrow> (args, Some (usage_failure ''invalid_argument'' (agName a @ '': '' @ geText err)))
     | Inr parsed \<Rightarrow> bind_arguments env as vs (args(agName a \<mapsto> parsed)))"

text \<open>\<^verbatim>\<open>strings.Split(s, ",")\<close>\<close>

fun split_commas :: "string \<Rightarrow> string list" where
  "split_commas [] = [[]]"
| "split_commas (c # s) = (if c = CHR '','' then [] # split_commas s
     else case split_commas s of [] \<Rightarrow> [[c]] | w # ws \<Rightarrow> (c # w) # ws)"

fun fill_defaults :: "cli_env \<Rightarrow> flag list \<Rightarrow> flag_values \<Rightarrow> flag_values \<times> failure option" where
  "fill_defaults env [] vals = (vals, None)"
| "fill_defaults env (f # fs) vals =
    (if vals (flName f) \<noteq> None then fill_defaults env fs vals
     else if flRequired f \<and> flDefault f = '''' then (vals, Some (usage_failure ''missing_flag'' (''required flag --'' @ flName f @ '' is missing'')))
     else if flDefault f \<noteq> '''' \<or> flKind f = BoolValue then
       if flRepeated f then
         fill_defaults env fs (vals(flName f \<mapsto> VStrings (if flDefault f = '''' then [] else split_commas (flDefault f))))
       else (case parseValue env (flKind f) (flDefault f) (flKind f = BoolValue \<and> flDefault f = '''') of
           Inl err \<Rightarrow> (vals, Some (flagFailure f err))
         | Inr v \<Rightarrow> fill_defaults env fs (vals(flName f \<mapsto> v)))
     else fill_defaults env fs vals)"

definition start_parsing :: "'h command \<Rightarrow> 'h parsing" where
  "start_parsing root =
    \<lparr>paResult = \<lparr>ivCommand = root, ivValues = Map.empty, ivArgs = Map.empty, ivPositionals = [], ivPath = coName root, ivJson = False, ivHelp = False\<rparr>,
     paPath = (if coName root \<noteq> '''' then [coName root] else []), paPositionals = [], paStop = False\<rparr>"

definition parse :: "cli_env \<Rightarrow> 'h command \<Rightarrow> string list \<Rightarrow> ('h invocation \<times> failure option) option" where
  "parse env root raw =
    (case parse_loop env 0 raw (start_parsing root) of
       None \<Rightarrow> None
     | Some (p, Some f) \<Rightarrow> Some (paResult p, Some f)
     | Some (p, None) \<Rightarrow>
         let result = paResult p; command = ivCommand result; positionals = paPositionals p in
         (case validateArgs command positionals of
            Some f \<Rightarrow> Some (result, Some f)
          | None \<Rightarrow>
              (case bind_arguments env (coArguments command) positionals (ivArgs result) of
                 (args, Some f) \<Rightarrow> Some (result\<lparr>ivArgs := args\<rparr>, Some f)
               | (args, None) \<Rightarrow>
                   let result = result\<lparr>ivArgs := args, ivPositionals := positionals, ivPath := join '' '' (paPath p)\<rparr> in
                   (case fill_defaults env (coFlags command) (ivValues result) of
                      (vals, f) \<Rightarrow> Some (result\<lparr>ivValues := vals\<rparr>, f)))))"

section \<open>The context of a handler\<close>

record cli_context =
  cxValues :: flag_values
  cxArgs :: flag_values
  cxJson :: bool
  cxPath :: string

definition context_value :: "cli_context \<Rightarrow> string \<Rightarrow> go_error + cli_value" where
  "context_value c name = (case cxValues c name of None \<Rightarrow> Inl (wrapped_error EMissing (''flag '' @ name)) | Some v \<Rightarrow> Inr v)"

definition context_argument :: "cli_context \<Rightarrow> string \<Rightarrow> go_error + cli_value" where
  "context_argument c name = (case cxArgs c name of None \<Rightarrow> Inl (wrapped_error EMissing (''argument '' @ name)) | Some v \<Rightarrow> Inr v)"

definition ctxString :: "cli_context \<Rightarrow> string \<Rightarrow> go_error + string" where
  "ctxString c name = (case context_value c name of Inl e \<Rightarrow> Inl e | Inr (VString s) \<Rightarrow> Inr s
     | Inr _ \<Rightarrow> Inl (wrapped_error EInvalid (name @ '' is not a string'')))"

definition ctxBool :: "cli_context \<Rightarrow> string \<Rightarrow> go_error + bool" where
  "ctxBool c name = (case context_value c name of Inl e \<Rightarrow> Inl e | Inr (VBool b) \<Rightarrow> Inr b
     | Inr _ \<Rightarrow> Inl (wrapped_error EInvalid (name @ '' is not a bool'')))"

definition ctxInt :: "cli_context \<Rightarrow> string \<Rightarrow> go_error + int" where
  "ctxInt c name = (case context_value c name of Inl e \<Rightarrow> Inl e | Inr (VInt n) \<Rightarrow> Inr n
     | Inr _ \<Rightarrow> Inl (wrapped_error EInvalid (name @ '' is not an int'')))"

definition ctxDuration :: "cli_context \<Rightarrow> string \<Rightarrow> go_error + int" where
  "ctxDuration c name = (case context_value c name of Inl e \<Rightarrow> Inl e | Inr (VDuration d) \<Rightarrow> Inr d
     | Inr _ \<Rightarrow> Inl (wrapped_error EInvalid (name @ '' is not a duration'')))"

definition ctxStrings :: "cli_context \<Rightarrow> string \<Rightarrow> go_error + string list" where
  "ctxStrings c name = (case context_value c name of Inl e \<Rightarrow> Inl e | Inr (VStrings l) \<Rightarrow> Inr l
     | Inr _ \<Rightarrow> Inl (wrapped_error EInvalid (name @ '' is not repeated strings'')))"

definition argument_error :: "string \<Rightarrow> go_error" where
  "argument_error name = wrapped_error EInvalid (''argument '' @ name)"

definition ArgString :: "cli_context \<Rightarrow> string \<Rightarrow> go_error + string" where
  "ArgString c name = (case context_argument c name of Inl e \<Rightarrow> Inl e | Inr (VString s) \<Rightarrow> Inr s | Inr _ \<Rightarrow> Inl (argument_error name))"

definition ArgBool :: "cli_context \<Rightarrow> string \<Rightarrow> go_error + bool" where
  "ArgBool c name = (case context_argument c name of Inl e \<Rightarrow> Inl e | Inr (VBool b) \<Rightarrow> Inr b | Inr _ \<Rightarrow> Inl (argument_error name))"

definition ArgInt :: "cli_context \<Rightarrow> string \<Rightarrow> go_error + int" where
  "ArgInt c name = (case context_argument c name of Inl e \<Rightarrow> Inl e | Inr (VInt n) \<Rightarrow> Inr n | Inr _ \<Rightarrow> Inl (argument_error name))"

definition ArgDuration :: "cli_context \<Rightarrow> string \<Rightarrow> go_error + int" where
  "ArgDuration c name = (case context_argument c name of Inl e \<Rightarrow> Inl e | Inr (VDuration d) \<Rightarrow> Inr d | Inr _ \<Rightarrow> Inl (argument_error name))"

definition ArgStrings :: "cli_context \<Rightarrow> string \<Rightarrow> go_error + string list" where
  "ArgStrings c name = (case context_argument c name of Inl e \<Rightarrow> Inl e | Inr (VStrings l) \<Rightarrow> Inr l | Inr _ \<Rightarrow> Inl (argument_error name))"

end
