(* ===== verification/Cli_Types.thy ===== *)
theory Cli_Types
  imports Cli_Parse
begin

text \<open>
  The values of a parsed invocation have the types their flags and arguments declare.
\<close>

section \<open>Declared types\<close>

fun value_kind_of :: "cli_value \<Rightarrow> value_kind" where
  "value_kind_of (VString _) = StringValue"
| "value_kind_of (VBool _) = BoolValue"
| "value_kind_of (VInt _) = IntValue"
| "value_kind_of (VDuration _) = DurationValue"
| "value_kind_of (VStrings _) = StringsValue"

definition flag_kind :: "flag \<Rightarrow> value_kind" where
  "flag_kind f = (if flRepeated f then StringsValue else flKind f)"

fun all_flags :: "'h command \<Rightarrow> flag list" where
  "all_flags (Command name summary rule arguments flags subs handle) = flags @ concat (map all_flags subs)"

text \<open>
  What the parser relies on but \<^verbatim>\<open>Validate\<close> does not check: no boolean flag is repeated, and flags of one name have
  one type in the whole tree, since the values of a parent command stay visible in its subcommands.
\<close>

definition consistent_flags :: "'h command \<Rightarrow> bool" where
  "consistent_flags root \<longleftrightarrow> list_all (\<lambda>f. (flKind f = BoolValue \<longrightarrow> \<not> flRepeated f) \<and>
     list_all (\<lambda>g. flName g = flName f \<longrightarrow> flag_kind g = flag_kind f) (all_flags root)) (all_flags root)"

text \<open>
  The context of the handler, and whether the accessor for the declared type succeeds.
\<close>

definition context_of :: "'h invocation \<Rightarrow> cli_context" where
  "context_of call = \<lparr>cxValues = ivValues call, cxArgs = ivArgs call, cxJson = ivJson call, cxPath = ivPath call\<rparr>"

definition flag_reads :: "cli_context \<Rightarrow> flag \<Rightarrow> bool" where
  "flag_reads c f = (case flag_kind f of
     StringValue \<Rightarrow> \<not> isl (ctxString c (flName f))
   | BoolValue \<Rightarrow> \<not> isl (ctxBool c (flName f))
   | IntValue \<Rightarrow> \<not> isl (ctxInt c (flName f))
   | DurationValue \<Rightarrow> \<not> isl (ctxDuration c (flName f))
   | StringsValue \<Rightarrow> \<not> isl (ctxStrings c (flName f))
   | OtherKind \<Rightarrow> False)"

definition argument_reads :: "cli_context \<Rightarrow> argument \<Rightarrow> bool" where
  "argument_reads c a = (case agKind a of
     StringValue \<Rightarrow> \<not> isl (ArgString c (agName a))
   | BoolValue \<Rightarrow> \<not> isl (ArgBool c (agName a))
   | IntValue \<Rightarrow> \<not> isl (ArgInt c (agName a))
   | DurationValue \<Rightarrow> \<not> isl (ArgDuration c (agName a))
   | StringsValue \<Rightarrow> \<not> isl (ArgStrings c (agName a))
   | OtherKind \<Rightarrow> False)"

lemma flag_readsI: "cxValues c (flName f) = Some v \<Longrightarrow> value_kind_of v = flag_kind f \<Longrightarrow> flag_reads c f"
  by (cases v) (auto simp: flag_reads_def ctxString_def ctxBool_def ctxInt_def ctxDuration_def ctxStrings_def context_value_def
      split: value_kind.splits)

lemma argument_readsI: "cxArgs c (agName a) = Some v \<Longrightarrow> value_kind_of v = agKind a \<Longrightarrow> argument_reads c a"
  by (cases v) (auto simp: argument_reads_def ArgString_def ArgBool_def ArgInt_def ArgDuration_def ArgStrings_def context_argument_def
      split: value_kind.splits)

section \<open>Setting flags\<close>

definition typed_values :: "flag list \<Rightarrow> flag_values \<Rightarrow> bool" where
  "typed_values fs vals \<longleftrightarrow> (\<forall>k v. vals k = Some v \<longrightarrow> (\<exists>f\<in>set fs. flName f = k \<and> value_kind_of v = flag_kind f))"

lemma parseValue_kind: "parseValue env kind raw e = Inr v \<Longrightarrow> value_kind_of v = kind"
  by (auto simp: parseValue_def split: value_kind.splits if_splits option.splits sum.splits)

lemma typed_values_update:
  "typed_values fs vals \<Longrightarrow> f \<in> set fs \<Longrightarrow> value_kind_of v = flag_kind f \<Longrightarrow> typed_values fs (vals(flName f \<mapsto> v))"
  by (auto simp: typed_values_def)

lemma setFlag_typed:
  assumes "setFlag env vals f value hasValue = Inr vals'" "typed_values fs vals" "f \<in> set fs"
  shows "typed_values fs vals'"
proof -
  have "\<exists>v. vals' = vals(flName f \<mapsto> v) \<and> value_kind_of v = flag_kind f"
    using assms(1) by (auto simp: setFlag_def Let_def flag_kind_def dest: parseValue_kind split: if_splits option.splits sum.splits)
  with typed_values_update [OF assms(2,3)] show ?thesis by auto
qed

lemma parseShortFlags_typed:
  "parseShortFlags env flags raw rest vals = (vals', n, None) \<Longrightarrow> typed_values fs vals \<Longrightarrow> set flags \<subseteq> set fs \<Longrightarrow>
    \<forall>f\<in>set flags. flKind f = BoolValue \<longrightarrow> \<not> flRepeated f \<Longrightarrow> typed_values fs vals' \<and> n \<le> 1"
proof (induction env flags raw rest vals rule: parseShortFlags.induct)
  case (2 env flags c raw rest vals)
  note prems = 2(2-)
  from prems(1) obtain f where f: "findShortFlag flags (of_char c) = Some f" by (auto split: option.splits)
  then have mem: "f \<in> set flags" "f \<in> set fs" using prems(3) by (auto simp: findShortFlag_def find_Some_iff)
  show ?case
  proof (cases "flKind f = BoolValue")
    case True
    with mem prems have "typed_values fs (vals(flName f \<mapsto> VBool True))" by (intro typed_values_update) (auto simp: flag_kind_def)
    with 2(1) [OF f True] prems f True show ?thesis by (simp add: fun_upd_def)
  next
    case False
    let ?v = "if raw = [] then hd rest else raw"
    from prems(1) f False have "setFlag env vals f ?v True = Inr vals'" "n \<le> 1"
      by (auto split: if_splits sum.splits prod.splits)
    with setFlag_typed [OF _ prems(2) mem(2)] show ?thesis by blast
  qed
qed simp

section \<open>The loop\<close>

inductive reaches :: "'h command \<Rightarrow> 'h command \<Rightarrow> bool" where
  here: "reaches c c"
| child: "reaches c d \<Longrightarrow> e \<in> set (coSubcommands d) \<Longrightarrow> reaches c e"

lemma reaches_flags: "reaches c d \<Longrightarrow> set (all_flags d) \<subseteq> set (all_flags c)"
proof (induction rule: reaches.induct)
  case (child c d e)
  then show ?case by (cases d) auto
qed simp

lemma own_flags: "set (coFlags c) \<subseteq> set (all_flags c)"
  by (cases c) auto

definition parsing_ok :: "'h command \<Rightarrow> 'h parsing \<Rightarrow> bool" where
  "parsing_ok root p \<longleftrightarrow> reaches root (ivCommand (paResult p)) \<and> typed_values (all_flags root) (ivValues (paResult p)) \<and>
     ivArgs (paResult p) = Map.empty \<and> length (paPositionals p) \<le> MaxArgs"

lemma parsing_flags: "parsing_ok root p \<Longrightarrow> set (coFlags (ivCommand (paResult p))) \<subseteq> set (all_flags root)"
  using reaches_flags own_flags by (fastforce simp: parsing_ok_def)

lemma parse_long_ok:
  assumes "parsing_ok root p" "parse_long env token rest p = TokenRead n p'"
  shows "parsing_ok root p'"
proof -
  obtain name val has where sp: "splitLongFlag (drop 2 token) = (name, val, has)" by (metis prod_cases3)
  from assms(2) sp obtain f x has' vals where f: "findFlag (coFlags (ivCommand (paResult p))) name = Some f"
      and set: "setFlag env (ivValues (paResult p)) f x has' = Inr vals" and p': "p' = p\<lparr>paResult := (paResult p)\<lparr>ivValues := vals\<rparr>\<rparr>"
    by (auto simp: parse_long_def Let_def split: option.splits sum.splits if_splits)
  have "f \<in> set (all_flags root)" using f parsing_flags [OF assms(1)] by (auto simp: findFlag_def find_Some_iff)
  with setFlag_typed [OF set] assms(1) show ?thesis by (auto simp: parsing_ok_def p')
qed

lemma parse_word_ok:
  assumes "parsing_ok root p" "parse_word token p = TokenRead n p'"
  shows "parsing_ok root p'"
proof (cases "if \<not> paStop p \<and> paPositionals p = [] then findCommand (coSubcommands (ivCommand (paResult p))) token else None")
  case None
  with assms show ?thesis by (auto simp: parse_word_def Let_def parsing_ok_def split: if_splits)
next
  case (Some child)
  then have "child \<in> set (coSubcommands (ivCommand (paResult p)))" by (auto simp: findCommand_def find_Some_iff split: if_splits)
  with Some assms show ?thesis by (auto simp: parse_word_def Let_def parsing_ok_def intro: reaches.child)
qed

lemma parse_token_ok:
  assumes "consistent_flags root" "parsing_ok root p" "parse_token env i token rest p = TokenRead n p'"
  shows "parsing_ok root p'"
proof -
  let ?flags = "coFlags (ivCommand (paResult p))"
  have rep: "\<forall>f\<in>set ?flags. flKind f = BoolValue \<longrightarrow> \<not> flRepeated f"
    using assms(1) parsing_flags [OF assms(2)] by (auto simp: consistent_flags_def list_all_iff)
  obtain vals k fo where sh: "parseShortFlags env ?flags (drop 1 token) rest (ivValues (paResult p)) = (vals, k, fo)" by (metis prod_cases3)
  have "typed_values (all_flags root) vals" if "fo = None"
    using parseShortFlags_typed [OF sh [unfolded that] _ parsing_flags [OF assms(2)] rep] assms(2) by (simp add: parsing_ok_def)
  with assms(2,3) sh parse_long_ok [OF assms(2)] parse_word_ok [OF assms(2)] show ?thesis
    by (auto simp: parse_token_def Let_def parsing_ok_def split: if_splits option.splits)
qed

lemma parse_loop_ok:
  "parse_loop env i raw p = Some (p', f) \<Longrightarrow> consistent_flags root \<Longrightarrow> parsing_ok root p \<Longrightarrow> parsing_ok root p'"
proof (induction env i raw p rule: parse_loop.induct)
  case (2 env i token rest p)
  then show ?case using parse_token_ok [OF 2(3,4), of env i token rest] by (auto split: token_result.splits)
qed simp

section \<open>Arguments and defaults\<close>

lemma bind_arguments_typed:
  "bind_arguments env as vs args = (args', None) \<Longrightarrow> distinct (map agName as) \<Longrightarrow> \<forall>a\<in>set as. args (agName a) = None \<Longrightarrow>
    (\<forall>k. k \<notin> agName ` set as \<longrightarrow> args' k = args k) \<and>
    (\<forall>i<length as. case args' (agName (as ! i)) of
        None \<Rightarrow> length vs \<le> i \<or> StringsValue \<in> agKind ` set (take i as)
      | Some v \<Rightarrow> i < length vs \<and> value_kind_of v = agKind (as ! i))"
proof (induction env as vs args rule: bind_arguments.induct)
  case (2 env a as args)
  have run: "bind_arguments env as [] args = (args', None)" and names: "distinct (map agName as)" "\<forall>b\<in>set as. args (agName b) = None"
    using 2(2-4) by simp_all
  note ih = 2(1) [OF run names]
  have "args' (agName a) = None" using ih 2(3,4) by auto
  moreover have "args' (agName (as ! i)) = None" if "i < length as" for i
    using conjunct2 [OF ih] that by (cases "args' (agName (as ! i))") fastforce+
  ultimately have "args' (agName ((a # as) ! i)) = None" if "i < length (a # as)" for i
    using that by (cases i) simp_all
  with ih show ?case by simp
next
  case (3 env a as v vs args)
  show ?case
  proof (cases "agKind a = StringsValue")
    case True
    with 3(2) have a': "args' = args(agName a \<mapsto> VStrings (v # vs))" by simp
    have "args' (agName (as ! i)) = None" if "i < length as" for i using that 3(3,4) a' by (simp add: image_iff) (metis nth_mem)
    then have "case args' (agName ((a # as) ! i)) of None \<Rightarrow> length (v # vs) \<le> i \<or> StringsValue \<in> agKind ` set (take i (a # as))
        | Some w \<Rightarrow> i < length (v # vs) \<and> value_kind_of w = agKind ((a # as) ! i)" if "i < length (a # as)" for i
      using that True a' by (cases i) simp_all
    with a' show ?thesis by auto
  next
    case False
    with 3(2) obtain w where w: "parseValue env (agKind a) v False = Inr w"
      and rest: "bind_arguments env as vs (args(agName a \<mapsto> w)) = (args', None)" by (auto split: sum.splits)
    have "\<forall>b\<in>set as. (args(agName a \<mapsto> w)) (agName b) = None" using 3(3,4) by (auto simp: image_iff)
    with 3(1) [OF False w rest] 3(3)
    have ih: "(\<forall>k. k \<notin> agName ` set as \<longrightarrow> args' k = (args(agName a \<mapsto> w)) k)"
        "\<forall>i<length as. case args' (agName (as ! i)) of None \<Rightarrow> length vs \<le> i \<or> StringsValue \<in> agKind ` set (take i as)
          | Some v \<Rightarrow> i < length vs \<and> value_kind_of v = agKind (as ! i)" by auto
    moreover have "agName a \<notin> agName ` set as" using 3(3) by simp
    moreover have "value_kind_of w = agKind a" by (rule parseValue_kind [OF w])
    ultimately show ?thesis by (auto simp: less_Suc_eq_0_disj split: option.splits)
  qed
qed simp

lemma fill_defaults_typed:
  "fill_defaults env flags vals = (vals', None) \<Longrightarrow> typed_values fs vals \<Longrightarrow> set flags \<subseteq> set fs \<Longrightarrow>
    typed_values fs vals' \<and> vals \<subseteq>\<^sub>m vals' \<and>
    (\<forall>f\<in>set flags. vals' (flName f) = None \<longrightarrow> \<not> flRequired f \<and> flDefault f = '''' \<and> flKind f \<noteq> BoolValue)"
proof (induction flags arbitrary: vals)
  case (Cons f flags)
  note prems = Cons.prems
  have f: "f \<in> set fs" "set flags \<subseteq> set fs" using prems(3) by auto
  have upd: "vals \<subseteq>\<^sub>m vals' \<and> vals' (flName f) \<noteq> None" if "vals(flName f \<mapsto> w) \<subseteq>\<^sub>m vals'" "vals (flName f) = None" for w
    using that by (auto simp: map_le_def dom_def fun_upd_def split: if_splits)
  show ?case
  proof (cases "vals (flName f) = None \<and> (flDefault f \<noteq> '''' \<or> flKind f = BoolValue)")
    case False
    with prems(1) have run: "fill_defaults env flags vals = (vals', None)" "vals (flName f) = None \<Longrightarrow> \<not> flRequired f"
      by (auto split: if_splits)
    have ih: "typed_values fs vals' \<and> vals \<subseteq>\<^sub>m vals' \<and>
        (\<forall>f\<in>set flags. vals' (flName f) = None \<longrightarrow> \<not> flRequired f \<and> flDefault f = '''' \<and> flKind f \<noteq> BoolValue)"
      by (rule Cons.IH [OF run(1) prems(2) f(2)])
    moreover have "vals (flName f) \<noteq> None \<Longrightarrow> vals' (flName f) \<noteq> None" using ih by (auto simp: map_le_def dom_def)
    ultimately show ?thesis using False run(2) by (cases "vals (flName f)") auto
  next
    case True
    then have none: "\<not> vals (flName f) \<noteq> None" "\<not> (flRequired f \<and> flDefault f = '''')" using prems(1) by (auto split: if_splits)
    have "\<exists>w. value_kind_of w = flag_kind f \<and> fill_defaults env flags (vals(flName f \<mapsto> w)) = (vals', None)"
    proof (cases "flRepeated f")
      case rep: True
      show ?thesis
        by (rule exI [of _ "VStrings (if flDefault f = '''' then [] else split_commas (flDefault f))"])
          (use prems(1) True none rep in \<open>simp add: flag_kind_def split: if_splits\<close>)
    next
      case False
      with prems(1) True none show ?thesis by (auto simp: flag_kind_def dest: parseValue_kind split: if_splits sum.splits)
    qed
    then obtain w where w: "value_kind_of w = flag_kind f" "fill_defaults env flags (vals(flName f \<mapsto> w)) = (vals', None)" by blast
    have "typed_values fs (vals(flName f \<mapsto> w))" by (rule typed_values_update [OF prems(2) f(1) w(1)])
    then have "typed_values fs vals' \<and> (vals(flName f \<mapsto> w)) \<subseteq>\<^sub>m vals' \<and>
        (\<forall>f\<in>set flags. vals' (flName f) = None \<longrightarrow> \<not> flRequired f \<and> flDefault f = '''' \<and> flKind f \<noteq> BoolValue)"
      by (rule Cons.IH [OF w(2) _ f(2)])
    with upd [of w] True show ?thesis by auto
  qed
qed simp

section \<open>Checked trees\<close>

lemma validate_arguments_distinct: "validate_arguments env as seen = None \<Longrightarrow> distinct (map agName as) \<and> agName ` set as \<inter> set seen = {}"
proof (induction as arbitrary: seen)
  case (Cons a as)
  from Cons.prems have "validate_arguments env as (agName a # seen) = None" "agName a \<notin> set seen" by (auto split: if_splits)
  with Cons.IH [of "agName a # seen"] show ?case by auto
qed simp

lemma validate_children_each:
  "validate_children env cs seen depth n = Inr m \<Longrightarrow> c \<in> set cs \<Longrightarrow> \<exists>k k'. validateCommand env c (Suc depth) k = Inr k'"
proof (induction cs arbitrary: seen n)
  case (Cons d cs)
  then show ?case by (auto split: if_splits sum.splits)
qed simp

lemma validateCommand_parts:
  assumes "validateCommand env c depth n = Inr m"
  shows "validate_self env c = None" "e \<in> set (coSubcommands c) \<Longrightarrow> \<exists>k k'. validateCommand env e (Suc depth) k = Inr k'"
  using assms validate_children_each [of env "coSubcommands c" "[]" depth "Suc n" _ e]
  by (cases c; auto split: if_splits option.splits sum.splits)+

lemma reaches_valid:
  assumes "reaches root c" "Validate env root = None"
  shows "validate_self env c = None"
proof -
  from assms have "\<exists>depth n m. validateCommand env c depth n = Inr m"
  proof (induction rule: reaches.induct)
    case (here c)
    then show ?case by (auto simp: Validate_def split: sum.splits)
  next
    case (child c d e)
    then show ?case using validateCommand_parts(2) by blast
  qed
  then show ?thesis using validateCommand_parts(1) by blast
qed

lemma validate_self_parts:
  assumes "validate_self env c = None"
  shows "distinct (map agName (coArguments c))" "0 \<le> ruMin (coArgs c)" "ruMin (coArgs c) \<le> ruMax (coArgs c)" "ruMax (coArgs c) \<le> int MaxArgs"
  using assms validate_arguments_distinct [of env "coArguments c" "[]"] by (auto simp: validate_self_def split: if_splits option.splits)

section \<open>Parsed values\<close>

lemma parse_parts:
  assumes "parse env root raw = Some (call, None)"
  obtains p args vals where "parse_loop env 0 raw (start_parsing root) = Some (p, None)" "validateArgs (ivCommand (paResult p)) (paPositionals p) = None"
    "bind_arguments env (coArguments (ivCommand (paResult p))) (paPositionals p) (ivArgs (paResult p)) = (args, None)"
    "fill_defaults env (coFlags (ivCommand (paResult p))) (ivValues (paResult p)) = (vals, None)"
    "call = (paResult p)\<lparr>ivArgs := args, ivPositionals := paPositionals p, ivPath := join '' '' (paPath p), ivValues := vals\<rparr>"
  using assms by (auto simp: parse_def Let_def split: option.splits prod.splits)


definition demo_env :: cli_env where
  "demo_env = \<lparr>ceCanceled = (\<lambda>_. False), ceDuration = (\<lambda>_. Inr 1000000000), ceQuote = (\<lambda>s. [quote2] @ s @ [quote2])\<rparr>"

definition demo_count :: flag where
  "demo_count = WithShort (IntFlag ''count'' ''how many'') 99"

definition demo_root :: "unit command" where
  "demo_root = Root ''demo'' [WithHandler (WithFlag (WithArgument (WithArgs (New ''deploy'' ''deploys'') (ExactArgs 1)) (DurationArg ''wait'' ''pause'')) demo_count) ()]"

definition demo_call :: "unit invocation" where
  "demo_call = \<lparr>ivCommand = hd (coSubcommands demo_root), ivValues = [''count'' \<mapsto> VInt 3], ivArgs = [''wait'' \<mapsto> VDuration 1000000000],
     ivPositionals = [''1s''], ivPath = ''deploy'', ivJson = False, ivHelp = False\<rparr>"

lemmas parse_defs = parse_def parse_token_def parse_word_def parse_long_def start_parsing_def findCommand_def findFlag_def splitLongFlag_def consumeFlag_def
  findShortFlag_def setFlag_def parseValue_def Atoi_def char_in_def validateArgs_def NoArgs_def ExactArgs_def MaxArgs_def MaxArgument_def of_char_def

lemma demo_parse: "parse demo_env demo_root [''deploy'', ''-c3'', ''1s''] = Some (demo_call, None)"
  by (simp add: parse_defs builder_defs demo_root_def demo_count_def demo_env_def demo_call_def)


text \<open>
  Without consistent names a subcommand can find a value of the wrong type: the value that its parent parsed for
  a flag of the same name.
\<close>

definition clash_root :: "unit command" where
  "clash_root = WithCommand (WithFlag (Root ''demo'' []) demo_count) (WithHandler (WithFlag (New ''deploy'' ''deploys'') (BoolFlag ''count'' ''whether'')) ())"

lemma parent_value_has_wrong_type:
  "Validate demo_env clash_root = None \<and>
   (\<exists>call. parse demo_env clash_root [''-c3'', ''deploy''] = Some (call, None) \<and> ctxBool (context_of call) ''count'' = Inl (wrapped_error EInvalid ''count is not a bool''))"
proof
  show "Validate demo_env clash_root = None" by code_simp
  show "\<exists>call. parse demo_env clash_root [''-c3'', ''deploy''] = Some (call, None) \<and> ctxBool (context_of call) ''count'' = Inl (wrapped_error EInvalid ''count is not a bool'')"
    by (simp add: parse_defs builder_defs clash_root_def demo_count_def demo_env_def ctxBool_def context_value_def context_of_def)
qed

text \<open>
  The number of words is checked before a request for help is answered, so that \<^verbatim>\<open>--help\<close> alone is a usage error
  for a command that needs an argument.
\<close>

lemma help_needs_arguments:
  "\<exists>call f. parse demo_env demo_root [''deploy'', ''--help''] = Some (call, Some f) \<and> ivHelp call \<and> faCode f = ''invalid_arguments'' \<and> faExit f = 2"
  by (simp add: parse_defs builder_defs demo_root_def demo_count_def demo_env_def usage_failure_def)

text \<open>
  Short flags are compared byte by byte, so that one beyond Latin-1 can be declared but never given.
\<close>

lemma short_flag_beyond_latin1:
  assumes "list_all (\<lambda>f. flShort f > 255) flags"
  shows "findShortFlag flags (of_char c) = None"
proof -
  have "of_char c < (256 :: int)" using nat_of_char_less_256 [of c] of_nat_of_char [of c, where 'a = int] by linarith
  with assms show ?thesis by (fastforce simp: findShortFlag_def find_None_iff list_all_iff)
qed

end
