(* ===== verification/Cli_Execute.thy ===== *)
theory Cli_Execute
  imports Cli_Types
begin

text \<open>
  One invocation of a command (\<^verbatim>\<open>Execute\<close> of \<^verbatim>\<open>sdk/cli/cli.go\<close>): validation, parsing, the call of the handler,
  and what is written to standard output and standard error.
\<close>

section \<open>Bounded streams\<close>

text \<open>
  \<^verbatim>\<open>safeText\<close>: a run of bytes that are no UTF-8 becomes one U+FFFD, and control characters but line breaks and
  tabs are dropped.
\<close>

definition keep_rune :: "nat \<Rightarrow> bool" where
  "keep_rune r \<longleftrightarrow> r = 10 \<or> r = 13 \<or> r = 9 \<or> r \<ge> 0x20 \<and> r \<noteq> 0x7f"

lemma DecodeRune_progress: "s \<noteq> [] \<Longrightarrow> (r, sz) = DecodeRune (str s) \<Longrightarrow> length s - sz < length s"
  using DecodeRune_size [of "str s" r sz] by (simp add: str_def)

function safe_loop :: "bool \<Rightarrow> string \<Rightarrow> string" where
  "safe_loop invalid s =
    (if s = [] then []
     else case DecodeRune (str s) of (r, sz) \<Rightarrow>
       if r = RuneError \<and> sz = 1 then (if invalid then [] else rune_string 0xFFFD) @ safe_loop True (drop 1 s)
       else (if keep_rune r then take sz s else []) @ safe_loop False (drop sz s))"
  by pat_completeness auto
termination
  by (relation "measure (\<lambda>(invalid, s). length s)") (auto intro: DecodeRune_progress)

declare safe_loop.simps [simp del]

definition safeText :: "string \<Rightarrow> string" where
  "safeText s = safe_loop False s"

record bounded_writer =
  bwData :: string
  bwLimit :: nat
  bwErr :: "go_error option"

definition new_writer :: bounded_writer where
  "new_writer = \<lparr>bwData = [], bwLimit = MaxOutput, bwErr = None\<rparr>"

definition bwWrite :: "bounded_writer \<Rightarrow> string \<Rightarrow> bounded_writer" where
  "bwWrite w s =
    (if bwErr w \<noteq> None then w
     else let text = safeText s in
       if length (bwData w) + length text > bwLimit w then w\<lparr>bwErr := Some (sentinel_error ELimit)\<rparr>
       else w\<lparr>bwData := bwData w @ text\<rparr>)"

text \<open>
  \<^verbatim>\<open>boundedReader.Read\<close>: the underlying reader is asked for at most one byte more than the limit leaves; it gives
  some bytes and maybe an error.
\<close>

record bounded_reader =
  brLimit :: nat
  brRead :: nat

definition brAsk :: "bounded_reader \<Rightarrow> nat \<Rightarrow> nat" where
  "brAsk r n = min n (brLimit r - brRead r + 1)"

definition br_Read :: "bounded_reader \<Rightarrow> string \<times> go_error option \<Rightarrow> (string \<times> go_error option) \<times> bounded_reader" where
  "br_Read r given =
    (if brRead r > brLimit r then (([], Some (sentinel_error ELimit)), r)
     else let r' = r\<lparr>brRead := brRead r + length (fst given)\<rparr> in
       if brRead r' > brLimit r' then (([], Some (sentinel_error ELimit)), r') else (given, r'))"

section \<open>Failures\<close>

definition sanitizeFailure :: "failure \<Rightarrow> failure" where
  "sanitizeFailure f =
    (let f = (if \<not> in_pattern (faCode f) then f\<lparr>faCode := ''internal'', faMessage := ''internal error'', faExit := 1\<rparr> else f) in
     f\<lparr>faMessage := take MaxDescription (safeText (faMessage f))\<rparr>)"

definition normalizeFailure :: "go_error \<Rightarrow> bool \<Rightarrow> failure" where
  "normalizeFailure err usage =
    (case geFailure err of
       Some f \<Rightarrow>
         sanitizeFailure (f\<lparr>faCode := (if faCode f = '''' then ''internal'' else faCode f),
           faMessage := (if faMessage f = '''' then ''command failed'' else faMessage f), faExit := (if faExit f = 0 then 1 else faExit f)\<rparr>)
     | None \<Rightarrow> (case gePointer err of
         Some (Some f) \<Rightarrow> sanitizeFailure f
       | _ \<Rightarrow>
           let is = (\<lambda>es. list_ex (\<lambda>e. e \<in> set (geIs err)) es);
               (code, message, exit_code) = (''internal'', ''internal error'', 1);
               (code, message, exit_code) = (if is [EUsage, EUnknown, EMissing, EInvalid, ELexer] then (''usage'', geText err, 2) else (code, message, exit_code));
               (code, message, exit_code) = (if is [CtxCanceled, CtxDeadline, ECanceled] then (''canceled'', ''invocation canceled'', 1) else (code, message, exit_code));
               (code, message, exit_code) = (if is [ELimit] then (''limit'', ''invocation limit exceeded'', 1) else (code, message, exit_code));
               (code, message, exit_code) = (if usage then (''invalid_definition'', geText err, 2) else (code, message, exit_code))
           in sanitizeFailure \<lparr>faCode = code, faMessage = message, faExit = exit_code, faUsage = usage\<rparr>))"

section \<open>Help\<close>

record flag_schema =
  fsName :: string
  fsShort :: string
  fsHelp :: string
  fsKind :: value_kind
  fsDefault :: string
  fsRequired :: bool
  fsRepeated :: bool

datatype schema = Schema
  (scName: string) (scSummary: string) (scArgs: args_rule) (scArguments: "argument list") (scFlags: "flag_schema list") (scSubcommands: "schema list")

definition flagSchema :: "flag \<Rightarrow> flag_schema" where
  "flagSchema f = \<lparr>fsName = flName f, fsShort = (if flShort f \<noteq> 0 then rune_string (flShort f) else ''''), fsHelp = flHelp f, fsKind = flKind f,
     fsDefault = flDefault f, fsRequired = flRequired f, fsRepeated = flRepeated f\<rparr>"

fun schemaValue :: "'h command \<Rightarrow> schema" where
  "schemaValue (Command name summary rule arguments flags subs handle) =
    Schema name summary rule arguments (map flagSchema flags) (map schemaValue subs)"

definition newline :: string where "newline = [CHR 0x0A]"
definition tab :: string where "tab = [CHR 0x09]"

definition helpText :: "'h command \<Rightarrow> string \<Rightarrow> string" where
  "helpText c path =
    (let usage = TrimSpace path in
     ''Usage: '' @ (if usage = '''' then ''<command>'' else usage) @
     (if coSubcommands c \<noteq> [] then '' <command>'' else '''') @
     (if coFlags c \<noteq> [] then '' [flags]'' else '''') @
     (if ruMax (coArgs c) > 0 then '' [args]'' else '''') @ newline @
     (if coSummary c \<noteq> '''' then newline @ coSummary c @ newline else '''') @
     (if coSubcommands c \<noteq> [] then
        newline @ ''Commands:'' @ newline @ concat (map (\<lambda>d. ''  '' @ coName d @ tab @ coSummary d @ newline) (coSubcommands c))
      else '''') @
     (if coFlags c \<noteq> [] then
        newline @ ''Flags:'' @ newline @ ''  --help'' @ tab @ ''show help'' @ newline @ ''  --json'' @ tab @ ''write one JSON result'' @ newline @
        concat (map (\<lambda>f. ''  --'' @ flName f @ (if flShort f \<noteq> 0 then '', -'' @ rune_string (flShort f) else '''') @ tab @ flHelp f @ newline) (coFlags c))
      else ''''))"

definition Help :: "cli_env \<Rightarrow> 'h command \<Rightarrow> go_error + string" where
  "Help env c = (case Validate env c of Some e \<Rightarrow> Inl e | None \<Rightarrow> Inr (helpText c (coName c)))"

definition Schema_of :: "cli_env \<Rightarrow> 'h command \<Rightarrow> go_error + schema" where
  "Schema_of env c = (case Validate env c of Some e \<Rightarrow> Inl e | None \<Rightarrow> Inr (schemaValue c))"

section \<open>One invocation\<close>

text \<open>
  A handler writes to its standard error and then panics or returns an output and maybe an error. An output has a value
  (\<^const>\<open>None\<close> is nil) and maybe a renderer, which writes or panics.
\<close>

record 'v cli_output =
  ouValue :: "'v option"
  ouRender :: "('v option \<Rightarrow> string list option) option"
  ouEmpty :: bool

definition Present :: "'v \<Rightarrow> ('v \<Rightarrow> string list option) option \<Rightarrow> 'v cli_output" where
  "Present v render = \<lparr>ouValue = Some v, ouRender = map_option (\<lambda>r raw. case raw of None \<Rightarrow> None | Some x \<Rightarrow> r x) render, ouEmpty = False\<rparr>"

definition Value :: "'v option \<Rightarrow> 'v cli_output" where
  "Value v = \<lparr>ouValue = v, ouRender = None, ouEmpty = False\<rparr>"

definition Empty :: "'v cli_output" where
  "Empty = \<lparr>ouValue = None, ouRender = None, ouEmpty = True\<rparr>"

datatype 'v handled = HandlerPanics | HandlerReturns "'v cli_output" "go_error option"

type_synonym 'v handler = "cli_context \<Rightarrow> string list \<Rightarrow> string list \<times> 'v handled"

text \<open>
  Also from outside: the error of the context before the handler is called, and the JSON forms of a schema, of an error
  body and of a result body, and how \<^verbatim>\<open>fmt\<close> prints a value.
\<close>

record 'v exec_env = cli_env +
  exDone :: "go_error option"
  exSchema :: "schema \<Rightarrow> string option"
  exError :: "failure \<Rightarrow> string option"
  exResult :: "'v option \<Rightarrow> go_error + string"
  exPrint :: "'v \<Rightarrow> string"

record out_streams =
  osStdout :: string
  osStderr :: string

record execution =
  exExit :: int
  exErr :: "go_error option"
  exPath :: string

definition json_line :: "string option \<Rightarrow> string" where
  "json_line encoded = (case encoded of None \<Rightarrow> '''' | Some s \<Rightarrow> if length s + 1 \<le> MaxOutput then s @ newline else '''')"

definition writeFailure :: "'v exec_env \<Rightarrow> 'h command \<Rightarrow> failure \<Rightarrow> bool \<Rightarrow> string \<Rightarrow> out_streams \<Rightarrow> out_streams" where
  "writeFailure env c f jsonMode path out =
    (if jsonMode then out\<lparr>osStdout := osStdout out @ json_line (exError env f)\<rparr>
     else
       let message = faMessage f;
           message = (if path \<noteq> '''' then path @ '': '' @ message else message);
           message = (if faUsage f then message @ newline @ helpText c path else message)
       in out\<lparr>osStderr := osStderr out @ message @ newline\<rparr>)"

definition failure_error :: "failure \<Rightarrow> go_error" where
  "failure_error f = \<lparr>geText = faMessage f, geIs = [], geFailure = None, gePointer = Some (Some f)\<rparr>"

text \<open>
  The handler's result in human form: the text for standard output, or the error of the renderer or of the writer.
\<close>

definition render_output :: "'v exec_env \<Rightarrow> 'v cli_output \<Rightarrow> go_error + string" where
  "render_output env ou =
    (case ouRender ou of
       Some render \<Rightarrow> (case render (ouValue ou) of
           None \<Rightarrow> Inl (sentinel_error EInternal)
         | Some ws \<Rightarrow> let w = foldl bwWrite new_writer ws in (case bwErr w of Some e \<Rightarrow> Inl e | None \<Rightarrow> Inr (bwData w)))
     | None \<Rightarrow> (case ouValue ou of
           None \<Rightarrow> Inr ''''
         | Some v \<Rightarrow> let w = bwWrite new_writer (exPrint env v @ newline) in (case bwErr w of Some e \<Rightarrow> Inl e | None \<Rightarrow> Inr (bwData w))))"

definition run_handler :: "'v exec_env \<Rightarrow> 'v handler \<Rightarrow> 'v handler invocation \<Rightarrow> execution \<times> out_streams" where
  "run_handler env handle call =
    (let c = ivCommand call; path = ivPath call;
         (ws, result) = handle (context_of call) (ivPositionals call);
         stderr = foldl bwWrite new_writer ws;
         shown = \<lparr>osStdout = '''', osStderr = bwData stderr\<rparr>;
         fail = (\<lambda>err report jsonMode. let f = normalizeFailure err False in
           (\<lparr>exExit = faExit f, exErr = report, exPath = path\<rparr>, writeFailure env c f jsonMode path shown));
         handlerErr = (case result of HandlerPanics \<Rightarrow> Some (sentinel_error EInternal) | HandlerReturns _ e \<Rightarrow> e);
         handlerErr = (if bwErr stderr \<noteq> None then bwErr stderr else handlerErr)
     in case handlerErr of
       Some e \<Rightarrow> fail e (Some e) (ivJson call)
     | None \<Rightarrow>
         let ou = (case result of HandlerReturns ou _ \<Rightarrow> ou | HandlerPanics \<Rightarrow> Value None);
             done = \<lparr>exExit = 0, exErr = None, exPath = path\<rparr> in
         if ivJson call then
           (case exResult env (if ouEmpty ou then None else ouValue ou) of
              Inr s \<Rightarrow> if length s + 1 > MaxOutput then fail (sentinel_error EInternal) None True
                else (done, shown\<lparr>osStdout := s @ newline\<rparr>)
            | Inl e \<Rightarrow> fail (sentinel_error EInternal) (Some e) True)
         else if ouEmpty ou then (done, shown)
         else (case render_output env ou of
             Inl e \<Rightarrow> fail e (Some e) False
           | Inr text \<Rightarrow> (done, shown\<lparr>osStdout := text\<rparr>)))"

definition Execute :: "'v exec_env \<Rightarrow> 'v handler command \<Rightarrow> string list \<Rightarrow> (execution \<times> out_streams) option" where
  "Execute env root args =
    (let quiet = \<lparr>osStdout = '''', osStderr = ''''\<rparr> in
     case Validate (cli_env.truncate env) root of
       Some e \<Rightarrow>
         let f = normalizeFailure e True in Some (\<lparr>exExit = faExit f, exErr = Some e, exPath = ''''\<rparr>, writeFailure env root f False '''' quiet)
     | None \<Rightarrow>
       (case parse (cli_env.truncate env) root args of
          None \<Rightarrow> None
        | Some (call, Some f) \<Rightarrow>
            Some (\<lparr>exExit = faExit f, exErr = Some (failure_error f), exPath = ivPath call\<rparr>, writeFailure env (ivCommand call) f (ivJson call) (ivPath call) quiet)
        | Some (call, None) \<Rightarrow>
            let c = ivCommand call; shown = \<lparr>exExit = 0, exErr = None, exPath = ivPath call\<rparr> in
            (case (if ivHelp call then None else coHandle c) of
               None \<Rightarrow> Some (shown, quiet\<lparr>osStdout := (if ivJson call then json_line (exSchema env (schemaValue c)) else helpText c (ivPath call))\<rparr>)
             | Some handle \<Rightarrow>
                 (case exDone env of
                    Some e \<Rightarrow> let f = normalizeFailure e False in
                      Some (\<lparr>exExit = faExit f, exErr = Some e, exPath = ivPath call\<rparr>, writeFailure env c f (ivJson call) (ivPath call) quiet)
                  | None \<Rightarrow> Some (run_handler env handle call)))))"

section \<open>The parser always answers\<close>

lemma parse_long_no_panic: "parse_long env token rest p \<noteq> TokenPanic"
  by (auto simp: parse_long_def consumeFlag_def Let_def split: prod.splits option.splits sum.splits if_splits)

lemma parse_token_no_panic: "parse_token env i token rest p \<noteq> TokenPanic"
  using parse_long_no_panic [of env token rest p]
  by (auto simp: parse_token_def parse_word_def Let_def split: prod.splits option.splits if_splits)

lemma parse_loop_total: "\<exists>r. parse_loop env i raw p = Some r"
proof (induction env i raw p rule: parse_loop.induct)
  case (2 env i token rest p)
  then show ?case using parse_token_no_panic [of env i token rest p] by (auto split: token_result.splits)
qed simp

lemma parse_total: "\<exists>call f. parse env root raw = Some (call, f)"
proof -
  obtain p f where l: "parse_loop env 0 raw (start_parsing root) = Some (p, f)" using parse_loop_total [of env 0 raw "start_parsing root"] by auto
  show ?thesis
  proof (cases f)
    case None
    obtain args fa where b: "bind_arguments env (coArguments (ivCommand (paResult p))) (paPositionals p) (ivArgs (paResult p)) = (args, fa)" by fastforce
    obtain vals fv where d: "fill_defaults env (coFlags (ivCommand (paResult p))) (ivValues (paResult p)) = (vals, fv)" by fastforce
    from l None b d show ?thesis
      by (cases "validateArgs (ivCommand (paResult p)) (paPositionals p)"; cases fa) (auto simp: parse_def Let_def)
  qed (use l in \<open>simp add: parse_def\<close>)
qed

text \<open>Every failure of the parser has exit code 1 or 2.\<close>

definition exits :: "failure \<Rightarrow> bool" where
  "exits f \<longleftrightarrow> faExit f = 1 \<or> faExit f = 2"

lemma exits_made [simp]: "exits (usage_failure c m)" "exits (flagFailure flag e)" "exits (unknownFailure k n cs u)"
  by (simp_all add: exits_def usage_failure_def flagFailure_def unknownFailure_def Let_def)

lemma short_exits: "parseShortFlags env flags raw rest vals = (vals', n, Some f) \<Longrightarrow> exits f"
  by (induction env flags raw rest vals rule: parseShortFlags.induct) (auto split: option.splits if_splits sum.splits)

lemma parse_long_exits: "parse_long env token rest p = TokenFails f \<Longrightarrow> exits f"
  by (auto simp: parse_long_def Let_def split: prod.splits option.splits sum.splits if_splits)

lemma parse_word_exits: "parse_word token p = TokenFails f \<Longrightarrow> exits f"
  by (auto simp: parse_word_def Let_def split: option.splits if_splits)

lemma parse_token_exits: "parse_token env i token rest p = TokenFails f \<Longrightarrow> exits f"
proof -
  assume run: "parse_token env i token rest p = TokenFails f"
  obtain vals k fo where sh: "parseShortFlags env (coFlags (ivCommand (paResult p))) (drop 1 token) rest (ivValues (paResult p)) = (vals, k, fo)"
    by (metis prod_cases3)
  have "exits \<lparr>faCode = ''canceled'', faMessage = sentinel_text ECanceled, faExit = 1, faUsage = False\<rparr>" by (simp add: exits_def)
  with run sh short_exits parse_long_exits parse_word_exits show "exits f"
    by (cases fo) (fastforce simp: parse_token_def Let_def simp del: sentinel_text.simps split: if_splits)+
qed

lemma parse_loop_exits: "parse_loop env i raw p = Some (p', Some f) \<Longrightarrow> exits f"
  by (induction env i raw p rule: parse_loop.induct) (auto split: token_result.splits dest: parse_token_exits)

lemma bind_exits: "bind_arguments env as vs args = (args', Some f) \<Longrightarrow> exits f"
  by (induction env as vs args rule: bind_arguments.induct) (auto split: if_splits sum.splits)

lemma fill_exits: "fill_defaults env fs vals = (vals', Some f) \<Longrightarrow> exits f"
  by (induction fs arbitrary: vals) (auto split: if_splits sum.splits)

lemma validateArgs_exits: "validateArgs c args = Some f \<Longrightarrow> exits f"
  by (auto simp: validateArgs_def Let_def split: if_splits)

lemma parse_exits: "parse env root raw = Some (call, Some f) \<Longrightarrow> exits f"
  by (auto simp: parse_def Let_def split: option.splits prod.splits dest: parse_loop_exits bind_exits fill_exits validateArgs_exits)

section \<open>Exit codes and streams\<close>

lemma length_json_line: "length (json_line s) \<le> MaxOutput"
  by (auto simp: json_line_def newline_def split: option.splits)

lemma bwWrite_bound: "length (bwData w) \<le> bwLimit w \<Longrightarrow> length (bwData (bwWrite w s)) \<le> bwLimit (bwWrite w s) \<and> bwLimit (bwWrite w s) = bwLimit w"
  by (auto simp: bwWrite_def Let_def)

lemma bwWrites_bound: "length (bwData w) \<le> bwLimit w \<Longrightarrow> length (bwData (foldl bwWrite w ws)) \<le> bwLimit w"
proof (induction ws arbitrary: w)
  case (Cons s ws)
  from Cons.IH [of "bwWrite w s"] bwWrite_bound [OF Cons.prems, of s] show ?case by simp
qed simp

lemma render_output_bound: "render_output env ou = Inr text \<Longrightarrow> length text \<le> MaxOutput"
  using bwWrites_bound [of new_writer] bwWrites_bound [of new_writer "[exPrint env (the (ouValue ou)) @ newline]"]
  by (auto simp: render_output_def new_writer_def Let_def split: option.splits)

text \<open>
  The exit code of a reported error: 0 only for a pointer to a failure without an exit code.
\<close>

definition has_exit :: "go_error \<Rightarrow> bool" where
  "has_exit e \<longleftrightarrow> (case (geFailure e, gePointer e) of (None, Some (Some f)) \<Rightarrow> faExit f \<noteq> 0 | _ \<Rightarrow> True)"

lemma sanitizeFailure_exit: "faExit (sanitizeFailure f) = 0 \<longleftrightarrow> in_pattern (faCode f) \<and> faExit f = 0"
  by (auto simp: sanitizeFailure_def Let_def)

lemma normalizeFailure_exit: "has_exit e \<Longrightarrow> faExit (normalizeFailure e usage) \<noteq> 0"
  by (auto simp: normalizeFailure_def has_exit_def sanitizeFailure_exit Let_def split: option.splits)

lemma sentinel_has_exit [simp]: "has_exit (sentinel_error e)" "has_exit (wrapped_error e s)"
  by (simp_all add: has_exit_def sentinel_error_def wrapped_error_def)

definition outcome_ok :: "'v exec_env \<Rightarrow> execution \<times> out_streams \<Rightarrow> bool" where
  "outcome_ok env r = (case r of (ex, out) \<Rightarrow>
     (exErr ex \<noteq> None \<or> exExit ex \<noteq> 0 \<longrightarrow> osStdout out = '''' \<or> (\<exists>f. osStdout out = json_line (exError env f))) \<and>
     (\<forall>e. exErr ex = Some e \<and> has_exit e \<longrightarrow> exExit ex \<noteq> 0) \<and>
     (length (osStdout out) \<le> MaxOutput \<or> (\<exists>c path. osStdout out = helpText (c :: 'v handler command) path)))"

lemma outcome_failed:
  assumes "\<And>e. report = Some e \<Longrightarrow> has_exit e \<Longrightarrow> faExit f \<noteq> 0" "osStdout out = ''''"
  shows "outcome_ok env (\<lparr>exExit = faExit f, exErr = report, exPath = path\<rparr>, writeFailure env c f jsonMode path' out)"
  using assms length_json_line [of "exError env f"] by (auto simp: outcome_ok_def writeFailure_def Let_def)

lemma run_handler_ok: "outcome_ok env (run_handler env handle call)"
proof -
  obtain ws result where h: "handle (context_of call) (ivPositionals call) = (ws, result)" by fastforce
  let ?w = "foldl bwWrite new_writer ws" and ?p = "ivPath call"
  let ?err = "if bwErr ?w \<noteq> None then bwErr ?w else (case result of HandlerPanics \<Rightarrow> Some (sentinel_error EInternal) | HandlerReturns _ e \<Rightarrow> e)"
  let ?fail = "\<lambda>err report jsonMode. (\<lparr>exExit = faExit (normalizeFailure err False), exErr = report, exPath = ?p\<rparr>,
    writeFailure env (ivCommand call) (normalizeFailure err False) jsonMode ?p \<lparr>osStdout = '''', osStderr = bwData ?w\<rparr>)"
  have fail: "outcome_ok env (?fail err (Some err) jm)" "outcome_ok env (?fail (sentinel_error EInternal) report jm)" for err report jm
    by (rule outcome_failed; use normalizeFailure_exit in simp)+
  have fine: "outcome_ok env (\<lparr>exExit = 0, exErr = None, exPath = ?p\<rparr>, \<lparr>osStdout = t, osStderr = s\<rparr>)" if "length t \<le> MaxOutput" for t s
    using that by (simp add: outcome_ok_def)
  show ?thesis
  proof (cases ?err)
    case (Some e)
    then have "run_handler env handle call = ?fail e (Some e) (ivJson call)"
      by (simp add: run_handler_def h Let_def split: if_splits)
    with fail(1) show ?thesis by simp
  next
    case None
    then obtain ou where r: "result = HandlerReturns ou None" and w: "bwErr ?w = None" by (cases result) (auto split: if_splits)
    show ?thesis
    proof (cases "ivJson call")
      case True
      have "length (s @ newline) \<le> MaxOutput" if "\<not> MaxOutput \<le> length s" for s using that by (simp add: newline_def)
      with True w fail(2) fine show ?thesis
        by (cases "exResult env (if ouEmpty ou then None else ouValue ou)") (auto simp: run_handler_def h r Let_def)
    next
      case False
      with w fail(1) fine render_output_bound [of env ou] show ?thesis
        by (cases "render_output env ou"; cases "ouEmpty ou") (auto simp: run_handler_def h r Let_def)
    qed
  qed
qed


text \<open>
  A handler that returns a pointer to a failure and leaves its exit code at 0 makes the invocation fail with exit code 0;
  and a JSON result over the limit fails without an error value.
\<close>

lemma pointer_failure_exits_zero:
  "in_pattern code \<Longrightarrow> faExit (normalizeFailure (failure_error \<lparr>faCode = code, faMessage = message, faExit = 0, faUsage = usage\<rparr>) False) = 0"
  by (simp add: normalizeFailure_def failure_error_def sanitizeFailure_exit)

end
