(* ===== verification/Spec2Isabelle.thy ===== *)
theory Spec2Isabelle
  imports Output_Filter Proc_Session Host_Timers Host_Egress Host_Bus Term_Screen Repo_Props Pair_Exchange State_Props Cli_Execute
begin

text \<open>
  A verification development for Plumtree, a server that runs terminal apps: authors deploy apps compiled to WebAssembly,
  viewers connect with SSH, and the app runs in a sandbox that reaches the outside only through host functions.

  \<^bold>\<open>Parts of the program and theories.\<close>

  \<^item> \<^emph>\<open>The guest wire format\<close> (\<^verbatim>\<open>sdk/abi\<close>) in \<open>Abi_Codec\<close>: events, frames, identities, key lists, exec and fetch messages, one
    definition per encoder and decoder. A decoder gives \<^const>\<open>None\<close> where the Go code would panic, so that freedom from
    panics is a theorem (C2, C4) beside the round trips (C1, C3) and the exact set of accepted key lists (C6). Encoders
    take the buffer they reuse, with its stale contents.

  \<^item> \<^emph>\<open>The key/value capability\<close> (\<^verbatim>\<open>internal/runner/kv.go\<close>) in \<open>Kv_Store\<close>: the memory store with its quotas, the file store
    that persists by rename, and the host functions over guest memory. Locales state what a store promises; both stores and
    the tables of the repository interpret them. Shown are exact accounting (C7), durability under failed writes (C8), roll-back
    (C9), exclusive compare-and-swap (C10) and that a guest reads its writes (C11).

  \<^item> \<^emph>\<open>The worker process\<close>. \<open>Proc_Proto\<close> has the framing (\<^verbatim>\<open>internal/protocol/protocol.go\<close>), the start message and the broker
    token (\<^verbatim>\<open>internal/runner/procproto.go\<close>, \<^verbatim>\<open>broker.go\<close>): C12 and C13. \<open>Host_Calls\<close> has the host functions with their codes.
    \<open>Proc_Session\<close> composes them: the parent's handler (\<^verbatim>\<open>procrunner.go\<close>) and the worker's proxies (\<^verbatim>\<open>procworker.go\<close>), so that an
    isolated store is shown to be indistinguishable from an in-process one (C16), no worker message makes the parent panic
    (C17), and the status codes agree except where stated (C19, C20).

  \<^item> \<^emph>\<open>Guest output\<close> in \<open>Output_Filter\<close>: the filter of terminal controls (\<^verbatim>\<open>internal/runner/cli.go\<close>) and the bounded logs
    (C23, C24), over the UTF-8 decoder of \<open>Go_Utf8\<close>.

  \<^item> \<^emph>\<open>The capabilities behind the host functions\<close>. \<open>Host_Egress\<close> has the fetcher with its allowlist (\<^verbatim>\<open>internal/runner/fetch.go\<close>): the
    URL and every redirect are checked, and every address before it is dialled, so that an app reaches only listed public hosts (C5).
    \<open>Host_Timers\<close> has the timers of a session (\<^verbatim>\<open>timer.go\<close>) as a step relation, with the search for an identifier that always ends (C15).
    \<open>Host_Bus\<close> has the bus of an app (\<^verbatim>\<open>bus.go\<close>), whose methods are split at their locks and interleaved, with bounds and isolation
    of the sessions (C14).

  \<^item> \<^emph>\<open>The painter\<close> in \<open>Term_Screen\<close>: the screen that writes only what changed (\<^verbatim>\<open>internal/terminal/screen.go\<close>) and the sink that checks,
    sanitizes and throttles the frames of a guest (\<^verbatim>\<open>internal/runner/render.go\<close>), against a terminal that interprets the bytes: it shows the last
    presented frame (C22).

  \<^item> \<^emph>\<open>The repository\<close> (\<^verbatim>\<open>internal/sqlite\<close>). \<open>Repo_Model\<close> has the tables as lists of rows in one record, the environment
    (clock, injected faults, listeners) and the transaction \<^verbatim>\<open>mutate\<close>; \<open>Repo_Schema\<close> the inserts with the constraints of the
    schema; \<open>Repo_Authors\<close>, \<open>Repo_Apps\<close>, \<open>Repo_Deploy\<close> and \<open>Repo_Kv\<close> the operations, each with its guards, queries and audit row. \<open>Repo_Inv\<close>
    makes one step relation of them with reachable databases; \<open>Repo_Safety\<close> and \<open>Repo_Bytes\<close> prove the invariants by cases over the
    steps; \<open>Repo_Props\<close> has the properties: unique handles (C27), an active device for every author (C28), deployed bytes that
    resolve (C29), exact usage (C30), no effect of failed operations (C31), the budget of token guesses (C32), access to restricted
    apps (C33) and secrets (C35), beside the finality of a session's end. \<open>Repo_Kv\<close> shows that the key/value tables refine the memory store (C26).

  \<^item> \<^emph>\<open>Pairing\<close>. \<open>Pair_Proto\<close> has the messages, the framing and the proofs (\<^verbatim>\<open>internal/protocol/pairing/pairing.go\<close>), \<open>Identity_Service\<close> the
    service that gates the repository operations (\<^verbatim>\<open>internal/server/identity/service.go\<close>), and \<open>Pair_Exchange\<close> the two ends of an
    exchange (\<^verbatim>\<open>internal/server/pairing/handler.go\<close>, \<^verbatim>\<open>internal/cli/paired/pairing.go\<close>), in which other sessions change the database between any two
    operations of the handler: no client without the phrase changes the database (C34), and an honest client is paired (C25).

  \<^item> \<^emph>\<open>Offline state\<close> (\<^verbatim>\<open>internal/state/state.go\<close>). \<open>State_Model\<close> has a file system of paths and nodes, in which every system call may
    fail or be the point where the machine stops (a write then leaves a prefix), and on it the checks of a bundle, its staging,
    the journal, \<^verbatim>\<open>Restore\<close> and \<^verbatim>\<open>Recover\<close>. \<open>State_Journal\<close> has a small logic: one triple for all runs, with a second
    postcondition for the interrupted ones, and one for runs without faults. \<open>State_Props\<close> shows that a restore is all or nothing (C36),
    that a readable journal is always completed (C37), and where a restore over the backup of an earlier one is stuck (C38).

  \<^item> \<^emph>\<open>Commands\<close> (\<^verbatim>\<open>sdk/cli/cli.go\<close>). \<open>Cli_Lex\<close> splits an SSH exec command (C40), \<open>Cli_Model\<close> has command trees and their validation,
    \<open>Cli_Suggest\<close> the suggestion for a mistyped name against the edit distance by recursion (C18), \<open>Cli_Parse\<close> the parser and the typed
    accessors, \<open>Cli_Types\<close> that values have their declared types (C39), and \<open>Cli_Execute\<close> an invocation with its streams and exit
    code (C21).

  \<open>Plum_Prelude\<close> has Go's integers, slices and little-endian codecs with their lemmas, \<open>Go_Text\<close> trimming, decimal and hexadecimal.

  \<^bold>\<open>Conventions.\<close> Byte strings are lists of 8-bit words where bits matter and \<^typ>\<open>string\<close> otherwise. Integers that are narrowed or
  may wrap are words or have the reduction written out; sizes that cannot overflow are \<^typ>\<open>nat\<close>. Errors are values of sum types, a run-time
  panic is \<^const>\<open>None\<close>. Loops are recursive functions with a termination proof; no definition has fuel. State that several calls
  share is passed explicitly. JSON, SHA-256, the SSH key parser, the database engine's integrity check, clocks, random names and
  the outcome of each I/O operation are parameters; what a theorem needs of them is a named assumption (for example that the
  journal's JSON form reads back as written), and its witness instantiates them.

  \<^bold>\<open>Not modelled.\<close> The scheduling of goroutines (what they share is modelled by atomic steps in any order, as the locks of the code make
  them); SSH, HTTP servers and process control, which are libraries and system calls; the WebAssembly engine; the layout of the user interface in
  \<^verbatim>\<open>sdk/ui\<close>; the developer tool, builds and updates, which run other programs and move files; the start-up and configuration of the server roles;
  \<^verbatim>\<open>Backup\<close> of the state, which reads the database through the engine; \<^verbatim>\<open>time.ParseDuration\<close>, whose fractions go through floating point.
\<close>

end
